(* ===== verification/Prelude.thy ===== *)
theory Prelude
  imports Main "HOL-Library.Word"
begin

text \<open>
  The vocabulary the component theories share: the fixed-width integer types of
  \<^verbatim>\<open>include/types.hpp\<close>, the result type of a call that may fault, the result type of a call
  that may block on a condition variable, the \<^verbatim>\<open>int\<close> conversions the code writes as
  \<^verbatim>\<open>static_cast\<close>, the linear searches the code writes as counting loops, and the generic
  lemmas about them that the component proofs use.

  Two collections of simplification rules are kept: \<open>search_simps\<close> for the searches and
  \<open>width_simps\<close> for the conversions between widths.
\<close>

named_theorems search_simps \<open>facts about the counting-loop searches\<close>
named_theorems width_simps \<open>facts about the conversions to fixed-width integers\<close>

section \<open>Fixed-width integers\<close>

type_synonym u8 = "8 word"
type_synonym u16 = "16 word"
type_synonym u32 = "32 word"
type_synonym u64 = "64 word"
type_synonym bytes = "u8 list"

text \<open>
  A C++ \<^verbatim>\<open>int\<close> (\<^verbatim>\<open>int32_t\<close>) is an \<open>int\<close> together with the range test below. \<open>to_int32\<close> is
  the conversion \<^verbatim>\<open>static_cast<int>(n)\<close>, which C++20 defines as reduction modulo \<open>2 ^ 32\<close>;
  \<open>add_int32\<close> is \<^verbatim>\<open>int\<close> addition, whose overflow is undefined behaviour, so it is partial.
\<close>

definition in_int32 :: "int \<Rightarrow> bool" where
  "in_int32 n \<longleftrightarrow> - (2 ^ 31) \<le> n \<and> n < 2 ^ 31"

definition to_int32 :: "int \<Rightarrow> int" where
  "to_int32 n = (n + 2 ^ 31) mod 2 ^ 32 - 2 ^ 31"

definition add_int32 :: "int \<Rightarrow> int \<Rightarrow> int option" where
  "add_int32 a b = (if in_int32 (a + b) then Some (a + b) else None)"

lemma to_int32_in_range [simp, width_simps]: "in_int32 (to_int32 n)"
proof -
  have "0 \<le> (n + 2 ^ 31) mod 2 ^ 32" "(n + 2 ^ 31) mod 2 ^ 32 < (2 ^ 32 :: int)"
    by simp_all
  then show ?thesis by (simp add: to_int32_def in_int32_def)
qed

lemma to_int32_id [simp, width_simps]: "in_int32 n \<Longrightarrow> to_int32 n = n"
  by (simp add: in_int32_def to_int32_def)

lemma in_int32_of_nat [width_simps]: "n < 2 ^ 31 \<Longrightarrow> in_int32 (int n)"
  by (simp add: in_int32_def)

lemma add_int32_Some [width_simps]:
  "add_int32 a b = Some c \<longleftrightarrow> in_int32 (a + b) \<and> c = a + b"
  by (auto simp: add_int32_def)

section \<open>Faults and blocking calls\<close>

text \<open>
  \<open>PdkException\<close> is the library's \<^verbatim>\<open>pdk::Exception\<close>, \<open>InvalidArgument\<close> the standard
  \<^verbatim>\<open>std::invalid_argument\<close>. \<open>UB\<close> marks an execution whose behaviour the language leaves
  undefined (a read or write outside an object, a use of freed memory, a null dereference):
  the model stops there instead of inventing a value. A call that may fault returns
  \<open>fault + 'a\<close>.
\<close>

datatype fault =
    PdkException string
  | InvalidArgument string
  | UB string

text \<open>
  A call that waits on a condition variable either completes with a value or, in a state in
  which its wait predicate is false, parks the calling thread: \<open>Blocked\<close>.
\<close>

datatype 'a outcome = Blocked | Ret 'a

lemma outcome_neq_Blocked [simp]: "r \<noteq> Blocked \<longleftrightarrow> (\<exists>v. r = Ret v)"
  by (cases r) simp_all

section \<open>Counting-loop searches\<close>

text \<open>
  \<^verbatim>\<open>for (int i = 0; i < n; i++) if (xs[i] == x) return i; return -1;\<close> as a function: the
  first matching index.
\<close>

fun find_index :: "'a \<Rightarrow> 'a list \<Rightarrow> nat option" where
  "find_index x [] = None"
| "find_index x (y # ys) = (if y = x then Some 0 else map_option Suc (find_index x ys))"

lemma find_index_None [simp, search_simps]: "find_index x xs = None \<longleftrightarrow> x \<notin> set xs"
  by (induction xs) auto

lemma find_index_SomeD:
  "find_index x xs = Some i \<Longrightarrow> i < length xs \<and> xs ! i = x \<and> x \<notin> set (take i xs)"
proof (induction xs arbitrary: i)
  case (Cons y ys)
  then show ?case by (cases i) (auto split: if_splits)
qed simp

lemma find_index_nth [search_simps]:
  "distinct xs \<Longrightarrow> i < length xs \<Longrightarrow> find_index (xs ! i) xs = Some i"
proof (induction xs arbitrary: i)
  case (Cons y ys)
  then show ?case by (cases i) auto
qed simp

lemma find_index_append [search_simps]:
  "find_index x (xs @ ys) =
     (if x \<in> set xs then find_index x xs else map_option ((+) (length xs)) (find_index x ys))"
proof (induction xs)
  case Nil
  have "(+) (0::nat) = id" by auto
  then show ?case by (simp add: option.map_id)
qed (auto simp: option.map_comp comp_def)

lemma find_index_mem: "x \<in> set xs \<Longrightarrow> \<exists>i. find_index x xs = Some i"
  by (cases "find_index x xs") auto

section \<open>Lists updated by index\<close>

text \<open>\<open>erase_at i xs\<close> is \<^verbatim>\<open>xs.erase(xs.begin() + i)\<close>.\<close>

definition erase_at :: "nat \<Rightarrow> 'a list \<Rightarrow> 'a list" where
  "erase_at i xs = take i xs @ drop (Suc i) xs"

lemma length_erase_at [simp]: "i < length xs \<Longrightarrow> length (erase_at i xs) = length xs - 1"
  by (simp add: erase_at_def)

lemma set_erase_at_subset: "set (erase_at i xs) \<subseteq> set xs"
  by (auto simp: erase_at_def dest: in_set_takeD in_set_dropD)

lemma distinct_erase_at: "distinct xs \<Longrightarrow> distinct (erase_at i xs)"
  by (simp add: erase_at_def) (metis set_take_disj_set_drop_if_distinct lessI less_imp_le)

lemma erase_at_Cons_0 [simp]: "erase_at 0 (x # xs) = xs"
  by (simp add: erase_at_def)

lemma erase_at_Cons_Suc [simp]: "erase_at (Suc i) (x # xs) = x # erase_at i xs"
  by (simp add: erase_at_def)

lemma zip_erase_at: "length xs = length ys \<Longrightarrow> zip (erase_at i xs) (erase_at i ys) = erase_at i (zip xs ys)"
  by (simp add: erase_at_def take_zip drop_zip)

lemma map_erase_at: "map f (erase_at i xs) = erase_at i (map f xs)"
  by (simp add: erase_at_def take_map drop_map)

lemma set_erase_at_distinct:
  "distinct xs \<Longrightarrow> i < length xs \<Longrightarrow> set (erase_at i xs) = set xs - {xs ! i}"
proof (induction xs arbitrary: i)
  case (Cons y ys)
  then show ?case by (cases i) auto
qed simp

section \<open>Runs of a labelled step relation\<close>

inductive steps :: "('s \<Rightarrow> 'e \<Rightarrow> 's \<Rightarrow> bool) \<Rightarrow> 's \<Rightarrow> 'e list \<Rightarrow> 's \<Rightarrow> bool"
  for step :: "'s \<Rightarrow> 'e \<Rightarrow> 's \<Rightarrow> bool" where
  steps_nil: "steps step s [] s"
| steps_cons: "step s e s' \<Longrightarrow> steps step s' es s'' \<Longrightarrow> steps step s (e # es) s''"

lemma steps_snoc: "steps step s es s' \<Longrightarrow> step s' e s'' \<Longrightarrow> steps step s (es @ [e]) s''"
  by (induction rule: steps.induct) (auto intro: steps.intros)

lemma steps_append: "steps step s es s' \<Longrightarrow> steps step s' es' s'' \<Longrightarrow> steps step s (es @ es') s''"
  by (induction rule: steps.induct) (auto intro: steps.intros)

lemma steps_invariant:
  assumes "steps step s es s'" "P s" "\<And>s e s'. step s e s' \<Longrightarrow> P s \<Longrightarrow> P s'"
  shows "P s'"
  using assms by (induction rule: steps.induct) auto

end
