(* ===== verification/Monitor.thy ===== *)
theory Monitor
  imports Prelude
begin

text \<open>
  Condition variables. The threads waiting on a \<^verbatim>\<open>std::condition_variable\<close> are a pair of sets of
  thread numbers: the parked ones, which sleep until they are notified, and the woken ones,
  which were notified (or woke spuriously, or whose deadline passed) and have yet to re-acquire
  the mutex and evaluate their predicate again. \<^verbatim>\<open>notify_one\<close> moves an arbitrary parked thread to
  the woken ones and does nothing when there is none; \<^verbatim>\<open>notify_all\<close> moves all of them.

  The predicate \<open>covered n\<close> is the shape of every no-lost-wake-up argument of the library: when
  \<open>n\<close> units of whatever the threads wait for are available and somebody is still parked, then at
  least \<open>n\<close> threads have been woken for them.
\<close>

type_synonym tid = nat
type_synonym waiters = "tid set \<times> tid set"

abbreviation parked :: "waiters \<Rightarrow> tid set" where "parked \<equiv> fst"
abbreviation woken :: "waiters \<Rightarrow> tid set" where "woken \<equiv> snd"

definition no_waiters :: waiters where
  "no_waiters = ({}, {})"

definition park :: "tid \<Rightarrow> waiters \<Rightarrow> waiters" where
  "park t w = (insert t (parked w), woken w - {t})"

definition wake :: "tid \<Rightarrow> waiters \<Rightarrow> waiters" where
  "wake t w = (parked w - {t}, insert t (woken w))"

definition leave :: "tid \<Rightarrow> waiters \<Rightarrow> waiters" where
  "leave t w = (parked w, woken w - {t})"

definition notify_all :: "waiters \<Rightarrow> waiters" where
  "notify_all w = ({}, parked w \<union> woken w)"

inductive notify_one :: "waiters \<Rightarrow> waiters \<Rightarrow> bool" where
  nobody: "parked w = {} \<Longrightarrow> notify_one w w"
| somebody: "t \<in> parked w \<Longrightarrow> notify_one w (wake t w)"

inductive_cases notify_oneE [elim]: "notify_one w w'"

definition waiting :: "tid \<Rightarrow> waiters \<Rightarrow> bool" where
  "waiting t w \<longleftrightarrow> t \<in> parked w \<or> t \<in> woken w"

definition waiters_ok :: "waiters \<Rightarrow> bool" where
  "waiters_ok w \<longleftrightarrow> finite (parked w) \<and> finite (woken w) \<and> parked w \<inter> woken w = {}"

definition covered :: "nat \<Rightarrow> waiters \<Rightarrow> bool" where
  "covered n w \<longleftrightarrow> (parked w \<noteq> {} \<longrightarrow> n \<le> card (woken w))"

named_theorems monitor_intros \<open>how the monitor operations keep coverage\<close>

lemma notify_one_total: "\<exists>w'. notify_one w w'"
  by (metis equals0I notify_one.intros)

lemma waiters_ok_none [simp, monitor_intros]: "waiters_ok no_waiters"
  by (simp add: waiters_ok_def no_waiters_def)

lemma waiters_ok_park [simp, monitor_intros]: "waiters_ok w \<Longrightarrow> waiters_ok (park t w)"
  by (auto simp: waiters_ok_def park_def)

lemma waiters_ok_wake [simp, monitor_intros]: "waiters_ok w \<Longrightarrow> waiters_ok (wake t w)"
  by (auto simp: waiters_ok_def wake_def)

lemma waiters_ok_leave [simp, monitor_intros]: "waiters_ok w \<Longrightarrow> waiters_ok (leave t w)"
  by (auto simp: waiters_ok_def leave_def)

lemma waiters_ok_notify_all [simp, monitor_intros]: "waiters_ok w \<Longrightarrow> waiters_ok (notify_all w)"
  by (auto simp: waiters_ok_def notify_all_def)

lemma waiters_ok_notify_one [monitor_intros]:
  "notify_one w w' \<Longrightarrow> waiters_ok w \<Longrightarrow> waiters_ok w'"
  by (auto elim: notify_one.cases)

lemma covered_none [simp, monitor_intros]: "covered n no_waiters"
  by (simp add: covered_def no_waiters_def)

lemma covered_0 [simp, monitor_intros]: "covered 0 w"
  by (simp add: covered_def)

lemma covered_mono: "covered n w \<Longrightarrow> m \<le> n \<Longrightarrow> covered m w"
  by (auto simp: covered_def)

lemma covered_notify_all [simp, monitor_intros]: "covered n (notify_all w)"
  by (simp add: covered_def notify_all_def)

text \<open>Making one more unit available and notifying one thread keeps the rest covered.\<close>

lemma covered_notify_one [monitor_intros]:
  assumes "notify_one w w'" "waiters_ok w" "covered n w"
  shows "covered (Suc n) w'"
  using assms(1)
proof cases
  case nobody
  then show ?thesis by (simp add: covered_def)
next
  case (somebody t)
  have "card (insert t (woken w)) = Suc (card (woken w))"
    using assms(2) somebody by (intro card_insert_disjoint) (auto simp: waiters_ok_def)
  moreover have "n \<le> card (woken w)"
    using assms(3) somebody by (auto simp: covered_def)
  ultimately show ?thesis using somebody by (simp add: covered_def wake_def)
qed

text \<open>A woken thread that goes away takes at most one unit's cover with it.\<close>

lemma covered_leave [monitor_intros]:
  "waiters_ok w \<Longrightarrow> covered n w \<Longrightarrow> covered (n - 1) (leave t w)"
  by (cases "t \<in> woken w") (auto simp: covered_def leave_def waiters_ok_def)

lemma covered_wake [monitor_intros]:
  "waiters_ok w \<Longrightarrow> covered n w \<Longrightarrow> covered n (wake t w)"
  by (cases "t \<in> woken w") (auto simp: covered_def wake_def waiters_ok_def insert_absorb)

text \<open>The consequence the invariants are for: somebody parked, something available, somebody awake.\<close>

lemma covered_woken:
  "waiters_ok w \<Longrightarrow> covered n w \<Longrightarrow> t \<in> parked w \<Longrightarrow> 0 < n \<Longrightarrow> woken w \<noteq> {}"
  by (auto simp: covered_def)

lemma notify_one_parked_subset: "notify_one w w' \<Longrightarrow> parked w' \<subseteq> parked w"
  by (auto simp: wake_def elim: notify_one.cases)

lemma parked_empty_simps [simp]:
  "parked no_waiters = {}" "woken no_waiters = {}" "parked (notify_all w) = {}"
  "parked (leave t w) = parked w"
  by (simp_all add: no_waiters_def notify_all_def leave_def)

text \<open>\<open>notify_if b\<close>: the critical section reaches its \<^verbatim>\<open>notify_one\<close> exactly when \<open>b\<close> holds.\<close>

definition notify_if :: "bool \<Rightarrow> waiters \<Rightarrow> waiters \<Rightarrow> bool" where
  "notify_if b w w' \<longleftrightarrow> (if b then notify_one w w' else w' = w)"

lemma notify_if_total: "\<exists>w'. notify_if b w w'"
  unfolding notify_if_def using notify_one_total by (cases b) auto

section \<open>The wake-up discipline\<close>

text \<open>
  What a class that guards a resource with one condition variable has to do so that no wake-up is
  lost. \<open>avail\<close> counts what the waiters wait for. Every step either makes at most one unit
  available and notifies one thread, or is a thread leaving with a unit, or finds nothing
  available (the thread parks or gives up), or only wakes a thread, or touches neither, or
  notifies everybody. The laws are about one step; the client's lemma is about every run.
\<close>

locale wakeup_discipline =
  fixes step :: "'s \<Rightarrow> 'e \<Rightarrow> 's \<Rightarrow> bool"
    and avail :: "'s \<Rightarrow> nat"
    and ws :: "'s \<Rightarrow> waiters"
  assumes step_kinds: "step s e s' \<Longrightarrow>
      avail s' \<le> Suc (avail s) \<and> notify_one (ws s) (ws s') \<or>
      (\<exists>t. avail s' \<le> avail s - 1 \<and> ws s' = leave t (ws s)) \<or>
      (\<exists>t. avail s' = 0 \<and> (ws s' = park t (ws s) \<or> ws s' = leave t (ws s))) \<or>
      (\<exists>t. avail s' \<le> avail s \<and> ws s' = wake t (ws s)) \<or>
      avail s' \<le> avail s \<and> ws s' = ws s \<or>
      ws s' = notify_all (ws s)"
begin

lemma step_covered:
  assumes "step s e s'" "waiters_ok (ws s) \<and> covered (avail s) (ws s)"
  shows "waiters_ok (ws s') \<and> covered (avail s') (ws s')"
  using step_kinds [OF assms(1)] assms(2)
  by (elim disjE exE conjE)
    (auto simp: waiters_ok_notify_one
      intro: covered_mono [OF covered_notify_one] covered_mono [OF covered_leave]
        covered_mono [OF covered_wake] covered_mono)

lemma no_lost_wakeup:
  assumes "steps step s es s'" "ws s = no_waiters" "t \<in> parked (ws s')" "0 < avail s'"
  shows "woken (ws s') \<noteq> {}"
proof -
  have "waiters_ok (ws s') \<and> covered (avail s') (ws s')"
    using assms(1) by (rule steps_invariant) (simp_all add: assms(2) step_covered)
  then show ?thesis using covered_woken assms(3,4) by blast
qed

end

end
