(* ===== verification/Semaphore.thy ===== *)
theory Semaphore
  imports Monitor
begin

text \<open>
  \<^verbatim>\<open>class Semaphore\<close>, \<^verbatim>\<open>AutoSemaphore\<close>, \<^verbatim>\<open>Sync\<close> and \<^verbatim>\<open>SyncAck\<close> of \<^verbatim>\<open>include/jthread.hpp\<close>: a
  counting semaphore made of a mutex, a condition variable and an \<^verbatim>\<open>unsigned\<close> count. Every
  method runs under the mutex, so each is one function on the count; the count keeps its 32-bit
  width. The second half is the same class seen by many threads: a step relation over the count
  and the waiters of \<^verbatim>\<open>cv_\<close>.
\<close>

section \<open>The methods\<close>

record semaphore =
  sem_count :: u32

definition mk_semaphore :: "u32 \<Rightarrow> semaphore" where
  "mk_semaphore value = \<lparr>sem_count = value\<rparr>"

definition sem_reset_count :: "u32 \<Rightarrow> semaphore \<Rightarrow> bool \<times> semaphore" where
  "sem_reset_count value s = (True, s\<lparr>sem_count := value\<rparr>)"

definition sem_wait :: "semaphore \<Rightarrow> semaphore outcome" where
  "sem_wait s = (if sem_count s > 0 then Ret (s\<lparr>sem_count := sem_count s - 1\<rparr>) else Blocked)"

text \<open>
  \<^verbatim>\<open>wait(msecs)\<close>: \<^verbatim>\<open>wait_for\<close> returns the value of its predicate, either because the predicate
  became true or, at the deadline, whatever it is then; \<open>s\<close> is the state at that moment.
\<close>

definition sem_wait_ms :: "int \<Rightarrow> semaphore \<Rightarrow> int \<times> semaphore" where
  "sem_wait_ms msecs s =
     (let ok = sem_count s > 0
      in (if ok then 1 else 0, if ok then s\<lparr>sem_count := sem_count s - 1\<rparr> else s))"

definition sem_signal :: "semaphore \<Rightarrow> semaphore" where
  "sem_signal s = s\<lparr>sem_count := sem_count s + 1\<rparr>"

definition sem_lock :: "semaphore \<Rightarrow> (bool \<times> semaphore) outcome" where
  "sem_lock s = (case sem_wait s of Blocked \<Rightarrow> Blocked | Ret s' \<Rightarrow> Ret (True, s'))"

definition sem_lock_ms :: "u32 \<Rightarrow> semaphore \<Rightarrow> bool \<times> semaphore" where
  "sem_lock_ms msTimeout s = (let (r, s') = sem_wait_ms (uint msTimeout) s in (r = 1, s'))"

definition sem_unlock :: "semaphore \<Rightarrow> bool \<times> semaphore" where
  "sem_unlock s = (True, sem_signal s)"

text \<open>\<^verbatim>\<open>unlock(lCount)\<close>: the loop signals \<open>lCount\<close> times, and not at all for a negative count.\<close>

definition sem_unlock_n :: "int \<Rightarrow> semaphore \<Rightarrow> bool \<times> semaphore" where
  "sem_unlock_n lCount s = (True, (sem_signal ^^ nat lCount) s)"

definition sem_will_block :: "semaphore \<Rightarrow> int" where
  "sem_will_block s = (if sem_count s = 0 then 1 else 0)"

text \<open>\<^verbatim>\<open>Sync\<close> is a semaphore that starts at zero.\<close>

definition mk_sync :: semaphore where
  "mk_sync = mk_semaphore 0"

text \<open>
  \<^verbatim>\<open>AutoSemaphore\<close>: the constructor waits, the destructor signals, whatever the scope's body
  did to the semaphore in between.
\<close>

definition auto_semaphore :: "(semaphore \<Rightarrow> semaphore) \<Rightarrow> semaphore \<Rightarrow> semaphore outcome" where
  "auto_semaphore body s =
     (case sem_wait s of Blocked \<Rightarrow> Blocked | Ret s' \<Rightarrow> Ret (sem_signal (body s')))"

text \<open>
  \<^verbatim>\<open>SyncAck::signal\<close> is two critical sections: it signals its own count, then waits on \<^verbatim>\<open>ack_\<close> until
  the receiver calls \<^verbatim>\<open>ack\<close>. The second one is \<open>Blocked\<close> while no acknowledgement is there.
\<close>

record sync_ack =
  sa_sync :: semaphore
  sa_ack :: semaphore

definition mk_sync_ack :: sync_ack where
  "mk_sync_ack = \<lparr>sa_sync = mk_sync, sa_ack = mk_sync\<rparr>"

definition sa_signal :: "sync_ack \<Rightarrow> sync_ack" where
  "sa_signal s = s\<lparr>sa_sync := sem_signal (sa_sync s)\<rparr>"

definition sa_signal_wait :: "sync_ack \<Rightarrow> sync_ack outcome" where
  "sa_signal_wait s =
     (case sem_wait (sa_ack s) of Blocked \<Rightarrow> Blocked | Ret a \<Rightarrow> Ret (s\<lparr>sa_ack := a\<rparr>))"

definition sa_acknowledge :: "sync_ack \<Rightarrow> sync_ack" where
  "sa_acknowledge s = s\<lparr>sa_ack := sem_signal (sa_ack s)\<rparr>"

lemmas sem_defs =
  mk_semaphore_def sem_reset_count_def sem_wait_def sem_wait_ms_def sem_signal_def sem_lock_def
  sem_lock_ms_def sem_unlock_def sem_unlock_n_def sem_will_block_def mk_sync_def
  auto_semaphore_def Let_def

section \<open>Single calls\<close>

lemma sem_wait_signal [simp]: "sem_wait s = Ret s' \<Longrightarrow> sem_signal s' = s"
  by (auto simp: sem_defs split: if_splits)

lemma sem_lock_ms_fst [simp]: "fst (sem_lock_ms ms s) \<longleftrightarrow> sem_count s \<noteq> 0"
  by (simp add: sem_defs word_greater_zero_iff)

lemma sem_lock_ms_snd [simp]:
  "snd (sem_lock_ms ms s) = (if sem_count s = 0 then s else s\<lparr>sem_count := sem_count s - 1\<rparr>)"
  by (simp add: sem_defs word_greater_zero_iff)

lemma unat_count_dec: "sem_count s \<noteq> 0 \<Longrightarrow> unat (sem_count s - 1) = unat (sem_count s) - 1"
  by (simp add: unat_minus_one)

lemma unat_count_inc: "sem_count s \<noteq> - 1 \<Longrightarrow> unat (sem_count s + 1) = Suc (unat (sem_count s))"
  by (simp add: unatSuc add.commute [of _ 1] eq_neg_iff_add_eq_0)

lemma sem_signal_n: "sem_count ((sem_signal ^^ n) s) = sem_count s + of_nat n"
  by (induction n) (simp_all add: sem_signal_def)

lemma unat_unlock_n:
  assumes "unat (sem_count s) + nat n < 2 ^ 32"
  shows "unat (sem_count (snd (sem_unlock_n n s))) = unat (sem_count s) + nat n"
  using assms by (simp add: sem_unlock_n_def sem_signal_n unat_word_ariths unat_of_nat)

text \<open>On a fresh \<^verbatim>\<open>SyncAck\<close> a signal returns exactly when an acknowledgement has been given.\<close>

lemma sync_ack_rendezvous:
  "sa_signal_wait (sa_signal mk_sync_ack) = Blocked"
  "sa_signal_wait (sa_acknowledge (sa_signal mk_sync_ack)) = Ret (sa_signal mk_sync_ack)"
  by (simp_all add: sa_signal_wait_def sa_signal_def sa_acknowledge_def mk_sync_ack_def sem_defs)

section \<open>Many threads\<close>

text \<open>
  The state is the count and the waiters of \<^verbatim>\<open>cv_\<close>. One step is one critical section of one
  thread: a fresh call of \<^verbatim>\<open>wait\<close> that finds the count positive, one that parks, a woken thread
  that re-evaluates the predicate and gets through, parks again, or gives up because its
  deadline passed, a spurious or deadline wake-up, a \<^verbatim>\<open>signal\<close>, and a \<^verbatim>\<open>reset_count\<close>, which
  changes the count without notifying anyone.
\<close>

record sem_sys =
  the_sem :: semaphore
  sem_waiters :: waiters

datatype sem_event = SemWait tid | SemTimedOut tid | SemWakeup tid | SemSignal | SemReset u32

inductive sem_step :: "sem_sys \<Rightarrow> sem_event \<Rightarrow> sem_sys \<Rightarrow> bool" where
  wait_through: "\<not> waiting t (sem_waiters s) \<or> t \<in> woken (sem_waiters s) \<Longrightarrow>
    sem_wait (the_sem s) = Ret m \<Longrightarrow>
    sem_step s (SemWait t) \<lparr>the_sem = m, sem_waiters = leave t (sem_waiters s)\<rparr>"
| wait_park: "\<not> waiting t (sem_waiters s) \<or> t \<in> woken (sem_waiters s) \<Longrightarrow>
    sem_wait (the_sem s) = Blocked \<Longrightarrow>
    sem_step s (SemWait t) (s\<lparr>sem_waiters := park t (sem_waiters s)\<rparr>)"
| timed_out: "t \<in> woken (sem_waiters s) \<Longrightarrow> sem_wait_ms ms (the_sem s) = (0, m) \<Longrightarrow>
    sem_step s (SemTimedOut t) \<lparr>the_sem = m, sem_waiters = leave t (sem_waiters s)\<rparr>"
| wakeup: "t \<in> parked (sem_waiters s) \<Longrightarrow>
    sem_step s (SemWakeup t) (s\<lparr>sem_waiters := wake t (sem_waiters s)\<rparr>)"
| signal: "notify_one (sem_waiters s) w \<Longrightarrow>
    sem_step s SemSignal \<lparr>the_sem = sem_signal (the_sem s), sem_waiters = w\<rparr>"
| reset: "sem_step s (SemReset v) (s\<lparr>the_sem := snd (sem_reset_count v (the_sem s))\<rparr>)"

inductive_cases sem_stepE: "sem_step s e s'"

inductive sem_run :: "sem_sys \<Rightarrow> sem_event list \<Rightarrow> sem_sys \<Rightarrow> bool" where
  sem_run_nil: "sem_run s [] s"
| sem_run_cons: "sem_step s e s' \<Longrightarrow> sem_run s' es s'' \<Longrightarrow> sem_run s (e # es) s''"

definition sem_init :: "u32 \<Rightarrow> sem_sys" where
  "sem_init v = \<lparr>the_sem = mk_semaphore v, sem_waiters = no_waiters\<rparr>"

definition is_reset :: "sem_event \<Rightarrow> bool" where
  "is_reset e = (case e of SemReset _ \<Rightarrow> True | _ \<Rightarrow> False)"

definition sem_inv :: "sem_sys \<Rightarrow> bool" where
  "sem_inv s \<longleftrightarrow>
     waiters_ok (sem_waiters s) \<and> covered (unat (sem_count (the_sem s))) (sem_waiters s)"

lemma sem_inv_init: "sem_inv (sem_init v)"
  by (simp add: sem_inv_def sem_init_def)

lemma sem_step_inv:
  assumes "sem_step s e s'" "\<not> is_reset e" "sem_inv s"
  shows "sem_inv s'"
  using assms(1)
proof cases
  case (wait_through t m)
  then have "unat (sem_count m) = unat (sem_count (the_sem s)) - 1"
    by (auto simp: sem_wait_def word_greater_zero_iff unat_count_dec split: if_splits)
  then show ?thesis
    using wait_through assms(3) covered_leave by (auto simp: sem_inv_def)
next
  case (wait_park t)
  then show ?thesis
    using assms(3) by (auto simp: sem_inv_def sem_wait_def word_greater_zero_iff split: if_splits)
next
  case (timed_out t ms m)
  then show ?thesis
    using assms(3) by (auto simp: sem_inv_def sem_defs word_greater_zero_iff split: if_splits)
next
  case (wakeup t)
  then show ?thesis using assms(3) by (simp add: sem_inv_def covered_wake)
next
  case (signal w)
  have c: "covered (Suc (unat (sem_count (the_sem s)))) w"
    using signal assms(3) covered_notify_one by (auto simp: sem_inv_def)
  have "unat (sem_count (the_sem s) + 1) \<le> Suc (unat (sem_count (the_sem s)))"
    by (simp add: unat_word_ariths)
  with c have "covered (unat (sem_count (the_sem s) + 1)) w" by (rule covered_mono)
  then show ?thesis
    using signal assms(3) waiters_ok_notify_one by (auto simp: sem_inv_def sem_signal_def)
next
  case (reset v)
  then show ?thesis using assms(2) by (simp add: is_reset_def)
qed

lemma sem_run_inv:
  "sem_run s es s' \<Longrightarrow> (\<forall>e \<in> set es. \<not> is_reset e) \<Longrightarrow> sem_inv s \<Longrightarrow> sem_inv s'"
  by (induction rule: sem_run.induct) (auto intro: sem_step_inv)

section \<open>Properties\<close>

text \<open>
  C2: no lost wake-up. In every state many threads can reach by calling \<^verbatim>\<open>wait\<close>, \<^verbatim>\<open>wait(ms)\<close> and
  \<^verbatim>\<open>signal\<close> in any order, if a thread is parked in \<^verbatim>\<open>wait\<close> while the count is positive, then some
  woken thread's next evaluation of the predicate succeeds: the count never sits unclaimed while
  everybody sleeps.
\<close>

theorem sem_no_lost_wakeup:
  assumes run: "sem_run (sem_init v) es s" and no_reset: "\<forall>e \<in> set es. \<not> is_reset e"
    and asleep: "t \<in> parked (sem_waiters s)" and pos: "sem_count (the_sem s) \<noteq> 0"
  shows "\<exists>u s'. u \<in> woken (sem_waiters s) \<and> sem_step s (SemWait u) s' \<and>
    \<not> waiting u (sem_waiters s') \<and> sem_count (the_sem s') = sem_count (the_sem s) - 1"
proof -
  have inv: "sem_inv s" using sem_run_inv [OF run no_reset sem_inv_init] .
  then have "woken (sem_waiters s) \<noteq> {}"
    using covered_woken [OF _ _ asleep, of "unat (sem_count (the_sem s))"] pos
    by (simp add: sem_inv_def unat_gt_0)
  then obtain u where u: "u \<in> woken (sem_waiters s)" by auto
  let ?m = "(the_sem s)\<lparr>sem_count := sem_count (the_sem s) - 1\<rparr>"
  have m: "sem_wait (the_sem s) = Ret ?m"
    using pos by (simp add: sem_wait_def word_greater_zero_iff)
  have "sem_step s (SemWait u) \<lparr>the_sem = ?m, sem_waiters = leave u (sem_waiters s)\<rparr>"
    using wait_through u m by blast
  moreover have "\<not> waiting u (leave u (sem_waiters s))"
    using inv u by (auto simp: sem_inv_def waiters_ok_def waiting_def leave_def)
  ultimately show ?thesis using u by fastforce
qed

lemma sem_example_run:
  "sem_run (sem_init 0) [SemWait 1, SemWait 2, SemSignal]
     \<lparr>the_sem = \<lparr>sem_count = 1\<rparr>, sem_waiters = ({2}, {1})\<rparr>"
proof -
  let ?w0 = "no_waiters" and ?w1 = "park 1 no_waiters" and ?w2 = "park 2 (park 1 no_waiters)"
  have z: "sem_wait (mk_semaphore 0) = Blocked" by (simp add: sem_defs)
  have "sem_step (sem_init 0) (SemWait 1) \<lparr>the_sem = mk_semaphore 0, sem_waiters = ?w1\<rparr>"
    using wait_park [of 1 "sem_init 0"] z by (simp add: sem_init_def waiting_def)
  moreover have "sem_step \<lparr>the_sem = mk_semaphore 0, sem_waiters = ?w1\<rparr> (SemWait 2)
      \<lparr>the_sem = mk_semaphore 0, sem_waiters = ?w2\<rparr>"
    using wait_park [of 2 "\<lparr>the_sem = mk_semaphore 0, sem_waiters = ?w1\<rparr>"] z
    by (simp add: waiting_def park_def)
  moreover have "sem_step \<lparr>the_sem = mk_semaphore 0, sem_waiters = ?w2\<rparr> SemSignal
      \<lparr>the_sem = sem_signal (mk_semaphore 0), sem_waiters = wake 1 ?w2\<rparr>"
    using signal [of "\<lparr>the_sem = mk_semaphore 0, sem_waiters = ?w2\<rparr>" "wake 1 ?w2"]
      somebody [of 1 ?w2] by (simp add: park_def)
  moreover have "wake 1 ?w2 = ({2}, {1})"
    by (auto simp: wake_def park_def no_waiters_def)
  moreover have "sem_signal (mk_semaphore 0) = \<lparr>sem_count = 1\<rparr>"
    by (simp add: sem_defs)
  ultimately show ?thesis by (metis sem_run_cons sem_run_nil)
qed

theorem sem_no_lost_wakeup_witness:
  "\<exists>u s'. u \<in> {1::nat} \<and>
     sem_step \<lparr>the_sem = \<lparr>sem_count = 1\<rparr>, sem_waiters = ({2}, {1})\<rparr> (SemWait u) s' \<and>
     sem_count (the_sem s') = 0"
  using sem_no_lost_wakeup [OF sem_example_run, of 2] by (auto simp: is_reset_def)

text \<open>
  \<^verbatim>\<open>reset_count\<close> does lose wake-ups: it raises the count without notifying, so a thread already
  parked in \<^verbatim>\<open>wait\<close> stays asleep next to a positive count with nobody awake to take it. This is
  reachable for every new count other than zero; \<^verbatim>\<open>CircularQueue::reset\<close> calls \<^verbatim>\<open>reset_count\<close> in
  exactly this way on the semaphore its blocked producers wait on.
\<close>

theorem sem_reset_strands_waiter:
  assumes "v \<noteq> 0"
  shows "\<exists>s. sem_run (sem_init 0) [SemWait t, SemReset v] s \<and> t \<in> parked (sem_waiters s) \<and>
    woken (sem_waiters s) = {} \<and> sem_count (the_sem s) = v \<and> sem_will_block (the_sem s) = 0"
proof -
  let ?s1 = "(sem_init 0)\<lparr>sem_waiters := park t no_waiters\<rparr>"
  have "sem_step (sem_init 0) (SemWait t) ?s1"
    using wait_park [of t "sem_init 0"] by (simp add: sem_init_def waiting_def sem_defs)
  then have "sem_run (sem_init 0) [SemWait t, SemReset v]
      (?s1\<lparr>the_sem := snd (sem_reset_count v (the_sem ?s1))\<rparr>)"
    by (blast intro: sem_run.intros reset)
  moreover have "sem_count (the_sem (?s1\<lparr>the_sem := snd (sem_reset_count v (the_sem ?s1))\<rparr>)) = v"
    by (simp add: sem_defs)
  ultimately show ?thesis
    using assms by (fastforce simp: park_def sem_will_block_def)
qed

theorem sem_reset_strands_waiter_witness:
  "\<exists>s. sem_run (sem_init 0) [SemWait 7, SemReset 31] s \<and> 7 \<in> parked (sem_waiters s) \<and>
    woken (sem_waiters s) = {} \<and> sem_count (the_sem s) = 31 \<and> sem_will_block (the_sem s) = 0"
  using sem_reset_strands_waiter [of 31 7] by simp

end
