(* ===== verification/Ring_Buffer.thy ===== *)
theory Ring_Buffer
  imports Prelude
begin

text \<open>
  Index arithmetic shared by the three ring queues of the library (\<^verbatim>\<open>BoundedQueue\<close>,
  \<^verbatim>\<open>CircularQueue\<close>, \<^verbatim>\<open>ShmQueue\<close>). \<open>ring_slice cells i n\<close> reads \<open>n\<close> cells from index \<open>i\<close>,
  wrapping at the end of the cell vector. The lemmas say what writing the cell after the last
  one and dropping the first one do to a slice; each ring queue proves its operations against
  these and never unfolds \<open>mod\<close> itself.
\<close>

named_theorems ring_simps \<open>reading and writing a ring\<close>

definition ring_next :: "'a list \<Rightarrow> nat \<Rightarrow> nat" where
  "ring_next cells i = (i + 1) mod length cells"

definition ring_index :: "'a list \<Rightarrow> nat \<Rightarrow> nat \<Rightarrow> nat" where
  "ring_index cells i n = (i + n) mod length cells"

definition ring_slice :: "'a list \<Rightarrow> nat \<Rightarrow> nat \<Rightarrow> 'a list" where
  "ring_slice cells i n = map (\<lambda>k. cells ! ring_index cells i k) [0..<n]"

lemma ring_index_less [simp, ring_simps]: "cells \<noteq> [] \<Longrightarrow> ring_index cells i n < length cells"
  by (simp add: ring_index_def)

lemma ring_next_less [simp, ring_simps]: "cells \<noteq> [] \<Longrightarrow> ring_next cells i < length cells"
  by (simp add: ring_next_def)

lemma ring_less_of_start [simp, ring_simps]:
  "i < length cells \<Longrightarrow> ring_index cells i n < length cells"
  "i < length cells \<Longrightarrow> ring_next cells i < length cells"
  by (rule ring_index_less ring_next_less, force)+

lemma ring_index_0 [simp, ring_simps]: "i < length cells \<Longrightarrow> ring_index cells i 0 = i"
  by (simp add: ring_index_def)

lemma ring_next_index [ring_simps]:
  "ring_next cells (ring_index cells i n) = ring_index cells i (Suc n)"
  by (simp add: ring_next_def ring_index_def mod_Suc_eq)

lemma ring_index_next [ring_simps]:
  "ring_index cells (ring_next cells i) n = ring_index cells i (Suc n)"
  by (simp add: ring_next_def ring_index_def mod_add_left_eq)

lemma ring_index_update [simp, ring_simps]:
  "ring_index (cells[j := v]) i n = ring_index cells i n"
  by (simp add: ring_index_def)

lemma ring_next_update [simp, ring_simps]: "ring_next (cells[j := v]) i = ring_next cells i"
  by (simp add: ring_next_def)

lemma length_ring_slice [simp, ring_simps]: "length (ring_slice cells i n) = n"
  by (simp add: ring_slice_def)

lemma ring_slice_0 [simp, ring_simps]: "ring_slice cells i 0 = []"
  by (simp add: ring_slice_def)

lemma nth_ring_slice: "k < n \<Longrightarrow> ring_slice cells i n ! k = cells ! ring_index cells i k"
  by (simp add: ring_slice_def)

lemma ring_index_inj:
  assumes "ring_index cells i k = ring_index cells i n" "k \<le> n" "n < length cells + k"
  shows "k = n"
proof -
  have "(i + n) mod length cells = (i + k) mod length cells"
    using assms(1) by (simp add: ring_index_def)
  then have "length cells dvd (i + n) - (i + k)"
    using assms(2) by (subst (asm) mod_eq_dvd_iff_nat) auto
  then have "length cells dvd n - k" by simp
  moreover have "n - k < length cells" using assms(2,3) by arith
  ultimately show ?thesis using assms(2) by (auto dest: dvd_imp_le)
qed

text \<open>Writing the cell just after a slice that does not fill the ring leaves the slice alone.\<close>

lemma ring_slice_write_end [ring_simps]:
  assumes "n < length cells"
  shows "ring_slice (cells[ring_index cells i n := v]) i n = ring_slice cells i n"
proof (rule nth_equalityI)
  fix k assume "k < length (ring_slice (cells[ring_index cells i n := v]) i n)"
  then have k: "k < n" by simp
  have "ring_index cells i k \<noteq> ring_index cells i n"
    using ring_index_inj [of cells i k n] k assms by auto
  then show "ring_slice (cells[ring_index cells i n := v]) i n ! k = ring_slice cells i n ! k"
    using k by (simp add: nth_ring_slice)
qed simp

lemma ring_slice_Suc [ring_simps]:
  "ring_slice cells i (Suc n) = ring_slice cells i n @ [cells ! ring_index cells i n]"
  by (simp add: ring_slice_def)

text \<open>A push: write at the end, extend the slice by one.\<close>

lemma ring_slice_push:
  assumes "n < length cells"
  shows "ring_slice (cells[ring_index cells i n := v]) i (Suc n) = ring_slice cells i n @ [v]"
proof -
  have "cells \<noteq> []" using assms by auto
  then show ?thesis using assms by (simp add: ring_slice_Suc ring_slice_write_end)
qed

text \<open>A pop: the first cell, then the slice from the next index.\<close>

lemma ring_slice_pop:
  assumes "i < length cells"
  shows "ring_slice cells i (Suc n) = cells ! i # ring_slice cells (ring_next cells i) n"
proof -
  have "[0..<Suc n] = 0 # map Suc [0..<n]" by (simp add: map_Suc_upt upt_conv_Cons del: upt_Suc)
  then show ?thesis
    using assms by (simp add: ring_slice_def ring_index_next comp_def del: upt_Suc)
qed

text \<open>Clearing the cell that a pop released does not touch the remaining slice.\<close>

lemma ring_slice_clear:
  assumes "i < length cells" "n < length cells"
  shows "ring_slice (cells[i := v]) (ring_next cells i) n = ring_slice cells (ring_next cells i) n"
proof (rule nth_equalityI)
  fix k assume "k < length (ring_slice (cells[i := v]) (ring_next cells i) n)"
  then have k: "k < n" by simp
  have "i \<noteq> ring_index cells i (Suc k)"
    using ring_index_inj [of cells i 0 "Suc k"] k assms by auto
  then show "ring_slice (cells[i := v]) (ring_next cells i) n ! k
      = ring_slice cells (ring_next cells i) n ! k"
    using k by (simp add: nth_ring_slice ring_index_next)
qed simp

lemma map_ring_slice: "map f (ring_slice cells i n) = ring_slice (map f cells) i n" if "cells \<noteq> []"
  using that by (simp add: ring_slice_def ring_index_def)

section \<open>Occupancy\<close>

text \<open>
  \<open>ring_occupied P cells i n\<close>: the \<open>n\<close> cells from index \<open>i\<close> on are in use according to \<open>P\<close>, and no
  other cell of the ring is.
\<close>

definition ring_occupied :: "('a \<Rightarrow> bool) \<Rightarrow> 'a list \<Rightarrow> nat \<Rightarrow> nat \<Rightarrow> bool" where
  "ring_occupied P cells i n \<longleftrightarrow> (\<forall>k < length cells. P (cells ! ring_index cells i k) = (k < n))"

lemma ring_occupied_empty:
  "(\<And>c. c \<in> set cells \<Longrightarrow> \<not> P c) \<Longrightarrow> ring_occupied P cells i 0"
  unfolding ring_occupied_def by (metis length_pos_if_in_set less_nat_zero_code nth_mem ring_index_less
      length_greater_0_conv not_gr_zero)

lemma ring_occupied_push:
  assumes occ: "ring_occupied P cells i n" and n: "n < length cells" and v: "P v"
  shows "ring_occupied P (cells[ring_index cells i n := v]) i (Suc n)"
  unfolding ring_occupied_def
proof (intro allI impI)
  fix k assume k: "k < length (cells[ring_index cells i n := v])"
  have ne: "cells \<noteq> []" using n by auto
  show "P (cells[ring_index cells i n := v] ! ring_index (cells[ring_index cells i n := v]) i k) = (k < Suc n)"
  proof (cases "k = n")
    case True
    then show ?thesis using ne v by simp
  next
    case False
    have "ring_index cells i k \<noteq> ring_index cells i n"
      using ring_index_inj [of cells i k n] ring_index_inj [of cells i n k] False k n
      by (cases "k \<le> n") auto
    then show ?thesis using occ k False by (auto simp: ring_occupied_def)
  qed
qed

lemma ring_occupied_pop:
  assumes occ: "ring_occupied P cells i (Suc n)" and i: "i < length cells" and n: "n < length cells"
    and v: "\<not> P v"
  shows "ring_occupied P (cells[i := v]) (ring_next cells i) n"
  unfolding ring_occupied_def
proof (intro allI impI)
  fix k assume k: "k < length (cells[i := v])"
  have *: "P (cells[i := v] ! ring_index cells i (Suc k)) = (k < n)"
  proof (cases "Suc k < length cells")
    case True
    have "i \<noteq> ring_index cells i (Suc k)"
      using ring_index_inj [of cells i 0 "Suc k"] True i by auto
    then show ?thesis using True occ by (auto simp: ring_occupied_def)
  next
    case False
    then have "Suc k = length cells" using k by simp
    then have "ring_index cells i (Suc k) = i" using i by (simp only: ring_index_def) simp
    then show ?thesis using i False k n v by auto
  qed
  then show "P (cells[i := v] ! ring_index (cells[i := v]) (ring_next cells i) k) = (k < n)"
    by (simp add: ring_index_next)
qed

lemma ring_occupied_head:
  "ring_occupied P cells i (Suc n) \<Longrightarrow> i < length cells \<Longrightarrow> P (cells ! i)"
  unfolding ring_occupied_def by (metis list.size(3) not_less_zero ring_index_0 zero_less_Suc gr_zeroI)

end
