(* ===== verification/Queue_Interface.thy ===== *)
theory Queue_Interface
  imports Prelude
begin

text \<open>
  What a client of any of the library's queues relies on, as two locales. \<open>fifo_queue\<close> is the
  contract of a put and a get seen through an abstraction to a list; \<open>bounded_fifo_queue\<close> adds
  a capacity and a closed flag and says exactly when a put is accepted. The lemmas of the
  locales are about arbitrary sequences of operations; \<open>Bounded_Queue\<close>, \<open>Event_Queue\<close>,
  \<open>Circular_Queue\<close> and \<open>Shm_Queue\<close> interpret them on the models of the code's classes.
\<close>

datatype 'a queue_op = PutOp 'a | GetOp

text \<open>
  A run of operations returns the values whose put was accepted, the values the gets
  delivered, both in order, and the final queue.
\<close>

fun run_queue ::
  "('a \<Rightarrow> 'q \<Rightarrow> bool \<times> 'q) \<Rightarrow> ('q \<Rightarrow> 'a option \<times> 'q) \<Rightarrow> 'a queue_op list \<Rightarrow> 'q
    \<Rightarrow> 'a list \<times> 'a list \<times> 'q" where
  "run_queue put get [] q = ([], [], q)"
| "run_queue put get (PutOp x # ops) q =
     (let (ok, q1) = put x q; (acc, del, q2) = run_queue put get ops q1
      in (if ok then x # acc else acc, del, q2))"
| "run_queue put get (GetOp # ops) q =
     (let (r, q1) = get q; (acc, del, q2) = run_queue put get ops q1
      in (acc, case r of None \<Rightarrow> del | Some x \<Rightarrow> x # del, q2))"

locale fifo_queue =
  fixes contents :: "'q \<Rightarrow> 'a list"
    and invar :: "'q \<Rightarrow> bool"
    and put :: "'a \<Rightarrow> 'q \<Rightarrow> bool \<times> 'q"
    and get :: "'q \<Rightarrow> 'a option \<times> 'q"
  assumes put_accept: "invar q \<Longrightarrow> put x q = (True, q') \<Longrightarrow> contents q' = contents q @ [x] \<and> invar q'"
    and put_refuse: "invar q \<Longrightarrow> put x q = (False, q') \<Longrightarrow> contents q' = contents q \<and> invar q'"
    and get_empty: "invar q \<Longrightarrow> get q = (None, q') \<Longrightarrow> contents q = [] \<and> contents q' = [] \<and> invar q'"
    and get_head: "invar q \<Longrightarrow> get q = (Some x, q') \<Longrightarrow> contents q = x # contents q' \<and> invar q'"
begin

lemma put_invar: "invar q \<Longrightarrow> invar (snd (put x q))"
  using put_accept put_refuse by (metis (full_types) prod.collapse)

lemma get_invar: "invar q \<Longrightarrow> invar (snd (get q))"
  using get_empty get_head by (metis not_Some_eq prod.collapse)

lemma get_fst: "invar q \<Longrightarrow> fst (get q) = (case contents q of [] \<Rightarrow> None | x # _ \<Rightarrow> Some x)"
proof -
  assume i: "invar q"
  obtain r q' where g: "get q = (r, q')" by (cases "get q")
  then show ?thesis using i get_empty [of q q'] get_head [of q _ q'] by (cases r) auto
qed

text \<open>
  First in, first out, nothing lost, nothing duplicated: over any sequence of operations, what
  was in the queue followed by what was accepted is what was delivered followed by what is
  still there.
\<close>

lemma run_conserves:
  "invar q \<Longrightarrow> run_queue put get ops q = (acc, del, q') \<Longrightarrow>
     contents q @ acc = del @ contents q' \<and> invar q'"
proof (induction ops arbitrary: q acc del q')
  case Nil
  then show ?case by simp
next
  case (Cons op ops)
  show ?case
  proof (cases op)
    case (PutOp x)
    obtain ok q1 where p: "put x q = (ok, q1)" by (cases "put x q")
    obtain acc1 del1 q2 where r: "run_queue put get ops q1 = (acc1, del1, q2)"
      by (cases "run_queue put get ops q1")
    have "invar q1" using put_invar [OF Cons.prems(1), of x] p by simp
    from Cons.IH [OF this r] show ?thesis
      using Cons.prems p r PutOp put_accept [OF Cons.prems(1)] put_refuse [OF Cons.prems(1)]
      by (cases ok) auto
  next
    case GetOp
    obtain x q1 where g: "get q = (x, q1)" by (cases "get q")
    obtain acc1 del1 q2 where r: "run_queue put get ops q1 = (acc1, del1, q2)"
      by (cases "run_queue put get ops q1")
    have "invar q1" using get_invar [OF Cons.prems(1)] g by simp
    from Cons.IH [OF this r] show ?thesis
      using Cons.prems g r GetOp get_empty [OF Cons.prems(1)] get_head [OF Cons.prems(1)]
      by (cases x) fastforce+
  qed
qed

text \<open>As many gets as there are values deliver all of them, in order.\<close>

lemma drain:
  "invar q \<Longrightarrow> length (contents q) \<le> n \<Longrightarrow>
     fst (snd (run_queue put get (replicate n GetOp) q)) = contents q"
proof (induction n arbitrary: q)
  case 0
  then show ?case by simp
next
  case (Suc n)
  obtain r q1 where g: "get q = (r, q1)" by (cases "get q")
  have i1: "invar q1" using get_invar [OF Suc.prems(1)] g by simp
  obtain acc del q2 where run: "run_queue put get (replicate n GetOp) q1 = (acc, del, q2)"
    by (cases "run_queue put get (replicate n GetOp) q1")
  show ?case
  proof (cases r)
    case None
    with g Suc.prems have "contents q = []" "contents q1 = []" using get_empty by blast+
    with Suc.IH [OF i1] g None run show ?thesis by simp
  next
    case (Some x)
    with g Suc.prems have c: "contents q = x # contents q1" using get_head by blast
    with Suc.prems have "length (contents q1) \<le> n" by simp
    with Suc.IH [OF i1] c g Some run show ?thesis by simp
  qed
qed

end

locale bounded_fifo_queue = fifo_queue contents invar put get
  for contents :: "'q \<Rightarrow> 'a list"
    and invar :: "'q \<Rightarrow> bool"
    and put :: "'a \<Rightarrow> 'q \<Rightarrow> bool \<times> 'q"
    and get :: "'q \<Rightarrow> 'a option \<times> 'q" +
  fixes cap :: "'q \<Rightarrow> nat"
    and closed :: "'q \<Rightarrow> bool"
  assumes put_iff: "invar q \<Longrightarrow> fst (put x q) \<longleftrightarrow> \<not> closed q \<and> length (contents q) < cap q"
    and bound: "invar q \<Longrightarrow> length (contents q) \<le> cap q"
    and put_cap: "invar q \<Longrightarrow> cap (snd (put x q)) = cap q"
    and get_cap: "invar q \<Longrightarrow> cap (snd (get q)) = cap q"
    and put_closed: "invar q \<Longrightarrow> closed (snd (put x q)) = closed q"
    and get_closed: "invar q \<Longrightarrow> closed (snd (get q)) = closed q"
begin

lemma run_cap_closed:
  "invar q \<Longrightarrow> run_queue put get ops q = (acc, del, q') \<Longrightarrow> cap q' = cap q \<and> closed q' = closed q"
proof (induction ops arbitrary: q acc del)
  case Nil
  then show ?case by simp
next
  case (Cons op ops)
  show ?case
  proof (cases op)
    case (PutOp x)
    then show ?thesis
      using Cons.prems Cons.IH [OF put_invar [OF Cons.prems(1), of x]]
        put_cap [OF Cons.prems(1), of x] put_closed [OF Cons.prems(1), of x]
      by (auto split: prod.splits)
  next
    case GetOp
    then show ?thesis
      using Cons.prems Cons.IH [OF get_invar [OF Cons.prems(1)]]
        get_cap [OF Cons.prems(1)] get_closed [OF Cons.prems(1)]
      by (auto split: prod.splits)
  qed
qed

text \<open>The capacity is never exceeded, however puts and gets are mixed.\<close>

lemma run_bounded:
  assumes "invar q" "run_queue put get ops q = (acc, del, q')"
  shows "length (contents q') \<le> cap q"
  using bound [of q'] run_conserves [OF assms] run_cap_closed [OF assms] by simp

text \<open>A closed queue accepts nothing more, but still drains.\<close>

lemma run_closed_accepts_nothing:
  "invar q \<Longrightarrow> closed q \<Longrightarrow> run_queue put get ops q = (acc, del, q') \<Longrightarrow> acc = []"
proof (induction ops arbitrary: q acc del)
  case Nil
  then show ?case by simp
next
  case (Cons op ops)
  show ?case
  proof (cases op)
    case (PutOp x)
    then show ?thesis
      using Cons.prems Cons.IH [OF put_invar [OF Cons.prems(1), of x]]
        put_iff [OF Cons.prems(1), of x] put_closed [OF Cons.prems(1), of x]
      by (auto split: prod.splits)
  next
    case GetOp
    then show ?thesis
      using Cons.prems Cons.IH [OF get_invar [OF Cons.prems(1)]] get_closed [OF Cons.prems(1)]
      by (auto split: prod.splits)
  qed
qed

text \<open>Puts alone into an open queue accept exactly the values that still fit.\<close>

lemma run_fill:
  "invar q \<Longrightarrow> \<not> closed q \<Longrightarrow>
     fst (run_queue put get (map PutOp xs) q) = take (cap q - length (contents q)) xs"
proof (induction xs arbitrary: q)
  case Nil
  then show ?case by simp
next
  case (Cons x xs)
  obtain ok q1 where p: "put x q = (ok, q1)" by (cases "put x q")
  obtain acc del q2 where r: "run_queue put get (map PutOp xs) q1 = (acc, del, q2)"
    by (cases "run_queue put get (map PutOp xs) q1")
  have i1: "invar q1" and c1: "\<not> closed q1" and cap1: "cap q1 = cap q"
    using put_invar [OF Cons.prems(1), of x] put_closed [OF Cons.prems(1), of x]
      put_cap [OF Cons.prems(1), of x] Cons.prems(2) p by auto
  have ok: "ok \<longleftrightarrow> length (contents q) < cap q"
    using put_iff [OF Cons.prems(1), of x] Cons.prems(2) p by simp
  show ?case
  proof (cases ok)
    case True
    with p Cons.prems have "contents q1 = contents q @ [x]" using put_accept [of q x q1] by simp
    with Cons.IH [OF i1 c1] cap1 r p True ok show ?thesis
      by (simp add: take_Cons' diff_diff_left)
  next
    case False
    with p Cons.prems have "contents q1 = contents q" using put_refuse [of q x q1] by simp
    with Cons.IH [OF i1 c1] cap1 r p False ok show ?thesis by simp
  qed
qed

end

end
