(* ===== verification/Bounded_Queue.thy ===== *)
theory Bounded_Queue
  imports Ring_Buffer Queue_Interface
begin

text \<open>
  \<^verbatim>\<open>class BoundedQueue<T>\<close> of \<^verbatim>\<open>include/bounded_queue.hpp\<close>: a ring of \<^verbatim>\<open>std::optional<T>\<close> with a
  head (next write), a tail (next read), a size and a closed flag. Every method runs under
  \<^verbatim>\<open>mu_\<close>, so each is one function on the record; the blocking ones return \<open>Blocked\<close> in a state in
  which their wait predicate is false, and the timed ones are given the state in which
  \<^verbatim>\<open>wait_for\<close> returned. The indices are natural numbers: the invariant keeps them below the
  capacity, which is a \<^verbatim>\<open>std::size_t\<close>, so \<^verbatim>\<open>head_ + 1\<close> never wraps.
\<close>

section \<open>State and methods\<close>

record 'a bounded_queue =
  bq_buffer :: "'a option list"
  bq_capacity :: nat
  bq_head :: nat
  bq_tail :: nat
  bq_size :: nat
  bq_closed :: bool

definition mk_bounded_queue :: "nat \<Rightarrow> fault + 'a bounded_queue" where
  "mk_bounded_queue capacity =
     (if capacity = 0 then Inl (InvalidArgument ''BoundedQueue capacity must be > 0'')
      else Inr \<lparr>bq_buffer = replicate capacity None, bq_capacity = capacity,
                bq_head = 0, bq_tail = 0, bq_size = 0, bq_closed = False\<rparr>)"

text \<open>The four statements that every successful push shares.\<close>

definition bq_enqueue :: "'a \<Rightarrow> 'a bounded_queue \<Rightarrow> 'a bounded_queue" where
  "bq_enqueue value q =
     q\<lparr>bq_buffer := (bq_buffer q)[bq_head q := Some value],
       bq_head := (bq_head q + 1) mod bq_capacity q,
       bq_size := bq_size q + 1\<rparr>"

definition bq_push :: "'a \<Rightarrow> 'a bounded_queue \<Rightarrow> (bool \<times> 'a bounded_queue) outcome" where
  "bq_push value q =
     (if bq_size q < bq_capacity q \<or> bq_closed q
      then Ret (if bq_closed q then (False, q) else (True, bq_enqueue value q))
      else Blocked)"

definition bq_try_push :: "'a \<Rightarrow> 'a bounded_queue \<Rightarrow> bool \<times> 'a bounded_queue" where
  "bq_try_push value q =
     (if bq_closed q \<or> bq_size q \<ge> bq_capacity q then (False, q)
      else (True, bq_enqueue value q))"

definition bq_try_push_for :: "'a \<Rightarrow> 'a bounded_queue \<Rightarrow> bool \<times> 'a bounded_queue" where
  "bq_try_push_for value q =
     (if \<not> (bq_size q < bq_capacity q \<or> bq_closed q) then (False, q)
      else if bq_closed q then (False, q)
      else (True, bq_enqueue value q))"

definition bq_pop_locked :: "'a bounded_queue \<Rightarrow> 'a option \<times> 'a bounded_queue" where
  "bq_pop_locked q =
     (bq_buffer q ! bq_tail q,
      q\<lparr>bq_buffer := (bq_buffer q)[bq_tail q := None],
        bq_tail := (bq_tail q + 1) mod bq_capacity q,
        bq_size := bq_size q - 1\<rparr>)"

definition bq_pop :: "'a bounded_queue \<Rightarrow> ('a option \<times> 'a bounded_queue) outcome" where
  "bq_pop q =
     (if bq_size q > 0 \<or> bq_closed q
      then Ret (if bq_size q = 0 then (None, q) else bq_pop_locked q)
      else Blocked)"

definition bq_try_pop :: "'a bounded_queue \<Rightarrow> 'a option \<times> 'a bounded_queue" where
  "bq_try_pop q = (if bq_size q = 0 then (None, q) else bq_pop_locked q)"

definition bq_try_pop_for :: "'a bounded_queue \<Rightarrow> 'a option \<times> 'a bounded_queue" where
  "bq_try_pop_for q =
     (if \<not> (bq_size q > 0 \<or> bq_closed q) then (None, q)
      else if bq_size q = 0 then (None, q)
      else bq_pop_locked q)"

definition bq_shutdown :: "'a bounded_queue \<Rightarrow> 'a bounded_queue" where
  "bq_shutdown q = q\<lparr>bq_closed := True\<rparr>"

lemmas bq_call_defs = bq_push_def bq_try_push_def bq_try_push_for_def
  bq_pop_def bq_try_pop_def bq_try_pop_for_def

section \<open>Invariant and abstraction\<close>

text \<open>
  The ring positions from the tail on hold the values, all others are empty: a popped slot
  keeps no stale payload alive.
\<close>

definition bq_inv :: "'a bounded_queue \<Rightarrow> bool" where
  "bq_inv q \<longleftrightarrow>
     0 < bq_capacity q \<and> length (bq_buffer q) = bq_capacity q \<and>
     bq_tail q < bq_capacity q \<and> bq_size q \<le> bq_capacity q \<and>
     bq_head q = ring_index (bq_buffer q) (bq_tail q) (bq_size q) \<and>
     ring_occupied (\<lambda>c. c \<noteq> None) (bq_buffer q) (bq_tail q) (bq_size q)"

definition bq_contents :: "'a bounded_queue \<Rightarrow> 'a list" where
  "bq_contents q = map the (ring_slice (bq_buffer q) (bq_tail q) (bq_size q))"

lemma bq_length_contents [simp]: "length (bq_contents q) = bq_size q"
  by (simp add: bq_contents_def)

lemma mk_bounded_queue_inv:
  "mk_bounded_queue c = Inr q \<Longrightarrow>
     bq_inv q \<and> bq_contents q = [] \<and> bq_capacity q = c \<and> \<not> bq_closed q"
  by (auto simp: mk_bounded_queue_def bq_inv_def bq_contents_def ring_index_def
      intro!: ring_occupied_empty split: if_splits)

lemma bq_inv_buffer_nonempty: "bq_inv q \<Longrightarrow> bq_buffer q \<noteq> []"
  by (auto simp: bq_inv_def)

lemma bq_enqueue_contents:
  assumes "bq_inv q" "bq_size q < bq_capacity q"
  shows "bq_contents (bq_enqueue x q) = bq_contents q @ [x]"
  using assms
  by (simp add: bq_contents_def bq_enqueue_def bq_inv_def ring_slice_push)

lemma bq_enqueue_inv:
  assumes inv: "bq_inv q" and room: "bq_size q < bq_capacity q"
  shows "bq_inv (bq_enqueue x q)"
proof -
  have "(ring_index (bq_buffer q) (bq_tail q) (bq_size q) + 1) mod bq_capacity q =
      ring_index (bq_buffer q) (bq_tail q) (Suc (bq_size q))"
    using inv ring_next_index [of "bq_buffer q" "bq_tail q" "bq_size q"]
    by (simp add: bq_inv_def ring_next_def)
  then show ?thesis
    using inv room ring_occupied_push [of "\<lambda>c. c \<noteq> None" "bq_buffer q" "bq_tail q" "bq_size q"]
    by (simp add: bq_inv_def bq_enqueue_def)
qed

lemma bq_pop_locked_spec:
  assumes inv: "bq_inv q" and ne: "0 < bq_size q"
  shows "\<exists>x q'. bq_pop_locked q = (Some x, q') \<and> bq_contents q = x # bq_contents q' \<and> bq_inv q'"
proof -
  let ?b = "bq_buffer q" and ?t = "bq_tail q" and ?q = "snd (bq_pop_locked q)"
  obtain n where n: "bq_size q = Suc n" using ne by (cases "bq_size q") auto
  have t: "?t < length ?b" and len: "length ?b = bq_capacity q" and nb: "n < length ?b"
    and occ: "ring_occupied (\<lambda>c. c \<noteq> None) ?b ?t (Suc n)"
    using inv n by (auto simp: bq_inv_def)
  have next_t: "(?t + 1) mod bq_capacity q = ring_next ?b ?t"
    using len by (simp add: ring_next_def)
  obtain x where x: "?b ! ?t = Some x" using ring_occupied_head [OF occ t] by auto
  have "bq_contents q = x # bq_contents ?q"
    using t nb n x next_t
    by (simp add: bq_contents_def bq_pop_locked_def ring_slice_pop ring_slice_clear)
  moreover have "ring_next ?b ?t < bq_capacity q" using t len ring_next_less [of ?b ?t] by fastforce
  then have "bq_inv ?q"
    using inv n next_t ring_occupied_pop [OF occ t nb, of None]
    by (simp add: bq_inv_def bq_pop_locked_def ring_index_next)
  ultimately show ?thesis
    using x by (intro exI [of _ x] exI [of _ ?q]) (simp add: bq_pop_locked_def)
qed

lemma bq_shutdown_inv: "bq_inv q \<Longrightarrow> bq_inv (bq_shutdown q)"
  by (simp add: bq_inv_def bq_shutdown_def)

lemma bq_field_simps [simp]:
  "bq_capacity (bq_enqueue x q) = bq_capacity q" "bq_closed (bq_enqueue x q) = bq_closed q"
  "bq_size (bq_enqueue x q) = Suc (bq_size q)"
  "bq_capacity (snd (bq_pop_locked q)) = bq_capacity q"
  "bq_closed (snd (bq_pop_locked q)) = bq_closed q"
  "bq_size (snd (bq_pop_locked q)) = bq_size q - 1"
  "bq_size (bq_shutdown q) = bq_size q" "bq_capacity (bq_shutdown q) = bq_capacity q"
  "bq_closed (bq_shutdown q)" "bq_contents (bq_shutdown q) = bq_contents q"
  by (simp_all add: bq_enqueue_def bq_pop_locked_def bq_shutdown_def bq_contents_def)

section \<open>The queue contract\<close>

interpretation bq: bounded_fifo_queue bq_contents bq_inv bq_try_push bq_try_pop bq_capacity bq_closed
proof (unfold_locales, goal_cases)
  case (1 q x q')
  then show ?case
    by (auto simp: bq_try_push_def bq_enqueue_contents bq_enqueue_inv split: if_splits)
next
  case (2 q x q')
  then show ?case by (auto simp: bq_try_push_def split: if_splits)
next
  case (3 q q')
  then show ?case
    using bq_pop_locked_spec [of q] by (auto simp: bq_try_pop_def bq_contents_def split: if_splits)
next
  case (4 q x q')
  then show ?case
    using bq_pop_locked_spec [of q] by (auto simp: bq_try_pop_def split: if_splits)
next
  case (5 q x)
  then show ?case by (auto simp: bq_try_push_def)
next
  case (6 q)
  then show ?case by (simp add: bq_inv_def)
qed (auto simp: bq_try_push_def bq_try_pop_def)

end
