(* ===== verification/Bounded_Queue_Threads.thy ===== *)
theory Bounded_Queue_Threads
  imports Bounded_Queue Monitor
begin

text \<open>
  \<^verbatim>\<open>BoundedQueue<T>\<close> used by any number of producer and consumer threads. The state adds to the
  queue the waiters of \<^verbatim>\<open>not_full_\<close> and of \<^verbatim>\<open>not_empty_\<close> and the value each blocked producer is
  carrying. One step is one critical section of one thread; which thread moves, which waiter a
  \<^verbatim>\<open>notify_one\<close> picks, and when a wait times out or wakes spuriously are not determined. The
  label of a step is what the call returned.
\<close>

record 'a bq_sys =
  bqs_queue :: "'a bounded_queue"
  bqs_not_full :: waiters
  bqs_not_empty :: waiters
  bqs_pending :: "tid \<rightharpoonup> 'a"

datatype 'a bq_event = Pushed 'a bool | Popped "'a option" | Quiet

definition bqs_idle :: "'a bq_sys \<Rightarrow> tid \<Rightarrow> bool" where
  "bqs_idle s t \<longleftrightarrow> \<not> waiting t (bqs_not_full s) \<and> \<not> waiting t (bqs_not_empty s)"

definition bqs_may_push :: "'a bq_sys \<Rightarrow> tid \<Rightarrow> 'a \<Rightarrow> bool" where
  "bqs_may_push s t v \<longleftrightarrow>
     bqs_idle s t \<or> t \<in> woken (bqs_not_full s) \<and> bqs_pending s t = Some v"

definition bqs_may_pop :: "'a bq_sys \<Rightarrow> tid \<Rightarrow> bool" where
  "bqs_may_pop s t \<longleftrightarrow> bqs_idle s t \<or> t \<in> woken (bqs_not_empty s)"

inductive bq_step :: "'a bq_sys \<Rightarrow> tid \<Rightarrow> 'a bq_event \<Rightarrow> 'a bq_sys \<Rightarrow> bool" where
  push_done: "bqs_may_push s t v \<Longrightarrow> bq_push v (bqs_queue s) = Ret (ok, q) \<Longrightarrow>
    notify_if ok (bqs_not_empty s) w \<Longrightarrow>
    bq_step s t (Pushed v ok) (s\<lparr>bqs_queue := q, bqs_not_full := leave t (bqs_not_full s),
      bqs_not_empty := w, bqs_pending := (bqs_pending s)(t := None)\<rparr>)"
| push_park: "bqs_may_push s t v \<Longrightarrow> bq_push v (bqs_queue s) = Blocked \<Longrightarrow>
    bq_step s t Quiet (s\<lparr>bqs_not_full := park t (bqs_not_full s),
      bqs_pending := (bqs_pending s)(t := Some v)\<rparr>)"
| push_timeout: "t \<in> woken (bqs_not_full s) \<Longrightarrow> bqs_pending s t = Some v \<Longrightarrow>
    bq_try_push_for v (bqs_queue s) = (False, q) \<Longrightarrow>
    bq_step s t (Pushed v False) (s\<lparr>bqs_queue := q, bqs_not_full := leave t (bqs_not_full s),
      bqs_pending := (bqs_pending s)(t := None)\<rparr>)"
| pop_done: "bqs_may_pop s t \<Longrightarrow> bq_pop (bqs_queue s) = Ret (r, q) \<Longrightarrow>
    notify_if (0 < bq_size (bqs_queue s)) (bqs_not_full s) w \<Longrightarrow>
    bq_step s t (Popped r) (s\<lparr>bqs_queue := q, bqs_not_full := w,
      bqs_not_empty := leave t (bqs_not_empty s)\<rparr>)"
| pop_park: "bqs_may_pop s t \<Longrightarrow> bq_pop (bqs_queue s) = Blocked \<Longrightarrow>
    bq_step s t Quiet (s\<lparr>bqs_not_empty := park t (bqs_not_empty s)\<rparr>)"
| pop_timeout: "t \<in> woken (bqs_not_empty s) \<Longrightarrow> bq_try_pop_for (bqs_queue s) = (None, q) \<Longrightarrow>
    bq_step s t (Popped None) (s\<lparr>bqs_queue := q, bqs_not_empty := leave t (bqs_not_empty s)\<rparr>)"
| try_push: "bqs_idle s t \<Longrightarrow> bq_try_push v (bqs_queue s) = (ok, q) \<Longrightarrow>
    notify_if ok (bqs_not_empty s) w \<Longrightarrow>
    bq_step s t (Pushed v ok) (s\<lparr>bqs_queue := q, bqs_not_empty := w\<rparr>)"
| try_pop: "bqs_idle s t \<Longrightarrow> bq_try_pop (bqs_queue s) = (r, q) \<Longrightarrow>
    notify_if (0 < bq_size (bqs_queue s)) (bqs_not_full s) w \<Longrightarrow>
    bq_step s t (Popped r) (s\<lparr>bqs_queue := q, bqs_not_full := w\<rparr>)"
| wake_push: "t \<in> parked (bqs_not_full s) \<Longrightarrow>
    bq_step s t Quiet (s\<lparr>bqs_not_full := wake t (bqs_not_full s)\<rparr>)"
| wake_pop: "t \<in> parked (bqs_not_empty s) \<Longrightarrow>
    bq_step s t Quiet (s\<lparr>bqs_not_empty := wake t (bqs_not_empty s)\<rparr>)"
| shut: "bqs_idle s t \<Longrightarrow>
    bq_step s t Quiet (s\<lparr>bqs_queue := bq_shutdown (bqs_queue s),
      bqs_not_full := notify_all (bqs_not_full s),
      bqs_not_empty := notify_all (bqs_not_empty s)\<rparr>)"

inductive bq_run :: "'a bq_sys \<Rightarrow> 'a bq_event list \<Rightarrow> 'a bq_sys \<Rightarrow> bool" where
  bq_run_nil: "bq_run s [] s"
| bq_run_cons: "bq_step s t e s' \<Longrightarrow> bq_run s' es s'' \<Longrightarrow> bq_run s (e # es) s''"

definition bqs_init :: "'a bounded_queue \<Rightarrow> 'a bq_sys" where
  "bqs_init q = \<lparr>bqs_queue = q, bqs_not_full = no_waiters, bqs_not_empty = no_waiters,
                 bqs_pending = Map.empty\<rparr>"

text \<open>The values whose push returned true, and the values the pops returned, in order.\<close>

fun bq_accepted :: "'a bq_event list \<Rightarrow> 'a list" where
  "bq_accepted [] = []"
| "bq_accepted (Pushed v True # es) = v # bq_accepted es"
| "bq_accepted (e # es) = bq_accepted es"

fun bq_delivered :: "'a bq_event list \<Rightarrow> 'a list" where
  "bq_delivered [] = []"
| "bq_delivered (Popped (Some v) # es) = v # bq_delivered es"
| "bq_delivered (e # es) = bq_delivered es"

section \<open>The blocking calls are the non-blocking ones behind a gate\<close>

lemma bq_push_eq:
  "bq_push v q =
     (if bq_size q \<ge> bq_capacity q \<and> \<not> bq_closed q then Blocked else Ret (bq_try_push v q))"
  by (auto simp: bq_call_defs)

lemma bq_try_push_for_eq: "bq_try_push_for v q = bq_try_push v q"
  by (auto simp: bq_call_defs)

lemma bq_pop_eq:
  "bq_pop q = (if bq_size q = 0 \<and> \<not> bq_closed q then Blocked else Ret (bq_try_pop q))"
  by (auto simp: bq_call_defs)

lemma bq_try_pop_for_eq: "bq_try_pop_for q = bq_try_pop q"
  by (auto simp: bq_call_defs)

lemmas bq_gate_eqs = bq_push_eq bq_try_push_for_eq bq_pop_eq bq_try_pop_for_eq

section \<open>The invariant\<close>

definition bqs_inv :: "'a bq_sys \<Rightarrow> bool" where
  "bqs_inv s \<longleftrightarrow>
     bq_inv (bqs_queue s) \<and>
     waiters_ok (bqs_not_full s) \<and> waiters_ok (bqs_not_empty s) \<and>
     covered (bq_capacity (bqs_queue s) - bq_size (bqs_queue s)) (bqs_not_full s) \<and>
     covered (bq_size (bqs_queue s)) (bqs_not_empty s) \<and>
     (bq_closed (bqs_queue s) \<longrightarrow> parked (bqs_not_full s) = {} \<and> parked (bqs_not_empty s) = {}) \<and>
     (\<forall>t. waiting t (bqs_not_full s) \<longrightarrow> bqs_pending s t \<noteq> None)"

lemma bqs_inv_init: "bq_inv q \<Longrightarrow> bqs_inv (bqs_init q)"
  by (simp add: bqs_inv_def bqs_init_def waiting_def)

lemma waiting_simps:
  "waiting u (leave t w) \<Longrightarrow> waiting u w"
  "waiting u (wake t w) \<Longrightarrow> u = t \<or> waiting u w"
  "waiting u (park t w) \<Longrightarrow> u = t \<or> waiting u w"
  "waiting u (notify_all w) \<Longrightarrow> waiting u w"
  by (auto simp: waiting_def leave_def wake_def park_def notify_all_def)

lemma waiting_notify_if: "notify_if b w w' \<Longrightarrow> waiting u w' \<Longrightarrow> waiting u w"
  by (auto simp: notify_if_def waiting_def wake_def split: if_splits elim!: notify_one.cases)

lemma waiting_leave_self: "waiters_ok w \<Longrightarrow> t \<notin> parked w \<Longrightarrow> \<not> waiting t (leave t w)"
  by (auto simp: waiting_def leave_def)

lemma notify_if_props:
  assumes "notify_if b w w'" "waiters_ok w"
  shows "waiters_ok w'" "parked w = {} \<Longrightarrow> parked w' = {}"
    "covered n w \<Longrightarrow> covered (if b then Suc n else n) w'"
  using assms waiters_ok_notify_one covered_notify_one notify_one_parked_subset [of w w']
  by (auto simp: notify_if_def split: if_splits)

lemma bq_try_push_cases:
  assumes "bq_inv q" "bq_try_push v q = (ok, q')"
  shows "bq_inv q' \<and> bq_capacity q' = bq_capacity q \<and> bq_closed q' = bq_closed q \<and>
    bq_size q' = (if ok then Suc (bq_size q) else bq_size q) \<and>
    bq_contents q' = bq_contents q @ (if ok then [v] else []) \<and>
    (ok \<longrightarrow> bq_size q < bq_capacity q) \<and> (\<not> ok \<longrightarrow> q' = q)"
  using assms by (auto simp: bq_try_push_def bq_enqueue_inv bq_enqueue_contents split: if_splits)

lemma bq_try_pop_cases:
  assumes "bq_inv q" "bq_try_pop q = (r, q')"
  shows "bq_inv q' \<and> bq_capacity q' = bq_capacity q \<and> bq_closed q' = bq_closed q \<and>
    bq_size q' = bq_size q - 1 \<and> (r = None \<longleftrightarrow> bq_size q = 0) \<and>
    bq_contents q = (case r of None \<Rightarrow> [] | Some v \<Rightarrow> [v]) @ bq_contents q'"
proof (cases "bq_size q = 0")
  case True
  then show ?thesis using assms by (auto simp: bq_try_pop_def bq_contents_def)
next
  case False
  then obtain x q1 where p: "bq_pop_locked q = (Some x, q1)" "bq_contents q = x # bq_contents q1"
    "bq_inv q1" using bq_pop_locked_spec [OF assms(1)] by auto
  then have "r = Some x" "q' = q1" using assms(2) False by (auto simp: bq_try_pop_def)
  then show ?thesis using p False bq_field_simps(4-6) [of q] by simp
qed

lemma bqs_inv_push:
  assumes inv: "bqs_inv s" and p: "bq_try_push v (bqs_queue s) = (ok, q)"
    and n: "notify_if ok (bqs_not_empty s) w"
    and nf: "nf = bqs_not_full s \<or> nf = leave t (bqs_not_full s)"
    and pend: "\<And>u. waiting u nf \<Longrightarrow> pd u \<noteq> None"
  shows "bqs_inv (s\<lparr>bqs_queue := q, bqs_not_full := nf, bqs_not_empty := w, bqs_pending := pd\<rparr>)"
proof -
  have q: "bq_inv (bqs_queue s)" using inv by (simp add: bqs_inv_def)
  note pc = bq_try_push_cases [OF q p]
  let ?room = "bq_capacity (bqs_queue s) - bq_size (bqs_queue s)"
  have w: "waiters_ok w" "bq_closed q \<Longrightarrow> parked w = {}" "covered (bq_size q) w"
    using notify_if_props [OF n] inv pc by (auto simp: bqs_inv_def)
  have ok_nf: "waiters_ok nf" "bq_closed q \<Longrightarrow> parked nf = {}"
    using nf inv pc by (auto simp: bqs_inv_def)
  have "covered (?room - 1) nf"
    using nf inv covered_leave [of "bqs_not_full s" ?room t]
      covered_mono [of ?room "bqs_not_full s" "?room - 1"] by (auto simp: bqs_inv_def)
  moreover have "\<not> ok \<Longrightarrow> ?room = 0 \<or> parked nf = {}"
    using p ok_nf(2) pc by (auto simp: bq_try_push_def split: if_splits)
  ultimately have "covered (bq_capacity q - bq_size q) nf"
    using pc by (cases ok) (auto simp: covered_def)
  then show ?thesis using w ok_nf pc pend by (simp add: bqs_inv_def)
qed

lemma bqs_inv_pop:
  assumes inv: "bqs_inv s" and p: "bq_try_pop (bqs_queue s) = (r, q)"
    and n: "notify_if (0 < bq_size (bqs_queue s)) (bqs_not_full s) w"
    and ne: "ne = bqs_not_empty s \<or> ne = leave t (bqs_not_empty s)"
  shows "bqs_inv (s\<lparr>bqs_queue := q, bqs_not_full := w, bqs_not_empty := ne\<rparr>)"
proof -
  have q: "bq_inv (bqs_queue s)" using inv by (simp add: bqs_inv_def)
  note pc = bq_try_pop_cases [OF q p]
  let ?room = "bq_capacity (bqs_queue s) - bq_size (bqs_queue s)"
  have sz: "bq_size (bqs_queue s) \<le> bq_capacity (bqs_queue s)" using q by (simp add: bq_inv_def)
  have w: "waiters_ok w" "bq_closed q \<Longrightarrow> parked w = {}"
      "covered (if 0 < bq_size (bqs_queue s) then Suc ?room else ?room) w"
    using notify_if_props [OF n] inv pc by (auto simp: bqs_inv_def)
  have "covered (bq_capacity q - bq_size q) w" using w(3) pc sz
    by (cases "0 < bq_size (bqs_queue s)") (auto simp: Suc_diff_le)
  moreover have "covered (bq_size q) ne"
    using ne inv pc covered_leave [of "bqs_not_empty s" "bq_size (bqs_queue s)" t]
      covered_mono [of "bq_size (bqs_queue s)" "bqs_not_empty s" "bq_size q"]
    by (auto simp: bqs_inv_def)
  moreover have "waiters_ok ne" "bq_closed q \<Longrightarrow> parked ne = {}"
    using ne inv pc by (auto simp: bqs_inv_def)
  moreover have "\<And>u. waiting u w \<Longrightarrow> bqs_pending s u \<noteq> None"
    using waiting_notify_if [OF n] inv by (auto simp: bqs_inv_def)
  ultimately show ?thesis using w pc by (simp add: bqs_inv_def)
qed

lemma bqs_idle_simps: "bqs_idle s t \<Longrightarrow> t \<notin> parked (bqs_not_full s)"
  by (simp add: bqs_idle_def waiting_def)

lemma bqs_may_push_not_parked:
  "bqs_inv s \<Longrightarrow> bqs_may_push s t v \<Longrightarrow> t \<notin> parked (bqs_not_full s)"
  by (auto simp: bqs_may_push_def bqs_inv_def waiters_ok_def dest: bqs_idle_simps)

lemma bqs_leave_pending:
  assumes "bqs_inv s" "t \<notin> parked (bqs_not_full s)" "waiting u (leave t (bqs_not_full s))"
  shows "((bqs_pending s)(t := None)) u \<noteq> None"
  using assms waiting_leave_self [of "bqs_not_full s" t] waiting_simps(1) [of u t]
  by (auto simp: bqs_inv_def)

lemma bq_step_inv:
  assumes step: "bq_step s t e s'" and inv: "bqs_inv s"
  shows "bqs_inv s'"
  using step
proof cases
  case (push_done v ok q w)
  then have "bq_try_push v (bqs_queue s) = (ok, q)" by (auto simp: bq_push_eq split: if_splits)
  with push_done show ?thesis
    using bqs_inv_push [OF inv _ push_done(5), of v q _ t]
      bqs_leave_pending [OF inv bqs_may_push_not_parked [OF inv push_done(3)]] by simp
next
  case (push_park v)
  then show ?thesis
    using inv by (auto simp: bqs_inv_def bq_push_eq dest: waiting_simps split: if_splits)
next
  case (push_timeout v q)
  have np: "t \<notin> parked (bqs_not_full s)"
    using push_timeout inv by (auto simp: bqs_inv_def waiters_ok_def)
  have "bq_try_push v (bqs_queue s) = (False, q)" using push_timeout by (simp add: bq_gate_eqs)
  then show ?thesis
    using bqs_inv_push [OF inv, of v False q "bqs_not_empty s" "leave t (bqs_not_full s)" t
        "(bqs_pending s)(t := None)"] bqs_leave_pending [OF inv np] push_timeout
    by (simp add: notify_if_def)
next
  case (pop_done r q w)
  then have "bq_try_pop (bqs_queue s) = (r, q)" by (auto simp: bq_pop_eq split: if_splits)
  then show ?thesis using bqs_inv_pop [OF inv _ pop_done(5), of r q _ t] pop_done by simp
next
  case pop_park
  then show ?thesis using inv by (auto simp: bqs_inv_def bq_pop_eq split: if_splits)
next
  case (pop_timeout q)
  then have p: "bq_try_pop (bqs_queue s) = (None, q)" by (simp add: bq_gate_eqs)
  have "bq_size (bqs_queue s) = 0" using bq_try_pop_cases [OF _ p] inv by (simp add: bqs_inv_def)
  then show ?thesis
    using bqs_inv_pop [OF inv p, of "bqs_not_full s" "leave t (bqs_not_empty s)" t] pop_timeout by (simp add: notify_if_def)
next
  case (try_push v ok q w)
  then show ?thesis
    using bqs_inv_push [OF inv try_push(4,5), of "bqs_not_full s" t "bqs_pending s"] inv
    by (simp add: bqs_inv_def)
next
  case (try_pop r q w)
  then show ?thesis using bqs_inv_pop [OF inv try_pop(4,5), of "bqs_not_empty s" t] by simp
next
  case wake_push
  then have "waiting t (bqs_not_full s)" "\<not> bq_closed (bqs_queue s)"
    using inv by (auto simp: bqs_inv_def waiting_def)
  then show ?thesis using wake_push inv waiting_simps(2) [of _ t "bqs_not_full s"]
    by (simp add: bqs_inv_def covered_wake) blast
next
  case wake_pop
  then have "\<not> bq_closed (bqs_queue s)" using inv by (auto simp: bqs_inv_def)
  then show ?thesis using wake_pop inv by (simp add: bqs_inv_def covered_wake)
next
  case shut
  then show ?thesis
    using inv by (auto simp: bqs_inv_def bq_shutdown_inv dest: waiting_simps(4))
qed

lemma bq_run_inv: "bq_run s es s' \<Longrightarrow> bqs_inv s \<Longrightarrow> bqs_inv s'"
  by (induction rule: bq_run.induct) (auto intro: bq_step_inv)


lemma bq_step_conserves:
  assumes "bq_step s t e s'" "bqs_inv s"
  shows "bq_contents (bqs_queue s) @ bq_accepted [e] = bq_delivered [e] @ bq_contents (bqs_queue s') \<and>
    bq_capacity (bqs_queue s') = bq_capacity (bqs_queue s)"
proof -
  have q: "bq_inv (bqs_queue s)" using assms(2) by (simp add: bqs_inv_def)
  note cases_q = bq_try_push_cases [OF q] bq_try_pop_cases [OF q]
  have acc: "bq_accepted [Pushed v ok] = (if ok then [v] else [])"
    and del: "bq_delivered [Popped r] = (case r of None \<Rightarrow> [] | Some v \<Rightarrow> [v])" for v :: 'a and ok r
    by (cases ok; simp) (cases r; simp)
  from assms(1) show ?thesis
    by cases (auto simp: bq_gate_eqs acc del dest!: cases_q split: if_splits option.splits)
qed

lemma bq_accepted_Cons: "bq_accepted (e # es) = bq_accepted [e] @ bq_accepted es"
  by (cases "(e # es)" rule: bq_accepted.cases) auto

lemma bq_delivered_Cons: "bq_delivered (e # es) = bq_delivered [e] @ bq_delivered es"
  by (cases "(e # es)" rule: bq_delivered.cases) auto

lemma bq_run_conserves:
  "bq_run s es s' \<Longrightarrow> bqs_inv s \<Longrightarrow>
     bq_contents (bqs_queue s) @ bq_accepted es = bq_delivered es @ bq_contents (bqs_queue s') \<and>
     bq_capacity (bqs_queue s') = bq_capacity (bqs_queue s)"
proof (induction rule: bq_run.induct)
  case (bq_run_cons s t e s' es s'')
  then show ?case
    using bq_step_conserves [OF bq_run_cons(1,4)] bq_step_inv [OF bq_run_cons(1,4)]
    by (subst bq_accepted_Cons, subst bq_delivered_Cons) (simp, metis append_assoc)
qed simp

lemma bq_reachable_inv:
  "mk_bounded_queue c = Inr q \<Longrightarrow> bq_run (bqs_init q) es s \<Longrightarrow> bqs_inv s"
  using bq_run_inv bqs_inv_init mk_bounded_queue_inv by blast

section \<open>Two concrete runs\<close>

text \<open>
  On a queue of one slot: two consumers sleep and a value arrives; two producers sleep on the
  full queue and the slot is freed, then the queue is shut down. \<open>bqs_of\<close> names the states.
\<close>

definition bqs_of :: "'a option \<Rightarrow> waiters \<Rightarrow> waiters \<Rightarrow> (tid \<rightharpoonup> 'a) \<Rightarrow> bool \<Rightarrow> 'a bq_sys" where
  "bqs_of x nf ne pd cl = \<lparr>bqs_queue = \<lparr>bq_buffer = [x], bq_capacity = 1, bq_head = 0, bq_tail = 0,
     bq_size = (if x = None then 0 else 1), bq_closed = cl\<rparr>,
     bqs_not_full = nf, bqs_not_empty = ne, bqs_pending = pd\<rparr>"

lemmas bqs_eval = bqs_of_def bqs_may_push_def bqs_may_pop_def bqs_idle_def waiting_def
  bq_call_defs bq_enqueue_def bq_pop_locked_def notify_if_def bq_shutdown_def bq_contents_def
  park_def wake_def leave_def notify_all_def no_waiters_def ring_slice_def ring_index_def

lemma bq_example_new:
  "mk_bounded_queue 1 = Inr (bqs_queue (bqs_of None no_waiters no_waiters Map.empty False))"
  by (simp add: mk_bounded_queue_def bqs_of_def)

lemma bq_example_init:
  "bqs_init (bqs_queue (bqs_of None no_waiters no_waiters Map.empty False)) =
     bqs_of None no_waiters no_waiters Map.empty False"
  by (simp add: bqs_of_def bqs_init_def)

lemma bq_example_consumers:
  "bq_run (bqs_of None no_waiters no_waiters Map.empty False) [Quiet, Quiet, Pushed (7::nat) True]
     (bqs_of (Some 7) no_waiters ({2}, {1}) Map.empty False)"
proof -
  let ?s = "\<lambda>x w. bqs_of x no_waiters w (Map.empty :: tid \<rightharpoonup> nat) False"
  have "bq_step (?s None no_waiters) 1 Quiet (?s None ({1}, {}))"
    using pop_park [of "?s None no_waiters" 1] by (simp add: bqs_eval)
  moreover have "bq_step (?s None ({1}, {})) 2 Quiet (?s None ({1, 2}, {}))"
    using pop_park [of "?s None ({1}, {})" 2] by (simp add: bqs_eval insert_commute)
  moreover have "notify_one ({1, 2}, {}) ({2}, {1})"
    using somebody [of 1 "({1, 2}, {})"] by (simp add: wake_def)
  then have "bq_step (?s None ({1, 2}, {})) 3 (Pushed 7 True) (?s (Some 7) ({2}, {1}))"
    using try_push [of "?s None ({1, 2}, {})" 3 7 True _ "({2}, {1})"] by (simp add: bqs_eval)
  ultimately show ?thesis by (blast intro: bq_run.intros)
qed

lemma bq_example_producers:
  "bq_run (bqs_of None no_waiters no_waiters Map.empty False)
     [Pushed (5::nat) True, Quiet, Quiet, Popped (Some 5)]
     (bqs_of None ({3}, {2}) no_waiters [2 \<mapsto> 6, 3 \<mapsto> 7] False)"
proof -
  let ?s = "\<lambda>x w pd. bqs_of x w no_waiters pd False"
  have "notify_one no_waiters no_waiters" by (simp add: nobody)
  then have "bq_step (?s None no_waiters Map.empty) 1 (Pushed 5 True) (?s (Some 5) no_waiters Map.empty)"
    using push_done [of "?s None no_waiters Map.empty" 1 5 True _ "no_waiters"]
    by (simp add: bqs_eval fun_upd_idem)
  moreover have "bq_step (?s (Some 5) no_waiters Map.empty) 2 Quiet (?s (Some 5) ({2}, {}) [2 \<mapsto> 6])"
    using push_park [of "?s (Some 5) no_waiters Map.empty" 2 6] by (simp add: bqs_eval)
  moreover have "bq_step (?s (Some 5) ({2}, {}) [2 \<mapsto> 6]) 3 Quiet
      (?s (Some 5) ({2, 3}, {}) [2 \<mapsto> 6, 3 \<mapsto> 7])"
    using push_park [of "?s (Some 5) ({2}, {}) [2 \<mapsto> 6]" 3 7] by (simp add: bqs_eval insert_commute)
  moreover have "notify_one ({2, 3}, {}) ({3}, {2})"
    using somebody [of 2 "({2, 3}, {})"] by (simp add: wake_def)
  then have "bq_step (?s (Some 5) ({2, 3}, {}) [2 \<mapsto> 6, 3 \<mapsto> 7]) 4 (Popped (Some 5))
      (?s None ({3}, {2}) [2 \<mapsto> 6, 3 \<mapsto> 7])"
    using try_pop [of "?s (Some 5) ({2, 3}, {}) [2 \<mapsto> 6, 3 \<mapsto> 7]" 4 "Some 5" _ "({3}, {2})"]
    by (simp add: bqs_eval)
  ultimately show ?thesis by (blast intro: bq_run.intros)
qed

lemma bq_run_snoc: "bq_run s es s' \<Longrightarrow> bq_step s' t e s'' \<Longrightarrow> bq_run s (es @ [e]) s''"
  by (induction rule: bq_run.induct) (auto intro: bq_run.intros)

lemma bq_example_shutdown:
  "bq_run (bqs_of None no_waiters no_waiters Map.empty False)
     ([Pushed (5::nat) True, Quiet, Quiet, Popped (Some 5)] @ [Quiet])
     (bqs_of None ({}, {3, 2}) no_waiters [2 \<mapsto> 6, 3 \<mapsto> 7] True)"
  using bq_run_snoc [OF bq_example_producers, of 9 Quiet]
    shut [of "bqs_of None ({3}, {2}) no_waiters [2 \<mapsto> 6, 3 \<mapsto> (7::nat)] False" 9]
  by (simp add: bqs_eval insert_commute)

section \<open>Properties\<close>

text \<open>
  C1: first in, first out under any interleaving. Whatever producers and consumers do to a new
  queue, with blocking, timed and non-blocking calls and \<^verbatim>\<open>shutdown\<close> in any order, the values whose
  push returned true are exactly the values the pops returned, in the same order, followed by
  what the queue still holds, and it never holds more than its capacity.
\<close>

theorem bq_threads_fifo:
  assumes "mk_bounded_queue c = Inr q" "bq_run (bqs_init q) es s"
  shows "bq_accepted es = bq_delivered es @ bq_contents (bqs_queue s) \<and>
    length (bq_contents (bqs_queue s)) \<le> c"
  using bq_run_conserves [OF assms(2)] bq_reachable_inv [OF assms] mk_bounded_queue_inv [OF assms(1)]
    bqs_inv_init [of q] by (auto simp: bqs_init_def bqs_inv_def bq_inv_def)

theorem bq_threads_fifo_witness:
  "bq_accepted [Pushed (5::nat) True, Quiet, Quiet, Popped (Some 5)] = [5] \<and>
   bq_contents (bqs_queue (bqs_of None ({3}, {2}) no_waiters [2 \<mapsto> 6, 3 \<mapsto> 7] False)) = ([] :: nat list)"
  using bq_threads_fifo [OF bq_example_new, unfolded bq_example_init, OF bq_example_producers] by simp

text \<open>
  C20: no lost wake-up for consumers. Whenever a thread is parked in \<^verbatim>\<open>pop\<close> or \<^verbatim>\<open>try_pop_for\<close>
  while the queue holds a value, some woken consumer's next step delivers the oldest value.
\<close>

theorem bq_consumer_not_stranded:
  assumes "mk_bounded_queue c = Inr q" "bq_run (bqs_init q) es s"
    and "t \<in> parked (bqs_not_empty s)" "bq_contents (bqs_queue s) = v # rest"
  shows "\<exists>u s'. u \<in> woken (bqs_not_empty s) \<and> bq_step s u (Popped (Some v)) s' \<and>
    bq_contents (bqs_queue s') = rest"
proof -
  have inv: "bqs_inv s" by (rule bq_reachable_inv [OF assms(1,2)])
  have sz: "0 < bq_size (bqs_queue s)" using assms(4) bq_length_contents [of "bqs_queue s"] by simp
  obtain u where u: "u \<in> woken (bqs_not_empty s)"
    using inv covered_woken [OF _ _ assms(3) sz] by (auto simp: bqs_inv_def)
  obtain x q' where pop: "bq_pop_locked (bqs_queue s) = (Some x, q')"
      "bq_contents (bqs_queue s) = x # bq_contents q'"
    using bq_pop_locked_spec [OF _ sz] inv by (auto simp only: bqs_inv_def)
  obtain w where w: "notify_if (0 < bq_size (bqs_queue s)) (bqs_not_full s) w"
    using notify_if_total by blast
  have "bq_pop (bqs_queue s) = Ret (Some x, q')" using pop sz by (simp add: bq_pop_def)
  from pop_done [OF _ this w, of u] show ?thesis using u pop assms(4)
    by (fastforce simp: bqs_may_pop_def)
qed

theorem bq_consumer_not_stranded_witness:
  "\<exists>u s'. u \<in> {1} \<and>
     bq_step (bqs_of (Some (7::nat)) no_waiters ({2}, {1}) Map.empty False) u (Popped (Some 7)) s' \<and>
     bq_contents (bqs_queue s') = []"
  using bq_consumer_not_stranded
      [OF bq_example_new, unfolded bq_example_init, OF bq_example_consumers, of 2 7 "[]"]
  by (simp add: bqs_of_def bq_contents_def ring_slice_def ring_index_def)

text \<open>
  C31: no lost wake-up for producers. Whenever a thread is parked in \<^verbatim>\<open>push\<close> or \<^verbatim>\<open>try_push_for\<close>
  while the queue has room, some woken producer is carrying a value that its next step appends.
\<close>

theorem bq_producer_not_stranded:
  assumes "mk_bounded_queue c = Inr q" "bq_run (bqs_init q) es s"
    and "t \<in> parked (bqs_not_full s)" "length (bq_contents (bqs_queue s)) < c"
  shows "\<exists>u v s'. u \<in> woken (bqs_not_full s) \<and> bqs_pending s u = Some v \<and>
    bq_step s u (Pushed v True) s' \<and>
    bq_contents (bqs_queue s') = bq_contents (bqs_queue s) @ [v]"
proof -
  have inv: "bqs_inv s" by (rule bq_reachable_inv [OF assms(1,2)])
  have cap: "bq_capacity (bqs_queue s) = c"
    using bq_run_conserves [OF assms(2)] bqs_inv_init mk_bounded_queue_inv [OF assms(1)]
    by (auto simp: bqs_init_def)
  then have room: "bq_size (bqs_queue s) < bq_capacity (bqs_queue s)" using assms(4) by simp
  obtain u where u: "u \<in> woken (bqs_not_full s)"
    using inv covered_woken [OF _ _ assms(3), of "bq_capacity (bqs_queue s) - bq_size (bqs_queue s)"]
      room by (auto simp: bqs_inv_def)
  then obtain v where v: "bqs_pending s u = Some v" using inv by (auto simp: bqs_inv_def waiting_def)
  have "\<not> bq_closed (bqs_queue s)" using inv assms(3) by (auto simp: bqs_inv_def)
  then have p: "bq_push v (bqs_queue s) = Ret (True, bq_enqueue v (bqs_queue s))"
    using room by (simp add: bq_push_def)
  obtain w where w: "notify_if True (bqs_not_empty s) w"
    using notify_if_total by blast
  have "bq_contents (bq_enqueue v (bqs_queue s)) = bq_contents (bqs_queue s) @ [v]"
    using inv room by (simp add: bqs_inv_def bq_enqueue_contents)
  moreover have "bqs_may_push s u v" using u v by (simp add: bqs_may_push_def)
  ultimately show ?thesis using push_done [OF _ p w, of u] u v
    by (intro exI [of _ u] exI [of _ v] exI conjI) (assumption | force)+
qed

theorem bq_producer_not_stranded_witness:
  "\<exists>v s'. bq_step (bqs_of None ({3}, {2}) no_waiters [2 \<mapsto> 6, 3 \<mapsto> (7::nat)] False) 2 (Pushed v True) s' \<and>
     v = 6 \<and> bq_contents (bqs_queue s') = [v]"
  using bq_producer_not_stranded
      [OF bq_example_new, unfolded bq_example_init, OF bq_example_producers, of 3]
  by (auto simp: bqs_of_def bq_contents_def ring_slice_def ring_index_def)

text \<open>
  C21: graceful shutdown. In every reachable state in which the queue is closed nobody sleeps any
  more, and every thread that was waiting can take the step that makes its call return: a
  producer with false, a consumer with the oldest value or, when there is none, with nothing.
\<close>

theorem bq_shutdown_releases_all:
  assumes "mk_bounded_queue c = Inr q" "bq_run (bqs_init q) es s" "bq_closed (bqs_queue s)"
  shows "(waiting t (bqs_not_full s) \<longrightarrow> (\<exists>v s'. bq_step s t (Pushed v False) s' \<and>
      \<not> waiting t (bqs_not_full s') \<and> bqs_queue s' = bqs_queue s)) \<and>
    (waiting t (bqs_not_empty s) \<longrightarrow> (\<exists>s'. \<not> waiting t (bqs_not_empty s') \<and>
      bq_step s t (Popped (case bq_contents (bqs_queue s) of [] \<Rightarrow> None | v # _ \<Rightarrow> Some v)) s'))"
proof -
  have inv: "bqs_inv s" by (rule bq_reachable_inv [OF assms(1,2)])
  then have np: "parked (bqs_not_full s) = {}" "parked (bqs_not_empty s) = {}"
    using assms(3) by (auto simp: bqs_inv_def)
  have left: "\<not> waiting t (leave t w)" if "parked w = {}" for w :: waiters
    using that by (simp add: waiting_def leave_def)
  show ?thesis
  proof (intro conjI impI)
    assume "waiting t (bqs_not_full s)"
    then obtain v where "bqs_pending s t = Some v" "t \<in> woken (bqs_not_full s)"
      using np inv by (fastforce simp: bqs_inv_def waiting_def)
    then have "bqs_may_push s t v" by (simp add: bqs_may_push_def)
    moreover have "bq_push v (bqs_queue s) = Ret (False, bqs_queue s)"
      using assms(3) by (simp add: bq_push_def)
    ultimately show "\<exists>v s'. bq_step s t (Pushed v False) s' \<and>
        \<not> waiting t (bqs_not_full s') \<and> bqs_queue s' = bqs_queue s"
      using push_done [of s t v False "bqs_queue s" "bqs_not_empty s"] left [OF np(1)]
      by (intro exI [of _ v] exI [of _ "s\<lparr>bqs_not_full := leave t (bqs_not_full s),
        bqs_pending := (bqs_pending s)(t := None)\<rparr>"]) (simp add: notify_if_def)
  next
    assume "waiting t (bqs_not_empty s)"
    then have may: "bqs_may_pop s t" using np by (simp add: waiting_def bqs_may_pop_def)
    obtain r q' where p: "bq_pop (bqs_queue s) = Ret (r, q')"
      using assms(3) by (cases "bq_try_pop (bqs_queue s)") (simp add: bq_pop_eq)
    then have "r = (case bq_contents (bqs_queue s) of [] \<Rightarrow> None | v # _ \<Rightarrow> Some v)"
      using bq.get_fst [of "bqs_queue s"] inv by (auto simp: bq_pop_eq bqs_inv_def split: if_splits)
    moreover obtain w where "notify_if (0 < bq_size (bqs_queue s)) (bqs_not_full s) w"
      using notify_if_total by blast
    ultimately show "\<exists>s'. \<not> waiting t (bqs_not_empty s') \<and>
        bq_step s t (Popped (case bq_contents (bqs_queue s) of [] \<Rightarrow> None | v # _ \<Rightarrow> Some v)) s'"
      using pop_done [OF may p, of w] left [OF np(2)]
      by (intro exI [of _ "s\<lparr>bqs_queue := q', bqs_not_full := w,
        bqs_not_empty := leave t (bqs_not_empty s)\<rparr>"]) simp
  qed
qed

theorem bq_shutdown_releases_all_witness:
  "\<exists>v s'. bq_step (bqs_of None ({}, {3, 2}) no_waiters [2 \<mapsto> 6, 3 \<mapsto> (7::nat)] True) 3
     (Pushed v False) s' \<and> \<not> waiting 3 (bqs_not_full s')"
  using bq_shutdown_releases_all
      [OF bq_example_new, unfolded bq_example_init, OF bq_example_shutdown, of 3]
  by (auto simp: bqs_of_def waiting_def)

end
