(* ===== verification/Event_Queue.thy ===== *)
theory Event_Queue
  imports Queue_Interface Monitor
begin

text \<open>
  \<^verbatim>\<open>class Queue<T>\<close> and \<^verbatim>\<open>class Queue1To1<T>\<close> of \<^verbatim>\<open>include/jthread.hpp\<close>. \<^verbatim>\<open>Queue<T>\<close> is a
  \<^verbatim>\<open>std::queue\<close> bounded by \<^verbatim>\<open>max_\<close> with a closed flag and the member \<^verbatim>\<open>scratch_\<close>, into which the
  pointer-returning calls move the element: the pointer they return is \<open>ScratchPtr\<close>, and what it
  reads is whatever \<^verbatim>\<open>scratch_\<close> holds at that moment. Every method is one critical section;
  blocking ones are \<open>Blocked\<close> while their wait predicate is false, timed ones are given the state
  in which \<^verbatim>\<open>wait_for\<close> returned. \<^verbatim>\<open>Queue1To1\<close> has neither bound nor flag.
\<close>

section \<open>Queue\<close>

record 'a queue =
  queue_q :: "'a list"
  queue_max :: int
  queue_scratch :: 'a
  queue_closed :: bool

datatype queue_ptr = NullPtr | ScratchPtr

definition queue_deref :: "queue_ptr \<Rightarrow> 'a queue \<Rightarrow> 'a option" where
  "queue_deref p s = (case p of NullPtr \<Rightarrow> None | ScratchPtr \<Rightarrow> Some (queue_scratch s))"

definition mk_queue :: "'a \<Rightarrow> int \<Rightarrow> 'a queue" where
  "mk_queue zero n = \<lparr>queue_q = [], queue_max = n, queue_scratch = zero, queue_closed = False\<rparr>"

definition queue_put :: "'a \<Rightarrow> 'a queue \<Rightarrow> int \<times> 'a queue" where
  "queue_put item s =
     (if queue_closed s \<or> to_int32 (int (length (queue_q s))) \<ge> queue_max s then (- 1, s)
      else (0, s\<lparr>queue_q := queue_q s @ [item]\<rparr>))"

text \<open>\<^verbatim>\<open>scratch_ = std::move(q_.front()); q_.pop();\<close>\<close>

definition queue_take :: "'a queue \<Rightarrow> 'a queue" where
  "queue_take s = s\<lparr>queue_scratch := hd (queue_q s), queue_q := tl (queue_q s)\<rparr>"

definition queue_get :: "'a queue \<Rightarrow> (queue_ptr \<times> 'a queue) outcome" where
  "queue_get s =
     (if queue_q s \<noteq> [] \<or> queue_closed s
      then Ret (if queue_q s = [] then (NullPtr, s) else (ScratchPtr, queue_take s))
      else Blocked)"

text \<open>\<^verbatim>\<open>try_get(T** out)\<close>: the second component is the value of \<^verbatim>\<open>*out\<close> after the call.\<close>

definition queue_try_get :: "queue_ptr \<Rightarrow> 'a queue \<Rightarrow> int \<times> queue_ptr \<times> 'a queue" where
  "queue_try_get out s =
     (if queue_q s = [] then (0, out, s) else (1, ScratchPtr, queue_take s))"

definition queue_try_get_for :: "queue_ptr \<Rightarrow> 'a queue \<Rightarrow> int \<times> queue_ptr \<times> 'a queue" where
  "queue_try_get_for out s =
     (let ok = queue_q s \<noteq> [] \<or> queue_closed s
      in if \<not> ok \<or> queue_q s = [] then (0, out, s) else (1, ScratchPtr, queue_take s))"

definition queue_pop :: "'a queue \<Rightarrow> ('a option \<times> 'a queue) outcome" where
  "queue_pop s =
     (if queue_q s \<noteq> [] \<or> queue_closed s
      then Ret (if queue_q s = [] then (None, s)
                else (Some (hd (queue_q s)), s\<lparr>queue_q := tl (queue_q s)\<rparr>))
      else Blocked)"

definition queue_try_pop :: "'a queue \<Rightarrow> 'a option \<times> 'a queue" where
  "queue_try_pop s =
     (if queue_q s = [] then (None, s)
      else (Some (hd (queue_q s)), s\<lparr>queue_q := tl (queue_q s)\<rparr>))"

definition queue_length :: "'a queue \<Rightarrow> int" where
  "queue_length s = to_int32 (int (length (queue_q s)))"

definition queue_shutdown :: "'a queue \<Rightarrow> 'a queue" where
  "queue_shutdown s = s\<lparr>queue_closed := True\<rparr>"

lemmas queue_defs = queue_put_def queue_take_def queue_get_def queue_try_get_def
  queue_try_get_for_def queue_pop_def queue_try_pop_def queue_length_def queue_shutdown_def
  queue_deref_def mk_queue_def Let_def

text \<open>The constructor's argument is an \<^verbatim>\<open>int\<close>; zero and below make a queue that refuses everything.\<close>

definition queue_inv :: "'a queue \<Rightarrow> bool" where
  "queue_inv s \<longleftrightarrow> in_int32 (queue_max s) \<and> int (length (queue_q s)) \<le> max 0 (queue_max s)"

lemma mk_queue_inv: "in_int32 n \<Longrightarrow> queue_inv (mk_queue z n)"
  by (simp add: queue_inv_def mk_queue_def)

lemma queue_size_exact:
  "queue_inv s \<Longrightarrow> to_int32 (int (length (queue_q s))) = int (length (queue_q s))"
  by (auto simp: queue_inv_def in_int32_def intro!: to_int32_id)

text \<open>Both consumer interfaces as functions of the shape the queue contract asks for.\<close>

definition queue_put_ok :: "'a \<Rightarrow> 'a queue \<Rightarrow> bool \<times> 'a queue" where
  "queue_put_ok x s = (let (r, s') = queue_put x s in (r = 0, s'))"

definition queue_read_get :: "'a queue \<Rightarrow> 'a option \<times> 'a queue" where
  "queue_read_get s = (let (r, p, s') = queue_try_get NullPtr s in (queue_deref p s', s'))"

interpretation vq: bounded_fifo_queue queue_q queue_inv queue_put_ok queue_try_pop
  "\<lambda>s. nat (queue_max s)" queue_closed
  by unfold_locales
    (auto simp: queue_put_ok_def queue_defs queue_size_exact queue_inv_def split: if_splits)

interpretation pq: bounded_fifo_queue queue_q queue_inv queue_put_ok queue_read_get
  "\<lambda>s. nat (queue_max s)" queue_closed
  by unfold_locales
    (auto simp: queue_put_ok_def queue_read_get_def queue_defs queue_size_exact queue_inv_def
      split: if_splits)

section \<open>Queue under many threads\<close>

text \<open>
  The waiters are those of \<^verbatim>\<open>cv_get_\<close>. A pointer call only stores a pointer in the variable of
  its caller (\<open>qs_held\<close>: the result of \<^verbatim>\<open>get\<close>, the \<^verbatim>\<open>*out\<close> of \<^verbatim>\<open>try_get\<close>); what the caller finds
  there is read in a step of its own, without the mutex, any time later. A label says what
  happened: the value put and the result of \<^verbatim>\<open>put\<close>; the thread that popped and the value it was
  given; the thread that made a pointer call and whether it took something; the thread that read
  through its pointer and what it found.
\<close>

record 'a queue_sys =
  qs_queue :: "'a queue"
  qs_waiters :: waiters
  qs_held :: "tid \<Rightarrow> queue_ptr"

datatype 'a queue_event = QPut 'a int | QTook tid "'a option" | QGot tid bool | QRead tid 'a | QQuiet

definition qs_fresh_or_woken :: "'a queue_sys \<Rightarrow> tid \<Rightarrow> bool" where
  "qs_fresh_or_woken s t \<longleftrightarrow> \<not> waiting t (qs_waiters s) \<or> t \<in> woken (qs_waiters s)"

inductive queue_step :: "'a queue_sys \<Rightarrow> 'a queue_event \<Rightarrow> 'a queue_sys \<Rightarrow> bool" where
  q_put: "queue_put x (qs_queue s) = (r, q) \<Longrightarrow> notify_if (r = 0) (qs_waiters s) w \<Longrightarrow>
    queue_step s (QPut x r) (s\<lparr>qs_queue := q, qs_waiters := w\<rparr>)"
| q_get: "qs_fresh_or_woken s t \<Longrightarrow> queue_get (qs_queue s) = Ret (p, q) \<Longrightarrow>
    queue_step s (QGot t (p \<noteq> NullPtr)) \<lparr>qs_queue = q, qs_waiters = leave t (qs_waiters s),
      qs_held = (qs_held s)(t := p)\<rparr>"
| q_get_park: "qs_fresh_or_woken s t \<Longrightarrow> queue_get (qs_queue s) = Blocked \<Longrightarrow>
    queue_step s QQuiet (s\<lparr>qs_waiters := park t (qs_waiters s)\<rparr>)"
| q_pop: "qs_fresh_or_woken s t \<Longrightarrow> queue_pop (qs_queue s) = Ret (v, q) \<Longrightarrow>
    queue_step s (QTook t v) (s\<lparr>qs_queue := q, qs_waiters := leave t (qs_waiters s)\<rparr>)"
| q_pop_park: "qs_fresh_or_woken s t \<Longrightarrow> queue_pop (qs_queue s) = Blocked \<Longrightarrow>
    queue_step s QQuiet (s\<lparr>qs_waiters := park t (qs_waiters s)\<rparr>)"
| q_get_for: "qs_fresh_or_woken s t \<Longrightarrow>
    queue_try_get_for (qs_held s t) (qs_queue s) = (r, p, q) \<Longrightarrow>
    queue_step s (QGot t (r = 1)) \<lparr>qs_queue = q, qs_waiters = leave t (qs_waiters s),
      qs_held = (qs_held s)(t := p)\<rparr>"
| q_try_get: "\<not> waiting t (qs_waiters s) \<Longrightarrow>
    queue_try_get (qs_held s t) (qs_queue s) = (r, p, q) \<Longrightarrow>
    queue_step s (QGot t (r = 1)) (s\<lparr>qs_queue := q, qs_held := (qs_held s)(t := p)\<rparr>)"
| q_read: "\<not> waiting t (qs_waiters s) \<Longrightarrow> queue_deref (qs_held s t) (qs_queue s) = Some v \<Longrightarrow>
    queue_step s (QRead t v) s"
| q_try_pop: "\<not> waiting t (qs_waiters s) \<Longrightarrow> queue_try_pop (qs_queue s) = (v, q) \<Longrightarrow>
    queue_step s (QTook t v) (s\<lparr>qs_queue := q\<rparr>)"
| q_wake: "t \<in> parked (qs_waiters s) \<Longrightarrow>
    queue_step s QQuiet (s\<lparr>qs_waiters := wake t (qs_waiters s)\<rparr>)"
| q_shutdown: "queue_step s QQuiet
    (s\<lparr>qs_queue := queue_shutdown (qs_queue s), qs_waiters := notify_all (qs_waiters s)\<rparr>)"

inductive_cases queue_stepE: "queue_step s e s'"

definition qs_init :: "'a queue \<Rightarrow> 'a queue_sys" where
  "qs_init q = \<lparr>qs_queue = q, qs_waiters = no_waiters, qs_held = (\<lambda>_. NullPtr)\<rparr>"

fun queue_accepted :: "'a queue_event list \<Rightarrow> 'a list" where
  "queue_accepted [] = []"
| "queue_accepted (QPut x r # es) = (if r = 0 then x # queue_accepted es else queue_accepted es)"
| "queue_accepted (e # es) = queue_accepted es"

text \<open>What a thread reads through its pointer up to its next successful pointer call.\<close>

fun queue_reads :: "tid \<Rightarrow> 'a queue_event list \<Rightarrow> 'a list" where
  "queue_reads t [] = []"
| "queue_reads t (QRead u v # es) = (if u = t then v # queue_reads t es else queue_reads t es)"
| "queue_reads t (QGot u True # es) = (if u = t then [] else queue_reads t es)"
| "queue_reads t (e # es) = queue_reads t es"

text \<open>
  The elements taken, in the order of the taking calls, each as the list of the values its taker
  saw: the one value of a pop, or everything read through the pointer of a pointer call.
\<close>

fun queue_seen :: "'a queue_event list \<Rightarrow> 'a list list" where
  "queue_seen [] = []"
| "queue_seen (QTook t (Some x) # es) = [x] # queue_seen es"
| "queue_seen (QGot t True # es) = queue_reads t es # queue_seen es"
| "queue_seen (e # es) = queue_seen es"

text \<open>The contract of the header comment: only the thread \<open>c\<close> makes pointer calls.\<close>

fun pointer_calls_by :: "tid \<Rightarrow> 'a queue_event list \<Rightarrow> bool" where
  "pointer_calls_by c [] \<longleftrightarrow> True"
| "pointer_calls_by c (QGot t b # es) \<longleftrightarrow> t = c \<and> pointer_calls_by c es"
| "pointer_calls_by c (e # es) \<longleftrightarrow> pointer_calls_by c es"

lemma notify_if_cases: "notify_if b w w' \<Longrightarrow> b \<and> notify_one w w' \<or> \<not> b \<and> w' = w"
  by (simp add: notify_if_def split: if_splits)

interpretation qw: wakeup_discipline queue_step "\<lambda>s. length (queue_q (qs_queue s))" qs_waiters
proof (unfold_locales, goal_cases)
  case (1 s e s')
  then show ?case
    by cases (auto simp: queue_defs dest!: notify_if_cases split: if_splits)
qed

lemma queue_step_max:
  assumes "queue_step s e s'"
  shows "queue_max (qs_queue s') = queue_max (qs_queue s)"
  using assms by cases (auto simp: queue_defs split: if_splits)

lemma queue_step_inv:
  assumes "queue_step s e s'" "queue_inv (qs_queue s)"
  shows "queue_inv (qs_queue s')"
  using assms(1)
proof cases
  case (q_put x r q w)
  then show ?thesis
    using assms(2) queue_size_exact [OF assms(2)]
    by (auto simp: queue_put_def queue_inv_def split: if_splits)
qed (use assms(2) in \<open>auto simp: queue_defs queue_inv_def split: if_splits\<close>)

text \<open>
  One step seen from the queue: a put that returns 0 appends, a pop that returns a value and a
  successful pointer call remove the first element (the latter into \<^verbatim>\<open>scratch_\<close>), and nothing else
  changes the contents or \<^verbatim>\<open>scratch_\<close>; a read finds what \<^verbatim>\<open>scratch_\<close> holds.
\<close>

lemma queue_step_effect:
  assumes "queue_step s e s'"
  shows "(\<exists>x r. e = QPut x r \<and> queue_q (qs_queue s') = queue_q (qs_queue s) @ (if r = 0 then [x] else []) \<and>
      queue_scratch (qs_queue s') = queue_scratch (qs_queue s)) \<or>
    (\<exists>t x. e = QTook t (Some x) \<and> queue_q (qs_queue s) = x # queue_q (qs_queue s') \<and>
      queue_scratch (qs_queue s') = queue_scratch (qs_queue s)) \<or>
    (\<exists>t. e = QGot t True \<and>
      queue_q (qs_queue s) = queue_scratch (qs_queue s') # queue_q (qs_queue s')) \<or>
    (e = QQuiet \<or> (\<exists>t. e = QTook t None) \<or> (\<exists>t. e = QGot t False) \<or>
      (\<exists>t. e = QRead t (queue_scratch (qs_queue s)))) \<and>
      queue_q (qs_queue s') = queue_q (qs_queue s) \<and>
      queue_scratch (qs_queue s') = queue_scratch (qs_queue s)"
  using assms by cases (auto simp: queue_defs split: if_splits queue_ptr.splits)

text \<open>Under the contract, what the consumer reads before its next pointer call is \<^verbatim>\<open>scratch_\<close>.\<close>

lemma queue_reads_scratch:
  "steps queue_step s es s' \<Longrightarrow> pointer_calls_by c es \<Longrightarrow>
     set (queue_reads c es) \<subseteq> {queue_scratch (qs_queue s)}"
proof (induction rule: steps.induct)
  case (steps_cons s e s' es s'')
  then show ?case using queue_step_effect [OF steps_cons(1)] by (auto split: if_splits)
qed simp

lemma queue_steps_seen:
  "steps queue_step s es s' \<Longrightarrow> pointer_calls_by c es \<Longrightarrow>
     \<exists>xs. queue_q (qs_queue s) @ queue_accepted es = xs @ queue_q (qs_queue s') \<and>
       list_all2 (\<lambda>seen x. set seen \<subseteq> {x}) (queue_seen es) xs"
proof (induction rule: steps.induct)
  case (steps_cons s e s' es s'')
  then have c: "pointer_calls_by c es" by (cases e) auto
  obtain xs where xs: "queue_q (qs_queue s') @ queue_accepted es = xs @ queue_q (qs_queue s'')"
      "list_all2 (\<lambda>seen x. set seen \<subseteq> {x}) (queue_seen es) xs"
    using steps_cons.IH [OF c] by blast
  note reads = queue_reads_scratch [OF steps_cons(2) c]
  show ?case
    using queue_step_effect [OF steps_cons(1)]
  proof (elim disjE exE conjE)
    fix t x
    assume "e = QTook t (Some x)" "queue_q (qs_queue s) = x # queue_q (qs_queue s')"
    then show ?thesis using xs by (intro exI [of _ "x # xs"]) simp
  next
    fix t
    assume "e = QGot t True" "queue_q (qs_queue s) = queue_scratch (qs_queue s') # queue_q (qs_queue s')"
    then show ?thesis using xs reads steps_cons.prems
      by (intro exI [of _ "queue_scratch (qs_queue s') # xs"]) simp
  qed (use xs in \<open>auto intro!: exI [of _ xs]\<close>)
qed simp

section \<open>Queue1To1\<close>

record 'a queue_1to1 =
  q11_q :: "'a list"

definition mk_queue_1to1 :: "int \<Rightarrow> 'a queue_1to1" where
  "mk_queue_1to1 n = \<lparr>q11_q = []\<rparr>"

definition q11_put :: "'a \<Rightarrow> 'a queue_1to1 \<Rightarrow> 'a queue_1to1" where
  "q11_put object s = s\<lparr>q11_q := q11_q s @ [object]\<rparr>"

definition q11_get :: "'a queue_1to1 \<Rightarrow> ('a \<times> 'a queue_1to1) outcome" where
  "q11_get s =
     (if q11_q s \<noteq> [] then Ret (hd (q11_q s), s\<lparr>q11_q := tl (q11_q s)\<rparr>) else Blocked)"

definition q11_try_get :: "'a \<Rightarrow> 'a queue_1to1 \<Rightarrow> int \<times> 'a \<times> 'a queue_1to1" where
  "q11_try_get obj s =
     (if q11_q s = [] then (0, obj, s) else (1, hd (q11_q s), s\<lparr>q11_q := tl (q11_q s)\<rparr>))"

definition q11_length :: "'a queue_1to1 \<Rightarrow> int" where
  "q11_length s = to_int32 (int (length (q11_q s)))"

lemmas q11_defs = q11_put_def q11_get_def q11_try_get_def

text \<open>A get as the queue contract wants it: the blocking call where it does not block.\<close>

definition q11_poll :: "'a queue_1to1 \<Rightarrow> 'a option \<times> 'a queue_1to1" where
  "q11_poll s = (case q11_get s of Blocked \<Rightarrow> (None, s) | Ret (v, s') \<Rightarrow> (Some v, s'))"

interpretation q11: fifo_queue q11_q "\<lambda>_. True" "\<lambda>x s. (True, q11_put x s)" q11_poll
  by unfold_locales (auto simp: q11_poll_def q11_defs split: if_splits)

record 'a q11_sys =
  q11s_queue :: "'a queue_1to1"
  q11s_waiters :: waiters

inductive q11_step :: "'a q11_sys \<Rightarrow> 'a queue_event \<Rightarrow> 'a q11_sys \<Rightarrow> bool" where
  q11_puts: "notify_one (q11s_waiters s) w \<Longrightarrow>
    q11_step s (QPut x 0) \<lparr>q11s_queue = q11_put x (q11s_queue s), q11s_waiters = w\<rparr>"
| q11_gets: "\<not> waiting t (q11s_waiters s) \<or> t \<in> woken (q11s_waiters s) \<Longrightarrow>
    q11_get (q11s_queue s) = Ret (v, q) \<Longrightarrow>
    q11_step s (QTook t (Some v)) \<lparr>q11s_queue = q, q11s_waiters = leave t (q11s_waiters s)\<rparr>"
| q11_parks: "\<not> waiting t (q11s_waiters s) \<or> t \<in> woken (q11s_waiters s) \<Longrightarrow>
    q11_get (q11s_queue s) = Blocked \<Longrightarrow>
    q11_step s QQuiet (s\<lparr>q11s_waiters := park t (q11s_waiters s)\<rparr>)"
| q11_tries: "\<not> waiting t (q11s_waiters s) \<Longrightarrow> q11_try_get v (q11s_queue s) = (r, v', q) \<Longrightarrow>
    q11_step s (QTook t (if r = 1 then Some v' else None)) (s\<lparr>q11s_queue := q\<rparr>)"
| q11_wakes: "t \<in> parked (q11s_waiters s) \<Longrightarrow>
    q11_step s QQuiet (s\<lparr>q11s_waiters := wake t (q11s_waiters s)\<rparr>)"

interpretation q11w: wakeup_discipline q11_step "\<lambda>s. length (q11_q (q11s_queue s))" q11s_waiters
proof (unfold_locales, goal_cases)
  case (1 s e s')
  then show ?case by cases (auto simp: q11_defs split: if_splits)
qed

section \<open>Properties\<close>

text \<open>
  C4: the bounded event queue is first in, first out for many producers and many consumers, as
  long as the pointer calls \<^verbatim>\<open>get\<close> and \<^verbatim>\<open>try_get\<close> are made by one thread \<open>c\<close> (the contract of the
  class); the value calls \<^verbatim>\<open>pop\<close> and \<^verbatim>\<open>try_pop\<close>, \<^verbatim>\<open>put\<close> and \<^verbatim>\<open>shutdown\<close> may come from any thread. The
  values whose put returned 0 are the values taken, in the order of the taking calls, followed
  by the contents, of which there are never more than \<^verbatim>\<open>max_\<close> allows; a pop returned its value,
  and every read through the pointer of a pointer call, made at any time before the next such
  call and outside the mutex, found its value.
\<close>

theorem queue_threads_fifo:
  assumes "in_int32 n" "steps queue_step (qs_init (mk_queue z n)) es s" "pointer_calls_by c es"
  shows "(\<exists>taken. queue_accepted es = taken @ queue_q (qs_queue s) \<and>
      list_all2 (\<lambda>seen x. set seen \<subseteq> {x}) (queue_seen es) taken) \<and>
    int (length (queue_q (qs_queue s))) \<le> max 0 n"
proof -
  have "queue_inv (qs_queue s) \<and> queue_max (qs_queue s) = n"
    using assms(2) by (rule steps_invariant)
      (simp_all add: qs_init_def mk_queue_inv assms(1) queue_step_inv queue_step_max, simp add: mk_queue_def)
  then show ?thesis
    using queue_steps_seen [OF assms(2,3)] by (auto simp: qs_init_def mk_queue_def queue_inv_def)
qed

lemma queue_example_run:
  "steps queue_step (qs_init (mk_queue (0::nat) 1)) [QQuiet, QQuiet, QPut 8 0, QPut 9 (- 1)]
     \<lparr>qs_queue = \<lparr>queue_q = [8], queue_max = 1, queue_scratch = 0, queue_closed = False\<rparr>,
      qs_waiters = ({2}, {1}), qs_held = (\<lambda>_. NullPtr)\<rparr>"
proof -
  let ?s = "\<lambda>q w. \<lparr>qs_queue = \<lparr>queue_q = q, queue_max = 1, queue_scratch = 0::nat, queue_closed = False\<rparr>,
      qs_waiters = w, qs_held = (\<lambda>_. NullPtr)\<rparr>"
  note eval = qs_fresh_or_woken_def queue_defs waiting_def park_def no_waiters_def notify_if_def
    insert_commute in_int32_def
  have "queue_step (?s [] no_waiters) QQuiet (?s [] ({1}, {}))"
    using q_get_park [of "?s [] no_waiters" 1] by (simp add: eval)
  moreover have "queue_step (?s [] ({1}, {})) QQuiet (?s [] ({1, 2}, {}))"
    using q_pop_park [of "?s [] ({1}, {})" 2] by (simp add: eval)
  moreover have "notify_one ({1, 2}, {}) ({2}, {1})"
    using somebody [of 1 "({1, 2}, {})"] by (simp add: wake_def)
  then have "queue_step (?s [] ({1, 2}, {})) (QPut 8 0) (?s [8] ({2}, {1}))"
    using q_put [of 8 "?s [] ({1, 2}, {})" 0 _ "({2}, {1})"] by (simp add: eval)
  moreover have "queue_step (?s [8] ({2}, {1})) (QPut 9 (- 1)) (?s [8] ({2}, {1}))"
    using q_put [of 9 "?s [8] ({2}, {1})" "- 1" _ "({2}, {1})"] by (simp add: eval)
  moreover have "qs_init (mk_queue 0 1) = ?s [] no_waiters" by (simp add: qs_init_def mk_queue_def)
  ultimately show ?thesis by (simp only:) (blast intro: steps.intros)
qed

text \<open>Thread 1 gets the 8 and reads it twice, a put in between.\<close>

lemma queue_pointer_run:
  "\<exists>s. steps queue_step (qs_init (mk_queue (0::nat) 1))
     [QPut 8 0, QGot 1 True, QRead 1 8, QPut 9 0, QRead 1 8] s \<and> queue_q (qs_queue s) = [9]"
proof -
  let ?s = "\<lambda>q v p. \<lparr>qs_queue = \<lparr>queue_q = q, queue_max = 1, queue_scratch = v::nat, queue_closed = False\<rparr>,
      qs_waiters = no_waiters, qs_held = (\<lambda>_. NullPtr)(1 := p)\<rparr>"
  note eval = queue_defs waiting_def no_waiters_def notify_if_def in_int32_def
  have n: "notify_one no_waiters no_waiters" by (rule nobody) (simp add: no_waiters_def)
  have "queue_step (?s [] v p) (QPut x 0) (?s [x] v p)" for x v p
    using q_put [of x "?s [] v p" 0 _ no_waiters] n by (simp add: eval)
  moreover have "queue_step (?s [8] 0 NullPtr) (QGot 1 True) (?s [] 8 ScratchPtr)"
    using q_try_get [of 1 "?s [8] 0 NullPtr" 1] by (simp add: eval)
  moreover have "queue_step (?s q 8 ScratchPtr) (QRead 1 8) (?s q 8 ScratchPtr)" for q
    using q_read [of 1 "?s q 8 ScratchPtr" 8] by (simp add: eval)
  moreover have "qs_init (mk_queue 0 1) = ?s [] 0 NullPtr"
    by (simp add: qs_init_def mk_queue_def fun_eq_iff)
  ultimately show ?thesis
    by (intro exI [of _ "?s [9] 8 ScratchPtr"]) (simp only: queue.select_convs queue_sys.select_convs,
      blast intro: steps.intros)
qed

theorem queue_threads_fifo_witness:
  "\<exists>s taken. steps queue_step (qs_init (mk_queue (0::nat) 1))
       [QPut 8 0, QGot 1 True, QRead 1 8, QPut 9 0, QRead 1 8] s \<and>
     [8, 9] = taken @ queue_q (qs_queue s) \<and> list_all2 (\<lambda>seen x. set seen \<subseteq> {x}) [[8, 8]] taken"
  using queue_pointer_run queue_threads_fifo [of 1 0 _ _ 1] by (fastforce simp: in_int32_def)

text \<open>
  C22: no consumer of the event queue is forgotten. Whenever a thread is parked in \<^verbatim>\<open>get\<close> or \<^verbatim>\<open>pop\<close>
  while the queue holds a value, a woken thread's next step takes the oldest one.
\<close>

theorem queue_no_lost_wakeup:
  assumes "steps queue_step (qs_init q) es s"
    and "t \<in> parked (qs_waiters s)" "queue_q (qs_queue s) = v # rest"
  shows "\<exists>u s'. u \<in> woken (qs_waiters s) \<and> queue_step s (QTook u (Some v)) s' \<and>
    queue_q (qs_queue s') = rest"
proof -
  obtain u where u: "u \<in> woken (qs_waiters s)"
    using qw.no_lost_wakeup [OF assms(1) _ assms(2)] assms(3) by (auto simp: qs_init_def)
  then have "queue_step s (QTook u (Some v))
      (s\<lparr>qs_queue := (qs_queue s)\<lparr>queue_q := rest\<rparr>, qs_waiters := leave u (qs_waiters s)\<rparr>)"
    using q_pop [of s u "Some v" "(qs_queue s)\<lparr>queue_q := rest\<rparr>"] assms(3)
    by (simp add: qs_fresh_or_woken_def queue_pop_def)
  then show ?thesis using u by fastforce
qed

theorem queue_no_lost_wakeup_witness:
  "\<exists>u s'. u \<in> {1} \<and> queue_step
     \<lparr>qs_queue = \<lparr>queue_q = [8::nat], queue_max = 1, queue_scratch = 0, queue_closed = False\<rparr>,
      qs_waiters = ({2}, {1}), qs_held = (\<lambda>_. NullPtr)\<rparr> (QTook u (Some 8)) s' \<and> queue_q (qs_queue s') = []"
  using queue_no_lost_wakeup [OF queue_example_run, of 2 8 "[]"] by simp

text \<open>
  Why the pointer calls are for a single consumer. The pointer a \<^verbatim>\<open>get\<close> returns reads the value
  it took, and a \<^verbatim>\<open>put\<close> or a value \<^verbatim>\<open>pop\<close> in between leaves that alone; the next pointer call, by
  any thread, returns the same pointer, and the first holder then reads the second value.
\<close>

theorem queue_scratch_aliasing:
  assumes "queue_get s = Ret (p, s1)" "queue_q s = v # v' # rest"
  shows "queue_deref p s1 = Some v \<and>
    queue_deref p (snd (queue_put x s1)) = Some v \<and>
    queue_deref p (snd (queue_try_pop s1)) = Some v \<and>
    (\<exists>s2. queue_try_get NullPtr s1 = (1, p, s2) \<and> queue_deref p s2 = Some v')"
  using assms by (auto simp: queue_defs split: if_splits)

theorem queue_scratch_aliasing_witness:
  "\<exists>s1. queue_get \<lparr>queue_q = [1::nat, 2], queue_max = 2, queue_scratch = 0, queue_closed = False\<rparr> =
     Ret (ScratchPtr, s1) \<and> queue_deref ScratchPtr s1 = Some 1 \<and>
     (\<exists>s2. queue_try_get NullPtr s1 = (1, ScratchPtr, s2) \<and> queue_deref ScratchPtr s2 = Some 2)"
  using queue_scratch_aliasing [of
    "\<lparr>queue_q = [1::nat, 2], queue_max = 2, queue_scratch = 0, queue_closed = False\<rparr>"
    ScratchPtr _ 1 2 "[]"] by (simp add: queue_get_def)

text \<open>
  A new queue of size \<open>n\<close> that nobody reads accepts exactly the first \<open>n\<close> puts and refuses the
  rest (none at all when \<open>n\<close> is zero or negative), and draining it afterwards, also after a
  \<^verbatim>\<open>shutdown\<close>, returns exactly those in order, through the pointer calls and through the value
  calls.
\<close>

theorem queue_fill_then_drain:
  assumes "in_int32 n"
    and "run_queue queue_put_ok queue_try_pop (map PutOp xs) (mk_queue z n) = (acc, del, q)"
    and "length xs \<le> k"
  shows "acc = take (nat n) xs \<and>
    fst (snd (run_queue queue_put_ok queue_try_pop (replicate k GetOp) (queue_shutdown q))) = acc \<and>
    fst (snd (run_queue queue_put_ok queue_read_get (replicate k GetOp) q)) = acc"
proof -
  have inv: "queue_inv (mk_queue z n)" using assms(1) by (rule mk_queue_inv)
  have acc: "acc = take (nat n) xs"
    using vq.run_fill [OF inv, of xs] assms(2) by (simp add: mk_queue_def)
  have del: "fst (snd (run_queue queue_put_ok queue_try_pop (map PutOp ys) p)) = []" for ys and p :: "'a queue"
    by (induction ys arbitrary: p) (auto simp: split_beta)
  have q: "queue_q q = acc" "queue_inv q"
    using vq.run_conserves [OF inv assms(2)] del [of xs "mk_queue z n"] assms(2)
    by (auto simp: mk_queue_def)
  moreover have "queue_inv (queue_shutdown q)" "queue_q (queue_shutdown q) = queue_q q"
    using q(2) by (simp_all add: queue_inv_def queue_shutdown_def)
  ultimately show ?thesis
    using acc assms(3) vq.drain [of "queue_shutdown q" k] pq.drain [of q k] by simp
qed

theorem queue_fill_then_drain_witness:
  "fst (run_queue queue_put_ok queue_try_pop (map PutOp [4::nat, 5, 6]) (mk_queue 0 2)) = [4, 5]"
  using queue_fill_then_drain [of 2 "[4::nat, 5, 6]" 0 _ _ _ 3]
  by (cases "run_queue queue_put_ok queue_try_pop (map PutOp [4::nat, 5, 6]) (mk_queue 0 2)")
    (simp add: in_int32_def)

end
