(* ===== verification/Thread_Lifecycle.thy ===== *)
theory Thread_Lifecycle
  imports Monitor
begin

text \<open>
  \<^verbatim>\<open>class Thread\<close> of \<^verbatim>\<open>include/jthread.hpp\<close> and \<^verbatim>\<open>src/jthread.cpp\<close>: \<^verbatim>\<open>create\<close>, \<^verbatim>\<open>close_pre\<close>,
  \<^verbatim>\<open>close_post\<close>, \<^verbatim>\<open>close\<close>, \<^verbatim>\<open>thread_exists\<close>, \<^verbatim>\<open>joinable\<close>, \<^verbatim>\<open>get_stop_token\<close> and \<^verbatim>\<open>do_exit\<close>. The
  object holds the optional \<^verbatim>\<open>std::jthread\<close> (absent, joinable, or moved from), whether a stop was
  requested on its \<^verbatim>\<open>stop_source_\<close>, and \<^verbatim>\<open>closing_\<close>. The methods are functions on it, one per
  critical section: \<^verbatim>\<open>close_post\<close> has two, with the join between them.

  The second half puts the object among threads that call these methods in any order, with the
  set of workers that are executing \<^verbatim>\<open>thread_proc\<close>, the callers parked in \<^verbatim>\<open>join\<close> and the callers of
  \<^verbatim>\<open>create\<close> parked on \<^verbatim>\<open>cv_\<close>.
\<close>

section \<open>The object\<close>

type_synonym wid = nat

datatype jthread_slot = NoThread | Joinable wid | MovedFrom

record thread_obj =
  th_thread :: jthread_slot
  th_stop :: bool
  th_closing :: bool

definition mk_thread :: thread_obj where
  "mk_thread = \<lparr>th_thread = NoThread, th_stop = False, th_closing = False\<rparr>"

definition thread_exists :: "thread_obj \<Rightarrow> int" where
  "thread_exists s = (case th_thread s of Joinable w \<Rightarrow> 1 | _ \<Rightarrow> 0)"

definition thread_joinable :: "thread_obj \<Rightarrow> bool" where
  "thread_joinable s = (case th_thread s of Joinable w \<Rightarrow> True | _ \<Rightarrow> False)"

definition do_exit :: "thread_obj \<Rightarrow> bool" where
  "do_exit s = th_stop s"

text \<open>
  \<^verbatim>\<open>create\<close>: \<open>w\<close> is the identity the operating system gives to the worker if one is launched; the
  second component of the result says whether it was.
\<close>

definition thread_create :: "wid \<Rightarrow> thread_obj \<Rightarrow> (int \<times> bool \<times> thread_obj) outcome" where
  "thread_create w s =
     (if th_closing s then Blocked
      else if thread_joinable s then Ret (1, False, s)
      else let s1 = (if th_stop s then s\<lparr>th_stop := False\<rparr> else s)
           in Ret (1, True, s1\<lparr>th_thread := Joinable w\<rparr>))"

definition thread_start :: "wid \<Rightarrow> thread_obj \<Rightarrow> (bool \<times> bool \<times> thread_obj) outcome" where
  "thread_start w s =
     (case thread_create w s of Blocked \<Rightarrow> Blocked | Ret (n, launched, s1) \<Rightarrow> Ret (n = 1, launched, s1))"

text \<open>\<^verbatim>\<open>native_handle\<close>: the handle of a joinable thread, else the zero handle.\<close>

definition native_handle :: "(wid \<Rightarrow> 'h) \<Rightarrow> 'h \<Rightarrow> thread_obj \<Rightarrow> 'h" where
  "native_handle handle zero s = (case th_thread s of Joinable w \<Rightarrow> handle w | _ \<Rightarrow> zero)"

definition close_pre :: "thread_obj \<Rightarrow> thread_obj" where
  "close_pre s = s\<lparr>th_stop := True\<rparr>"

text \<open>
  The first critical section of \<^verbatim>\<open>close_post\<close>: \<open>None\<close> is the early return; otherwise the local
  \<^verbatim>\<open>jthread\<close> the caller joins.
\<close>

definition close_post_begin :: "thread_obj \<Rightarrow> (jthread_slot \<times> thread_obj) option" where
  "close_post_begin s =
     (if th_closing s \<or> th_thread s = NoThread then None
      else Some (th_thread s, s\<lparr>th_closing := True, th_thread := MovedFrom\<rparr>))"

definition close_post_end :: "thread_obj \<Rightarrow> thread_obj" where
  "close_post_end s = s\<lparr>th_thread := NoThread, th_closing := False\<rparr>"

lemmas thread_defs = mk_thread_def thread_exists_def thread_joinable_def do_exit_def
  thread_create_def close_pre_def close_post_begin_def close_post_end_def Let_def

text \<open>
  \<^verbatim>\<open>start\<close> returns true whenever it returns, also when it launches nothing: a thread whose worker has
  returned by itself is still joinable, and is not started again before \<^verbatim>\<open>close\<close>.
\<close>

lemma thread_start_true: "thread_start w s = Ret (b, launched, s1) \<Longrightarrow> b"
  by (auto simp: thread_start_def thread_create_def Let_def split: if_splits)

lemma thread_start_joinable: "\<not> th_closing s \<Longrightarrow> thread_joinable s \<Longrightarrow> thread_start w s = Ret (True, False, s)"
  by (simp add: thread_start_def thread_create_def)

lemma native_handle_joinable: "native_handle handle zero s \<noteq> zero \<Longrightarrow> thread_joinable s"
  by (auto simp: native_handle_def thread_joinable_def split: jthread_slot.splits)

section \<open>The object among threads\<close>

text \<open>
  \<open>live\<close> are the workers inside \<^verbatim>\<open>thread_proc\<close>, \<open>used\<close> every identity handed out so far, and
  \<open>joining\<close> maps a caller between the two critical sections of \<^verbatim>\<open>close_post\<close> to its local \<^verbatim>\<open>jthread\<close>.
\<close>

record thread_sys =
  ts_obj :: thread_obj
  ts_live :: "wid set"
  ts_used :: "wid set"
  ts_joining :: "tid \<rightharpoonup> jthread_slot"
  ts_waiters :: waiters

datatype thread_event =
  Created tid bool | CreateParked tid | CreateWoken tid | PreClosed tid
| CloseReturned tid | CloseBegan tid | CloseEnded tid | WorkerDone wid

inductive thread_step :: "thread_sys \<Rightarrow> thread_event \<Rightarrow> thread_sys \<Rightarrow> bool" where
  created: "\<not> waiting t (ts_waiters s) \<or> t \<in> woken (ts_waiters s) \<Longrightarrow> w \<notin> ts_used s \<Longrightarrow>
    thread_create w (ts_obj s) = Ret (r, launched, m) \<Longrightarrow>
    thread_step s (Created t launched) (s\<lparr>ts_obj := m,
      ts_live := (if launched then insert w (ts_live s) else ts_live s),
      ts_used := (if launched then insert w (ts_used s) else ts_used s),
      ts_waiters := leave t (ts_waiters s)\<rparr>)"
| create_parked: "\<not> waiting t (ts_waiters s) \<or> t \<in> woken (ts_waiters s) \<Longrightarrow>
    thread_create w (ts_obj s) = Blocked \<Longrightarrow>
    thread_step s (CreateParked t) (s\<lparr>ts_waiters := park t (ts_waiters s)\<rparr>)"
| create_woken: "t \<in> parked (ts_waiters s) \<Longrightarrow>
    thread_step s (CreateWoken t) (s\<lparr>ts_waiters := wake t (ts_waiters s)\<rparr>)"
| pre_closed: "thread_step s (PreClosed t) (s\<lparr>ts_obj := close_pre (ts_obj s)\<rparr>)"
| close_returned: "ts_joining s t = None \<Longrightarrow> close_post_begin (ts_obj s) = None \<Longrightarrow>
    thread_step s (CloseReturned t) s"
| close_began: "ts_joining s t = None \<Longrightarrow> close_post_begin (ts_obj s) = Some (j, m) \<Longrightarrow>
    thread_step s (CloseBegan t) (s\<lparr>ts_obj := m, ts_joining := (ts_joining s)(t \<mapsto> j)\<rparr>)"
| close_ended: "ts_joining s t = Some j \<Longrightarrow> (\<And>w. j = Joinable w \<Longrightarrow> w \<notin> ts_live s) \<Longrightarrow>
    thread_step s (CloseEnded t) (s\<lparr>ts_obj := close_post_end (ts_obj s),
      ts_joining := (ts_joining s)(t := None), ts_waiters := notify_all (ts_waiters s)\<rparr>)"
| worker_done: "w \<in> ts_live s \<Longrightarrow>
    thread_step s (WorkerDone w) (s\<lparr>ts_live := ts_live s - {w}\<rparr>)"

inductive_cases thread_stepE: "thread_step s e s'"

definition ts_init :: thread_sys where
  "ts_init = \<lparr>ts_obj = mk_thread, ts_live = {}, ts_used = {}, ts_joining = Map.empty,
              ts_waiters = no_waiters\<rparr>"

text \<open>
  The invariant has two phases. Outside a close the only worker that can be running is the one
  in \<^verbatim>\<open>thread_\<close> and nobody sleeps in \<^verbatim>\<open>create\<close>; during one, exactly one caller is joining, and the
  only worker that can be running is the one it holds.
\<close>

definition ts_open :: "thread_sys \<Rightarrow> bool" where
  "ts_open s \<longleftrightarrow> \<not> th_closing (ts_obj s) \<and> th_thread (ts_obj s) \<noteq> MovedFrom \<and>
     ts_joining s = Map.empty \<and> ts_live s \<subseteq> {w. th_thread (ts_obj s) = Joinable w} \<and>
     parked (ts_waiters s) = {}"

definition ts_closing :: "tid \<Rightarrow> wid \<Rightarrow> thread_sys \<Rightarrow> bool" where
  "ts_closing t w s \<longleftrightarrow> th_closing (ts_obj s) \<and> th_thread (ts_obj s) = MovedFrom \<and>
     ts_joining s = [t \<mapsto> Joinable w] \<and> ts_live s \<subseteq> {w}"

definition ts_inv :: "thread_sys \<Rightarrow> bool" where
  "ts_inv s \<longleftrightarrow> ts_open s \<or> (\<exists>t w. ts_closing t w s)"

lemma ts_inv_init: "ts_inv ts_init"
  by (simp add: ts_inv_def ts_open_def ts_init_def thread_defs)

lemma thread_step_open:
  assumes "thread_step s e s'" "ts_open s"
  shows "ts_inv s'"
  using assms(1)
proof cases
  case (close_began t j m)
  then obtain w where "th_thread (ts_obj s) = Joinable w" "j = Joinable w"
    "m = (ts_obj s)\<lparr>th_closing := True, th_thread := MovedFrom\<rparr>"
    using assms(2) by (cases j) (auto simp: ts_open_def close_post_begin_def split: if_splits)
  then have "ts_closing t w s'"
    using assms(2) close_began by (auto simp: ts_open_def ts_closing_def)
  then show ?thesis by (auto simp: ts_inv_def)
qed (use assms(2) in \<open>auto simp: ts_inv_def ts_open_def thread_defs split: if_splits jthread_slot.splits\<close>)

lemma thread_step_closing:
  assumes "thread_step s e s'" "ts_closing t w s"
  shows "ts_closing t w s' \<or> e = CloseEnded t \<and> ts_open s' \<and> ts_live s' = {}"
  using assms(1)
proof cases
  case (close_ended u j)
  then have "u = t" "j = Joinable w" using assms(2) by (auto simp: ts_closing_def split: if_splits)
  then show ?thesis
    using close_ended assms(2) by (auto simp: ts_closing_def ts_open_def close_post_end_def)
qed (use assms(2) in \<open>auto simp: ts_closing_def thread_defs split: if_splits\<close>)

lemma thread_step_inv: "thread_step s e s' \<Longrightarrow> ts_inv s \<Longrightarrow> ts_inv s'"
  using thread_step_open thread_step_closing by (fastforce simp: ts_inv_def)

lemma thread_steps_inv: "steps thread_step ts_init es s \<Longrightarrow> ts_inv s"
  by (erule steps_invariant) (auto simp: ts_inv_init thread_step_inv)

text \<open>The stop request is taken back only by a \<^verbatim>\<open>create\<close> that finds no worker running.\<close>

lemma thread_step_stop:
  assumes "thread_step s e s'" "ts_inv s" "th_stop (ts_obj s)" "\<not> th_stop (ts_obj s')"
  shows "ts_live s = {}"
  using assms(1)
proof cases
  case (created t v r launched m)
  have "ts_open s" using assms(2) created by (auto simp: ts_inv_def ts_closing_def thread_create_def)
  then show ?thesis using created assms(3,4)
    by (auto simp: ts_open_def thread_defs split: if_splits jthread_slot.splits)
next
  case (close_began t j m)
  then show ?thesis using assms(3,4) by (auto simp: close_post_begin_def split: if_splits)
qed (use assms(3,4) in \<open>auto simp: close_pre_def close_post_end_def\<close>)

text \<open>Identities are never reused, so a worker that has gone stays gone.\<close>

lemma thread_step_live_used:
  "thread_step s e s' \<Longrightarrow> ts_live s \<subseteq> ts_used s \<Longrightarrow>
     ts_live s' \<subseteq> ts_used s' \<and> ts_used s \<subseteq> ts_used s' \<and> ts_live s' \<inter> ts_used s \<subseteq> ts_live s"
  by (erule thread_stepE) auto

lemma thread_steps_live_used: "steps thread_step ts_init es s \<Longrightarrow> ts_live s \<subseteq> ts_used s"
  by (erule steps_invariant [where P = "\<lambda>s. ts_live s \<subseteq> ts_used s"])
    (simp_all add: ts_init_def thread_step_live_used)

lemma thread_steps_stop_kept:
  assumes "steps thread_step s es s'" "ts_inv s" "ts_live s \<subseteq> ts_used s" "th_stop (ts_obj s)"
    "w \<in> ts_live s" "w \<in> ts_live s'"
  shows "th_stop (ts_obj s')"
  using assms
proof (induction rule: steps.induct)
  case (steps_cons s e s1 es s2)
  note lu = thread_step_live_used [OF steps_cons(1) steps_cons(5)]
  have later: "steps thread_step a xs b \<Longrightarrow> ts_live a \<subseteq> ts_used a \<Longrightarrow> v \<in> ts_used a \<Longrightarrow>
      v \<in> ts_live b \<Longrightarrow> v \<in> ts_live a" for a xs b v
  proof (induction rule: steps.induct)
    case (steps_cons a e b es c)
    then show ?case using thread_step_live_used [OF steps_cons(1)] by blast
  qed simp
  have w: "w \<in> ts_live s1"
    using later [OF steps_cons(2)] lu steps_cons(5,7,8) by blast
  have "th_stop (ts_obj s1)"
    using thread_step_stop [OF steps_cons(1,4,6)] steps_cons(7) by auto
  then show ?case using steps_cons.IH thread_step_inv [OF steps_cons(1,4)] lu w steps_cons(8) by blast
qed

section \<open>A concrete run\<close>

text \<open>
  Thread 1 creates worker 7, thread 2 closes: \<open>ts_running st\<close> is the object with the worker running
  and the stop request \<open>st\<close>, \<open>ts_during\<close> the one whose closer is in \<^verbatim>\<open>join\<close>, \<open>l\<close> telling whether the
  worker still runs.
\<close>

definition ts_running :: "bool \<Rightarrow> thread_sys" where
  "ts_running st = \<lparr>ts_obj = \<lparr>th_thread = Joinable 7, th_stop = st, th_closing = False\<rparr>,
     ts_live = {7}, ts_used = {7}, ts_joining = Map.empty, ts_waiters = no_waiters\<rparr>"

definition ts_during :: "bool \<Rightarrow> tid \<Rightarrow> thread_sys" where
  "ts_during l t = \<lparr>ts_obj = \<lparr>th_thread = MovedFrom, th_stop = True, th_closing = True\<rparr>,
     ts_live = (if l then {7} else {}), ts_used = {7}, ts_joining = [t \<mapsto> Joinable 7],
     ts_waiters = no_waiters\<rparr>"

lemma thread_example_steps:
  "thread_step ts_init (Created 1 True) (ts_running False)"
  "thread_step (ts_running False) (PreClosed 2) (ts_running True)"
  "thread_step (ts_running True) (CloseBegan 2) (ts_during True 2)"
  "thread_step (ts_during True 2) (PreClosed 3) (ts_during True 2)"
  "thread_step (ts_during True 2) (CloseReturned 3) (ts_during True 2)"
  "thread_step (ts_during True 2) (WorkerDone 7) (ts_during False 2)"
  "\<exists>s. thread_step (ts_during False 2) (CloseEnded 2) s"
  using created [of 1 ts_init 7 1 True "ts_obj (ts_running False)"] pre_closed [of "ts_running False" 2]
    close_began [of "ts_running True" 2] pre_closed [of "ts_during True 2" 3]
    worker_done [of 7 "ts_during True 2"] close_ended [of "ts_during False 2" 2 "Joinable 7"]
  by (auto simp: ts_running_def ts_during_def ts_init_def thread_defs waiting_def leave_def no_waiters_def
      intro: close_returned)

lemma thread_example_created: "steps thread_step ts_init [Created 1 True] (ts_running False)"
  using thread_example_steps by (blast intro: steps.intros)

lemma thread_example_join:
  "steps thread_step ts_init [Created 1 True, PreClosed 2, CloseBegan 2] (ts_during True 2)"
  using thread_example_steps by (blast intro: steps.intros)

lemma thread_example_joined:
  "steps thread_step ts_init [Created 1 True, PreClosed 2, CloseBegan 2, WorkerDone 7] (ts_during False 2)"
  using thread_example_steps by (blast intro: steps.intros)

section \<open>Properties\<close>

text \<open>
  C3: at most one worker. However many threads call \<^verbatim>\<open>create\<close>, \<^verbatim>\<open>close_pre\<close>, \<^verbatim>\<open>close_post\<close> and
  \<^verbatim>\<open>close\<close> concurrently, never are two workers inside \<^verbatim>\<open>thread_proc\<close>, not even while a close is
  parked in \<^verbatim>\<open>join\<close>; and a caller sleeps in \<^verbatim>\<open>create\<close> only while a close is in progress.
\<close>

theorem thread_single_worker:
  assumes "steps thread_step ts_init es s"
  shows "(v \<in> ts_live s \<and> w \<in> ts_live s \<longrightarrow> v = w) \<and>
    (t \<in> parked (ts_waiters s) \<longrightarrow> th_closing (ts_obj s))"
proof -
  have "ts_open s \<or> (\<exists>t w. ts_closing t w s)" using thread_steps_inv [OF assms] by (simp add: ts_inv_def)
  then have "v = w" if "v \<in> ts_live s" "w \<in> ts_live s"
    using that
  proof (elim disjE exE)
    assume "ts_open s"
    then have "v \<in> {w. th_thread (ts_obj s) = Joinable w}" "w \<in> {w. th_thread (ts_obj s) = Joinable w}"
      using that by (auto simp: ts_open_def)
    then show "v = w" by simp
  qed (auto simp: ts_closing_def)
  moreover have "th_closing (ts_obj s)" if "t \<in> parked (ts_waiters s)"
    using thread_steps_inv [OF assms] that by (auto simp: ts_inv_def ts_open_def ts_closing_def)
  ultimately show ?thesis by blast
qed

theorem thread_single_worker_witness:
  "ts_live (ts_during True 2) \<subseteq> {7} \<and> 7 \<in> ts_live (ts_during True 2)"
  using thread_single_worker [OF thread_example_join, of _ 7] by (auto simp: ts_during_def)

text \<open>
  C24: a stop request is not lost. Once \<^verbatim>\<open>close_pre\<close> has requested a stop while a worker runs, that
  worker's \<^verbatim>\<open>do_exit()\<close> is true for as long as it runs, whatever other threads do, concurrent
  \<^verbatim>\<open>create\<close> calls included.
\<close>

theorem thread_stop_not_lost:
  assumes "steps thread_step ts_init es s" "w \<in> ts_live s"
    and "thread_step s (PreClosed t) s1" "steps thread_step s1 es' s2" "w \<in> ts_live s2"
  shows "do_exit (ts_obj s2)"
proof -
  have s1: "ts_live s1 = ts_live s" "ts_used s1 = ts_used s" "th_stop (ts_obj s1)"
    using assms(3) by (auto elim!: thread_stepE simp: close_pre_def)
  have "ts_inv s1" using thread_step_inv [OF assms(3)] thread_steps_inv [OF assms(1)] by simp
  then show ?thesis
    using thread_steps_stop_kept [OF assms(4)] s1 assms(2,5) thread_steps_live_used [OF assms(1)]
    by (simp add: do_exit_def)
qed

theorem thread_stop_not_lost_witness: "do_exit (ts_obj (ts_during True 2))"
proof -
  have "steps thread_step (ts_running True) [CloseBegan 2] (ts_during True 2)"
    using thread_example_steps by (blast intro: steps.intros)
  from thread_stop_not_lost [OF thread_example_created _ thread_example_steps(2) this, of 7]
  show ?thesis by (simp add: ts_running_def ts_during_def)
qed

text \<open>
  C32: A close that joins really joins. When a call of \<^verbatim>\<open>close_post\<close> passes its second critical
  section, no worker is running, the object holds no thread, every caller asleep in \<^verbatim>\<open>create\<close> has
  been woken, and the next \<^verbatim>\<open>create\<close> launches a worker that does not see the old stop request.
\<close>

theorem thread_close_joins:
  assumes "steps thread_step ts_init es s" "thread_step s (CloseEnded t) s'"
  shows "ts_live s' = {} \<and> thread_exists (ts_obj s') = 0 \<and> parked (ts_waiters s') = {} \<and>
    (\<exists>m. thread_create w (ts_obj s') = Ret (1, True, m) \<and> \<not> do_exit m \<and> th_thread m = Joinable w)"
proof -
  obtain j where j: "ts_joining s t = Some j" using assms(2) by (auto elim: thread_stepE)
  then obtain u v where c: "ts_closing u v s"
    using thread_steps_inv [OF assms(1)] by (auto simp: ts_inv_def ts_open_def)
  have "\<not> ts_closing u v s'"
    using assms(2) by (auto elim!: thread_stepE simp: ts_closing_def close_post_end_def)
  then have "ts_open s'" "ts_live s' = {}" using thread_step_closing [OF assms(2) c] by auto
  moreover have "th_thread (ts_obj s') = NoThread"
    using assms(2) by (auto elim!: thread_stepE simp: close_post_end_def)
  ultimately show ?thesis by (auto simp: ts_open_def thread_defs)
qed

theorem thread_close_joins_witness:
  "\<exists>s'. thread_step (ts_during False 2) (CloseEnded 2) s' \<and> thread_exists (ts_obj s') = 0"
  using thread_close_joins [OF thread_example_joined] thread_example_steps(7) by blast

text \<open>
  A second close does not wait. While one caller is parked in \<^verbatim>\<open>join\<close> and the worker is still
  running, a concurrent \<^verbatim>\<open>close\<close> takes the branch commented as already torn down and returns; a
  caller that then destroys the object destroys it under the running worker.
\<close>

theorem thread_second_close_returns_early:
  "\<exists>s. steps thread_step ts_init
      [Created 1 True, PreClosed 2, CloseBegan 2, PreClosed 3, CloseReturned 3] s \<and>
    ts_live s \<noteq> {} \<and> th_closing (ts_obj s)"
proof -
  have "steps thread_step ts_init
      [Created 1 True, PreClosed 2, CloseBegan 2, PreClosed 3, CloseReturned 3] (ts_during True 2)"
    using thread_example_steps by (blast intro: steps.intros)
  then show ?thesis by (intro exI conjI, assumption) (simp_all add: ts_during_def)
qed

end
