(* ===== verification/Byte_Codec.thy ===== *)
theory Byte_Codec
  imports Prelude
begin

text \<open>
  Bytes in memory: \<^verbatim>\<open>memcpy\<close> into and out of a buffer at an offset, and the object
  representation of an unsigned integer, which the code reaches by \<^verbatim>\<open>reinterpret_cast\<close> and
  \<^verbatim>\<open>memcpy\<close>. The library is built for little-endian hosts, so that is the order here.
\<close>

fun le_bytes :: "nat \<Rightarrow> nat \<Rightarrow> bytes" where
  "le_bytes 0 x = []"
| "le_bytes (Suc n) x = of_nat (x mod 256) # le_bytes n (x div 256)"

fun le_value :: "bytes \<Rightarrow> nat" where
  "le_value [] = 0"
| "le_value (b # bs) = unat b + 256 * le_value bs"

lemma length_le_bytes [simp]: "length (le_bytes n x) = n"
  by (induction n arbitrary: x) auto

lemma byte_less: "unat (b :: u8) < 256"
  using unsigned_less [of b] by simp

lemma unat_byte: "unat (of_nat (x mod 256) :: u8) = x mod 256"
  by (simp add: unat_of_nat)

lemma le_value_le_bytes: "le_value (le_bytes n x) = x mod 256 ^ n"
  by (induction n arbitrary: x) (simp_all add: unat_byte mod_mult2_eq)

lemma le_value_le_bytes_id [simp]: "x < 256 ^ n \<Longrightarrow> le_value (le_bytes n x) = x"
  by (simp add: le_value_le_bytes)

lemma le_bytes_le_value [simp]: "le_bytes (length bs) (le_value bs) = bs"
proof (induction bs)
  case (Cons b bs)
  have "unat b < 256" by (rule byte_less)
  then have "(unat b + 256 * le_value bs) mod 256 = unat b"
    "(unat b + 256 * le_value bs) div 256 = le_value bs" by simp_all
  then show ?case using Cons by simp
qed simp

lemma le_value_bound: "le_value bs < 256 ^ length bs"
proof (induction bs)
  case (Cons b bs)
  have "unat b < 256" by (rule byte_less)
  moreover have "le_value bs + 1 \<le> 256 ^ length bs" using Cons by simp
  then have "256 * (le_value bs + 1) \<le> 256 * 256 ^ length bs" by (rule mult_le_mono2)
  ultimately show ?case by simp
qed simp

text \<open>\<^verbatim>\<open>memcpy(buf + off, bs, length bs)\<close> and \<^verbatim>\<open>memcpy(dst, buf + off, n)\<close>; callers check the range.\<close>

definition blit :: "nat \<Rightarrow> 'a list \<Rightarrow> 'a list \<Rightarrow> 'a list" where
  "blit off bs buf = take off buf @ bs @ drop (off + length bs) buf"

definition slice :: "nat \<Rightarrow> nat \<Rightarrow> 'a list \<Rightarrow> 'a list" where
  "slice off n buf = take n (drop off buf)"

lemma length_blit [simp]: "off + length bs \<le> length buf \<Longrightarrow> length (blit off bs buf) = length buf"
  by (simp add: blit_def)

lemma length_slice [simp]: "off + n \<le> length buf \<Longrightarrow> length (slice off n buf) = n"
  by (simp add: slice_def)

lemma slice_blit [simp]: "off + length bs \<le> length buf \<Longrightarrow> slice off (length bs) (blit off bs buf) = bs"
  by (simp add: slice_def blit_def)

lemma slice_blit_len: "n = length bs \<Longrightarrow> off + n \<le> length buf \<Longrightarrow> slice off n (blit off bs buf) = bs"
  by simp

lemma slice_blit_before:
  "i + n \<le> off \<Longrightarrow> off \<le> length buf \<Longrightarrow> slice i n (blit off bs buf) = slice i n buf"
  by (auto simp: slice_def blit_def drop_take min_def)

lemma slice_blit_after:
  "off + length bs \<le> i \<Longrightarrow> off \<le> length buf \<Longrightarrow> slice i n (blit off bs buf) = slice i n buf"
  by (simp add: slice_def blit_def min_def)

lemma slice_append_left: "off + n \<le> length xs \<Longrightarrow> slice off n (xs @ ys) = slice off n xs"
  by (simp add: slice_def)

lemma slice_middle: "length xs = i \<Longrightarrow> length ys = n \<Longrightarrow> slice i n (xs @ ys @ zs) = ys"
  by (simp add: slice_def)

lemma slice_skip: "length xs \<le> i \<Longrightarrow> slice i n (xs @ ys) = slice (i - length xs) n ys"
  by (simp add: slice_def)

lemma slice_first: "length xs = n \<Longrightarrow> slice 0 n (xs @ ys) = xs"
  by (simp add: slice_def)

lemma le_value_u16 [simp]: "of_nat (le_value (le_bytes 2 (unat (x :: u16)))) = x"
proof -
  have "unat x < 2 ^ 16" using unsigned_less [where 'a = nat and w = x] by simp
  then show ?thesis by simp
qed

end
