(* ===== verification/Event_Thread.thy ===== *)
theory Event_Thread
  imports Event_Queue Thread_Lifecycle Byte_Codec
begin

text \<open>
  The event packet of \<^verbatim>\<open>include/eventdefs.hpp\<close> and \<^verbatim>\<open>class QThread\<close> of \<^verbatim>\<open>include/qthread.hpp\<close> and
  \<^verbatim>\<open>src/qthread.cpp\<close>: a \<^verbatim>\<open>Thread\<close> with an \<^verbatim>\<open>EventQueue\<close> of its own. \<^verbatim>\<open>add_event\<close> fills a packet on the
  stack, \<^verbatim>\<open>add\<close> copies it into the queue, \<^verbatim>\<open>close\<close> requests a stop, posts a quit event and joins.
  Writing past the end of \<^verbatim>\<open>Value\<close> is the fault \<open>UB\<close>.
\<close>

section \<open>The packet\<close>

record xtmaddr =
  usZoneId :: u16
  usSysId :: u16
  usParentId :: u16
  usChildId :: u16
  ulTmpPid :: u32

record xtmmsghdr =
  nMagicCookie :: u32
  nMsgLen :: int
  stReceiver :: xtmaddr
  stSender :: xtmaddr
  snHopCnt :: int
  usTransactionId :: u16
  snSerNo :: int
  usType :: u16
  usSubType :: u16
  hdr_reserved :: u16

record arsline =
  usAreaId :: u16
  usSystemId :: u16
  usBoardId :: u16
  usTrunkId :: u16
  usChannelId :: u16
  usReserved :: "u16 list"

record eventinfo =
  ev_h :: xtmmsghdr
  ev_line :: arsline
  ev_Value :: bytes

text \<open>
  The sizes: every member is aligned where it stands, so \<^verbatim>\<open>sizeof\<close> is the sum of the members.
\<close>

definition sizeof_XTMADDR :: nat where
  "sizeof_XTMADDR = 2 + 2 + 2 + 2 + 4"

definition sizeof_XTMMSGHDR :: nat where
  "sizeof_XTMMSGHDR = 4 + 4 + sizeof_XTMADDR + sizeof_XTMADDR + 2 + 2 + 2 + 2 + 2 + 2"

definition sizeof_ARSLINE :: nat where
  "sizeof_ARSLINE = 5 * 2 + 3 * 2"

definition MAX_EVENTINFO_SIZE :: nat where
  "MAX_EVENTINFO_SIZE = 4 * 1024"

definition EVENTINFO_HEADER_LENGTH :: nat where
  "EVENTINFO_HEADER_LENGTH = sizeof_XTMMSGHDR + sizeof_ARSLINE"

definition MAX_VALUE_SIZE :: nat where
  "MAX_VALUE_SIZE = MAX_EVENTINFO_SIZE - EVENTINFO_HEADER_LENGTH"

lemma event_sizes [simp]: "EVENTINFO_HEADER_LENGTH = 60" "MAX_VALUE_SIZE = 4036"
  by (simp_all add: EVENTINFO_HEADER_LENGTH_def sizeof_XTMMSGHDR_def sizeof_XTMADDR_def
      sizeof_ARSLINE_def MAX_VALUE_SIZE_def MAX_EVENTINFO_SIZE_def)

definition event_value_length :: "eventinfo \<Rightarrow> int" where
  "event_value_length e = nMsgLen (ev_h e) - int EVENTINFO_HEADER_LENGTH"

text \<open>The accessor macros; the client and the board share one field.\<close>

definition EVENTINFO_LENGTH :: "eventinfo \<Rightarrow> int" where
  "EVENTINFO_LENGTH e = nMsgLen (ev_h e)"

definition EVENTINFO_VALUE_LENGTH :: "eventinfo \<Rightarrow> int" where
  "EVENTINFO_VALUE_LENGTH e = nMsgLen (ev_h e) - int EVENTINFO_HEADER_LENGTH"

definition EVENTINFO_RECEIVER :: "eventinfo \<Rightarrow> u16" where
  "EVENTINFO_RECEIVER e = usSysId (stReceiver (ev_h e))"

definition EVENTINFO_SENDER :: "eventinfo \<Rightarrow> u16" where
  "EVENTINFO_SENDER e = usSysId (stSender (ev_h e))"

definition EVENTINFO_RECV_PARENTID :: "eventinfo \<Rightarrow> u16" where
  "EVENTINFO_RECV_PARENTID e = usParentId (stReceiver (ev_h e))"

definition EVENTINFO_TYPE :: "eventinfo \<Rightarrow> u16" where
  "EVENTINFO_TYPE e = usType (ev_h e)"

definition EVENTINFO_SUBTYPE :: "eventinfo \<Rightarrow> u16" where
  "EVENTINFO_SUBTYPE e = usSubType (ev_h e)"

definition EVENTINFO_AREAID :: "eventinfo \<Rightarrow> u16" where
  "EVENTINFO_AREAID e = usAreaId (ev_line e)"

definition EVENTINFO_SYSTEMID :: "eventinfo \<Rightarrow> u16" where
  "EVENTINFO_SYSTEMID e = usSystemId (ev_line e)"

definition EVENTINFO_CLIENTID :: "eventinfo \<Rightarrow> u16" where
  "EVENTINFO_CLIENTID e = usBoardId (ev_line e)"

definition EVENTINFO_BOARD :: "eventinfo \<Rightarrow> u16" where
  "EVENTINFO_BOARD e = usBoardId (ev_line e)"

definition EVENTINFO_TRUNK :: "eventinfo \<Rightarrow> u16" where
  "EVENTINFO_TRUNK e = usTrunkId (ev_line e)"

definition EVENTINFO_CHANNEL :: "eventinfo \<Rightarrow> u16" where
  "EVENTINFO_CHANNEL e = usChannelId (ev_line e)"

lemma event_macros: "EVENTINFO_VALUE_LENGTH = event_value_length" "EVENTINFO_CLIENTID = EVENTINFO_BOARD"
  by (simp_all add: fun_eq_iff EVENTINFO_VALUE_LENGTH_def event_value_length_def EVENTINFO_CLIENTID_def EVENTINFO_BOARD_def)

lemma event_length_split: "EVENTINFO_LENGTH e = int EVENTINFO_HEADER_LENGTH + EVENTINFO_VALUE_LENGTH e"
  by (simp add: EVENTINFO_LENGTH_def EVENTINFO_VALUE_LENGTH_def)

text \<open>\<^verbatim>\<open>memset(pEvent, 0, sizeof(EVENTINFO))\<close>.\<close>

definition zero_addr :: xtmaddr where
  "zero_addr = \<lparr>usZoneId = 0, usSysId = 0, usParentId = 0, usChildId = 0, ulTmpPid = 0\<rparr>"

definition zero_event :: eventinfo where
  "zero_event =
     \<lparr>ev_h = \<lparr>nMagicCookie = 0, nMsgLen = 0, stReceiver = zero_addr, stSender = zero_addr,
       snHopCnt = 0, usTransactionId = 0, snSerNo = 0, usType = 0, usSubType = 0, hdr_reserved = 0\<rparr>,
      ev_line = \<lparr>usAreaId = 0, usSystemId = 0, usBoardId = 0, usTrunkId = 0, usChannelId = 0,
       usReserved = [0, 0, 0]\<rparr>,
      ev_Value = replicate MAX_VALUE_SIZE 0\<rparr>"

text \<open>
  \<^verbatim>\<open>enum EVENTTYPE\<close> as written, an enumerator without a value being one more than the one before
  it.
\<close>

definition eventtype_decls :: "(string \<times> int option) list" where
  "eventtype_decls = [
    (''CI_QUIT'', Some 0x7FFF), (''CI_NONE'', Some 0x8000), (''CI_ACK'', Some 0x8001),
    (''CI_LOGIN'', Some 0x8002), (''CI_LOGOUT'', Some 0x8003), (''CI_TIMEOUT'', Some 0x8004),
    (''CI_ARS_START'', Some 0x8005), (''CI_ARS_STOP'', Some 0x8006),
    (''CI_SS7_CALL'', Some 0x8007), (''CI_SS7_HANGUP'', Some 0x8008),
    (''CI_SS7_ALERT'', Some 0x8009), (''CI_SS7_ANSWER'', Some 0x800A),
    (''CI_SS7_RECV'', Some 0x800B), (''CI_SS7_RELEASE'', Some 0x800C),
    (''CI_SS7_REJECT'', Some 0x800D), (''CI_TTS_REQUEST'', Some 0x800E),
    (''CI_TTS_REPLY'', Some 0x800F), (''CI_PLAY_DONE'', Some 0x9001), (''CI_RECORD_DONE'', None),
    (''CI_DTMF_SINGLE'', None), (''CI_DTMF_MULTI'', None), (''CI_NOINPUT'', None),
    (''CI_NOMATCH'', None), (''CI_NMS_EVENT'', Some 0xF000), (''CI_VXML_REQUEST'', None),
    (''CI_VXML_DONE'', None), (''CI_QUIT_THREAD'', None), (''CI_START_SIM'', None),
    (''CI_STOP_SIM'', None), (''CI_START_SIM_HELPER'', None), (''CI_GEN_DTMF'', None),
    (''CI_PLAY_FILE'', None), (''CI_VXML_RESPONSE'', None), (''CI_APP_REQUEST'', None),
    (''CI_SS7_REQUEST'', None), (''CI_SS7_OG_REQ'', None), (''CI_SS7_CH_STATUS'', None),
    (''CI_SS7_CH_STATUS_ACK'', None), (''CI_JUMP_DOC'', None), (''CI_USER_CERT'', None),
    (''CI_SS7_REL_COMPLETE'', None), (''CI_SS7_RESET'', None), (''CI_SS7_REATEMPT'', None),
    (''CI_OG_MESSAGE'', None), (''CI_OG_RELEASE'', None), (''CI_OG_CALL_RES'', None),
    (''CI_OG_CALL_RECV'', None), (''CI_OG_CALL_ACCEPT'', None), (''CI_MGR_MESSAGE'', None),
    (''CI_MGR_CALL'', None), (''CI_MGR_CALL_ACCEPT'', None), (''CI_MGR_RECALL'', None),
    (''CI_MGR_REL'', None), (''CI_MGR_FREECH'', None), (''CI_OG_REQUEST'', None),
    (''CI_CTRL_MESSAGE'', None), (''CI_SS7_G_DISTRIBUTE_RESET'', None),
    (''CI_START_VXML'', None), (''CI_DTMF_TONE'', None), (''CI_OG_STATUS_REQ'', None),
    (''CI_OG_STATUS_RES'', None)]"

fun enum_values :: "int \<Rightarrow> (string \<times> int option) list \<Rightarrow> (string \<times> int) list" where
  "enum_values nxt [] = []"
| "enum_values nxt ((n, None) # ds) = (n, nxt) # enum_values (nxt + 1) ds"
| "enum_values nxt ((n, Some v) # ds) = (n, v) # enum_values (v + 1) ds"

definition EVENTTYPE :: "string \<Rightarrow> int option" where
  "EVENTTYPE = map_of (enum_values 0 eventtype_decls)"

definition CI_QUIT_THREAD :: u16 where
  "CI_QUIT_THREAD = word_of_int (the (EVENTTYPE ''CI_QUIT_THREAD''))"

section \<open>QThread\<close>

record qthread =
  qt_thread :: thread_obj
  qt_queue :: "eventinfo queue"

definition DEF_EVENT_QUEUE_LENGTH :: int where
  "DEF_EVENT_QUEUE_LENGTH = 32"

definition mk_qthread_n :: "int \<Rightarrow> qthread" where
  "mk_qthread_n nBufferLen = \<lparr>qt_thread = mk_thread, qt_queue = mk_queue zero_event nBufferLen\<rparr>"

definition mk_qthread :: qthread where
  "mk_qthread = mk_qthread_n DEF_EVENT_QUEUE_LENGTH"

definition qthread_add :: "eventinfo \<Rightarrow> qthread \<Rightarrow> bool \<times> qthread" where
  "qthread_add pEvent s =
     (let (r, q) = queue_put pEvent (qt_queue s)
      in if r \<noteq> 0 then (False, s\<lparr>qt_queue := q\<rparr>) else (True, s\<lparr>qt_queue := q\<rparr>))"

definition qthread_remove :: "qthread \<Rightarrow> (queue_ptr \<times> qthread) outcome" where
  "qthread_remove s =
     (case queue_get (qt_queue s) of
        Blocked \<Rightarrow> Blocked
      | Ret (p, q) \<Rightarrow> Ret (p, s\<lparr>qt_queue := q\<rparr>))"

definition qthread_try_remove :: "qthread \<Rightarrow> queue_ptr \<times> qthread" where
  "qthread_try_remove s =
     (let (r, p, q) = queue_try_get NullPtr (qt_queue s)
      in if r = 1 then (p, s\<lparr>qt_queue := q\<rparr>) else (NullPtr, s\<lparr>qt_queue := q\<rparr>))"

text \<open>
  \<^verbatim>\<open>add_event(type, stype, pValue, nLen)\<close>. A null \<^verbatim>\<open>pValue\<close> is \<open>None\<close>; a pointer is the bytes it may
  be read through. The copy faults when \<open>nLen\<close> exceeds the source or the packet's \<^verbatim>\<open>Value\<close>, which
  the code does not check; so does the \<^verbatim>\<open>int\<close> addition on overflow.
\<close>

definition fill_value :: "bytes option \<Rightarrow> int \<Rightarrow> bytes \<Rightarrow> fault + bytes" where
  "fill_value pValue nLen v =
     (case pValue of
        None \<Rightarrow> Inr v
      | Some src \<Rightarrow>
          if nLen > 0 then
            if nat nLen \<le> length src \<and> nat nLen \<le> length v
            then Inr (blit 0 (take (nat nLen) src) v)
            else Inl (UB ''memcpy out of range'')
          else Inr v)"

definition qthread_add_event ::
  "u16 \<Rightarrow> u16 \<Rightarrow> bytes option \<Rightarrow> int \<Rightarrow> qthread \<Rightarrow> fault + bool \<times> qthread" where
  "qthread_add_event type stype pValue nLen s =
     (case fill_value pValue nLen (ev_Value zero_event) of
        Inl f \<Rightarrow> Inl f
      | Inr v \<Rightarrow>
          (case add_int32 (int EVENTINFO_HEADER_LENGTH) nLen of
             None \<Rightarrow> Inl (UB ''int overflow'')
           | Some len \<Rightarrow>
               Inr (qthread_add
                 (zero_event\<lparr>ev_h := (ev_h zero_event)\<lparr>usType := type, usSubType := stype, nMsgLen := len\<rparr>,
                             ev_Value := v\<rparr>) s)))"

definition qthread_add_event32 :: "u16 \<Rightarrow> u16 \<Rightarrow> u32 \<Rightarrow> qthread \<Rightarrow> bool \<times> qthread" where
  "qthread_add_event32 type stype value s =
     qthread_add
       (zero_event\<lparr>ev_h := (ev_h zero_event)\<lparr>usType := type, usSubType := stype,
                                              nMsgLen := int EVENTINFO_HEADER_LENGTH + 4\<rparr>,
                   ev_Value := blit 0 (le_bytes 4 (unat value)) (ev_Value zero_event)\<rparr>) s"

definition qthread_add_quit_event :: "qthread \<Rightarrow> fault + bool \<times> qthread" where
  "qthread_add_quit_event s = qthread_add_event CI_QUIT_THREAD 0 None 0 s"

text \<open>
  \<^verbatim>\<open>QThread::close\<close> up to its \<^verbatim>\<open>close_post\<close>; the result of \<^verbatim>\<open>add_quit_event\<close> is ignored there. What
  follows is \<^verbatim>\<open>close_post\<close> of \<^verbatim>\<open>Thread\<close>.
\<close>

definition qthread_close_begin :: "qthread \<Rightarrow> fault + qthread" where
  "qthread_close_begin s =
     (case qthread_add_quit_event (s\<lparr>qt_thread := close_pre (qt_thread s)\<rparr>) of
        Inl f \<Rightarrow> Inl f
      | Inr (ok, s') \<Rightarrow> Inr s')"

definition qthread_start :: "wid \<Rightarrow> qthread \<Rightarrow> (bool \<times> bool \<times> qthread) outcome" where
  "qthread_start w s =
     (case thread_create w (qt_thread s) of
        Blocked \<Rightarrow> Blocked
      | Ret (r, launched, m) \<Rightarrow> Ret (r = 1, launched, s\<lparr>qt_thread := m\<rparr>))"

lemmas qthread_defs = qthread_add_def qthread_remove_def qthread_try_remove_def
  qthread_add_event_def qthread_add_event32_def qthread_add_quit_event_def
  qthread_close_begin_def fill_value_def

lemma quit_type: "CI_QUIT_THREAD = 0xF003"
  by (simp add: CI_QUIT_THREAD_def EVENTTYPE_def eventtype_decls_def)

lemma quit_event_put:
  "qthread_add_quit_event s = Inr (qthread_add
     (zero_event\<lparr>ev_h := (ev_h zero_event)\<lparr>usType := CI_QUIT_THREAD, nMsgLen := 60\<rparr>\<rparr>) s)"
  by (simp add: qthread_add_quit_event_def qthread_add_event_def fill_value_def add_int32_def
      in_int32_def zero_event_def)

text \<open>What the packet an \<^verbatim>\<open>add_event\<close> queues says about itself.\<close>

definition event_carries :: "eventinfo \<Rightarrow> u16 \<Rightarrow> u16 \<Rightarrow> bytes \<Rightarrow> bool" where
  "event_carries e type stype payload \<longleftrightarrow>
     usType (ev_h e) = type \<and> usSubType (ev_h e) = stype \<and>
     event_value_length e = int (length payload) \<and> length (ev_Value e) = MAX_VALUE_SIZE \<and>
     take (length payload) (ev_Value e) = payload"

lemma qthread_add_accept:
  assumes "queue_inv (qt_queue s)" "\<not> queue_closed (qt_queue s)"
    "int (length (queue_q (qt_queue s))) < queue_max (qt_queue s)"
  shows "qthread_add e s = (True, s\<lparr>qt_queue := (qt_queue s)\<lparr>queue_q := queue_q (qt_queue s) @ [e]\<rparr>\<rparr>)"
  using assms by (simp add: qthread_add_def queue_put_def queue_size_exact)

lemma qthread_add_refuse:
  assumes "queue_inv (qt_queue s)" "queue_max (qt_queue s) \<le> int (length (queue_q (qt_queue s)))"
  shows "qthread_add e s = (False, s)"
  using assms by (simp add: qthread_add_def queue_put_def queue_size_exact)

lemma add_event_accept:
  assumes "queue_inv (qt_queue s)" "\<not> queue_closed (qt_queue s)"
    "int (length (queue_q (qt_queue s))) < queue_max (qt_queue s)" "length payload \<le> MAX_VALUE_SIZE"
  shows "\<exists>e. event_carries e type stype payload \<and>
    qthread_add_event type stype (Some payload) (int (length payload)) s =
      Inr (True, s\<lparr>qt_queue := (qt_queue s)\<lparr>queue_q := queue_q (qt_queue s) @ [e]\<rparr>\<rparr>)"
proof -
  let ?v = "if payload = [] then ev_Value zero_event else blit 0 payload (ev_Value zero_event)"
  let ?e = "zero_event\<lparr>ev_h := (ev_h zero_event)\<lparr>usType := type, usSubType := stype,
     nMsgLen := 60 + int (length payload)\<rparr>, ev_Value := ?v\<rparr>"
  have "fill_value (Some payload) (int (length payload)) (ev_Value zero_event) = Inr ?v"
    using assms(4) by (simp add: fill_value_def zero_event_def)
  moreover have "add_int32 60 (int (length payload)) = Some (60 + int (length payload))"
    using assms(4) by (simp add: add_int32_def in_int32_def)
  moreover have "event_carries ?e type stype payload"
    using assms(4) by (auto simp: event_carries_def event_value_length_def blit_def zero_event_def)
  ultimately show ?thesis
    using qthread_add_accept [OF assms(1-3)] by (auto simp: qthread_add_event_def)
qed

section \<open>Properties\<close>

text \<open>
  an event survives the trip. A payload of at most \<^verbatim>\<open>MAX_VALUE_SIZE\<close> bytes added with
  \<^verbatim>\<open>add_event\<close> to a thread whose queue is open, empty and has room is what the next \<^verbatim>\<open>remove\<close>
  returns: same type, same subtype, \<^verbatim>\<open>event_value_length\<close> the number of bytes, and the bytes.
\<close>

theorem qthread_event_roundtrip:
  assumes "queue_inv (qt_queue s)" "\<not> queue_closed (qt_queue s)" "queue_q (qt_queue s) = []"
    "0 < queue_max (qt_queue s)" "length payload \<le> MAX_VALUE_SIZE"
  shows "\<exists>s1 s2 e. qthread_add_event type stype (Some payload) (int (length payload)) s = Inr (True, s1) \<and>
    qthread_remove s1 = Ret (ScratchPtr, s2) \<and> queue_deref ScratchPtr (qt_queue s2) = Some e \<and>
    event_carries e type stype payload"
proof -
  obtain e where e: "event_carries e type stype payload"
    "qthread_add_event type stype (Some payload) (int (length payload)) s =
       Inr (True, s\<lparr>qt_queue := (qt_queue s)\<lparr>queue_q := queue_q (qt_queue s) @ [e]\<rparr>\<rparr>)"
    using add_event_accept [of s payload type stype] assms by auto
  then show ?thesis using assms(3)
    by (auto simp: qthread_remove_def queue_get_def queue_take_def queue_deref_def)
qed

theorem qthread_event_roundtrip_witness:
  "\<exists>s1 s2 e. qthread_add_event 0x8002 5 (Some [1, 2, 3]) 3 mk_qthread = Inr (True, s1) \<and>
    qthread_remove s1 = Ret (ScratchPtr, s2) \<and> queue_deref ScratchPtr (qt_queue s2) = Some e \<and>
    event_carries e 0x8002 5 [1, 2, 3]"
  using qthread_event_roundtrip [of mk_qthread "[1, 2, 3]" "0x8002" 5]
  by (simp add: mk_qthread_def mk_qthread_n_def mk_queue_def queue_inv_def DEF_EVENT_QUEUE_LENGTH_def
      in_int32_def)

text \<open>
  \<^verbatim>\<open>add_event\<close> does not check its length. For every \<^verbatim>\<open>nLen\<close> above \<^verbatim>\<open>MAX_VALUE_SIZE\<close> (4036) the
  \<^verbatim>\<open>memcpy\<close> writes past the end of the packet on the stack, whatever the state of the queue.
\<close>

theorem qthread_add_event_overflow:
  assumes "MAX_VALUE_SIZE < length payload"
  shows "qthread_add_event type stype (Some payload) (int (length payload)) s =
    Inl (UB ''memcpy out of range'')"
proof -
  have "payload \<noteq> []" using assms by auto
  then show ?thesis using assms by (simp add: qthread_add_event_def fill_value_def zero_event_def)
qed

theorem qthread_add_event_overflow_witness:
  "qthread_add_event 1 2 (Some (replicate 4037 0)) 4037 mk_qthread = Inl (UB ''memcpy out of range'')"
  using qthread_add_event_overflow [of "replicate 4037 0" 1 2 mk_qthread] by simp

text \<open>
  C25: closing a \<^verbatim>\<open>QThread\<close> wakes its worker. After the stop request and the quit event, a worker
  blocked in \<^verbatim>\<open>remove\<close> on a queue with a positive bound no longer blocks, it sees \<^verbatim>\<open>do_exit()\<close>, and
  the quit event is at the end of the queue if there was room for it.
\<close>

theorem qthread_close_wakes_worker:
  assumes "queue_inv (qt_queue s)" "0 < queue_max (qt_queue s)" "\<not> queue_closed (qt_queue s)"
  shows "\<exists>s'. qthread_close_begin s = Inr s' \<and> qthread_remove s' \<noteq> Blocked \<and> do_exit (qt_thread s') \<and>
    (int (length (queue_q (qt_queue s))) < queue_max (qt_queue s) \<longrightarrow>
       usType (ev_h (last (queue_q (qt_queue s')))) = CI_QUIT_THREAD)"
proof (cases "int (length (queue_q (qt_queue s))) < queue_max (qt_queue s)")
  case True
  then show ?thesis
    using assms by (simp add: qthread_close_begin_def quit_event_put qthread_add_accept close_pre_def
        do_exit_def qthread_remove_def queue_get_def)
next
  case False
  then show ?thesis
    using assms by (auto simp: qthread_close_begin_def quit_event_put qthread_add_refuse close_pre_def
        do_exit_def qthread_remove_def queue_get_def)
qed

theorem qthread_close_wakes_worker_witness:
  "\<exists>s'. qthread_close_begin mk_qthread = Inr s' \<and> qthread_remove s' \<noteq> Blocked \<and> do_exit (qt_thread s') \<and>
    usType (ev_h (last (queue_q (qt_queue s')))) = CI_QUIT_THREAD"
  using qthread_close_wakes_worker [of mk_qthread]
  by (simp add: mk_qthread_def mk_qthread_n_def mk_queue_def queue_inv_def DEF_EVENT_QUEUE_LENGTH_def
      in_int32_def)

text \<open>
  The quit event can be lost. When the queue is full \<^verbatim>\<open>close\<close> drops it and goes on to \<^verbatim>\<open>join\<close>: a
  worker that waits for the quit event, and looks at nothing else, takes the events that were
  queued before the close and then blocks in \<^verbatim>\<open>remove\<close> with nobody left to wake it.
\<close>

theorem qthread_quit_event_lost:
  assumes "queue_inv (qt_queue s)" "\<not> queue_closed (qt_queue s)"
    "int (length (queue_q (qt_queue s))) = queue_max (qt_queue s)"
  shows "\<exists>s'. qthread_close_begin s = Inr s' \<and> queue_q (qt_queue s') = queue_q (qt_queue s) \<and>
    qthread_remove (s'\<lparr>qt_queue := (queue_take ^^ length (queue_q (qt_queue s))) (qt_queue s')\<rparr>) = Blocked"
proof -
  have take: "queue_q ((queue_take ^^ n) q) = drop n (queue_q q) \<and>
      queue_closed ((queue_take ^^ n) q) = queue_closed q" for n and q :: "'a queue"
    by (induction n) (auto simp: queue_take_def drop_Suc tl_drop)
  show ?thesis
    using assms take [of "length (queue_q (qt_queue s))" "qt_queue s"]
    by (simp add: qthread_close_begin_def quit_event_put qthread_add_refuse close_pre_def
        qthread_remove_def queue_get_def)
qed

theorem qthread_quit_event_lost_witness:
  "\<exists>s'. qthread_close_begin \<lparr>qt_thread = mk_thread, qt_queue =
       \<lparr>queue_q = [zero_event], queue_max = 1, queue_scratch = zero_event, queue_closed = False\<rparr>\<rparr> = Inr s' \<and>
     queue_q (qt_queue s') = [zero_event] \<and>
     qthread_remove (s'\<lparr>qt_queue := queue_take (qt_queue s')\<rparr>) = Blocked"
  using qthread_quit_event_lost [of "\<lparr>qt_thread = mk_thread, qt_queue =
      \<lparr>queue_q = [zero_event], queue_max = 1, queue_scratch = zero_event, queue_closed = False\<rparr>\<rparr>"]
  by (simp add: queue_inv_def in_int32_def)

text \<open>
  The event types are usable as the 16-bit \<^verbatim>\<open>usType\<close> of a packet: every enumerator of
  \<^verbatim>\<open>EVENTTYPE\<close>, implicit values included, is below 65536, and no two are equal, so storing one
  loses nothing and dispatching on it is unambiguous.
\<close>

theorem eventtype_values_fit:
  "distinct (map snd (enum_values 0 eventtype_decls)) \<and>
   list_all (\<lambda>d. 0 \<le> snd d \<and> snd d < 2 ^ 16) (enum_values 0 eventtype_decls) \<and>
   length (enum_values 0 eventtype_decls) = length eventtype_decls"
  by (simp add: eventtype_decls_def)

end
