(* ===== verification/Circular_Queue.thy ===== *)
theory Circular_Queue
  imports Ring_Buffer Queue_Interface Semaphore
begin

text \<open>
  \<^verbatim>\<open>class CircularQueue<TYPE, MAX>\<close> of \<^verbatim>\<open>include/util.hpp\<close>: a ring of \<^verbatim>\<open>MAX\<close> nodes of which one is
  always free, two 32-bit indices, and two counting semaphores that account for free and for
  filled nodes. \<^verbatim>\<open>put_impl\<close> and \<^verbatim>\<open>get_impl\<close> have three parts, each atomic: the reservation on one
  semaphore, the section under \<^verbatim>\<open>crit_sec_\<close>, and the release of the other semaphore. Each is a
  definition; \<open>cq_put_impl\<close> and \<open>cq_get_impl\<close> compose them for a caller who is not disturbed, and
  the step relation at the end interleaves the parts of any number of producers and consumers.
  \<open>z\<close> is the all-zero payload that \<^verbatim>\<open>memset\<close> writes; \<^verbatim>\<open>MAX\<close> is the number of nodes.
\<close>

section \<open>State and methods\<close>

record 'a circular_queue =
  cq_nodes :: "('a \<times> bool) list"
  cq_front :: u32
  cq_rear :: u32
  cq_max :: int
  cq_sem_put :: semaphore
  cq_sem_get :: semaphore

definition QNODE_SUCCESS :: int where "QNODE_SUCCESS = 0"
definition QNODE_BUFFER_FULL :: int where "QNODE_BUFFER_FULL = - 1"
definition QNODE_BUFFER_EMPTY :: int where "QNODE_BUFFER_EMPTY = - 2"

definition cq_MAX :: "'a circular_queue \<Rightarrow> u32" where
  "cq_MAX s = of_nat (length (cq_nodes s))"

definition cq_initialize :: "'a \<Rightarrow> 'a circular_queue \<Rightarrow> 'a circular_queue" where
  "cq_initialize z s =
     s\<lparr>cq_max := int (length (cq_nodes s)),
       cq_nodes := map (\<lambda>_. (z, False)) (cq_nodes s),
       cq_front := 0, cq_rear := 0,
       cq_sem_put := snd (sem_reset_count (cq_MAX s - 1) (cq_sem_put s)),
       cq_sem_get := snd (sem_reset_count 0 (cq_sem_get s))\<rparr>"

text \<open>The constructor: member initialisers, then \<^verbatim>\<open>initialize\<close>; \<open>g\<close> is the uninitialised payload.\<close>

definition mk_circular_queue :: "'a \<Rightarrow> 'a \<Rightarrow> nat \<Rightarrow> 'a circular_queue" where
  "mk_circular_queue z g nMAX =
     cq_initialize z \<lparr>cq_nodes = replicate nMAX (g, False), cq_front = 0, cq_rear = 0, cq_max = int nMAX,
       cq_sem_put = mk_semaphore (of_nat (nMAX - 1)), cq_sem_get = mk_semaphore 0\<rparr>"

definition cq_reset :: "'a \<Rightarrow> 'a circular_queue \<Rightarrow> 'a circular_queue" where
  "cq_reset z s = cq_initialize z s"

definition cq_unlock_queue :: "'a circular_queue \<Rightarrow> 'a circular_queue" where
  "cq_unlock_queue s = s\<lparr>cq_sem_put := snd (sem_unlock (cq_sem_put s)),
                         cq_sem_get := snd (sem_unlock (cq_sem_get s))\<rparr>"

definition cq_queue_pos :: "'a circular_queue \<Rightarrow> u32 \<times> u32" where
  "cq_queue_pos s = (cq_front s, cq_rear s)"

definition cq_queue_length :: "'a circular_queue \<Rightarrow> int" where
  "cq_queue_length s = cq_max s"

definition cq_empty :: "'a circular_queue \<Rightarrow> bool" where
  "cq_empty s \<longleftrightarrow> cq_front s = cq_rear s"

text \<open>The reservation: \<open>False\<close> is the early return of the non-blocking call.\<close>

definition cq_put_reserve :: "bool \<Rightarrow> 'a circular_queue \<Rightarrow> (bool \<times> 'a circular_queue) outcome" where
  "cq_put_reserve nonblocking s =
     (if nonblocking
      then (let (ok, m) = sem_lock_ms 0 (cq_sem_put s) in Ret (ok, s\<lparr>cq_sem_put := m\<rparr>))
      else (case sem_lock (cq_sem_put s) of
              Blocked \<Rightarrow> Blocked
            | Ret (_, m) \<Rightarrow> Ret (True, s\<lparr>cq_sem_put := m\<rparr>)))"

definition cq_put_locked :: "'a \<Rightarrow> 'a circular_queue \<Rightarrow> int \<times> 'a circular_queue" where
  "cq_put_locked data s =
     (let next_rear = (cq_rear s + 1) mod cq_MAX s
      in if next_rear = cq_front s
         then (QNODE_BUFFER_FULL, s\<lparr>cq_sem_put := snd (sem_unlock (cq_sem_put s))\<rparr>)
         else (QNODE_SUCCESS,
               s\<lparr>cq_nodes := (cq_nodes s)[unat (cq_rear s) := (data, True)], cq_rear := next_rear\<rparr>))"

definition cq_put_publish :: "'a circular_queue \<Rightarrow> 'a circular_queue" where
  "cq_put_publish s = s\<lparr>cq_sem_get := snd (sem_unlock (cq_sem_get s))\<rparr>"

definition cq_put_impl :: "'a \<Rightarrow> bool \<Rightarrow> 'a circular_queue \<Rightarrow> (int \<times> 'a circular_queue) outcome" where
  "cq_put_impl data nonblocking s =
     (case cq_put_reserve nonblocking s of
        Blocked \<Rightarrow> Blocked
      | Ret (ok, s1) \<Rightarrow>
          if \<not> ok then Ret (QNODE_BUFFER_FULL, s1)
          else (let (r, s2) = cq_put_locked data s1
                in if r = QNODE_SUCCESS then Ret (QNODE_SUCCESS, cq_put_publish s2) else Ret (r, s2)))"

text \<open>
  \<^verbatim>\<open>get_impl\<close>; the timed wait is given the state in which it returned. The section under the lock
  returns the payload copied to \<^verbatim>\<open>*out\<close>.
\<close>

definition cq_get_reserve ::
  "bool \<Rightarrow> int \<Rightarrow> 'a circular_queue \<Rightarrow> (bool \<times> 'a circular_queue) outcome" where
  "cq_get_reserve nonblocking timeout_ms s =
     (if nonblocking
      then (let (ok, m) = sem_lock_ms 0 (cq_sem_get s) in Ret (ok, s\<lparr>cq_sem_get := m\<rparr>))
      else if timeout_ms > 0
      then (let (ok, m) = sem_lock_ms (of_int timeout_ms) (cq_sem_get s) in Ret (ok, s\<lparr>cq_sem_get := m\<rparr>))
      else (case sem_lock (cq_sem_get s) of
              Blocked \<Rightarrow> Blocked
            | Ret (_, m) \<Rightarrow> Ret (True, s\<lparr>cq_sem_get := m\<rparr>)))"

definition cq_get_locked :: "'a \<Rightarrow> 'a circular_queue \<Rightarrow> int \<times> 'a option \<times> 'a circular_queue" where
  "cq_get_locked z s =
     (if cq_front s = cq_rear s
      then (QNODE_BUFFER_EMPTY, None, s\<lparr>cq_sem_get := snd (sem_unlock (cq_sem_get s))\<rparr>)
      else (QNODE_SUCCESS, Some (fst (cq_nodes s ! unat (cq_front s))),
            s\<lparr>cq_nodes := (cq_nodes s)[unat (cq_front s) := (z, False)],
              cq_front := (cq_front s + 1) mod cq_MAX s\<rparr>))"

definition cq_get_release :: "'a circular_queue \<Rightarrow> 'a circular_queue" where
  "cq_get_release s = s\<lparr>cq_sem_put := snd (sem_unlock (cq_sem_put s))\<rparr>"

definition cq_get_impl ::
  "'a \<Rightarrow> bool \<Rightarrow> int \<Rightarrow> 'a circular_queue \<Rightarrow> (int \<times> 'a option \<times> 'a circular_queue) outcome" where
  "cq_get_impl z nonblocking timeout_ms s =
     (case cq_get_reserve nonblocking timeout_ms s of
        Blocked \<Rightarrow> Blocked
      | Ret (ok, s1) \<Rightarrow>
          if \<not> ok then Ret (QNODE_BUFFER_EMPTY, None, s1)
          else (let (r, v, s2) = cq_get_locked z s1
                in if r = QNODE_SUCCESS then Ret (QNODE_SUCCESS, v, cq_get_release s2)
                   else Ret (r, v, s2)))"

definition cq_put :: "'a \<Rightarrow> 'a circular_queue \<Rightarrow> (int \<times> 'a circular_queue) outcome" where
  "cq_put data s = cq_put_impl data False s"

definition cq_try_put :: "'a \<Rightarrow> 'a circular_queue \<Rightarrow> (int \<times> 'a circular_queue) outcome" where
  "cq_try_put data s = cq_put_impl data True s"

definition cq_get :: "'a \<Rightarrow> 'a circular_queue \<Rightarrow> (int \<times> 'a option \<times> 'a circular_queue) outcome" where
  "cq_get z s = cq_get_impl z False 0 s"

definition cq_try_get :: "'a \<Rightarrow> 'a circular_queue \<Rightarrow> (int \<times> 'a option \<times> 'a circular_queue) outcome" where
  "cq_try_get z s = cq_get_impl z True 0 s"

definition cq_get_timed ::
  "'a \<Rightarrow> int \<Rightarrow> 'a circular_queue \<Rightarrow> (int \<times> 'a option \<times> 'a circular_queue) outcome" where
  "cq_get_timed z timeout_ms s = cq_get_impl z False timeout_ms s"

lemmas qnode_codes = QNODE_SUCCESS_def QNODE_BUFFER_FULL_def QNODE_BUFFER_EMPTY_def

section \<open>The ring\<close>

definition cq_count :: "'a circular_queue \<Rightarrow> nat" where
  "cq_count s =
     (unat (cq_rear s) + (length (cq_nodes s) - unat (cq_front s))) mod length (cq_nodes s)"

definition cq_contents :: "'a circular_queue \<Rightarrow> 'a list" where
  "cq_contents s = map fst (ring_slice (cq_nodes s) (unat (cq_front s)) (cq_count s))"

text \<open>\<^verbatim>\<open>MAX\<close> is an \<^verbatim>\<open>int\<close> template argument above one.\<close>

definition cq_inv :: "'a circular_queue \<Rightarrow> bool" where
  "cq_inv s \<longleftrightarrow>
     1 < length (cq_nodes s) \<and> length (cq_nodes s) < 2 ^ 31 \<and> cq_max s = int (length (cq_nodes s)) \<and>
     unat (cq_front s) < length (cq_nodes s) \<and> unat (cq_rear s) < length (cq_nodes s) \<and>
     ring_occupied snd (cq_nodes s) (unat (cq_front s)) (cq_count s)"

lemma cq_length_contents [simp]: "length (cq_contents s) = cq_count s"
  by (simp add: cq_contents_def)

lemma cq_count_less: "cq_inv s \<Longrightarrow> cq_count s < length (cq_nodes s)"
  unfolding cq_count_def cq_inv_def by (intro mod_less_divisor) linarith

lemma cq_rear_index:
  assumes "cq_inv s"
  shows "unat (cq_rear s) = ring_index (cq_nodes s) (unat (cq_front s)) (cq_count s)"
proof -
  have f: "unat (cq_front s) < length (cq_nodes s)" "unat (cq_rear s) < length (cq_nodes s)"
    using assms by (auto simp: cq_inv_def)
  have "(unat (cq_front s) + cq_count s) mod length (cq_nodes s) =
      (unat (cq_front s) + (unat (cq_rear s) + (length (cq_nodes s) - unat (cq_front s)))) mod length (cq_nodes s)"
    unfolding cq_count_def by (rule mod_add_right_eq)
  also have "\<dots> = (unat (cq_rear s) + length (cq_nodes s)) mod length (cq_nodes s)" using f(1) by simp
  finally show ?thesis using f(2) by (simp add: ring_index_def)
qed

lemma cq_countI:
  assumes "unat (cq_front s) < length (cq_nodes s)" "n < length (cq_nodes s)"
    "unat (cq_rear s) = ring_index (cq_nodes s) (unat (cq_front s)) n"
  shows "cq_count s = n"
proof -
  have "(unat (cq_front s) + n) mod length (cq_nodes s) + (length (cq_nodes s) - unat (cq_front s)) = 
     unat (cq_rear s) + (length (cq_nodes s) - unat (cq_front s))"
    using assms(3) by (simp add: ring_index_def)
  then have "cq_count s =
      ((unat (cq_front s) + n) mod length (cq_nodes s) + (length (cq_nodes s) - unat (cq_front s)))
        mod length (cq_nodes s)" by (simp add: cq_count_def)
  also have "\<dots> = (unat (cq_front s) + n + (length (cq_nodes s) - unat (cq_front s))) mod length (cq_nodes s)"
    by (rule mod_add_left_eq)
  also have "\<dots> = (n + length (cq_nodes s)) mod length (cq_nodes s)" using assms(1) by simp
  finally show ?thesis using assms(2) by simp
qed

lemma unat_cq_next:
  assumes "cq_inv s" "unat i < length (cq_nodes s)"
  shows "unat ((i + 1) mod cq_MAX s) = ring_next (cq_nodes s) (unat i)"
proof -
  have "unat (i + 1) = unat i + 1" using assms by (simp add: cq_inv_def unat_word_ariths)
  moreover have "unat (cq_MAX s) = length (cq_nodes s)"
    using assms by (simp add: cq_MAX_def cq_inv_def unat_of_nat)
  ultimately show ?thesis by (simp add: unat_mod ring_next_def)
qed

lemma cq_full_iff:
  assumes "cq_inv s"
  shows "(cq_rear s + 1) mod cq_MAX s = cq_front s \<longleftrightarrow> Suc (cq_count s) = length (cq_nodes s)"
proof -
  let ?n = "cq_nodes s" and ?f = "unat (cq_front s)"
  have f: "?f < length ?n" "unat (cq_rear s) < length ?n" using assms by (auto simp: cq_inv_def)
  have "(cq_rear s + 1) mod cq_MAX s = cq_front s \<longleftrightarrow> ring_next ?n (unat (cq_rear s)) = ?f"
    using unat_cq_next [OF assms f(2)] by (metis word_unat_eq_iff)
  also have "\<dots> \<longleftrightarrow> ring_index ?n ?f (Suc (cq_count s)) = ring_index ?n ?f 0"
    using cq_rear_index [OF assms] ring_next_index [of ?n ?f "cq_count s"] f(1) by simp
  also have "\<dots> \<longleftrightarrow> Suc (cq_count s) = length ?n"
  proof
    assume "ring_index ?n ?f (Suc (cq_count s)) = ring_index ?n ?f 0"
    then have "\<not> Suc (cq_count s) < length ?n" using ring_index_inj [of ?n ?f 0 "Suc (cq_count s)"] by auto
    then show "Suc (cq_count s) = length ?n" using cq_count_less [OF assms] by simp
  qed (simp add: ring_index_def)
  finally show ?thesis .
qed

lemma cq_empty_iff:
  assumes "cq_inv s"
  shows "cq_front s = cq_rear s \<longleftrightarrow> cq_count s = 0"
proof -
  have f: "unat (cq_front s) < length (cq_nodes s)" using assms by (simp add: cq_inv_def)
  then have "unat (cq_front s) = unat (cq_rear s) \<Longrightarrow> cq_count s = 0"
    by (intro cq_countI) auto
  moreover have "cq_count s = 0 \<Longrightarrow> unat (cq_front s) = unat (cq_rear s)"
    using cq_rear_index [OF assms] f by simp
  ultimately show ?thesis by (auto simp: word_unat_eq_iff)
qed

lemma mk_circular_queue_inv:
  assumes "1 < n" "n < 2 ^ 31"
  shows "cq_inv (mk_circular_queue z g n) \<and> cq_contents (mk_circular_queue z g n) = [] \<and>
    length (cq_nodes (mk_circular_queue z g n)) = n \<and>
    unat (sem_count (cq_sem_put (mk_circular_queue z g n))) = n - 1 \<and>
    sem_count (cq_sem_get (mk_circular_queue z g n)) = 0"
proof -
  have "unat (of_nat n - 1 :: u32) = n - 1"
    using assms by (simp add: unat_minus_one unat_of_nat word_unat_eq_iff)
  then show ?thesis
    using assms by (auto simp: cq_inv_def mk_circular_queue_def cq_initialize_def cq_contents_def
        cq_count_def cq_MAX_def sem_defs intro!: ring_occupied_empty)
qed

text \<open>What the two locked sections do, whatever the semaphores say.\<close>

lemma cq_put_locked_full:
  "cq_inv s \<Longrightarrow> Suc (cq_count s) = length (cq_nodes s) \<Longrightarrow>
     cq_put_locked v s = (QNODE_BUFFER_FULL, s\<lparr>cq_sem_put := sem_signal (cq_sem_put s)\<rparr>)"
  by (simp add: cq_put_locked_def cq_full_iff sem_unlock_def)

lemma cq_put_locked_room:
  assumes inv: "cq_inv s" and room: "Suc (cq_count s) < length (cq_nodes s)"
  shows "\<exists>s'. cq_put_locked v s = (QNODE_SUCCESS, s') \<and> cq_inv s' \<and>
    cq_contents s' = cq_contents s @ [v] \<and> length (cq_nodes s') = length (cq_nodes s) \<and>
    cq_sem_put s' = cq_sem_put s \<and> cq_sem_get s' = cq_sem_get s"
proof -
  let ?n = "cq_nodes s" and ?f = "unat (cq_front s)" and ?c = "cq_count s"
  let ?s = "s\<lparr>cq_nodes := ?n[unat (cq_rear s) := (v, True)], cq_rear := (cq_rear s + 1) mod cq_MAX s\<rparr>"
  have f: "?f < length ?n" "unat (cq_rear s) < length ?n" using inv by (auto simp: cq_inv_def)
  note rear = cq_rear_index [OF inv]
  have r': "unat (cq_rear ?s) = ring_index ?n ?f (Suc ?c)"
    using unat_cq_next [OF inv f(2)] ring_next_index [of ?n ?f ?c] rear by simp
  have c': "cq_count ?s = Suc ?c" by (rule cq_countI) (use f(1) room r' in simp_all)
  have "cq_inv ?s"
    using inv room c' r' rear ring_occupied_push [of snd ?n ?f ?c "(v, True)"] cq_count_less [OF inv] f(1)
    by (auto simp: cq_inv_def)
  moreover have "cq_contents ?s = cq_contents s @ [v]"
    using c' rear ring_slice_push [of ?c ?n ?f "(v, True)"] cq_count_less [OF inv]
    by (simp add: cq_contents_def)
  moreover have "(cq_rear s + 1) mod cq_MAX s \<noteq> cq_front s" using cq_full_iff [OF inv] room by simp
  ultimately show ?thesis by (simp add: cq_put_locked_def)
qed

lemma cq_get_locked_empty:
  "cq_inv s \<Longrightarrow> cq_count s = 0 \<Longrightarrow>
     cq_get_locked z s = (QNODE_BUFFER_EMPTY, None, s\<lparr>cq_sem_get := sem_signal (cq_sem_get s)\<rparr>)"
  by (simp add: cq_get_locked_def cq_empty_iff sem_unlock_def)

lemma cq_get_locked_some:
  assumes inv: "cq_inv s" and c: "cq_count s = Suc n"
  shows "\<exists>v s'. cq_get_locked z s = (QNODE_SUCCESS, Some v, s') \<and> cq_inv s' \<and>
    cq_contents s = v # cq_contents s' \<and> length (cq_nodes s') = length (cq_nodes s) \<and>
    cq_sem_put s' = cq_sem_put s \<and> cq_sem_get s' = cq_sem_get s"
proof -
  let ?n = "cq_nodes s" and ?f = "unat (cq_front s)"
  let ?s = "s\<lparr>cq_nodes := ?n[?f := (z, False)], cq_front := (cq_front s + 1) mod cq_MAX s\<rparr>"
  have f: "?f < length ?n" and n: "n < length ?n"
    using inv c cq_count_less [OF inv] by (auto simp: cq_inv_def)
  have f': "unat (cq_front ?s) = ring_next ?n ?f" using unat_cq_next [OF inv f] by simp
  have lt: "ring_next ?n ?f < length ?n" using f by simp
  have c': "cq_count ?s = n"
    by (rule cq_countI) (use lt n f' cq_rear_index [OF inv] c in \<open>simp_all add: ring_index_next\<close>)
  have occ: "ring_occupied snd ?n ?f (Suc n)" using inv c by (simp add: cq_inv_def)
  have "cq_inv ?s"
    using inv c' f' lt ring_occupied_pop [OF occ f n, of "(z, False)"] by (simp add: cq_inv_def)
  moreover have "cq_contents s = fst (?n ! ?f) # cq_contents ?s"
    using c c' f f' n by (simp add: cq_contents_def ring_slice_pop ring_slice_clear)
  moreover have "cq_front s \<noteq> cq_rear s" using cq_empty_iff [OF inv] c by simp
  ultimately show ?thesis by (simp add: cq_get_locked_def)
qed

text \<open>The semaphores are no part of the ring.\<close>

lemma cq_sem_irrelevant [simp]:
  "cq_inv (s\<lparr>cq_sem_put := m\<rparr>) = cq_inv s" "cq_inv (s\<lparr>cq_sem_get := m\<rparr>) = cq_inv s"
  "cq_count (s\<lparr>cq_sem_put := m\<rparr>) = cq_count s" "cq_count (s\<lparr>cq_sem_get := m\<rparr>) = cq_count s"
  "cq_contents (s\<lparr>cq_sem_put := m\<rparr>) = cq_contents s" "cq_contents (s\<lparr>cq_sem_get := m\<rparr>) = cq_contents s"
  by (simp_all add: cq_inv_def cq_contents_def cq_count_def)

section \<open>Undisturbed callers: the queue contract\<close>

text \<open>Between calls the two semaphores agree with the ring.\<close>

definition cq_synced :: "'a circular_queue \<Rightarrow> bool" where
  "cq_synced s \<longleftrightarrow> cq_inv s \<and>
     unat (sem_count (cq_sem_put s)) + cq_count s = length (cq_nodes s) - 1 \<and>
     unat (sem_count (cq_sem_get s)) = cq_count s"

definition cq_put_ok :: "'a \<Rightarrow> 'a circular_queue \<Rightarrow> bool \<times> 'a circular_queue" where
  "cq_put_ok v s = (case cq_try_put v s of Blocked \<Rightarrow> (False, s) | Ret (r, s') \<Rightarrow> (r = QNODE_SUCCESS, s'))"

definition cq_poll :: "'a \<Rightarrow> 'a circular_queue \<Rightarrow> 'a option \<times> 'a circular_queue" where
  "cq_poll z s = (case cq_try_get z s of Blocked \<Rightarrow> (None, s) | Ret (r, v, s') \<Rightarrow> (v, s'))"

lemma unat_signal_sem: "unat (sem_count m) < 2 ^ 32 - 1 \<Longrightarrow> unat (sem_count (sem_signal m)) = Suc (unat (sem_count m))"
  by (simp add: sem_signal_def unat_word_ariths)

lemma unat_dec_sem: "sem_count m \<noteq> 0 \<Longrightarrow> unat (sem_count m - 1) = unat (sem_count m) - 1"
  by (rule unat_count_dec)

lemma cq_synced_bounds:
  assumes "cq_synced s"
  shows "unat (sem_count (cq_sem_put s)) < 2 ^ 32 - 1" "unat (sem_count (cq_sem_get s)) < 2 ^ 32 - 1"
  using assms cq_count_less [of s] by (auto simp: cq_synced_def cq_inv_def)

lemma cq_try_put_spec:
  assumes "cq_synced s"
  shows "if Suc (cq_count s) < length (cq_nodes s)
    then \<exists>s'. cq_try_put v s = Ret (QNODE_SUCCESS, s') \<and> cq_synced s' \<and>
      cq_contents s' = cq_contents s @ [v] \<and> length (cq_nodes s') = length (cq_nodes s)
    else cq_try_put v s = Ret (QNODE_BUFFER_FULL, s)"
proof (cases "Suc (cq_count s) < length (cq_nodes s)")
  case True
  let ?m = "sem_count (cq_sem_put s)"
  let ?s1 = "s\<lparr>cq_sem_put := (cq_sem_put s)\<lparr>sem_count := ?m - 1\<rparr>\<rparr>"
  have m: "?m \<noteq> 0" using assms True by (auto simp: cq_synced_def)
  then have r: "cq_put_reserve True s = Ret (True, ?s1)"
    by (simp add: cq_put_reserve_def sem_lock_ms_def sem_wait_ms_def word_greater_zero_iff Let_def)
  have "cq_inv ?s1" "Suc (cq_count ?s1) < length (cq_nodes ?s1)" using assms True by (auto simp: cq_synced_def)
  then obtain s2 where s2: "cq_put_locked v ?s1 = (QNODE_SUCCESS, s2)" "cq_inv s2"
      "cq_contents s2 = cq_contents s @ [v]" "length (cq_nodes s2) = length (cq_nodes s)"
      "cq_sem_put s2 = cq_sem_put ?s1" "cq_sem_get s2 = cq_sem_get s"
    using cq_put_locked_room [of ?s1 v] by auto
  have c2: "cq_count s2 = Suc (cq_count s)"
    using s2(3) cq_length_contents [of s2] cq_length_contents [of s] by simp
  have "cq_synced (cq_put_publish s2)"
    using s2 c2 assms m cq_synced_bounds [OF assms] True
    by (simp add: cq_synced_def cq_put_publish_def sem_unlock_def unat_signal_sem unat_dec_sem)
      (metis Suc_pred add_Suc_right add_Suc unat_gt_0)
  moreover have "cq_contents (cq_put_publish s2) = cq_contents s @ [v]"
      "length (cq_nodes (cq_put_publish s2)) = length (cq_nodes s)"
    using s2 by (simp_all add: cq_put_publish_def)
  ultimately show ?thesis using True r s2(1) by (simp add: cq_try_put_def cq_put_impl_def)
next
  case False
  then have "unat (sem_count (cq_sem_put s)) = 0"
    using assms cq_count_less [of s] unfolding cq_synced_def by linarith
  then have "sem_count (cq_sem_put s) = 0" by (simp add: unat_eq_0)
  then show ?thesis
    using False by (simp add: cq_try_put_def cq_put_impl_def cq_put_reserve_def sem_lock_ms_def
        sem_wait_ms_def Let_def)
qed

lemma cq_try_get_spec:
  assumes "cq_synced s"
  shows "case cq_contents s of
      [] \<Rightarrow> cq_try_get z s = Ret (QNODE_BUFFER_EMPTY, None, s)
    | v # vs \<Rightarrow> \<exists>s'. cq_try_get z s = Ret (QNODE_SUCCESS, Some v, s') \<and> cq_synced s' \<and>
        cq_contents s' = vs \<and> length (cq_nodes s') = length (cq_nodes s)"
proof (cases "cq_contents s")
  case Nil
  then have "sem_count (cq_sem_get s) = 0"
    using assms cq_length_contents [of s] by (simp add: cq_synced_def unat_eq_0)
  then show ?thesis
    using Nil by (simp add: cq_try_get_def cq_get_impl_def cq_get_reserve_def sem_lock_ms_def
        sem_wait_ms_def Let_def)
next
  case (Cons v vs)
  let ?m = "sem_count (cq_sem_get s)"
  let ?s1 = "s\<lparr>cq_sem_get := (cq_sem_get s)\<lparr>sem_count := ?m - 1\<rparr>\<rparr>"
  have c: "cq_count s = Suc (length vs)" using Cons cq_length_contents [of s] by simp
  then have m: "?m \<noteq> 0" using assms by (auto simp: cq_synced_def)
  then have r: "cq_get_reserve True 0 s = Ret (True, ?s1)"
    by (simp add: cq_get_reserve_def sem_lock_ms_def sem_wait_ms_def word_greater_zero_iff Let_def)
  have "cq_inv ?s1" "cq_count ?s1 = Suc (length vs)" using assms c by (auto simp: cq_synced_def)
  then obtain x s2 where s2: "cq_get_locked z ?s1 = (QNODE_SUCCESS, Some x, s2)" "cq_inv s2"
      "cq_contents s = x # cq_contents s2" "length (cq_nodes s2) = length (cq_nodes s)"
      "cq_sem_put s2 = cq_sem_put s" "cq_sem_get s2 = cq_sem_get ?s1"
    using cq_get_locked_some [of ?s1 "length vs" z] by auto
  have c2: "cq_count s2 = length vs" using s2(3) Cons cq_length_contents [of s2] by simp
  have "cq_synced (cq_get_release s2)"
    using s2 c2 c assms m cq_synced_bounds [OF assms]
    by (simp add: cq_synced_def cq_get_release_def sem_unlock_def unat_signal_sem unat_dec_sem)
  moreover have "cq_contents (cq_get_release s2) = vs" "x = v"
      "length (cq_nodes (cq_get_release s2)) = length (cq_nodes s)"
    using s2 Cons by (simp_all add: cq_get_release_def)
  ultimately show ?thesis using Cons r s2(1) by (simp add: cq_try_get_def cq_get_impl_def)
qed

interpretation cq: bounded_fifo_queue cq_contents cq_synced cq_put_ok "cq_poll z"
  "\<lambda>s. length (cq_nodes s) - 1" "\<lambda>_. False" for z
proof (unfold_locales, goal_cases)
  case (1 q x q')
  then show ?case using cq_try_put_spec [of q x]
    by (auto simp: cq_put_ok_def qnode_codes split: if_splits)
next
  case (2 q x q')
  then show ?case using cq_try_put_spec [of q x]
    by (auto simp: cq_put_ok_def qnode_codes split: if_splits)
next
  case (3 q q')
  then show ?case using cq_try_get_spec [of q z] by (auto simp: cq_poll_def split: list.splits)
next
  case (4 q x q')
  then show ?case using cq_try_get_spec [of q z] by (auto simp: cq_poll_def split: list.splits)
next
  case (5 q x)
  then show ?case using cq_try_put_spec [of q x]
    by (auto simp: cq_put_ok_def qnode_codes split: if_splits)
next
  case (6 q)
  then show ?case using cq_count_less [of q] by (auto simp: cq_synced_def)
next
  case (7 q x)
  then show ?case using cq_try_put_spec [of q x]
    by (auto simp: cq_put_ok_def split: if_splits)
next
  case (8 q)
  then show ?case using cq_try_get_spec [of q z] by (auto simp: cq_poll_def split: list.splits)
qed auto

section \<open>Many producers and consumers\<close>

text \<open>
  The four sets hold the threads between two parts of a call: a producer with a reservation, one
  that has filled its node and not yet signalled \<^verbatim>\<open>sem_get_\<close>, and the same for consumers. The label
  of a locked section is its result.
\<close>

record 'a cq_sys =
  cqs_queue :: "'a circular_queue"
  cqs_putting :: "tid set"
  cqs_publishing :: "tid set"
  cqs_getting :: "tid set"
  cqs_releasing :: "tid set"

datatype 'a cq_event = CqPut 'a int | CqGot "'a option" int | CqUnlock | CqQuiet

definition cqs_idle :: "'a cq_sys \<Rightarrow> tid \<Rightarrow> bool" where
  "cqs_idle s t \<longleftrightarrow> t \<notin> cqs_putting s \<union> cqs_publishing s \<union> cqs_getting s \<union> cqs_releasing s"

inductive cq_step :: "'a \<Rightarrow> 'a cq_sys \<Rightarrow> 'a cq_event \<Rightarrow> 'a cq_sys \<Rightarrow> bool" for z :: 'a where
  cq_reserves_put: "cqs_idle s t \<Longrightarrow> cq_put_reserve nonblocking (cqs_queue s) = Ret (ok, q) \<Longrightarrow>
    cq_step z s CqQuiet (s\<lparr>cqs_queue := q,
      cqs_putting := (if ok then insert t (cqs_putting s) else cqs_putting s)\<rparr>)"
| cq_puts: "t \<in> cqs_putting s \<Longrightarrow> cq_put_locked v (cqs_queue s) = (r, q) \<Longrightarrow>
    cq_step z s (CqPut v r) (s\<lparr>cqs_queue := q, cqs_putting := cqs_putting s - {t},
      cqs_publishing := (if r = QNODE_SUCCESS then insert t (cqs_publishing s) else cqs_publishing s)\<rparr>)"
| cq_publishes: "t \<in> cqs_publishing s \<Longrightarrow>
    cq_step z s CqQuiet (s\<lparr>cqs_queue := cq_put_publish (cqs_queue s),
      cqs_publishing := cqs_publishing s - {t}\<rparr>)"
| cq_reserves_get: "cqs_idle s t \<Longrightarrow> cq_get_reserve nonblocking ms (cqs_queue s) = Ret (ok, q) \<Longrightarrow>
    cq_step z s CqQuiet (s\<lparr>cqs_queue := q,
      cqs_getting := (if ok then insert t (cqs_getting s) else cqs_getting s)\<rparr>)"
| cq_gets: "t \<in> cqs_getting s \<Longrightarrow> cq_get_locked z (cqs_queue s) = (r, v, q) \<Longrightarrow>
    cq_step z s (CqGot v r) (s\<lparr>cqs_queue := q, cqs_getting := cqs_getting s - {t},
      cqs_releasing := (if r = QNODE_SUCCESS then insert t (cqs_releasing s) else cqs_releasing s)\<rparr>)"
| cq_releases: "t \<in> cqs_releasing s \<Longrightarrow>
    cq_step z s CqQuiet (s\<lparr>cqs_queue := cq_get_release (cqs_queue s),
      cqs_releasing := cqs_releasing s - {t}\<rparr>)"
| cq_unlocks: "cq_step z s CqUnlock (s\<lparr>cqs_queue := cq_unlock_queue (cqs_queue s)\<rparr>)"

definition cqs_init :: "'a circular_queue \<Rightarrow> 'a cq_sys" where
  "cqs_init q = \<lparr>cqs_queue = q, cqs_putting = {}, cqs_publishing = {}, cqs_getting = {}, cqs_releasing = {}\<rparr>"

fun cq_accepted :: "'a cq_event list \<Rightarrow> 'a list" where
  "cq_accepted [] = []"
| "cq_accepted (CqPut v r # es) = (if r = QNODE_SUCCESS then v # cq_accepted es else cq_accepted es)"
| "cq_accepted (e # es) = cq_accepted es"

fun cq_delivered :: "'a cq_event list \<Rightarrow> 'a list" where
  "cq_delivered [] = []"
| "cq_delivered (CqGot (Some v) r # es) = v # cq_delivered es"
| "cq_delivered (e # es) = cq_delivered es"

text \<open>The ring alone: sound in every run, \<^verbatim>\<open>unlock_queue\<close> included.\<close>

lemma cq_put_locked_cases:
  assumes "cq_inv s" "cq_put_locked v s = (r, s')"
  shows "cq_inv s' \<and> length (cq_nodes s') = length (cq_nodes s) \<and> cq_sem_get s' = cq_sem_get s \<and>
    cq_contents s' = cq_contents s @ (if r = QNODE_SUCCESS then [v] else []) \<and>
    (if r = QNODE_SUCCESS then cq_sem_put s' = cq_sem_put s
     else Suc (cq_count s) = length (cq_nodes s) \<and> cq_sem_put s' = sem_signal (cq_sem_put s))"
proof (cases "Suc (cq_count s) = length (cq_nodes s)")
  case True
  then show ?thesis using assms cq_put_locked_full [of s v] by (auto simp: qnode_codes)
next
  case False
  then have "Suc (cq_count s) < length (cq_nodes s)" using cq_count_less [OF assms(1)] by simp
  then show ?thesis using cq_put_locked_room [OF assms(1), of v] assms(2) by auto
qed

lemma cq_get_locked_cases:
  assumes "cq_inv s" "cq_get_locked z s = (r, v, s')"
  shows "cq_inv s' \<and> length (cq_nodes s') = length (cq_nodes s) \<and> cq_sem_put s' = cq_sem_put s \<and>
    cq_contents s = (case v of None \<Rightarrow> [] | Some x \<Rightarrow> [x]) @ cq_contents s' \<and>
    (if r = QNODE_SUCCESS then v \<noteq> None \<and> cq_sem_get s' = cq_sem_get s
     else v = None \<and> cq_count s = 0 \<and> cq_sem_get s' = sem_signal (cq_sem_get s))"
proof (cases "cq_count s")
  case 0
  then have "cq_contents s = []" using cq_length_contents [of s] by (metis length_0_conv)
  then show ?thesis using 0 assms cq_get_locked_empty [of s z] by (auto simp: qnode_codes)
next
  case (Suc n)
  then show ?thesis using cq_get_locked_some [OF assms(1) Suc, of z] assms(2) by auto
qed

lemma cq_reserve_ring:
  "cq_put_reserve nb s = Ret (ok, s') \<Longrightarrow> \<exists>m. s' = s\<lparr>cq_sem_put := m\<rparr>"
  "cq_get_reserve nb ms s = Ret (ok, s') \<Longrightarrow> \<exists>m. s' = s\<lparr>cq_sem_get := m\<rparr>"
  by (auto simp: cq_put_reserve_def cq_get_reserve_def Let_def split: if_splits prod.splits outcome.splits)

lemma cq_step_ring:
  assumes "cq_step z s e s'" "cq_inv (cqs_queue s)"
  shows "cq_inv (cqs_queue s') \<and> length (cq_nodes (cqs_queue s')) = length (cq_nodes (cqs_queue s)) \<and>
    cq_contents (cqs_queue s) @ cq_accepted [e] = cq_delivered [e] @ cq_contents (cqs_queue s')"
  using assms(1)
proof cases
  case (cq_puts t v r q)
  then show ?thesis using cq_put_locked_cases [OF assms(2) cq_puts(4)] by simp
next
  case (cq_gets t r v q)
  then show ?thesis using cq_get_locked_cases [OF assms(2) cq_gets(4)] by (cases v) auto
qed (use assms(2) in \<open>auto dest!: cq_reserve_ring
      simp: cq_put_publish_def cq_get_release_def cq_unlock_queue_def\<close>)

lemma cq_accepted_Cons: "cq_accepted (e # es) = cq_accepted [e] @ cq_accepted es"
  by (cases e) simp_all

lemma cq_delivered_Cons: "cq_delivered (e # es) = cq_delivered [e] @ cq_delivered es"
  by (cases "e # es" rule: cq_delivered.cases) simp_all

lemma cq_steps_ring:
  "steps (cq_step z) s es s' \<Longrightarrow> cq_inv (cqs_queue s) \<Longrightarrow>
     cq_inv (cqs_queue s') \<and> length (cq_nodes (cqs_queue s')) = length (cq_nodes (cqs_queue s)) \<and>
     cq_contents (cqs_queue s) @ cq_accepted es = cq_delivered es @ cq_contents (cqs_queue s')"
proof (induction rule: steps.induct)
  case (steps_cons s e s1 es s2)
  then show ?case using cq_step_ring [OF steps_cons(1,4)]
    by (subst cq_accepted_Cons, subst cq_delivered_Cons) (simp, metis append_assoc)
qed simp

section \<open>The accounts\<close>

text \<open>
  Every node is accounted for exactly once: free and counted by \<^verbatim>\<open>sem_put_\<close>, reserved by a
  producer, freed by a consumer that has yet to signal, or occupied; and every occupied node is
  counted by \<^verbatim>\<open>sem_get_\<close>, reserved by a consumer, or filled by a producer that has yet to signal.
\<close>

definition cqs_accounts :: "'a cq_sys \<Rightarrow> bool" where
  "cqs_accounts s \<longleftrightarrow>
     cq_inv (cqs_queue s) \<and>
     finite (cqs_putting s) \<and> finite (cqs_publishing s) \<and> finite (cqs_getting s) \<and> finite (cqs_releasing s) \<and>
     unat (sem_count (cq_sem_put (cqs_queue s))) + card (cqs_putting s) + card (cqs_releasing s)
       + cq_count (cqs_queue s) = length (cq_nodes (cqs_queue s)) - 1 \<and>
     unat (sem_count (cq_sem_get (cqs_queue s))) + card (cqs_getting s) + card (cqs_publishing s)
       = cq_count (cqs_queue s)"

lemma cq_reserve_account:
  assumes "cq_put_reserve nb s = Ret (ok, s')"
  shows "\<exists>m. s' = s\<lparr>cq_sem_put := m\<rparr> \<and>
    unat (sem_count m) + (if ok then 1 else 0) = unat (sem_count (cq_sem_put s))"
proof (cases "sem_count (cq_sem_put s) = 0")
  case True
  then show ?thesis using assms
    by (intro exI [of _ "cq_sem_put s"]) (auto simp: cq_put_reserve_def sem_defs split: if_splits)
next
  case False
  moreover have "0 < unat (sem_count (cq_sem_put s))" using False by (simp add: unat_gt_0)
  ultimately show ?thesis using assms
    by (auto simp: cq_put_reserve_def sem_defs word_greater_zero_iff unat_dec_sem split: if_splits)
qed

lemma cq_get_reserve_account:
  assumes "cq_get_reserve nb ms s = Ret (ok, s')"
  shows "\<exists>m. s' = s\<lparr>cq_sem_get := m\<rparr> \<and>
    unat (sem_count m) + (if ok then 1 else 0) = unat (sem_count (cq_sem_get s))"
proof (cases "sem_count (cq_sem_get s) = 0")
  case True
  then show ?thesis using assms
    by (intro exI [of _ "cq_sem_get s"]) (auto simp: cq_get_reserve_def sem_defs split: if_splits)
next
  case False
  moreover have "0 < unat (sem_count (cq_sem_get s))" using False by (simp add: unat_gt_0)
  ultimately show ?thesis using assms
    by (auto simp: cq_get_reserve_def sem_defs word_greater_zero_iff unat_dec_sem split: if_splits)
qed

lemma cqs_putting_room:
  assumes "cqs_accounts s" "t \<in> cqs_putting s"
  shows "Suc (cq_count (cqs_queue s)) < length (cq_nodes (cqs_queue s))"
proof -
  have "0 < card (cqs_putting s)" using assms by (auto simp: cqs_accounts_def card_gt_0_iff)
  then show ?thesis using assms by (auto simp: cqs_accounts_def)
qed

lemma cqs_getting_some:
  assumes "cqs_accounts s" "t \<in> cqs_getting s"
  shows "0 < cq_count (cqs_queue s)"
proof -
  have "0 < card (cqs_getting s)" using assms by (auto simp: cqs_accounts_def card_gt_0_iff)
  then show ?thesis using assms by (auto simp: cqs_accounts_def)
qed

lemma cqs_sem_bounds:
  assumes "cqs_accounts s"
  shows "unat (sem_count (cq_sem_put (cqs_queue s))) < 2 ^ 32 - 1"
    "unat (sem_count (cq_sem_get (cqs_queue s))) < 2 ^ 32 - 1"
  using assms cq_count_less [of "cqs_queue s"] by (auto simp: cqs_accounts_def cq_inv_def)

lemma cqs_idle_fresh:
  "cqs_idle s t \<Longrightarrow> t \<notin> cqs_putting s" "cqs_idle s t \<Longrightarrow> t \<notin> cqs_getting s"
  by (auto simp: cqs_idle_def)

text \<open>A thread is in at most one of the four places.\<close>

definition cqs_disjoint :: "'a cq_sys \<Rightarrow> bool" where
  "cqs_disjoint s \<longleftrightarrow> cqs_putting s \<inter> cqs_publishing s = {} \<and> cqs_getting s \<inter> cqs_releasing s = {}
     \<and> (cqs_putting s \<union> cqs_publishing s) \<inter> (cqs_getting s \<union> cqs_releasing s) = {}"

lemma cq_step_disjoint: "cq_step z s e s' \<Longrightarrow> cqs_disjoint s \<Longrightarrow> cqs_disjoint s'"
  by (erule cq_step.cases) (auto simp: cqs_disjoint_def cqs_idle_def)

lemma card_minus_1: "finite A \<Longrightarrow> t \<in> A \<Longrightarrow> card A = Suc (card (A - {t}))"
  by (rule card.remove)

lemma cq_count_contents: "cq_contents s' = cq_contents s @ xs \<Longrightarrow> cq_count s' = cq_count s + length xs"
  using cq_length_contents by (metis length_append)

lemma cq_step_accounts:
  assumes "cq_step z s e s'" and acc: "cqs_accounts s" and dis: "cqs_disjoint s" and "e \<noteq> CqUnlock"
  shows "cqs_accounts s'"
  using assms(1)
proof cases
  case (cq_reserves_put t nonblocking ok q)
  obtain m where "q = (cqs_queue s)\<lparr>cq_sem_put := m\<rparr>"
      "unat (sem_count m) + (if ok then 1 else 0) = unat (sem_count (cq_sem_put (cqs_queue s)))"
    using cq_reserve_account [OF cq_reserves_put(4)] by blast
  then show ?thesis
    using acc cq_reserves_put cqs_idle_fresh(1) [of s t] by (auto simp: cqs_accounts_def)
next
  case (cq_puts t v r q)
  have inv: "cq_inv (cqs_queue s)" using acc by (simp add: cqs_accounts_def)
  note c = cq_put_locked_cases [OF inv cq_puts(4)]
  have ok: "r = QNODE_SUCCESS" using c cqs_putting_room [OF acc cq_puts(3)] by (auto split: if_splits)
  have "cq_count q = Suc (cq_count (cqs_queue s))"
    using c ok cq_count_contents [of q "cqs_queue s" "[v]"] by simp
  moreover have "t \<notin> cqs_publishing s" using dis cq_puts(3) by (auto simp: cqs_disjoint_def)
  then have "card (insert t (cqs_publishing s)) = Suc (card (cqs_publishing s))"
    using acc by (simp add: cqs_accounts_def)
  moreover have "card (cqs_putting s) = Suc (card (cqs_putting s - {t}))"
    using acc cq_puts(3) by (intro card_minus_1) (auto simp: cqs_accounts_def)
  ultimately show ?thesis using acc c ok cq_puts by (auto simp: cqs_accounts_def)
next
  case (cq_publishes t)
  have "card (cqs_publishing s) = Suc (card (cqs_publishing s - {t}))"
    using acc cq_publishes by (intro card_minus_1) (auto simp: cqs_accounts_def)
  then show ?thesis
    using acc cq_publishes cqs_sem_bounds(2) [OF acc] unat_signal_sem [of "cq_sem_get (cqs_queue s)"]
    by (auto simp: cqs_accounts_def cq_put_publish_def sem_unlock_def)
next
  case (cq_reserves_get t nonblocking ms ok q)
  obtain m where "q = (cqs_queue s)\<lparr>cq_sem_get := m\<rparr>"
      "unat (sem_count m) + (if ok then 1 else 0) = unat (sem_count (cq_sem_get (cqs_queue s)))"
    using cq_get_reserve_account [OF cq_reserves_get(4)] by blast
  then show ?thesis
    using acc cq_reserves_get cqs_idle_fresh(2) [of s t] by (auto simp: cqs_accounts_def)
next
  case (cq_gets t r v q)
  have inv: "cq_inv (cqs_queue s)" using acc by (simp add: cqs_accounts_def)
  note c = cq_get_locked_cases [OF inv cq_gets(4)]
  have ok: "r = QNODE_SUCCESS" using c cqs_getting_some [OF acc cq_gets(3)] by (auto split: if_splits)
  obtain x where "cq_contents (cqs_queue s) = x # cq_contents q" using c ok by (cases v) auto
  then have "cq_count (cqs_queue s) = Suc (cq_count q)"
    using cq_length_contents [of "cqs_queue s"] cq_length_contents [of q] by simp
  moreover have "t \<notin> cqs_releasing s" using dis cq_gets(3) by (auto simp: cqs_disjoint_def)
  then have "card (insert t (cqs_releasing s)) = Suc (card (cqs_releasing s))"
    using acc by (simp add: cqs_accounts_def)
  moreover have "card (cqs_getting s) = Suc (card (cqs_getting s - {t}))"
    using acc cq_gets(3) by (intro card_minus_1) (auto simp: cqs_accounts_def)
  ultimately show ?thesis using acc c ok cq_gets by (auto simp: cqs_accounts_def)
next
  case (cq_releases t)
  have "card (cqs_releasing s) = Suc (card (cqs_releasing s - {t}))"
    using acc cq_releases by (intro card_minus_1) (auto simp: cqs_accounts_def)
  then show ?thesis
    using acc cq_releases cqs_sem_bounds(1) [OF acc] unat_signal_sem [of "cq_sem_put (cqs_queue s)"]
    by (auto simp: cqs_accounts_def cq_get_release_def sem_unlock_def)
qed (use assms(4) in simp)

lemma cq_steps_accounts:
  "steps (cq_step z) s es s' \<Longrightarrow> cqs_accounts s \<Longrightarrow> cqs_disjoint s \<Longrightarrow> CqUnlock \<notin> set es \<Longrightarrow>
     cqs_accounts s' \<and> cqs_disjoint s'"
  by (induction rule: steps.induct) (auto intro: cq_step_accounts cq_step_disjoint)

lemma cqs_accounts_init:
  "1 < n \<Longrightarrow> n < 2 ^ 31 \<Longrightarrow> cqs_accounts (cqs_init (mk_circular_queue z g n)) \<and>
     cqs_disjoint (cqs_init (mk_circular_queue z g n))"
  using mk_circular_queue_inv [of n z g] cq_length_contents [of "mk_circular_queue z g n"]
  by (auto simp: cqs_accounts_def cqs_disjoint_def cqs_init_def)

section \<open>Properties\<close>

text \<open>
  C5: the ring is first in, first out for any number of producers and consumers, at every point
  between the parts of their calls and whatever \<^verbatim>\<open>unlock_queue\<close> does to the semaphores: the values
  put with success are the values got, in order, followed by the contents, and at most
  \<^verbatim>\<open>MAX - 1\<close> nodes are ever occupied, so no unread node is overwritten.
\<close>

theorem cq_threads_fifo:
  assumes "1 < n" "n < 2 ^ 31" "steps (cq_step z) (cqs_init (mk_circular_queue z g n)) es s"
  shows "cq_accepted es = cq_delivered es @ cq_contents (cqs_queue s) \<and>
    length (cq_contents (cqs_queue s)) \<le> n - 1"
proof -
  note new = mk_circular_queue_inv [OF assms(1,2), of z g]
  have "cq_inv (cqs_queue s) \<and> length (cq_nodes (cqs_queue s)) = n \<and>
      cq_accepted es = cq_delivered es @ cq_contents (cqs_queue s)"
    using cq_steps_ring [OF assms(3)] new by (simp add: cqs_init_def)
  then show ?thesis using cq_count_less [of "cqs_queue s"] by auto
qed

text \<open>
  C23: the semaphores do their work. As long as nobody calls \<^verbatim>\<open>unlock_queue\<close>, a producer that has its
  reservation always finds a free node and a consumer that has one always finds a value: the
  full and empty branches inside the lock are never taken, however the calls interleave.
\<close>

theorem cq_reservation_honoured:
  assumes "1 < n" "n < 2 ^ 31" "steps (cq_step z) (cqs_init (mk_circular_queue z g n)) es s"
    "CqUnlock \<notin> set es"
  shows "(t \<in> cqs_putting s \<longrightarrow> fst (cq_put_locked v (cqs_queue s)) = QNODE_SUCCESS) \<and>
    (t \<in> cqs_getting s \<longrightarrow> fst (cq_get_locked z (cqs_queue s)) = QNODE_SUCCESS)"
proof -
  have acc: "cqs_accounts s"
    using cq_steps_accounts [OF assms(3) _ _ assms(4)] cqs_accounts_init [OF assms(1,2), of z g] by simp
  then have inv: "cq_inv (cqs_queue s)" by (simp add: cqs_accounts_def)
  have "fst (cq_put_locked v (cqs_queue s)) = QNODE_SUCCESS" if "t \<in> cqs_putting s"
    using cq_put_locked_room [OF inv cqs_putting_room [OF acc that], of v] by auto
  moreover have "fst (cq_get_locked z (cqs_queue s)) = QNODE_SUCCESS" if "t \<in> cqs_getting s"
    using cq_get_locked_some [OF inv, of "cq_count (cqs_queue s) - 1" z] cqs_getting_some [OF acc that]
    by auto
  ultimately show ?thesis by blast
qed

lemma cq_example_run:
  "\<exists>s. steps (cq_step 0) (cqs_init (mk_circular_queue 0 0 2)) [CqQuiet, CqPut (5::nat) QNODE_SUCCESS, CqQuiet, CqQuiet] s \<and>
     1 \<in> cqs_getting s \<and> cq_contents (cqs_queue s) = [5]"
proof -
  note ev = cqs_init_def mk_circular_queue_def cq_initialize_def cqs_idle_def cq_put_reserve_def
    cq_get_reserve_def cq_MAX_def sem_defs numeral_2_eq_2 cq_put_locked_def cq_put_publish_def qnode_codes
  let ?q = "\<lambda>nd r a b. \<lparr>cq_nodes = nd, cq_front = 0, cq_rear = r, cq_max = 2,
     cq_sem_put = \<lparr>sem_count = a\<rparr>, cq_sem_get = \<lparr>sem_count = b\<rparr>\<rparr>"
  let ?e = "[(0::nat, False), (0, False)]" and ?f = "[(5::nat, True), (0, False)]"
  let ?s = "\<lambda>q pt pb gt. \<lparr>cqs_queue = q, cqs_putting = pt, cqs_publishing = pb, cqs_getting = gt, cqs_releasing = {}\<rparr>"
  have i: "cqs_init (mk_circular_queue 0 0 2) = ?s (?q ?e 0 1 0) {} {} {}" by (simp add: ev)
  have "cq_step 0 (?s (?q ?e 0 1 0) {} {} {}) CqQuiet (?s (?q ?e 0 0 0) {1} {} {})"
    using cq_reserves_put [of "?s (?q ?e 0 1 0) {} {} {}" 1 True True] by (simp add: ev)
  moreover have "cq_step 0 (?s (?q ?e 0 0 0) {1} {} {}) (CqPut 5 QNODE_SUCCESS) (?s (?q ?f 1 0 0) {} {1} {})"
    using cq_puts [of 1 "?s (?q ?e 0 0 0) {1} {} {}" 5 QNODE_SUCCESS "?q ?f 1 0 0" 0] by (simp add: ev)
  moreover have "cq_step 0 (?s (?q ?f 1 0 0) {} {1} {}) CqQuiet (?s (?q ?f 1 0 1) {} {} {})"
    using cq_publishes [of 1 "?s (?q ?f 1 0 0) {} {1} {}"] by (simp add: ev)
  moreover have "cq_step 0 (?s (?q ?f 1 0 1) {} {} {}) CqQuiet (?s (?q ?f 1 0 0) {} {} {1})"
    using cq_reserves_get [of "?s (?q ?f 1 0 1) {} {} {}" 1 True 0 True] by (simp add: ev)
  ultimately have "steps (cq_step 0) (?s (?q ?e 0 1 0) {} {} {})
      [CqQuiet, CqPut 5 QNODE_SUCCESS, CqQuiet, CqQuiet] (?s (?q ?f 1 0 0) {} {} {1})"
    by (blast intro: steps.intros)
  then show ?thesis unfolding i
    by (intro exI conjI, assumption) (simp_all add: cq_contents_def cq_count_def ring_slice_def ring_index_def eval_nat_numeral mod_Suc)
qed

theorem cq_threads_fifo_witness:
  "\<exists>s. steps (cq_step 0) (cqs_init (mk_circular_queue 0 0 2)) [CqQuiet, CqPut (5::nat) QNODE_SUCCESS, CqQuiet, CqQuiet] s \<and>
     [5] = cq_contents (cqs_queue s)"
  using cq_example_run cq_threads_fifo [of 2 0 0] by fastforce

theorem cq_reservation_honoured_witness:
  "\<exists>s. steps (cq_step 0) (cqs_init (mk_circular_queue 0 0 2)) [CqQuiet, CqPut (5::nat) QNODE_SUCCESS, CqQuiet, CqQuiet] s \<and>
     fst (cq_get_locked 0 (cqs_queue s)) = QNODE_SUCCESS"
  using cq_example_run cq_reservation_honoured [of 2 0 0
      "[CqQuiet, CqPut (5::nat) QNODE_SUCCESS, CqQuiet, CqQuiet]" _ 1] by fastforce

end
