(* ===== verification/Ini_File.thy ===== *)
theory Ini_File
  imports Prelude
begin

text \<open>
  The in-memory store of \<^verbatim>\<open>class IniFile\<close> (\<^verbatim>\<open>include/inifile.hpp\<close>, \<^verbatim>\<open>src/inifile.cpp\<close>): two
  parallel vectors, the section names and the sections, each section again two parallel vectors,
  value names and values. Every search is a linear one that returns the first match; \<^verbatim>\<open>-1\<close> is
  \<open>None\<close>. The contract of the store, a partial function of section and name, is the locale
  \<open>config_store\<close>, interpreted below on the code's own operations.
\<close>

section \<open>The contract of a configuration store\<close>

datatype config_op =
  SetOp string string string | DelValueOp string string | DelKeyOp string

text \<open>What an operation does to the abstract store.\<close>

type_synonym config_map = "string \<Rightarrow> string \<Rightarrow> string option"

fun spec_config :: "config_op \<Rightarrow> config_map \<Rightarrow> config_map" where
  "spec_config (SetOp k n v) m = m(k := (m k)(n \<mapsto> v))"
| "spec_config (DelValueOp k n) m = m(k := (m k)(n := None))"
| "spec_config (DelKeyOp k) m = m(k := Map.empty)"

locale config_store =
  fixes lookup :: "'s \<Rightarrow> config_map"
    and invar :: "'s \<Rightarrow> bool"
    and apply_op :: "config_op \<Rightarrow> 's \<Rightarrow> 's"
  assumes apply_lookup: "invar s \<Longrightarrow> lookup (apply_op c s) = spec_config c (lookup s)"
    and apply_invar: "invar s \<Longrightarrow> invar (apply_op c s)"
begin

lemma fold_invar: "invar s \<Longrightarrow> invar (fold apply_op cs s)"
  by (induction cs arbitrary: s) (simp_all add: apply_invar)

lemma fold_lookup: "invar s \<Longrightarrow> lookup (fold apply_op cs s) = fold spec_config cs (lookup s)"
  by (induction cs arbitrary: s) (simp_all add: apply_invar apply_lookup)

text \<open>A store built from settings alone answers with the last setting of each name.\<close>

lemma fold_settings:
  assumes "invar s"
  shows "lookup (fold apply_op (map (\<lambda>(k, n, v). SetOp k n v) es) s) k n =
    (case map_of (rev (map (\<lambda>(k, n, v). ((k, n), v)) es)) (k, n) of
       None \<Rightarrow> lookup s k n | Some v \<Rightarrow> Some v)"
  using assms
proof (induction es arbitrary: s)
  case (Cons e es)
  obtain k' n' v' where e: "e = (k', n', v')" by (cases e)
  have "invar (apply_op (SetOp k' n' v') s)" using Cons.prems by (rule apply_invar)
  then show ?case
    using Cons.IH Cons.prems by (simp add: e apply_lookup map_add_def split: option.splits)
qed simp

end

section \<open>State and methods\<close>

record ini_key =
  ik_values :: "string list"
  ik_names :: "string list"

record ini_file =
  ini_path :: string
  ini_keys :: "ini_key list"
  ini_names :: "string list"
  ini_error :: string

definition mk_ini_file :: "string \<Rightarrow> ini_file" where
  "mk_ini_file inipath = \<lparr>ini_path = inipath, ini_keys = [], ini_names = [], ini_error = ''''\<rparr>"

definition ini_set_path :: "string \<Rightarrow> ini_file \<Rightarrow> ini_file" where
  "ini_set_path newpath s = s\<lparr>ini_path := newpath\<rparr>"

definition ini_reset :: "ini_file \<Rightarrow> ini_file" where
  "ini_reset s = s\<lparr>ini_keys := [], ini_names := []\<rparr>"

definition find_key :: "string \<Rightarrow> ini_file \<Rightarrow> nat option" where
  "find_key keyname s = find_index keyname (ini_names s)"

definition find_value :: "nat option \<Rightarrow> string \<Rightarrow> ini_file \<Rightarrow> nat option" where
  "find_value keynum valuename s =
     (case keynum of None \<Rightarrow> None | Some k \<Rightarrow> find_index valuename (ik_names (ini_keys s ! k)))"

definition ini_num_keys :: "ini_file \<Rightarrow> int" where
  "ini_num_keys s = int (length (ini_keys s))"

definition ini_num_values :: "string \<Rightarrow> ini_file \<Rightarrow> int" where
  "ini_num_values keyname s =
     (case find_key keyname s of None \<Rightarrow> - 1 | Some k \<Rightarrow> int (length (ik_names (ini_keys s ! k))))"

definition ini_is_key :: "string \<Rightarrow> ini_file \<Rightarrow> bool" where
  "ini_is_key keyname s \<longleftrightarrow> find_key keyname s \<noteq> None"

definition ini_get_value :: "string \<Rightarrow> string \<Rightarrow> ini_file \<Rightarrow> string \<times> ini_file" where
  "ini_get_value keyname valuename s =
     (case find_key keyname s of
        None \<Rightarrow> ('''', s\<lparr>ini_error := ''Key not found.''\<rparr>)
      | Some k \<Rightarrow>
          (case find_value (Some k) valuename s of
             None \<Rightarrow> ('''', s\<lparr>ini_error := ''Value not found.''\<rparr>)
           | Some v \<Rightarrow> (ik_values (ini_keys s ! k) ! v, s)))"

definition ini_try_get_string :: "string \<Rightarrow> string \<Rightarrow> ini_file \<Rightarrow> string option" where
  "ini_try_get_string sec key s =
     (case find_key sec s of
        None \<Rightarrow> None
      | Some k \<Rightarrow>
          (case find_value (Some k) key s of
             None \<Rightarrow> None
           | Some v \<Rightarrow> Some (ik_values (ini_keys s ! k) ! v)))"

definition ini_get_value_nth :: "string \<Rightarrow> int \<Rightarrow> ini_file \<Rightarrow> (string \<times> string) option" where
  "ini_get_value_nth keyname valuenum s =
     (case find_key keyname s of
        None \<Rightarrow> None
      | Some k \<Rightarrow>
          if valuenum < 0 \<or> valuenum \<ge> int (length (ik_names (ini_keys s ! k))) then None
          else (let n = ik_names (ini_keys s ! k) ! nat valuenum
                in Some (n, fst (ini_get_value keyname n s))))"

definition ini_get_values :: "string \<Rightarrow> ini_file \<Rightarrow> (string \<rightharpoonup> string) option" where
  "ini_get_values keyname s =
     (case find_key keyname s of
        None \<Rightarrow> None
      | Some k \<Rightarrow>
          Some (fold (\<lambda>n m. m(n \<mapsto> fst (ini_get_value keyname n s)))
                 (ik_names (ini_keys s ! k)) Map.empty))"

text \<open>
  \<^verbatim>\<open>set_value\<close> in its two stages: find or append the section, then find or append the name.
\<close>

definition ini_set_in_key :: "nat \<Rightarrow> string \<Rightarrow> string \<Rightarrow> bool \<Rightarrow> ini_file \<Rightarrow> bool \<times> ini_file" where
  "ini_set_in_key k valuename value create s =
     (let key = ini_keys s ! k
      in case find_value (Some k) valuename s of
           None \<Rightarrow>
             if \<not> create then (False, s)
             else (True, s\<lparr>ini_keys := (ini_keys s)[k :=
                     key\<lparr>ik_names := ik_names key @ [valuename], ik_values := ik_values key @ [value]\<rparr>]\<rparr>)
         | Some v \<Rightarrow>
             (True, s\<lparr>ini_keys := (ini_keys s)[k := key\<lparr>ik_values := (ik_values key)[v := value]\<rparr>]\<rparr>))"

definition ini_set_value :: "string \<Rightarrow> string \<Rightarrow> string \<Rightarrow> bool \<Rightarrow> ini_file \<Rightarrow> bool \<times> ini_file" where
  "ini_set_value keyname valuename value create s =
     (case find_key keyname s of
        None \<Rightarrow>
          if \<not> create then (False, s)
          else ini_set_in_key (length (ini_names s)) valuename value create
                 (s\<lparr>ini_names := ini_names s @ [keyname],
                    ini_keys := ini_keys s @ [\<lparr>ik_values = [], ik_names = []\<rparr>]\<rparr>)
      | Some k \<Rightarrow> ini_set_in_key k valuename value create s)"

definition ini_delete_value :: "string \<Rightarrow> string \<Rightarrow> ini_file \<Rightarrow> bool \<times> ini_file" where
  "ini_delete_value keyname valuename s =
     (case find_key keyname s of
        None \<Rightarrow> (False, s)
      | Some k \<Rightarrow>
          (case find_value (Some k) valuename s of
             None \<Rightarrow> (False, s)
           | Some v \<Rightarrow>
               (let key = ini_keys s ! k
                in (True, s\<lparr>ini_keys := (ini_keys s)[k :=
                       key\<lparr>ik_names := erase_at v (ik_names key),
                           ik_values := erase_at v (ik_values key)\<rparr>]\<rparr>))))"

definition ini_delete_key :: "string \<Rightarrow> ini_file \<Rightarrow> bool \<times> ini_file" where
  "ini_delete_key keyname s =
     (case find_key keyname s of
        None \<Rightarrow> (False, s)
      | Some k \<Rightarrow> (True, s\<lparr>ini_keys := erase_at k (ini_keys s), ini_names := erase_at k (ini_names s)\<rparr>))"

section \<open>Invariant\<close>

definition ini_key_inv :: "ini_key \<Rightarrow> bool" where
  "ini_key_inv key \<longleftrightarrow> length (ik_names key) = length (ik_values key) \<and> distinct (ik_names key)"

definition ini_inv :: "ini_file \<Rightarrow> bool" where
  "ini_inv s \<longleftrightarrow> length (ini_names s) = length (ini_keys s) \<and> distinct (ini_names s) \<and>
     (\<forall>key \<in> set (ini_keys s). ini_key_inv key)"

definition key_lookup :: "ini_key \<Rightarrow> string \<Rightarrow> string option" where
  "key_lookup key n = map_of (zip (ik_names key) (ik_values key)) n"

text \<open>The store read as association lists, which is what the linear searches compute.\<close>

lemma map_of_zip_find_index:
  "length xs = length ys \<Longrightarrow> map_of (zip xs ys) x = map_option (nth ys) (find_index x xs)"
  by (induction xs ys rule: list_induct2) (auto simp: option.map_comp comp_def)

lemma ini_lookup_alt:
  assumes "ini_inv s"
  shows "ini_try_get_string k n s =
    (case map_of (zip (ini_names s) (ini_keys s)) k of None \<Rightarrow> None | Some key \<Rightarrow> key_lookup key n)"
proof (cases "find_index k (ini_names s)")
  case None
  then show ?thesis
    using assms by (simp add: ini_try_get_string_def find_key_def ini_inv_def map_of_zip_find_index
        del: find_index_None)
next
  case (Some i)
  then have "i < length (ini_keys s)" using assms find_index_SomeD by (fastforce simp: ini_inv_def)
  then have "ini_key_inv (ini_keys s ! i)" using assms by (auto simp: ini_inv_def)
  then show ?thesis
    using Some assms
    by (cases "find_index n (ik_names (ini_keys s ! i))")
      (simp_all add: ini_try_get_string_def find_key_def find_value_def ini_inv_def ini_key_inv_def
        map_of_zip_find_index key_lookup_def del: find_index_None)
qed

lemma map_of_zip_set:
  assumes "length xs = length ys" "find_index x xs = Some i"
  shows "map_of (zip xs (ys[i := v])) = (map_of (zip xs ys))(x \<mapsto> v)"
proof
  fix y
  have i: "i < length ys" "xs ! i = x" using find_index_SomeD [OF assms(2)] assms(1) by auto
  show "map_of (zip xs (ys[i := v])) y = ((map_of (zip xs ys))(x \<mapsto> v)) y"
  proof (cases "find_index y xs")
    case None
    then show ?thesis
      using assms i by (auto simp: map_of_zip_find_index simp del: find_index_None)
  next
    case (Some j)
    then have "y \<noteq> x \<Longrightarrow> i \<noteq> j" using find_index_SomeD [OF Some] i(2) by auto
    then show ?thesis using assms i Some by (cases "y = x") (simp_all add: map_of_zip_find_index)
  qed
qed

lemma singleton_map_add: "m x = None \<Longrightarrow> [x \<mapsto> y] ++ m = m(x \<mapsto> y)"
  by (auto simp: map_add_def fun_eq_iff split: option.splits)

lemma map_of_zip_snoc:
  "length xs = length ys \<Longrightarrow> x \<notin> set xs \<Longrightarrow>
     map_of (zip (xs @ [x]) (ys @ [y])) = (map_of (zip xs ys))(x \<mapsto> y)"
  by (simp add: singleton_map_add)

lemma map_of_zip_erase:
  "length xs = length ys \<Longrightarrow> distinct xs \<Longrightarrow> find_index x xs = Some i \<Longrightarrow>
     map_of (zip (erase_at i xs) (erase_at i ys)) = (map_of (zip xs ys))(x := None)"
proof (induction xs ys arbitrary: i rule: list_induct2)
  case (Cons a xs b ys)
  show ?case
  proof (cases "a = x")
    case True
    then have "map_of (zip xs ys) x = None"
      using Cons by (simp add: map_of_zip_find_index)
    then show ?thesis using Cons.prems True by (auto simp: fun_upd_idem)
  next
    case False
    then show ?thesis using Cons by (auto simp: fun_upd_twist)
  qed
qed simp

lemma key_set_new:
  assumes "ini_key_inv key" "n \<notin> set (ik_names key)"
  shows "ini_key_inv (key\<lparr>ik_names := ik_names key @ [n], ik_values := ik_values key @ [v]\<rparr>)"
    "key_lookup (key\<lparr>ik_names := ik_names key @ [n], ik_values := ik_values key @ [v]\<rparr>) = (key_lookup key)(n \<mapsto> v)"
  using assms by (auto simp: ini_key_inv_def key_lookup_def [abs_def] singleton_map_add)

lemma key_set_old:
  assumes "ini_key_inv key" "find_index n (ik_names key) = Some i"
  shows "ini_key_inv (key\<lparr>ik_values := (ik_values key)[i := v]\<rparr>)"
    "key_lookup (key\<lparr>ik_values := (ik_values key)[i := v]\<rparr>) = (key_lookup key)(n \<mapsto> v)"
  using assms by (auto simp: ini_key_inv_def key_lookup_def [abs_def] map_of_zip_set)

lemma key_delete:
  assumes "ini_key_inv key" "find_index n (ik_names key) = Some i"
  shows "ini_key_inv (key\<lparr>ik_names := erase_at i (ik_names key), ik_values := erase_at i (ik_values key)\<rparr>)"
    "key_lookup (key\<lparr>ik_names := erase_at i (ik_names key), ik_values := erase_at i (ik_values key)\<rparr>)
       = (key_lookup key)(n := None)"
  using assms find_index_SomeD [OF assms(2)]
  by (auto simp: ini_key_inv_def key_lookup_def [abs_def] map_of_zip_erase distinct_erase_at)

text \<open>The lookup as a function, and replacing one section.\<close>

definition ini_lookup :: "ini_file \<Rightarrow> config_map" where
  "ini_lookup s = (\<lambda>k n. ini_try_get_string k n s)"

lemma ini_lookup_fun:
  "ini_inv s \<Longrightarrow> ini_lookup s = (\<lambda>k. case map_of (zip (ini_names s) (ini_keys s)) k of
     None \<Rightarrow> Map.empty | Some key \<Rightarrow> key_lookup key)"
  by (intro ext) (simp add: ini_lookup_def ini_lookup_alt split: option.splits)

lemma ini_replace_key:
  assumes inv: "ini_inv s" and i: "find_index k (ini_names s) = Some i"
    and key: "ini_key_inv key" "key_lookup key = f (key_lookup (ini_keys s ! i))"
  shows "ini_inv (s\<lparr>ini_keys := (ini_keys s)[i := key]\<rparr>) \<and>
    ini_lookup (s\<lparr>ini_keys := (ini_keys s)[i := key]\<rparr>) = (ini_lookup s)(k := f (ini_lookup s k))"
proof -
  let ?s = "s\<lparr>ini_keys := (ini_keys s)[i := key]\<rparr>"
  have inv': "ini_inv ?s"
    using inv key(1) set_update_subset_insert [of "ini_keys s" i key] by (auto simp: ini_inv_def)
  have "map_of (zip (ini_names s) (ini_keys s)) k = Some (ini_keys s ! i)"
    using inv i by (simp add: ini_inv_def map_of_zip_find_index)
  moreover have "map_of (zip (ini_names ?s) (ini_keys ?s)) = (map_of (zip (ini_names s) (ini_keys s)))(k \<mapsto> key)"
    using inv i by (simp add: ini_inv_def map_of_zip_set)
  ultimately show ?thesis
    using inv inv' key(2) by (auto simp: ini_lookup_fun)
qed

lemma ini_set_in_key_spec:
  assumes inv: "ini_inv s" and i: "find_index k (ini_names s) = Some i"
  shows "let s' = snd (ini_set_in_key i n v True s) in
    fst (ini_set_in_key i n v True s) \<and> ini_inv s' \<and> ini_lookup s' = spec_config (SetOp k n v) (ini_lookup s)"
proof -
  have "i < length (ini_keys s)" using inv find_index_SomeD [OF i] by (simp add: ini_inv_def)
  then have key: "ini_key_inv (ini_keys s ! i)" using inv by (auto simp: ini_inv_def)
  show ?thesis
  proof (cases "find_index n (ik_names (ini_keys s ! i))")
    case None
    then have "n \<notin> set (ik_names (ini_keys s ! i))" by simp
    from ini_replace_key [OF inv i key_set_new(1) [OF key this, of v], of "\<lambda>m. m(n \<mapsto> v)"]
      key_set_new(2) [OF key this, of v]
    show ?thesis using None by (simp add: ini_set_in_key_def find_value_def Let_def del: find_index_None)
  next
    case (Some j)
    from ini_replace_key [OF inv i key_set_old(1) [OF key Some, of v], of "\<lambda>m. m(n \<mapsto> v)"]
      key_set_old(2) [OF key Some, of v]
    show ?thesis using Some by (simp add: ini_set_in_key_def find_value_def Let_def)
  qed
qed

lemma ini_new_key:
  assumes inv: "ini_inv s" and k: "k \<notin> set (ini_names s)"
  shows "ini_inv (s\<lparr>ini_names := ini_names s @ [k], ini_keys := ini_keys s @ [\<lparr>ik_values = [], ik_names = []\<rparr>]\<rparr>) \<and>
    ini_lookup (s\<lparr>ini_names := ini_names s @ [k], ini_keys := ini_keys s @ [\<lparr>ik_values = [], ik_names = []\<rparr>]\<rparr>)
      = ini_lookup s"
proof -
  let ?s = "s\<lparr>ini_names := ini_names s @ [k], ini_keys := ini_keys s @ [\<lparr>ik_values = [], ik_names = []\<rparr>]\<rparr>"
  have inv': "ini_inv ?s" using inv k by (auto simp: ini_inv_def ini_key_inv_def)
  have "map_of (zip (ini_names s) (ini_keys s)) k = None"
    using inv k by (simp add: ini_inv_def map_of_zip_find_index)
  then show ?thesis
    using inv inv' k
    by (auto simp: ini_lookup_fun singleton_map_add ini_inv_def key_lookup_def fun_eq_iff
        simp del: map_of_zip_is_None)
qed

lemma ini_set_value_spec:
  assumes inv: "ini_inv s"
  shows "fst (ini_set_value k n v True s) \<and> ini_inv (snd (ini_set_value k n v True s)) \<and>
    ini_lookup (snd (ini_set_value k n v True s)) = spec_config (SetOp k n v) (ini_lookup s)"
proof (cases "find_index k (ini_names s)")
  case None
  let ?s = "s\<lparr>ini_names := ini_names s @ [k], ini_keys := ini_keys s @ [\<lparr>ik_values = [], ik_names = []\<rparr>]\<rparr>"
  have k: "k \<notin> set (ini_names s)" using None by simp
  then have "find_index k (ini_names ?s) = Some (length (ini_names s))" by (simp add: find_index_append)
  from ini_set_in_key_spec [OF conjunct1 [OF ini_new_key [OF inv k]] this, of n v]
  show ?thesis
    using None ini_new_key [OF inv k]
    by (simp add: ini_set_value_def find_key_def Let_def del: find_index_None)
next
  case (Some i)
  from ini_set_in_key_spec [OF inv Some, of n v]
  show ?thesis using Some by (simp add: ini_set_value_def find_key_def Let_def)
qed

lemma ini_delete_value_spec:
  assumes inv: "ini_inv s"
  shows "fst (ini_delete_value k n s) = (ini_lookup s k n \<noteq> None) \<and> ini_inv (snd (ini_delete_value k n s)) \<and>
    ini_lookup (snd (ini_delete_value k n s)) = spec_config (DelValueOp k n) (ini_lookup s)"
proof (cases "ini_lookup s k n")
  case None
  then have "(ini_lookup s)(k := (ini_lookup s k)(n := None)) = ini_lookup s" by (auto simp: fun_eq_iff)
  moreover have "ini_delete_value k n s = (False, s)"
    using None by (simp add: ini_lookup_def ini_try_get_string_def ini_delete_value_def split: option.splits)
  ultimately show ?thesis using None inv by simp
next
  case (Some v)
  then obtain i j where i: "find_index k (ini_names s) = Some i"
      and j: "find_index n (ik_names (ini_keys s ! i)) = Some j"
    by (auto simp: ini_lookup_def ini_try_get_string_def find_key_def find_value_def split: option.splits)
  have "i < length (ini_keys s)" using inv find_index_SomeD [OF i] by (simp add: ini_inv_def)
  then have key: "ini_key_inv (ini_keys s ! i)" using inv by (auto simp: ini_inv_def)
  from ini_replace_key [OF inv i key_delete(1) [OF key j], of "\<lambda>m. m(n := None)"] key_delete(2) [OF key j]
  show ?thesis using Some i j by (simp add: ini_delete_value_def find_key_def find_value_def Let_def)
qed

lemma ini_delete_key_spec:
  assumes inv: "ini_inv s"
  shows "fst (ini_delete_key k s) = ini_is_key k s \<and> ini_inv (snd (ini_delete_key k s)) \<and>
    ini_lookup (snd (ini_delete_key k s)) = spec_config (DelKeyOp k) (ini_lookup s)"
proof (cases "find_index k (ini_names s)")
  case None
  then have "map_of (zip (ini_names s) (ini_keys s)) k = None"
    using inv by (simp add: ini_inv_def map_of_zip_find_index del: find_index_None)
  then show ?thesis
    using None inv by (auto simp: ini_delete_key_def ini_is_key_def find_key_def ini_lookup_fun fun_eq_iff
        simp del: find_index_None)
next
  case (Some i)
  let ?s = "snd (ini_delete_key k s)"
  have s: "?s = s\<lparr>ini_keys := erase_at i (ini_keys s), ini_names := erase_at i (ini_names s)\<rparr>"
    using Some by (simp add: ini_delete_key_def find_key_def)
  have inv': "ini_inv ?s"
    using inv find_index_SomeD [OF Some] set_erase_at_subset [of i "ini_keys s"] unfolding s
    by (auto simp: ini_inv_def distinct_erase_at)
  moreover have "map_of (zip (ini_names ?s) (ini_keys ?s)) = (map_of (zip (ini_names s) (ini_keys s)))(k := None)"
    using inv Some unfolding s by (simp add: ini_inv_def map_of_zip_erase)
  ultimately have "ini_lookup ?s = (ini_lookup s)(k := Map.empty)"
    using inv by (auto simp: ini_lookup_fun fun_eq_iff)
  then show ?thesis using inv' Some by (simp add: ini_delete_key_def ini_is_key_def find_key_def)
qed

fun ini_apply :: "config_op \<Rightarrow> ini_file \<Rightarrow> ini_file" where
  "ini_apply (SetOp k n v) s = snd (ini_set_value k n v True s)"
| "ini_apply (DelValueOp k n) s = snd (ini_delete_value k n s)"
| "ini_apply (DelKeyOp k) s = snd (ini_delete_key k s)"

interpretation ini: config_store ini_lookup ini_inv ini_apply
proof (unfold_locales, goal_cases)
  case (1 s c)
  then show ?case using ini_set_value_spec ini_delete_value_spec ini_delete_key_spec by (cases c) simp_all
next
  case (2 s c)
  then show ?case using ini_set_value_spec ini_delete_value_spec ini_delete_key_spec by (cases c) simp_all
qed

lemma ini_inv_new [simp]: "ini_inv (mk_ini_file p)"
  by (simp add: ini_inv_def mk_ini_file_def)

lemma ini_lookup_new [simp]: "ini_lookup (mk_ini_file p) k n = None"
  by (simp add: ini_lookup_def ini_try_get_string_def find_key_def mk_ini_file_def)

lemma ini_get_value_lookup:
  "fst (ini_get_value k n s) = (case ini_lookup s k n of None \<Rightarrow> '''' | Some v \<Rightarrow> v)"
  by (simp add: ini_get_value_def ini_lookup_def ini_try_get_string_def split: option.splits)

lemma fold_upd: "fold (\<lambda>n m. m(n \<mapsto> f n)) ns m x = (if x \<in> set ns then Some (f x) else m x)"
  by (induction ns arbitrary: m) auto

lemma ini_names_lookup:
  assumes "ini_inv s" "find_index k (ini_names s) = Some i"
  shows "n \<in> set (ik_names (ini_keys s ! i)) \<longleftrightarrow> ini_lookup s k n \<noteq> None"
proof -
  have "i < length (ini_keys s)" using find_index_SomeD [OF assms(2)] assms(1) by (simp add: ini_inv_def)
  then have "ini_key_inv (ini_keys s ! i)" using assms(1) by (auto simp: ini_inv_def)
  then show ?thesis
    using assms by (simp add: ini_lookup_fun ini_inv_def map_of_zip_find_index key_lookup_def ini_key_inv_def)
qed

section \<open>Properties\<close>

text \<open>
  the store is a map. After any sequence of \<^verbatim>\<open>set_value\<close>, \<^verbatim>\<open>delete_value\<close> and \<^verbatim>\<open>delete_key\<close> on a
  new \<^verbatim>\<open>IniFile\<close>, looking up any section and name gives what the same updates give on a partial
  function, and the parallel vectors are still parallel and free of duplicates.
\<close>

theorem ini_store_refines_map:
  "ini_lookup (fold ini_apply cs (mk_ini_file p)) = fold spec_config cs (\<lambda>k n. None) \<and>
   ini_inv (fold ini_apply cs (mk_ini_file p))"
proof -
  have "ini_lookup (mk_ini_file p) = (\<lambda>k n. None)" by (intro ext) simp
  then show ?thesis using ini.fold_lookup [of "mk_ini_file p" cs] ini.fold_invar [of "mk_ini_file p" cs] by simp
qed

text \<open>
  The accessors agree. On a store with its invariant, \<^verbatim>\<open>get_values\<close> of a section is the lookup
  function of that section, the indexed \<^verbatim>\<open>get_value\<close> enumerates exactly its names with their
  values, \<^verbatim>\<open>num_values\<close> counts them, and \<^verbatim>\<open>delete_value\<close> returns whether there was anything to delete.
\<close>

theorem ini_accessors_agree:
  assumes "ini_inv s" "ini_is_key k s"
  shows "ini_get_values k s = Some (ini_lookup s k) \<and>
    (0 \<le> i \<and> i < ini_num_values k s \<longrightarrow>
       (\<exists>n v. ini_get_value_nth k i s = Some (n, v) \<and> ini_lookup s k n = Some v)) \<and>
    ini_num_values k s = int (card (dom (ini_lookup s k))) \<and>
    fst (ini_delete_value k n s) = (n \<in> dom (ini_lookup s k))"
proof -
  obtain j where j: "find_index k (ini_names s) = Some j"
    using assms(2) by (cases "find_index k (ini_names s)") (auto simp: ini_is_key_def find_key_def)
  note mem = ini_names_lookup [OF assms(1) j]
  have "j < length (ini_keys s)" using find_index_SomeD [OF j] assms(1) by (simp add: ini_inv_def)
  then have key: "ini_key_inv (ini_keys s ! j)" using assms(1) by (auto simp: ini_inv_def)
  have dom: "dom (ini_lookup s k) = set (ik_names (ini_keys s ! j))" using mem by (auto simp: dom_def)
  have num: "ini_num_values k s = int (length (ik_names (ini_keys s ! j)))"
    using j by (simp add: ini_num_values_def find_key_def)
  have "ini_get_values k s = Some (ini_lookup s k)"
    using j mem by (auto simp: ini_get_values_def find_key_def fold_upd ini_get_value_lookup fun_eq_iff
        split: option.splits)
  moreover have "\<exists>n v. ini_get_value_nth k i s = Some (n, v) \<and> ini_lookup s k n = Some v"
    if i: "0 \<le> i" "i < ini_num_values k s"
  proof -
    let ?n = "ik_names (ini_keys s ! j) ! nat i"
    have "?n \<in> set (ik_names (ini_keys s ! j))" using i num by (intro nth_mem) linarith
    then obtain v where "ini_lookup s k ?n = Some v" using mem by auto
    then show ?thesis
      using i num j by (auto simp: ini_get_value_nth_def find_key_def ini_get_value_lookup Let_def)
  qed
  moreover have "int (card (dom (ini_lookup s k))) = ini_num_values k s"
    using num dom key by (simp add: ini_key_inv_def distinct_card)
  ultimately show ?thesis using ini_delete_value_spec [OF assms(1), of k n] by auto
qed

theorem ini_accessors_agree_witness:
  "ini_get_values ''a'' (ini_apply (SetOp ''a'' ''b'' ''c'') (mk_ini_file ''p'')) =
     Some (ini_lookup (ini_apply (SetOp ''a'' ''b'' ''c'') (mk_ini_file ''p'')) ''a'')"
proof -
  let ?s = "ini_apply (SetOp ''a'' ''b'' ''c'') (mk_ini_file ''p'')"
  have "ini_is_key ''a'' ?s"
    by (simp add: ini_is_key_def find_key_def ini_set_value_def ini_set_in_key_def find_value_def
        mk_ini_file_def Let_def)
  from ini_accessors_agree [OF ini.apply_invar [OF ini_inv_new] this] show ?thesis by blast
qed

end
