(* ===== verification/C_Text.thy ===== *)
theory C_Text
  imports Prelude
begin

text \<open>
  The parts of the C library's text handling the code uses: a C string inside a character buffer,
  \<^verbatim>\<open>strtol\<close> with \<^verbatim>\<open>std::stoi\<close> and \<^verbatim>\<open>atoi\<close>, the \<^verbatim>\<open>%d\<close> and zero-padded \<^verbatim>\<open>%0nd\<close> conversions, and the
  truncation of \<^verbatim>\<open>snprintf\<close> to its buffer.
\<close>

section \<open>Characters and C strings\<close>

abbreviation newline :: char where "newline \<equiv> CHR 0x0A"
abbreviation cr :: char where "cr \<equiv> CHR 0x0D"
abbreviation nul :: char where "nul \<equiv> CHR 0x00"
abbreviation space :: char where "space \<equiv> CHR '' ''"

text \<open>What a reader of the buffer as a C string sees: the characters before the first NUL.\<close>

definition c_str :: "string \<Rightarrow> string" where
  "c_str s = takeWhile (\<lambda>c. c \<noteq> nul) s"

text \<open>\<^verbatim>\<open>snprintf(buf, n, ...)\<close> keeps at most \<open>n - 1\<close> characters.\<close>

definition snprintf :: "nat \<Rightarrow> string \<Rightarrow> string" where
  "snprintf n s = take (n - 1) s"

lemma snprintf_fits [simp]: "length s < n \<Longrightarrow> snprintf n s = s"
  by (simp add: snprintf_def)

lemma length_snprintf: "length (snprintf n s) \<le> n - 1"
  by (simp add: snprintf_def)

section \<open>Numbers as text\<close>

definition is_digit_char :: "char \<Rightarrow> bool" where
  "is_digit_char c \<longleftrightarrow> 48 \<le> (of_char c :: nat) \<and> (of_char c :: nat) \<le> 57"

definition digit_value :: "char \<Rightarrow> int" where
  "digit_value c = int (of_char c) - 48"

definition isspace :: "char \<Rightarrow> bool" where
  "isspace c \<longleftrightarrow> c \<in> {CHR '' '', CHR 0x09, CHR 0x0A, CHR 0x0B, CHR 0x0C, CHR 0x0D}"

definition digits_value :: "string \<Rightarrow> int" where
  "digits_value ds = foldl (\<lambda>a c. 10 * a + digit_value c) 0 ds"

text \<open>
  What \<^verbatim>\<open>strtol(s, &end, 10)\<close> converts: blanks, an optional sign, digits; the value and the number of
  characters, \<open>None\<close> when there is no digit.
\<close>

definition strtol :: "string \<Rightarrow> (int \<times> nat) option" where
  "strtol s =
     (let ws = takeWhile isspace s; r = dropWhile isspace s;
          sgn = (case r of c # _ \<Rightarrow> if c = CHR ''-'' \<or> c = CHR ''+'' then 1 else 0 | [] \<Rightarrow> 0);
          neg = (case r of c # _ \<Rightarrow> c = CHR ''-'' | [] \<Rightarrow> False);
          ds = takeWhile is_digit_char (drop sgn r)
      in if ds = [] then None
         else Some (if neg then - digits_value ds else digits_value ds, length ws + sgn + length ds))"

text \<open>\<^verbatim>\<open>std::stoi\<close> throws when nothing was converted or the value does not fit an \<^verbatim>\<open>int\<close>: \<open>None\<close>.\<close>

definition stoi :: "string \<Rightarrow> (int \<times> nat) option" where
  "stoi s = (case strtol s of
     None \<Rightarrow> None | Some (v, n) \<Rightarrow> if in_int32 v then Some (v, n) else None)"

definition atoi :: "string \<Rightarrow> fault + int" where
  "atoi s = (case strtol s of
     None \<Rightarrow> Inr 0 | Some (v, n) \<Rightarrow> if in_int32 v then Inr v else Inl (UB ''atoi overflow''))"

fun show_nat :: "nat \<Rightarrow> string" where
  "show_nat n = (if n < 10 then [char_of (48 + n)] else show_nat (n div 10) @ [char_of (48 + n mod 10)])"

declare show_nat.simps [simp del]

text \<open>The conversion \<^verbatim>\<open>%d\<close>.\<close>

definition show_int :: "int \<Rightarrow> string" where
  "show_int i = (if i < 0 then CHR ''-'' # show_nat (nat (- i)) else show_nat (nat i))"

text \<open>The conversion \<^verbatim>\<open>%0nd\<close> of a number that is not negative.\<close>

definition zero_pad :: "nat \<Rightarrow> nat \<Rightarrow> string" where
  "zero_pad n x = (let s = show_nat x in replicate (n - length s) (CHR ''0'') @ s)"

section \<open>Facts\<close>

lemma digit_char:
  assumes "d < 10"
  shows "is_digit_char (char_of (48 + d :: nat))" "digit_value (char_of (48 + d :: nat)) = int d"
  using assms by (simp_all add: is_digit_char_def digit_value_def)

lemma show_nat_digits: "list_all is_digit_char (show_nat n) \<and> show_nat n \<noteq> []"
proof (induction n rule: show_nat.induct)
  case (1 n)
  then show ?case
    using digit_char(1) [of n] digit_char(1) [of "n mod 10"] by (subst (1 2) show_nat.simps) auto
qed

lemma digits_value_show: "digits_value (show_nat n) = int n"
proof (induction n rule: show_nat.induct)
  case (1 n)
  show ?case
  proof (cases "n < 10")
    case True
    then show ?thesis using digit_char(2) [of n] by (simp add: show_nat.simps digits_value_def)
  next
    case False
    then have "digits_value (show_nat n) = 10 * digits_value (show_nat (n div 10)) + int (n mod 10)"
      using digit_char(2) [of "n mod 10"] by (subst show_nat.simps) (simp add: digits_value_def)
    moreover have "int n = 10 * int (n div 10) + int (n mod 10)" by presburger
    ultimately show ?thesis using 1 False by simp
  qed
qed

lemma show_nat_one_digit [simp]: "n < 10 \<Longrightarrow> show_nat n = [char_of (48 + n)]"
  by (subst show_nat.simps) simp

lemma c_str_id: "nul \<notin> set s \<Longrightarrow> c_str s = s"
  by (auto simp: c_str_def takeWhile_eq_all_conv)

lemma length_show_nat_pos: "0 < length (show_nat n)"
  using show_nat_digits [of n] by auto

lemma length_show_nat: "n < 10 ^ Suc k \<Longrightarrow> length (show_nat n) \<le> Suc k"
proof (induction k arbitrary: n)
  case (Suc k)
  then show ?case using Suc.IH [of "n div 10"] by (subst show_nat.simps) auto
qed simp

lemma length_show_int: "in_int32 v \<Longrightarrow> length (show_int v) \<le> 11"
  using length_show_nat [of "nat \<bar>v\<bar>" 9] by (auto simp: show_int_def in_int32_def nat_less_iff abs_if split: if_splits)

lemma show_nat_inject [simp]: "show_nat m = show_nat n \<longleftrightarrow> m = n"
  by (metis digits_value_show of_nat_eq_iff)

lemma length_zero_pad: "n \<le> length (zero_pad n x)"
  by (simp add: zero_pad_def Let_def)

end
