(* ===== verification/Ini_Text.thy ===== *)
theory Ini_Text
  imports Ini_File C_Text
begin

text \<open>
  The text side of \<^verbatim>\<open>IniFile\<close> (\<^verbatim>\<open>src/inifile.cpp\<close>): \<^verbatim>\<open>read_file\<close> and \<^verbatim>\<open>write_file\<close> as functions
  between the characters of the file and the store, and the typed accessors. \<^verbatim>\<open>fgets\<close> with the
  2048-byte buffer, the two trims of a line, the split at the first \<^verbatim>\<open>=\<close> and the comment at the first
  \<^verbatim>\<open>#\<close> are as in the code. A file that cannot be opened is \<open>None\<close>.
\<close>

section \<open>Trimming\<close>

definition TrimLeft :: "char \<Rightarrow> string \<Rightarrow> string" where
  "TrimLeft c s = dropWhile (\<lambda>x. x = c) s"

definition TrimRight :: "char \<Rightarrow> string \<Rightarrow> string" where
  "TrimRight c s = rev (dropWhile (\<lambda>x. x = c) (rev s))"

definition Trim :: "char \<Rightarrow> string \<Rightarrow> string" where
  "Trim c s = TrimRight c (TrimLeft c s)"

section \<open>Reading\<close>

text \<open>One \<^verbatim>\<open>fgets\<close>: at most \<open>n\<close> characters, up to and including a newline; and what is left.\<close>

fun fgets :: "nat \<Rightarrow> string \<Rightarrow> string \<times> string" where
  "fgets 0 cs = ([], cs)"
| "fgets (Suc n) [] = ([], [])"
| "fgets (Suc n) (c # cs) =
     (if c = newline then ([c], cs) else (let (l, r) = fgets n cs in (c # l, r)))"

definition INI_BUF :: nat where
  "INI_BUF = 2048"

lemma fgets_append: "fst (fgets n cs) @ snd (fgets n cs) = cs"
  by (induction n cs rule: fgets.induct) (auto simp: split_beta)

lemma fgets_shorter: "0 < n \<Longrightarrow> cs \<noteq> [] \<Longrightarrow> length (snd (fgets n cs)) < length cs"
  by (cases "(n, cs)" rule: fgets.cases) (auto simp: split_beta, metis fgets_append le_imp_less_Suc length_append le_add2)

function ini_lines :: "string \<Rightarrow> string list" where
  "ini_lines cs =
     (if cs = [] then [] else fst (fgets (INI_BUF - 1) cs) # ini_lines (snd (fgets (INI_BUF - 1) cs)))"
  by pat_completeness auto
termination by (relation "measure length") (auto simp: INI_BUF_def fgets_shorter)

declare ini_lines.simps [simp del]

definition strip_comment :: "string \<Rightarrow> string" where
  "strip_comment v = takeWhile (\<lambda>c. c \<noteq> CHR ''#'') v"

definition ini_read_line :: "string \<Rightarrow> string \<times> ini_file \<Rightarrow> string \<times> ini_file" where
  "ini_read_line buf st =
     (let (keyname, s) = st; line = TrimRight cr (TrimRight newline (c_str buf))
      in if line = [] \<or> hd line = CHR ''#'' then (keyname, s)
         else if hd line = CHR ''['' \<and> last line = CHR '']''
         then (Trim space (butlast (tl line)), s)
         else (let valuename = Trim space (takeWhile (\<lambda>c. c \<noteq> CHR ''='') line);
                   value = Trim space (strip_comment (drop 1 (dropWhile (\<lambda>c. c \<noteq> CHR ''='') line)))
               in if valuename \<noteq> [] then (keyname, snd (ini_set_value keyname valuename value True s))
                  else (keyname, s)))"

definition ini_read_text :: "string \<Rightarrow> ini_file \<Rightarrow> ini_file" where
  "ini_read_text content s = snd (fold ini_read_line (ini_lines content) ([], s))"

definition ini_read_file :: "string option \<Rightarrow> ini_file \<Rightarrow> bool \<times> ini_file" where
  "ini_read_file fp s =
     (case fp of
        None \<Rightarrow> (False, s\<lparr>ini_error := ''Unable to open ini file.''\<rparr>)
      | Some content \<Rightarrow> (True, ini_read_text content s))"

section \<open>Writing\<close>

text \<open>\<^verbatim>\<open>%-10s\<close>: padded with spaces on the right to at least ten characters.\<close>

definition pad10 :: "string \<Rightarrow> string" where
  "pad10 s = s @ replicate (10 - length s) space"

definition ini_write_value :: "string \<times> string \<Rightarrow> string" where
  "ini_write_value nv = pad10 (c_str (fst nv)) @ '' = '' @ c_str (snd nv) @ [newline]"

definition ini_write_section :: "string \<times> ini_key \<Rightarrow> string" where
  "ini_write_section kk =
     (let (k, key) = kk
      in if ik_names key = [] then []
         else ''['' @ c_str k @ '']'' @ [newline]
              @ concat (map ini_write_value (zip (ik_names key) (ik_values key))) @ [newline])"

definition ini_write_text :: "ini_file \<Rightarrow> string" where
  "ini_write_text s = concat (map ini_write_section (zip (ini_names s) (ini_keys s)))"

definition ini_write_file :: "bool \<Rightarrow> ini_file \<Rightarrow> string option \<times> ini_file" where
  "ini_write_file opens s =
     (if \<not> opens then (None, s\<lparr>ini_error := ''Unable to open ini file.''\<rparr>)
      else (Some (ini_write_text s), s))"

section \<open>What survives a round trip\<close>

text \<open>
  The names \<^verbatim>\<open>read_file\<close> gives back unchanged: no NUL, no newline, no blank at either end, and short
  enough for one \<^verbatim>\<open>fgets\<close>; a value name must also not be empty, contain \<^verbatim>\<open>=\<close> or start with \<^verbatim>\<open>#\<close> or
  \<^verbatim>\<open>[\<close>. A value must have neither NUL nor newline nor end in a carriage return; what comes back of it is
  \<open>ini_normal\<close>: the part before the first \<^verbatim>\<open>#\<close>, without blanks at the ends.
\<close>

definition ini_normal :: "string \<Rightarrow> string" where
  "ini_normal v = Trim space (strip_comment v)"

definition plain :: "string \<Rightarrow> bool" where
  "plain s \<longleftrightarrow> newline \<notin> set s \<and> nul \<notin> set s \<and> Trim space s = s"

definition clean_section :: "string \<Rightarrow> bool" where
  "clean_section k \<longleftrightarrow> plain k \<and> length k + 3 < INI_BUF"

definition clean_entry :: "string \<times> string \<Rightarrow> bool" where
  "clean_entry nv \<longleftrightarrow> plain (fst nv) \<and> newline \<notin> set (snd nv) \<and> nul \<notin> set (snd nv) \<and>
     fst nv \<noteq> [] \<and> CHR ''='' \<notin> set (fst nv) \<and> hd (fst nv) \<noteq> CHR ''#'' \<and> hd (fst nv) \<noteq> CHR ''['' \<and>
     (snd nv = [] \<or> last (snd nv) \<noteq> cr) \<and>
     max 10 (length (fst nv)) + length (snd nv) + 4 < INI_BUF"

definition ini_clean :: "ini_file \<Rightarrow> bool" where
  "ini_clean s \<longleftrightarrow> list_all (\<lambda>(k, key). ik_names key \<noteq> [] \<longrightarrow>
     clean_section k \<and> list_all clean_entry (zip (ik_names key) (ik_values key)))
     (zip (ini_names s) (ini_keys s))"

lemma fgets_line:
  "newline \<notin> set l \<Longrightarrow> length l < n \<Longrightarrow> fgets n (l @ newline # cs) = (l @ [newline], cs)"
proof (induction l arbitrary: n)
  case Nil
  then show ?case by (cases n) auto
next
  case (Cons c l)
  then show ?case by (cases n) auto
qed

lemma ini_lines_line:
  "newline \<notin> set l \<Longrightarrow> length l + 1 < INI_BUF \<Longrightarrow> ini_lines (l @ newline # cs) = (l @ [newline]) # ini_lines cs"
  by (subst ini_lines.simps) (simp add: fgets_line)

lemma TrimRight_snoc [simp]: "TrimRight c (s @ [c]) = TrimRight c s"
  by (simp add: TrimRight_def)

lemma TrimRight_id: "s = [] \<or> last s \<noteq> c \<Longrightarrow> TrimRight c s = s"
  by (cases s rule: rev_cases) (simp_all add: TrimRight_def)

lemma TrimRight_replicate [simp]: "TrimRight c (s @ replicate n c) = TrimRight c s"
  by (simp add: TrimRight_def dropWhile_append) 

lemma TrimLeft_Cons [simp]: "TrimLeft c (c # s) = TrimLeft c s"
  by (simp add: TrimLeft_def)

lemma plain_hd: "plain s \<Longrightarrow> s \<noteq> [] \<Longrightarrow> hd s \<noteq> space"
proof
  assume p: "plain s" "s \<noteq> []" "hd s = space"
  then obtain t where s: "s = space # t" by (cases s) auto
  have "length (TrimRight c x) \<le> length x" for c x
    by (simp add: TrimRight_def) (metis length_dropWhile_le length_rev)
  then have "length (Trim space s) \<le> length (TrimLeft space t)" by (simp add: Trim_def s)
  also have "\<dots> < length s" by (simp add: s TrimLeft_def length_dropWhile_le le_imp_less_Suc)
  finally show False using p(1) by (simp add: plain_def)
qed

lemma plain_TrimLeft: "plain s \<Longrightarrow> s \<noteq> [] \<Longrightarrow> TrimLeft space (s @ t) = s @ t"
  using plain_hd [of s] by (cases s) (simp_all add: TrimLeft_def)

lemma plain_TrimRight: "plain s \<Longrightarrow> TrimRight space s = s"
  using plain_TrimLeft [of s "[]"] by (cases "s = []") (simp_all add: plain_def Trim_def TrimRight_def)

lemma read_section_line:
  assumes "clean_section k"
  shows "ini_read_line (''['' @ k @ '']'' @ [newline]) (k0, s) = (k, s)"
proof -
  have k: "nul \<notin> set k" "Trim space k = k" using assms by (auto simp: clean_section_def plain_def)
  have "TrimRight cr (TrimRight newline (c_str (''['' @ k @ '']'' @ [newline]))) = ''['' @ k @ '']''"
    using k(1) TrimRight_snoc [of newline "''['' @ k @ '']''"]
    by (simp add: c_str_id TrimRight_id)
  then show ?thesis using k(2) by (simp add: ini_read_line_def Let_def)
qed

lemma read_blank_line: "ini_read_line [newline] st = st"
  by (cases st) (simp add: ini_read_line_def Let_def c_str_def TrimRight_def)

lemma write_value_line:
  assumes "clean_entry (n, v)"
  shows "ini_write_value (n, v) = (pad10 n @ '' = '' @ v) @ [newline]"
    "newline \<notin> set (pad10 n @ '' = '' @ v)" "length (pad10 n @ '' = '' @ v) + 1 < INI_BUF"
proof -
  have "nul \<notin> set n" "nul \<notin> set v" "newline \<notin> set n" "newline \<notin> set v"
    using assms by (auto simp: clean_entry_def plain_def)
  then show "ini_write_value (n, v) = (pad10 n @ '' = '' @ v) @ [newline]"
      "newline \<notin> set (pad10 n @ '' = '' @ v)"
    by (auto simp: ini_write_value_def c_str_id pad10_def)
  show "length (pad10 n @ '' = '' @ v) + 1 < INI_BUF"
    using assms by (auto simp: clean_entry_def pad10_def max_def split: if_splits)
qed

lemma read_value_line:
  assumes "clean_entry (n, v)"
  shows "ini_read_line (ini_write_value (n, v)) (k, s) = (k, snd (ini_set_value k n (ini_normal v) True s))"
proof -
  let ?line = "pad10 n @ '' = '' @ v"
  have n: "plain n" "n \<noteq> []" "CHR ''='' \<notin> set n" "hd n \<noteq> CHR ''#''" "hd n \<noteq> CHR ''[''"
    and v: "newline \<notin> set v" "nul \<notin> set v" "v = [] \<or> last v \<noteq> cr"
    using assms by (auto simp: clean_entry_def)
  have nn: "nul \<notin> set ?line" using n v by (auto simp: plain_def pad10_def)
  have "last ?line \<noteq> newline" "last ?line \<noteq> cr"
    using v by auto (metis last_in_set)
  then have line: "TrimRight cr (TrimRight newline (c_str (ini_write_value (n, v)))) = ?line"
    using nn TrimRight_snoc [of newline ?line]
    by (simp add: write_value_line(1) [OF assms] c_str_id TrimRight_id)
  have hd: "hd ?line = hd n" "?line \<noteq> []" using n(2) by (simp_all add: pad10_def)
  have pn: "CHR ''='' \<notin> set (pad10 n)" using n(3) by (auto simp: pad10_def)
  have "takeWhile (\<lambda>c. c \<noteq> CHR ''='') ?line = pad10 n @ '' ''"
    using pn by (simp add: takeWhile_append1 takeWhile_append)
  moreover have "pad10 n @ '' '' = n @ replicate (Suc (10 - length n)) space"
    by (simp add: pad10_def replicate_append_same)
  ultimately have name: "Trim space (takeWhile (\<lambda>c. c \<noteq> CHR ''='') ?line) = n"
    using plain_TrimLeft [OF n(1,2)] plain_TrimRight [OF n(1)]
    by (simp only: Trim_def TrimRight_replicate)
  have "dropWhile (\<lambda>c. c \<noteq> CHR ''='') ?line = ''= '' @ v"
    using pn by (simp add: dropWhile_append)
  then have "Trim space (strip_comment (drop 1 (dropWhile (\<lambda>c. c \<noteq> CHR ''='') ?line))) = ini_normal v"
    by (simp add: ini_normal_def strip_comment_def Trim_def)
  then show ?thesis
    unfolding ini_read_line_def Let_def line using n hd name by simp
qed

text \<open>The lines of a written section, then the effect of reading them.\<close>

definition key_entries :: "ini_key \<Rightarrow> (string \<times> string) list" where
  "key_entries key = zip (ik_names key) (ik_values key)"

definition set_entry :: "string \<Rightarrow> string \<times> string \<Rightarrow> ini_file \<Rightarrow> ini_file" where
  "set_entry k nv s = snd (ini_set_value k (fst nv) (ini_normal (snd nv)) True s)"

lemma ini_lines_values:
  "list_all clean_entry nvs \<Longrightarrow>
     ini_lines (concat (map ini_write_value nvs) @ cs) = map ini_write_value nvs @ ini_lines cs"
proof (induction nvs)
  case (Cons nv nvs)
  obtain n v where nv: "nv = (n, v)" by (cases nv)
  with Cons.prems have c: "clean_entry (n, v)" by simp
  have "ini_write_value nv @ xs = (pad10 n @ '' = '' @ v) @ newline # xs" for xs
    using write_value_line(1) [OF c] nv by simp
  then show ?case
    using Cons ini_lines_line [OF write_value_line(2,3) [OF c]] write_value_line(1) [OF c] nv by simp
qed simp

lemma read_values:
  "list_all clean_entry nvs \<Longrightarrow>
     fold ini_read_line (map ini_write_value nvs) (k, s) = (k, fold (set_entry k) nvs s)"
  by (induction nvs arbitrary: s) (auto simp: read_value_line set_entry_def)

lemma read_section:
  assumes "ik_names key \<noteq> [] \<longrightarrow> clean_section k \<and> list_all clean_entry (key_entries key)"
  shows "\<exists>k1. fold ini_read_line (ini_lines (ini_write_section (k, key) @ cs)) (k0, s) =
    fold ini_read_line (ini_lines cs) (k1, fold (set_entry k) (key_entries key) s)"
proof (cases "ik_names key = []")
  case True
  then show ?thesis by (auto simp: ini_write_section_def key_entries_def)
next
  case False
  then have k: "clean_section k" and e: "list_all clean_entry (key_entries key)" using assms by auto
  have ks: "c_str k = k" "newline \<notin> set (''['' @ k @ '']'')" "length (''['' @ k @ '']'') + 1 < INI_BUF"
    using k by (auto simp: clean_section_def plain_def c_str_id)
  have "ini_lines (newline # cs) = [newline] # ini_lines cs"
    using ini_lines_line [of "[]" cs] by (simp add: INI_BUF_def)
  then have "ini_lines (ini_write_section (k, key) @ cs) =
      (''['' @ k @ '']'' @ [newline]) # map ini_write_value (key_entries key) @ [newline] # ini_lines cs"
    using False ks ini_lines_line [OF ks(2,3)] ini_lines_values [OF e]
    by (simp add: ini_write_section_def key_entries_def)
  then show ?thesis
    using read_section_line [OF k] read_values [OF e] by (auto simp: read_blank_line)
qed

lemma read_sections:
  "list_all (\<lambda>(k, key). ik_names key \<noteq> [] \<longrightarrow> clean_section k \<and> list_all clean_entry (key_entries key)) ks \<Longrightarrow>
     snd (fold ini_read_line (ini_lines (concat (map ini_write_section ks))) (k0, s)) =
     fold (\<lambda>(k, key). fold (set_entry k) (key_entries key)) ks s"
proof (induction ks arbitrary: k0 s)
  case Nil
  then show ?case by (simp add: ini_lines.simps)
next
  case (Cons kk ks)
  obtain k key where kk: "kk = (k, key)" by (cases kk)
  show ?case
    using read_section [of key k "concat (map ini_write_section ks)" k0 s] Cons kk by auto
qed

text \<open>All settings a written store is read back as, in file order.\<close>

definition ini_entries :: "(string \<times> ini_key) list \<Rightarrow> (string \<times> string \<times> string) list" where
  "ini_entries ks = concat (map (\<lambda>(k, key). map (\<lambda>(n, v). (k, n, ini_normal v)) (key_entries key)) ks)"

lemma fold_set_entry:
  "fold (set_entry k) nvs s = fold ini_apply (map (\<lambda>(k, n, v). SetOp k n v) (map (\<lambda>(n, v). (k, n, ini_normal v)) nvs)) s"
  by (induction nvs arbitrary: s) (auto simp: set_entry_def)

lemma fold_entries:
  "fold (\<lambda>(k, key). fold (set_entry k) (key_entries key)) ks s =
     fold ini_apply (map (\<lambda>(k, n, v). SetOp k n v) (ini_entries ks)) s"
  by (induction ks arbitrary: s) (auto simp: ini_entries_def fold_set_entry)

lemma map_of_tag:
  "map_of (map (\<lambda>(k, n, v). ((k, n), v)) (map (\<lambda>(n, v). (k', n, ini_normal v)) nvs)) (k, n) =
     (if k = k' then map_option ini_normal (map_of nvs n) else None)"
  by (induction nvs) auto

lemma map_of_entries:
  "distinct (map fst ks) \<Longrightarrow>
     map_of (map (\<lambda>(k, n, v). ((k, n), v)) (ini_entries ks)) (k, n) =
     (case map_of ks k of None \<Rightarrow> None | Some key \<Rightarrow> map_option ini_normal (map_of (key_entries key) n))"
proof (induction ks)
  case (Cons kk ks)
  obtain k' key where kk: "kk = (k', key)" by (cases kk)
  have "k' \<notin> fst ` set ks" using Cons.prems kk by simp
  then have "map_of ks k' = None" by (simp add: map_of_eq_None_iff)
  then show ?case
    using Cons map_of_tag [of k' "key_entries key" k n]
    by (auto simp: kk ini_entries_def map_add_def split: option.splits)
qed (simp add: ini_entries_def)

lemma distinct_entries:
  "distinct (map fst ks) \<Longrightarrow> (\<And>key. key \<in> snd ` set ks \<Longrightarrow> ini_key_inv key) \<Longrightarrow>
     distinct (map fst (map (\<lambda>(k, n, v). ((k, n), v)) (ini_entries ks)))"
proof (induction ks)
  case (Cons kk ks)
  obtain k key where kk: "kk = (k, key)" by (cases kk)
  have names: "map fst (key_entries key) = ik_names key" "distinct (ik_names key)"
    using Cons.prems(2) [of key] by (auto simp: kk ini_key_inv_def key_entries_def)
  have "map (fst \<circ> (\<lambda>(k, n, v). ((k, n), v)) \<circ> (\<lambda>(n, v). (k, n, ini_normal v))) (key_entries key) =
      map (Pair k) (ik_names key)"
    using names(1) by (auto simp: comp_def split_beta simp flip: names(1))
  moreover have "distinct (map (Pair k) (ik_names key))" using names(2) by (simp add: distinct_map inj_on_def)
  moreover have "(k, key') \<notin> set ks" for key'
    using Cons.prems(1) by (force simp: kk)
  ultimately show ?case using Cons
    by (auto simp: kk ini_entries_def comp_assoc [symmetric])
qed (simp add: ini_entries_def)

lemma map_of_rev_distinct: "distinct (map fst xs) \<Longrightarrow> map_of (rev xs) = map_of xs"
  by (induction xs) (auto simp: singleton_map_add map_of_eq_None_iff)

lemma ini_zip_keys:
  assumes "ini_inv s"
  shows "distinct (map fst (zip (ini_names s) (ini_keys s)))"
    "key \<in> snd ` set (zip (ini_names s) (ini_keys s)) \<Longrightarrow> ini_key_inv key"
  using assms by (auto simp: ini_inv_def dest: set_zip_rightD)

text \<open>Reading back what was written, exactly.\<close>

lemma ini_read_written:
  assumes "ini_inv s" "ini_clean s"
  shows "ini_lookup (ini_read_text (ini_write_text s) (mk_ini_file p)) k n =
    map_option ini_normal (ini_lookup s k n)"
proof -
  let ?ks = "zip (ini_names s) (ini_keys s)"
  note z = ini_zip_keys [OF assms(1)]
  have "list_all (\<lambda>(k, key). ik_names key \<noteq> [] \<longrightarrow> clean_section k \<and> list_all clean_entry (key_entries key)) ?ks"
    using assms(2) by (simp add: ini_clean_def key_entries_def)
  then have "ini_read_text (ini_write_text s) (mk_ini_file p) =
      fold ini_apply (map (\<lambda>(k, n, v). SetOp k n v) (ini_entries ?ks)) (mk_ini_file p)"
    using read_sections [of ?ks "[]" "mk_ini_file p"]
    by (simp add: ini_read_text_def ini_write_text_def fold_entries)
  then have "ini_lookup (ini_read_text (ini_write_text s) (mk_ini_file p)) k n =
      map_of (map (\<lambda>(k, n, v). ((k, n), v)) (ini_entries ?ks)) (k, n)"
    using ini.fold_settings [OF ini_inv_new [of p], of "ini_entries ?ks" k n]
      map_of_rev_distinct [OF distinct_entries [OF z]]
    by (simp add: rev_map split: option.splits)
  then show ?thesis
    using map_of_entries [OF z(1), of k n] assms(1)
    by (simp add: ini_lookup_fun key_lookup_def key_entries_def split: option.splits)
qed

lemma strip_comment_id: "CHR ''#'' \<notin> set v \<Longrightarrow> strip_comment v = v"
  by (auto simp: strip_comment_def takeWhile_eq_all_conv)

lemma ini_normal_id: "plain v \<Longrightarrow> CHR ''#'' \<notin> set v \<Longrightarrow> ini_normal v = v"
  by (simp add: ini_normal_def strip_comment_id plain_def)

section \<open>Properties of the file format\<close>

text \<open>
  writing and reading back. For a store with clean names, \<^verbatim>\<open>read_file\<close> of what \<^verbatim>\<open>write_file\<close> wrote,
  into a new \<^verbatim>\<open>IniFile\<close>, has exactly the sections' values back, each reduced to \<open>ini_normal\<close>; so a value
  without \<^verbatim>\<open>#\<close> and without blanks at its ends is unchanged.
\<close>

theorem ini_write_read_roundtrip:
  assumes "ini_inv s" "ini_clean s"
  shows "\<exists>content s'. fst (ini_write_file True s) = Some content \<and>
    ini_read_file (Some content) (mk_ini_file p) = (True, s') \<and>
    ini_lookup s' k n = map_option ini_normal (ini_lookup s k n) \<and>
    (\<forall>v. ini_lookup s k n = Some v \<and> plain v \<and> CHR ''#'' \<notin> set v \<longrightarrow> ini_lookup s' k n = Some v)"
  using ini_read_written [OF assms, of p k n] by (simp add: ini_write_file_def ini_read_file_def ini_normal_id)

definition ini_example :: "string \<Rightarrow> ini_file" where
  "ini_example v = \<lparr>ini_path = ''x.ini'', ini_keys = [\<lparr>ik_values = [v], ik_names = [''port'']\<rparr>],
     ini_names = [''srv''], ini_error = []\<rparr>"

lemma ini_example_ok: "ini_inv (ini_example v)" "ini_lookup (ini_example v) ''srv'' ''port'' = Some v"
  by (simp_all add: ini_example_def ini_inv_def ini_key_inv_def ini_lookup_def ini_try_get_string_def
      find_key_def find_value_def)

lemma ini_example_clean:
  "newline \<notin> set v \<Longrightarrow> nul \<notin> set v \<Longrightarrow> v = [] \<or> last v \<noteq> cr \<Longrightarrow> length v < 2000 \<Longrightarrow> ini_clean (ini_example v)"
  by (simp add: ini_clean_def ini_example_def clean_section_def clean_entry_def plain_def INI_BUF_def
      Trim_def TrimLeft_def TrimRight_def)

theorem ini_write_read_roundtrip_witness:
  "\<exists>content s'. fst (ini_write_file True (ini_example ''9100'')) = Some content \<and>
    ini_read_file (Some content) (mk_ini_file ''y'') = (True, s') \<and>
    ini_lookup s' ''srv'' ''port'' = Some ''9100''"
  using ini_write_read_roundtrip [OF ini_example_ok(1) ini_example_clean [of "''9100''"], of "''y''" "''srv''" "''port''"]
  by (simp add: ini_example_ok plain_def Trim_def TrimLeft_def TrimRight_def) blast

text \<open>
  A \<^verbatim>\<open>#\<close> inside a value is lost. \<^verbatim>\<open>set_value\<close> accepts any text, \<^verbatim>\<open>write_file\<close> writes it as it is, and
  \<^verbatim>\<open>read_file\<close> takes everything from the \<^verbatim>\<open>#\<close> on for a comment: the value comes back as the part
  before it.
\<close>

theorem ini_hash_in_value_lost:
  assumes "ini_inv s" "ini_clean s" "ini_lookup s k n = Some (x @ ''#'' @ y)" "plain x" "CHR ''#'' \<notin> set x"
  shows "ini_lookup (snd (ini_read_file (fst (ini_write_file True s)) (mk_ini_file p))) k n = Some x"
proof -
  have "strip_comment (x @ ''#'' @ y) = strip_comment x"
    by (induction x) (auto simp: strip_comment_def)
  then show ?thesis
    using ini_read_written [OF assms(1,2), of p k n] assms(3,4) strip_comment_id [OF assms(5)]
    by (simp add: ini_write_file_def ini_read_file_def ini_normal_def plain_def)
qed

theorem ini_hash_in_value_lost_witness:
  "ini_lookup (snd (ini_read_file (fst (ini_write_file True (ini_example ''a#b''))) (mk_ini_file ''y'')))
     ''srv'' ''port'' = Some ''a''"
  using ini_hash_in_value_lost [OF ini_example_ok(1) ini_example_clean [of "''a#b''"], of "''srv''" "''port''" "''a''" "''b''" "''y''"]
  by (simp add: ini_example_ok plain_def Trim_def TrimLeft_def TrimRight_def)

end
