(* ===== verification/Ini_Typed.thy ===== *)
theory Ini_Typed
  imports Ini_File C_Text
begin

text \<open>
  The typed accessors of \<^verbatim>\<open>IniFile\<close> (\<^verbatim>\<open>src/inifile.cpp\<close>): integers through \<^verbatim>\<open>std::stoi\<close> and
  \<^verbatim>\<open>atoi\<close>, booleans through the literal tables, and the \<^verbatim>\<open>_or\<close> forms with a default. \<^verbatim>\<open>strtol\<close> in base
  ten is modelled as the C standard describes it; floating point is left to parameters: \<open>stod\<close> stands
  for \<^verbatim>\<open>std::stod\<close> (value and number of characters consumed, \<open>None\<close> for an exception) and \<open>fmt_e\<close> for
  the \<^verbatim>\<open>%e\<close> conversion.
\<close>

section \<open>The accessors\<close>

definition is_trim_char :: "char \<Rightarrow> bool" where
  "is_trim_char c \<longleftrightarrow> c \<in> {CHR '' '', CHR 0x09, CHR 0x0D, CHR 0x0A}"

definition trim :: "string \<Rightarrow> string" where
  "trim s = rev (dropWhile is_trim_char (rev (dropWhile is_trim_char s)))"

definition ini_get_value_i :: "string \<Rightarrow> string \<Rightarrow> ini_file \<Rightarrow> fault + int" where
  "ini_get_value_i keyname valuename s = atoi (fst (ini_get_value keyname valuename s))"

definition ini_set_value_i :: "string \<Rightarrow> string \<Rightarrow> int \<Rightarrow> bool \<Rightarrow> ini_file \<Rightarrow> bool \<times> ini_file" where
  "ini_set_value_i key valuename value create s = ini_set_value key valuename (show_int value) create s"

definition ini_set_value_f ::
  "('d \<Rightarrow> string) \<Rightarrow> string \<Rightarrow> string \<Rightarrow> 'd \<Rightarrow> bool \<Rightarrow> ini_file \<Rightarrow> bool \<times> ini_file" where
  "ini_set_value_f fmt_e key valuename value create s =
     ini_set_value key valuename (take 63 (fmt_e value)) create s"

definition try_get_number ::
  "(string \<Rightarrow> ('d \<times> nat) option) \<Rightarrow> string \<Rightarrow> string \<Rightarrow> ini_file \<Rightarrow> 'd option" where
  "try_get_number sto sec key s =
     (case ini_try_get_string sec key s of
        None \<Rightarrow> None
      | Some v \<Rightarrow>
          (let trimmed = trim v
           in if trimmed = [] then None
              else (case sto trimmed of
                      None \<Rightarrow> None
                    | Some (x, consumed) \<Rightarrow> if consumed \<noteq> length trimmed then None else Some x)))"

definition ini_try_get_int :: "string \<Rightarrow> string \<Rightarrow> ini_file \<Rightarrow> int option" where
  "ini_try_get_int sec key s = try_get_number stoi sec key s"

definition ini_try_get_double ::
  "(string \<Rightarrow> ('d \<times> nat) option) \<Rightarrow> string \<Rightarrow> string \<Rightarrow> ini_file \<Rightarrow> 'd option" where
  "ini_try_get_double stod sec key s = try_get_number stod sec key s"

definition ini_get_string_or :: "string \<Rightarrow> string \<Rightarrow> string \<Rightarrow> ini_file \<Rightarrow> string" where
  "ini_get_string_or sec key dflt s =
     (case ini_try_get_string sec key s of Some v \<Rightarrow> v | None \<Rightarrow> dflt)"

definition ini_get_int_or :: "string \<Rightarrow> string \<Rightarrow> int \<Rightarrow> ini_file \<Rightarrow> int" where
  "ini_get_int_or sec key dflt s = (case ini_try_get_int sec key s of Some v \<Rightarrow> v | None \<Rightarrow> dflt)"

definition ini_get_double_or ::
  "(string \<Rightarrow> ('d \<times> nat) option) \<Rightarrow> string \<Rightarrow> string \<Rightarrow> 'd \<Rightarrow> ini_file \<Rightarrow> 'd" where
  "ini_get_double_or stod sec key dflt s =
     (case ini_try_get_double stod sec key s of Some v \<Rightarrow> v | None \<Rightarrow> dflt)"

definition tolower :: "char \<Rightarrow> char" where
  "tolower c = (if 65 \<le> (of_char c :: nat) \<and> (of_char c :: nat) \<le> 90 then char_of (of_char c + (32 :: nat)) else c)"

definition parse_bool :: "string \<Rightarrow> bool" where
  "parse_bool v \<longleftrightarrow> map tolower v \<in> {''1'', ''true'', ''yes'', ''on'', ''y''}"

definition is_truthy :: "string \<Rightarrow> bool" where
  "is_truthy trimmed \<longleftrightarrow> parse_bool trimmed"

definition is_explicitly_false :: "string \<Rightarrow> bool" where
  "is_explicitly_false trimmed \<longleftrightarrow> map tolower trimmed \<in> {''0'', ''false'', ''no'', ''off'', ''n''}"

definition ini_get_bool_or :: "string \<Rightarrow> string \<Rightarrow> bool \<Rightarrow> ini_file \<Rightarrow> bool" where
  "ini_get_bool_or sec key dflt s =
     (case ini_try_get_string sec key s of
        None \<Rightarrow> dflt
      | Some v \<Rightarrow>
          (let trimmed = trim v
           in if trimmed = [] then dflt
              else if is_truthy trimmed then True
              else if is_explicitly_false trimmed then False
              else dflt))"

definition ini_get_bool :: "string \<Rightarrow> string \<Rightarrow> ini_file \<Rightarrow> bool option" where
  "ini_get_bool sec key s =
     (case ini_try_get_string sec key s of
        None \<Rightarrow> None
      | Some v \<Rightarrow>
          (let trimmed = trim v
           in if trimmed = [] then None
              else if is_truthy trimmed then Some True
              else if is_explicitly_false trimmed then Some False
              else None))"

text \<open>The other instances of the template \<^verbatim>\<open>get\<close>, and the legacy accessor for numbers with \<^verbatim>\<open>atof\<close> as an argument.\<close>

definition ini_get_string :: "string \<Rightarrow> string \<Rightarrow> ini_file \<Rightarrow> string option" where
  "ini_get_string sec key s = ini_try_get_string sec key s"

definition ini_get_int :: "string \<Rightarrow> string \<Rightarrow> ini_file \<Rightarrow> int option" where
  "ini_get_int sec key s = ini_try_get_int sec key s"

definition ini_get_double :: "(string \<Rightarrow> ('d \<times> nat) option) \<Rightarrow> string \<Rightarrow> string \<Rightarrow> ini_file \<Rightarrow> 'd option" where
  "ini_get_double stod sec key s = ini_try_get_double stod sec key s"

definition ini_get_value_f :: "(string \<Rightarrow> 'd) \<Rightarrow> string \<Rightarrow> string \<Rightarrow> ini_file \<Rightarrow> 'd" where
  "ini_get_value_f atof keyname valuename s = atof (fst (ini_get_value keyname valuename s))"

text \<open>The template \<^verbatim>\<open>get_or\<close>, on whichever \<^verbatim>\<open>get\<close> it is instantiated with.\<close>

definition ini_get_or :: "(string \<Rightarrow> string \<Rightarrow> ini_file \<Rightarrow> 'v option) \<Rightarrow> string \<Rightarrow> string \<Rightarrow> 'v \<Rightarrow> ini_file \<Rightarrow> 'v" where
  "ini_get_or get sec key dflt s = (case get sec key s of Some v \<Rightarrow> v | None \<Rightarrow> dflt)"

section \<open>Printing and parsing integers\<close>

lemma digit_not_space: "is_digit_char c \<Longrightarrow> \<not> isspace c \<and> \<not> is_trim_char c \<and> c \<noteq> CHR ''-'' \<and> c \<noteq> CHR ''+''"
  by (auto simp: is_digit_char_def isspace_def is_trim_char_def)

lemma takeWhile_all: "list_all P xs \<Longrightarrow> takeWhile P xs = xs"
  by (induction xs) auto

lemma strtol_show: "strtol (show_int v) = Some (v, length (show_int v))"
proof -
  have d: "list_all is_digit_char (show_nat n)" "show_nat n \<noteq> []" for n using show_nat_digits by auto
  have head: "\<exists>c cs. show_nat n = c # cs \<and> is_digit_char c" for n
    using d [of n] by (cases "show_nat n") auto
  show ?thesis
  proof (cases "v < 0")
    case True
    then show ?thesis
      using d [of "nat (- v)"]
      by (simp add: strtol_def show_int_def isspace_def takeWhile_all digits_value_show Let_def)
  next
    case False
    obtain c cs where c: "show_nat (nat v) = c # cs" "is_digit_char c" using head by blast
    then have "takeWhile isspace (c # cs) = []" "dropWhile isspace (c # cs) = c # cs"
        "c \<noteq> CHR ''-''" "c \<noteq> CHR ''+''"
      using digit_not_space [OF c(2)] by auto
    then show ?thesis
      using False d [of "nat v"] digits_value_show [of "nat v"] takeWhile_all [OF d(1) [of "nat v"]]
      unfolding c(1) by (simp add: strtol_def show_int_def c(1) takeWhile_all Let_def)
  qed
qed

lemma trim_id: "xs \<noteq> [] \<Longrightarrow> \<not> is_trim_char (hd xs) \<Longrightarrow> \<not> is_trim_char (last xs) \<Longrightarrow> trim xs = xs"
proof -
  assume a: "xs \<noteq> []" "\<not> is_trim_char (hd xs)" "\<not> is_trim_char (last xs)"
  then have "dropWhile is_trim_char xs = xs" by (cases xs) auto
  moreover have "dropWhile is_trim_char (rev xs) = rev xs"
    using a(1,3) by (cases xs rule: rev_cases) auto
  ultimately show ?thesis by (simp add: trim_def)
qed

lemma trim_show: "trim (show_int v) = show_int v" "show_int v \<noteq> []"
proof -
  have last: "is_digit_char (last (show_nat n))" "is_digit_char (hd (show_nat n))" "show_nat n \<noteq> []" for n
    using show_nat_digits [of n] by (auto simp: list_all_iff)
  then show "show_int v \<noteq> []" by (simp add: show_int_def)
  show "trim (show_int v) = show_int v"
    using last digit_not_space by (intro trim_id) (auto simp: show_int_def is_trim_char_def)
qed

lemma ini_int_of_text:
  "in_int32 v \<Longrightarrow> ini_lookup s k n = Some (show_int v) \<Longrightarrow>
   ini_try_get_int k n s = Some v \<and> ini_get_int_or k n d s = v \<and> ini_get_value_i k n s = Inr v"
  using trim_show [of v] ini_get_value_lookup [of k n s]
  by (simp add: ini_try_get_int_def try_get_number_def ini_lookup_def stoi_def strtol_show Let_def
      ini_get_int_or_def ini_get_value_i_def atoi_def)

text \<open>\<^verbatim>\<open>get_or\<close> on each instance is the \<^verbatim>\<open>_or\<close> accessor of that type.\<close>

lemma ini_get_or_instances:
  "ini_get_or ini_get_string sec key dflt s = ini_get_string_or sec key dflt s"
  "ini_get_or ini_get_int sec key n s = ini_get_int_or sec key n s"
  "ini_get_or (ini_get_double stod) sec key x s = ini_get_double_or stod sec key x s"
  by (simp_all add: ini_get_or_def ini_get_string_def ini_get_int_def ini_get_double_def ini_get_string_or_def
      ini_get_int_or_def ini_get_double_or_def)

section \<open>Properties\<close>

text \<open>
  integers survive the store. After \<^verbatim>\<open>set_value_i\<close> with any \<^verbatim>\<open>int\<close>, the lowest one included,
  \<^verbatim>\<open>try_get_int\<close>, \<^verbatim>\<open>get_int_or\<close> and the legacy \<^verbatim>\<open>get_value_i\<close> all return it.
\<close>

theorem ini_int_roundtrip:
  assumes "ini_inv s" "in_int32 v" "ini_set_value_i k n v True s = (ok, s')"
  shows "ok \<and> ini_try_get_int k n s' = Some v \<and> ini_get_int_or k n d s' = v \<and> ini_get_value_i k n s' = Inr v"
proof -
  have "ok" "ini_lookup s' k n = Some (show_int v)"
    using ini_set_value_spec [OF assms(1), of k n "show_int v"] assms(3) by (auto simp: ini_set_value_i_def)
  then show ?thesis using ini_int_of_text [OF assms(2)] by simp
qed

theorem ini_int_roundtrip_witness:
  "ini_try_get_int ''a'' ''b'' (snd (ini_set_value_i ''a'' ''b'' (- 2147483648) True (mk_ini_file ''p''))) = Some (- 2147483648)"
  using ini_int_roundtrip [OF ini_inv_new, of "- 2147483648" "''a''" "''b''" "''p''"]
  by (cases "ini_set_value_i ''a'' ''b'' (- 2147483648) True (mk_ini_file ''p'')") (simp add: in_int32_def)

text \<open>
  The strict accessor is strict. \<^verbatim>\<open>try_get_int\<close> returns a value only when the whole trimmed text
  was consumed and the number fits an \<^verbatim>\<open>int\<close>; in particular whenever it returns one, the legacy
  \<^verbatim>\<open>atoi\<close> reads the same number from the trimmed text, and the converse fails for a text such as
  \<open>12abc\<close>, from which \<^verbatim>\<open>get_value_i\<close> reads 12.
\<close>

theorem ini_try_get_int_strict:
  assumes "ini_try_get_int k n s = Some v"
  shows "in_int32 v \<and> (\<exists>t. ini_lookup s k n = Some t \<and> strtol (trim t) = Some (v, length (trim t)) \<and>
    atoi (trim t) = Inr v)"
proof -
  obtain t where t: "ini_lookup s k n = Some t" "in_int32 v" "strtol (trim t) = Some (v, length (trim t))"
    using assms by (auto simp: ini_try_get_int_def try_get_number_def ini_lookup_def stoi_def Let_def
        split: option.splits if_splits)
  then show ?thesis by (auto simp: atoi_def)
qed

theorem ini_try_get_int_strict_witness:
  "in_int32 17 \<and> ini_try_get_int ''a'' ''b'' (snd (ini_set_value ''a'' ''b'' ''12abc'' True (mk_ini_file ''p''))) = None
    \<and> ini_get_value_i ''a'' ''b'' (snd (ini_set_value ''a'' ''b'' ''12abc'' True (mk_ini_file ''p''))) = Inr 12"
proof -
  have "ini_try_get_int ''a'' ''b'' (snd (ini_set_value ''a'' ''b'' '' 17 '' True (mk_ini_file ''p''))) = Some 17"
    by code_simp
  from ini_try_get_int_strict [OF this] have "in_int32 17" by simp
  moreover have "ini_try_get_int ''a'' ''b'' (snd (ini_set_value ''a'' ''b'' ''12abc'' True (mk_ini_file ''p''))) = None"
    by code_simp
  moreover have "ini_get_value_i ''a'' ''b'' (snd (ini_set_value ''a'' ''b'' ''12abc'' True (mk_ini_file ''p''))) = Inr 12"
    by code_simp
  ultimately show ?thesis by blast
qed

text \<open>
  \<^verbatim>\<open>get_bool_or\<close> is \<^verbatim>\<open>get<bool>\<close> with a default, on every store; no text is both true and false,
  so the order of the two tests does not matter; and the literals the header lists are accepted in
  any case of letters.
\<close>

theorem ini_bool_accessors_agree:
  "ini_get_bool_or k n d s = ini_get_or ini_get_bool k n d s \<and>
   \<not> (is_truthy t \<and> is_explicitly_false t) \<and>
   list_all is_truthy [''true'', ''YES'', ''On'', ''1''] \<and>
   list_all is_explicitly_false [''false'', ''NO'', ''Off'', ''0'']"
proof -
  have "list_all is_truthy [''true'', ''YES'', ''On'', ''1'']"
    "list_all is_explicitly_false [''false'', ''NO'', ''Off'', ''0'']" by code_simp+
  moreover have "\<not> (is_truthy t \<and> is_explicitly_false t)"
    by (auto simp: is_truthy_def parse_bool_def is_explicitly_false_def)
  ultimately show ?thesis
    by (simp add: ini_get_bool_or_def ini_get_or_def ini_get_bool_def Let_def split: option.splits)
qed

text \<open>
  The boolean literals are more than the header says: a lone \<^verbatim>\<open>y\<close> or \<^verbatim>\<open>n\<close>, which its list
  does not have, is accepted too.
\<close>

theorem ini_bool_undocumented_literals: "is_truthy ''Y'' \<and> is_explicitly_false ''n''"
  by code_simp

end
