(* ===== verification/Archive.thy ===== *)
theory Archive
  imports Byte_Codec
begin

text \<open>
  \<^verbatim>\<open>class Archive\<close> (\<^verbatim>\<open>src/archive.cpp\<close>, \<^verbatim>\<open>include/base.hpp\<close>), the binary serialiser, with the two
  methods of \<^verbatim>\<open>class File\<close> (\<^verbatim>\<open>src/file.cpp\<close>) it calls. The system calls below \<^verbatim>\<open>File\<close> are parameters:
  \<open>osw bs f\<close> is the result of \<^verbatim>\<open>::write\<close> and the file after it, \<open>osr n f\<close> the result of \<^verbatim>\<open>::read\<close>, the
  bytes it delivered and the file after it. What the archive relies on, that a regular file takes and
  gives all it is asked for, is the pair of locales \<open>byte_sink\<close> and \<open>byte_source\<close>; the theory
  \<open>Archive_File\<close> shows it of the class \<^verbatim>\<open>File\<close>.

  Numbers are stored in their object representation, little-endian; a \<^verbatim>\<open>float\<close> or \<^verbatim>\<open>double\<close> is its
  bit pattern, since \<^verbatim>\<open>memcpy\<close> is all the code does with it.
\<close>

section \<open>File\<close>

definition file_write :: "(bytes \<Rightarrow> 'f \<Rightarrow> int \<times> 'f) \<Rightarrow> bytes \<Rightarrow> 'f \<Rightarrow> nat \<times> 'f" where
  "file_write osw bs f = (let (n, f') = osw bs f in (if n < 0 then 0 else nat n, f'))"

definition file_read :: "(nat \<Rightarrow> 'f \<Rightarrow> int \<times> bytes \<times> 'f) \<Rightarrow> nat \<Rightarrow> 'f \<Rightarrow> nat \<times> bytes \<times> 'f" where
  "file_read osr n f = (let (r, bs, f') = osr n f in (if r < 0 then 0 else nat r, bs, f'))"

text \<open>
  What the archive relies on, as the interface between it and its file: in a \<open>good\<close> state of the file, a write
  takes all it is given, a read gives as much as there is, and the state stays good.
\<close>

locale byte_sink =
  fixes osw :: "bytes \<Rightarrow> 'f \<Rightarrow> int \<times> 'f"
    and written :: "'f \<Rightarrow> bytes"
    and good :: "'f \<Rightarrow> bool"
  assumes writes_fully: "good f \<Longrightarrow>
    fst (osw bs f) = int (length bs) \<and> written (snd (osw bs f)) = written f @ bs \<and> good (snd (osw bs f))"

locale byte_source =
  fixes osr :: "nat \<Rightarrow> 'f \<Rightarrow> int \<times> bytes \<times> 'f"
    and unread :: "'f \<Rightarrow> bytes"
    and good :: "'f \<Rightarrow> bool"
  assumes reads_fully: "good f \<Longrightarrow>
    \<exists>f'. osr n f = (int (length (take n (unread f))), take n (unread f), f') \<and> unread f' = drop n (unread f) \<and> good f'"

section \<open>State and methods\<close>

record 'f archive =
  ar_loading :: bool
  ar_file :: "'f option"
  ar_buf :: bytes
  ar_cur :: nat
  ar_fill :: nat

definition mk_archive :: "'f \<Rightarrow> bool \<Rightarrow> int \<Rightarrow> 'f archive" where
  "mk_archive f loading nBufSize =
     \<lparr>ar_loading = loading, ar_file = Some f,
      ar_buf = replicate (nat (if nBufSize > 128 then nBufSize else 128)) 0, ar_cur = 0, ar_fill = 0\<rparr>"

definition ar_flush :: "(bytes \<Rightarrow> 'f \<Rightarrow> int \<times> 'f) \<Rightarrow> 'f archive \<Rightarrow> 'f archive" where
  "ar_flush osw s =
     (case ar_file s of
        None \<Rightarrow> s
      | Some f \<Rightarrow>
          if \<not> ar_loading s \<and> ar_cur s > 0
          then s\<lparr>ar_file := Some (snd (file_write osw (take (ar_cur s) (ar_buf s)) f)), ar_cur := 0\<rparr>
          else s)"

definition ar_close :: "(bytes \<Rightarrow> 'f \<Rightarrow> int \<times> 'f) \<Rightarrow> 'f archive \<Rightarrow> 'f archive" where
  "ar_close osw s = (ar_flush osw s)\<lparr>ar_file := None\<rparr>"

definition ar_fill_buffer :: "(nat \<Rightarrow> 'f \<Rightarrow> int \<times> bytes \<times> 'f) \<Rightarrow> 'f archive \<Rightarrow> 'f archive" where
  "ar_fill_buffer osr s =
     (case ar_file s of
        None \<Rightarrow> s
      | Some f \<Rightarrow>
          let remaining = ar_fill s - ar_cur s;
              b = (if remaining > 0 then blit 0 (slice (ar_cur s) remaining (ar_buf s)) (ar_buf s) else ar_buf s);
              (nRead, bs, f') = file_read osr (length b - remaining) f
          in s\<lparr>ar_file := Some f', ar_buf := blit remaining bs b, ar_fill := remaining + nRead, ar_cur := 0\<rparr>)"

definition ar_ensure_write :: "(bytes \<Rightarrow> 'f \<Rightarrow> int \<times> 'f) \<Rightarrow> nat \<Rightarrow> 'f archive \<Rightarrow> 'f archive" where
  "ar_ensure_write osw n s =
     (if ar_cur s + n > length (ar_buf s)
      then let s1 = ar_flush osw s
           in if n > length (ar_buf s1)
              then s1\<lparr>ar_buf := ar_buf s1 @ replicate (n * 2 - length (ar_buf s1)) 0\<rparr> else s1
      else s)"

definition ar_ensure_read :: "(nat \<Rightarrow> 'f \<Rightarrow> int \<times> bytes \<times> 'f) \<Rightarrow> nat \<Rightarrow> 'f archive \<Rightarrow> fault + 'f archive" where
  "ar_ensure_read osr n s =
     (let s1 = (if ar_cur s + n > ar_fill s then ar_fill_buffer osr s else s)
      in if ar_cur s1 + n > ar_fill s1 then Inl (PdkException ''Archive: premature end of stream'')
         else Inr s1)"

text \<open>
  The body all the store operators and \<^verbatim>\<open>write\<close> share; the copy faults when it would leave the buffer,
  which happens only without a file to flush to. Likewise for the load operators and \<^verbatim>\<open>read\<close>.
\<close>

definition ar_write :: "(bytes \<Rightarrow> 'f \<Rightarrow> int \<times> 'f) \<Rightarrow> bytes \<Rightarrow> 'f archive \<Rightarrow> fault + 'f archive" where
  "ar_write osw bs s =
     (let s1 = ar_ensure_write osw (length bs) s
      in if ar_cur s1 + length bs \<le> length (ar_buf s1)
         then Inr (s1\<lparr>ar_buf := blit (ar_cur s1) bs (ar_buf s1), ar_cur := ar_cur s1 + length bs\<rparr>)
         else Inl (UB ''memcpy past the archive buffer''))"

definition ar_read :: "(nat \<Rightarrow> 'f \<Rightarrow> int \<times> bytes \<times> 'f) \<Rightarrow> nat \<Rightarrow> 'f archive \<Rightarrow> fault + bytes \<times> 'f archive" where
  "ar_read osr n s =
     (case ar_ensure_read osr n s of
        Inl e \<Rightarrow> Inl e
      | Inr s1 \<Rightarrow> Inr (slice (ar_cur s1) n (ar_buf s1), s1\<lparr>ar_cur := ar_cur s1 + n\<rparr>))"

text \<open>The values the overloaded operators and the string calls move.\<close>

datatype ar_value =
  VU8 u8 | VU16 u16 | VI32 "32 word" | VU32 u32 | VFloat u32 | VDouble u64 | VBool bool | VString bytes

datatype ar_type = TU8 | TU16 | TI32 | TU32 | TFloat | TDouble | TBool | TString

fun type_of_value :: "ar_value \<Rightarrow> ar_type" where
  "type_of_value (VU8 _) = TU8" | "type_of_value (VU16 _) = TU16" | "type_of_value (VI32 _) = TI32"
| "type_of_value (VU32 _) = TU32" | "type_of_value (VFloat _) = TFloat" | "type_of_value (VDouble _) = TDouble"
| "type_of_value (VBool _) = TBool" | "type_of_value (VString _) = TString"

definition ar_write_count :: "(bytes \<Rightarrow> 'f \<Rightarrow> int \<times> 'f) \<Rightarrow> u32 \<Rightarrow> 'f archive \<Rightarrow> fault + 'f archive" where
  "ar_write_count osw dwCount s = ar_write osw (le_bytes 4 (unat dwCount)) s"

definition ar_read_count :: "(nat \<Rightarrow> 'f \<Rightarrow> int \<times> bytes \<times> 'f) \<Rightarrow> 'f archive \<Rightarrow> fault + u32 \<times> 'f archive" where
  "ar_read_count osr s =
     (case ar_read osr 4 s of Inl e \<Rightarrow> Inl e | Inr (bs, s1) \<Rightarrow> Inr (of_nat (le_value bs), s1))"

definition ar_write_string :: "(bytes \<Rightarrow> 'f \<Rightarrow> int \<times> 'f) \<Rightarrow> bytes \<Rightarrow> 'f archive \<Rightarrow> fault + 'f archive" where
  "ar_write_string osw lpsz s =
     (let str = takeWhile (\<lambda>b. b \<noteq> 0) lpsz; len = (of_nat (length str) :: u32)
      in case ar_write_count osw len s of
           Inl e \<Rightarrow> Inl e | Inr s1 \<Rightarrow> ar_write osw (take (unat len) str) s1)"

definition ar_read_string :: "(nat \<Rightarrow> 'f \<Rightarrow> int \<times> bytes \<times> 'f) \<Rightarrow> 'f archive \<Rightarrow> fault + bytes \<times> 'f archive" where
  "ar_read_string osr s =
     (case ar_read_count osr s of
        Inl e \<Rightarrow> Inl e
      | Inr (len, s1) \<Rightarrow> if unat len > 0 then ar_read osr (unat len) s1 else Inr ([], s1))"

text \<open>
  \<^verbatim>\<open>read_string(char* lpsz, unsigned nMax)\<close>: at most \<open>nMax - 1\<close> bytes, the subtraction at 32 bits; the
  rest of a longer string stays in the archive.
\<close>

definition ar_read_string_buf ::
  "(nat \<Rightarrow> 'f \<Rightarrow> int \<times> bytes \<times> 'f) \<Rightarrow> u32 \<Rightarrow> 'f archive \<Rightarrow> fault + bytes \<times> 'f archive" where
  "ar_read_string_buf osr nMax s =
     (case ar_read_count osr s of
        Inl e \<Rightarrow> Inl e
      | Inr (len, s1) \<Rightarrow> ar_read osr (unat (if len \<ge> nMax then nMax - 1 else len)) s1)"

fun ar_store :: "(bytes \<Rightarrow> 'f \<Rightarrow> int \<times> 'f) \<Rightarrow> ar_value \<Rightarrow> 'f archive \<Rightarrow> fault + 'f archive" where
  "ar_store osw (VU8 x) s = ar_write osw (le_bytes 1 (unat x)) s"
| "ar_store osw (VU16 x) s = ar_write osw (le_bytes 2 (unat x)) s"
| "ar_store osw (VI32 x) s = ar_write osw (le_bytes 4 (unat x)) s"
| "ar_store osw (VU32 x) s = ar_write osw (le_bytes 4 (unat x)) s"
| "ar_store osw (VFloat x) s = ar_write osw (le_bytes 4 (unat x)) s"
| "ar_store osw (VDouble x) s = ar_write osw (le_bytes 8 (unat x)) s"
| "ar_store osw (VBool x) s = ar_write osw (le_bytes 4 (if x then 1 else 0)) s"
| "ar_store osw (VString x) s = ar_write_string osw x s"

definition ar_load_word ::
  "(nat \<Rightarrow> 'f \<Rightarrow> int \<times> bytes \<times> 'f) \<Rightarrow> nat \<Rightarrow> (nat \<Rightarrow> ar_value) \<Rightarrow> 'f archive \<Rightarrow> fault + ar_value \<times> 'f archive" where
  "ar_load_word osr n mk s =
     (case ar_read osr n s of Inl e \<Rightarrow> Inl e | Inr (bs, s1) \<Rightarrow> Inr (mk (le_value bs), s1))"

fun ar_load :: "(nat \<Rightarrow> 'f \<Rightarrow> int \<times> bytes \<times> 'f) \<Rightarrow> ar_type \<Rightarrow> 'f archive \<Rightarrow> fault + ar_value \<times> 'f archive" where
  "ar_load osr TU8 s = ar_load_word osr 1 (\<lambda>n. VU8 (of_nat n)) s"
| "ar_load osr TU16 s = ar_load_word osr 2 (\<lambda>n. VU16 (of_nat n)) s"
| "ar_load osr TI32 s = ar_load_word osr 4 (\<lambda>n. VI32 (of_nat n)) s"
| "ar_load osr TU32 s = ar_load_word osr 4 (\<lambda>n. VU32 (of_nat n)) s"
| "ar_load osr TFloat s = ar_load_word osr 4 (\<lambda>n. VFloat (of_nat n)) s"
| "ar_load osr TDouble s = ar_load_word osr 8 (\<lambda>n. VDouble (of_nat n)) s"
| "ar_load osr TBool s = ar_load_word osr 4 (\<lambda>n. VBool (n \<noteq> 0)) s"
| "ar_load osr TString s =
     (case ar_read_string osr s of Inl e \<Rightarrow> Inl e | Inr (bs, s1) \<Rightarrow> Inr (VString bs, s1))"

fun ar_store_all :: "(bytes \<Rightarrow> 'f \<Rightarrow> int \<times> 'f) \<Rightarrow> ar_value list \<Rightarrow> 'f archive \<Rightarrow> fault + 'f archive" where
  "ar_store_all osw [] s = Inr s"
| "ar_store_all osw (v # vs) s =
     (case ar_store osw v s of Inl e \<Rightarrow> Inl e | Inr s1 \<Rightarrow> ar_store_all osw vs s1)"

fun ar_load_all :: "(nat \<Rightarrow> 'f \<Rightarrow> int \<times> bytes \<times> 'f) \<Rightarrow> ar_type list \<Rightarrow> 'f archive \<Rightarrow> fault + ar_value list \<times> 'f archive" where
  "ar_load_all osr [] s = Inr ([], s)"
| "ar_load_all osr (t # ts) s =
     (case ar_load osr t s of
        Inl e \<Rightarrow> Inl e
      | Inr (v, s1) \<Rightarrow>
          (case ar_load_all osr ts s1 of Inl e \<Rightarrow> Inl e | Inr (vs, s2) \<Rightarrow> Inr (v # vs, s2)))"

section \<open>Storing\<close>

text \<open>What has been stored: the bytes in the file, then those still in the buffer.\<close>

definition ar_stored :: "('f \<Rightarrow> bytes) \<Rightarrow> 'f archive \<Rightarrow> bytes" where
  "ar_stored written s = written (the (ar_file s)) @ take (ar_cur s) (ar_buf s)"

definition ar_store_inv :: "('f \<Rightarrow> bool) \<Rightarrow> 'f archive \<Rightarrow> bool" where
  "ar_store_inv good s \<longleftrightarrow> \<not> ar_loading s \<and> (\<exists>f. ar_file s = Some f \<and> good f) \<and> ar_cur s \<le> length (ar_buf s)"

text \<open>The bytes a value is stored as.\<close>

fun encode_value :: "ar_value \<Rightarrow> bytes" where
  "encode_value (VU8 x) = le_bytes 1 (unat x)"
| "encode_value (VU16 x) = le_bytes 2 (unat x)"
| "encode_value (VI32 x) = le_bytes 4 (unat x)"
| "encode_value (VU32 x) = le_bytes 4 (unat x)"
| "encode_value (VFloat x) = le_bytes 4 (unat x)"
| "encode_value (VDouble x) = le_bytes 8 (unat x)"
| "encode_value (VBool x) = le_bytes 4 (if x then 1 else 0)"
| "encode_value (VString x) = le_bytes 4 (length x) @ x"

text \<open>A string value is what a \<^verbatim>\<open>const char*\<close> can hold, and short enough for its 32-bit count.\<close>

fun storable :: "ar_value \<Rightarrow> bool" where
  "storable (VString x) \<longleftrightarrow> 0 \<notin> set x \<and> length x < 2 ^ 32"
| "storable _ \<longleftrightarrow> True"

lemma takeWhile_nonzero: "0 \<notin> set x \<Longrightarrow> takeWhile (\<lambda>b. b \<noteq> 0) x = x"
  by (induction x) auto

context byte_sink
begin

lemma ar_flush_stored:
  assumes "ar_store_inv good s"
  shows "ar_store_inv good (ar_flush osw s)" "ar_cur (ar_flush osw s) = 0" "ar_buf (ar_flush osw s) = ar_buf s"
    "ar_stored written (ar_flush osw s) = ar_stored written s"
  using assms writes_fully
  by (cases "ar_cur s = 0"; force simp: ar_store_inv_def ar_flush_def ar_stored_def file_write_def split_beta)+

lemma ar_write_stored:
  assumes inv: "ar_store_inv good s"
  shows "\<exists>s'. ar_write osw bs s = Inr s' \<and> ar_store_inv good s' \<and> ar_stored written s' = ar_stored written s @ bs"
proof -
  note fl = ar_flush_stored [OF inv]
  let ?s1 = "ar_ensure_write osw (length bs) s"
  have "ar_store_inv good ?s1 \<and> ar_cur ?s1 + length bs \<le> length (ar_buf ?s1) \<and>
      ar_stored written ?s1 = ar_stored written s"
  proof (cases "ar_cur s + length bs > length (ar_buf s)")
    case True
    then show ?thesis
      using fl by (auto simp: ar_ensure_write_def Let_def ar_store_inv_def ar_stored_def)
  next
    case False
    then show ?thesis using inv by (simp add: ar_ensure_write_def)
  qed
  then show ?thesis
    by (auto simp: ar_write_def Let_def ar_store_inv_def ar_stored_def blit_def)
qed

lemma ar_store_stored:
  assumes "ar_store_inv good s" "storable v"
  shows "\<exists>s'. ar_store osw v s = Inr s' \<and> ar_store_inv good s' \<and> ar_stored written s' = ar_stored written s @ encode_value v"
proof (cases v)
  case (VString x)
  then have x: "0 \<notin> set x" "unat (of_nat (length x) :: u32) = length x"
    using assms(2) by (auto simp: unat_of_nat)
  obtain s1 where s1: "ar_write osw (le_bytes 4 (length x)) s = Inr s1" "ar_store_inv good s1"
      "ar_stored written s1 = ar_stored written s @ le_bytes 4 (length x)"
    using ar_write_stored [OF assms(1)] by blast
  then show ?thesis
    using ar_write_stored [OF s1(2), of x] x VString
    by (auto simp: ar_write_string_def ar_write_count_def Let_def takeWhile_nonzero)
qed (use ar_write_stored [OF assms(1)] in auto)

lemma ar_store_all_stored:
  "ar_store_inv good s \<Longrightarrow> list_all storable vs \<Longrightarrow>
     \<exists>s'. ar_store_all osw vs s = Inr s' \<and> ar_store_inv good s' \<and>
          ar_stored written s' = ar_stored written s @ concat (map encode_value vs)"
proof (induction vs arbitrary: s)
  case (Cons v vs)
  then obtain s1 where "ar_store osw v s = Inr s1" "ar_store_inv good s1"
      "ar_stored written s1 = ar_stored written s @ encode_value v"
    using ar_store_stored [of s v] by auto
  then show ?case using Cons.IH [of s1] Cons.prems by fastforce
qed simp

end

section \<open>Loading\<close>

text \<open>What is still to be loaded: the unread part of the buffer, then of the file.\<close>

definition ar_pending :: "('f \<Rightarrow> bytes) \<Rightarrow> 'f archive \<Rightarrow> bytes" where
  "ar_pending unread s = slice (ar_cur s) (ar_fill s - ar_cur s) (ar_buf s) @ unread (the (ar_file s))"

definition ar_load_inv :: "('f \<Rightarrow> bool) \<Rightarrow> 'f archive \<Rightarrow> bool" where
  "ar_load_inv good s \<longleftrightarrow> (\<exists>f. ar_file s = Some f \<and> good f) \<and> ar_cur s \<le> ar_fill s \<and> ar_fill s \<le> length (ar_buf s)"

fun fits_buffer :: "nat \<Rightarrow> ar_value \<Rightarrow> bool" where
  "fits_buffer n (VString x) \<longleftrightarrow> length x \<le> n"
| "fits_buffer n _ \<longleftrightarrow> True"

lemma unat_bounds:
  "unat (a :: u8) < 256 ^ 1" "unat (b :: u16) < 256 ^ 2" "unat (c :: u32) < 256 ^ 4" "unat (d :: u64) < 256 ^ 8"
  by (rule less_le_trans [OF unsigned_less], simp)+

context byte_source
begin

lemma ar_fill_buffer_spec:
  assumes inv: "ar_load_inv good s"
  defines "s' \<equiv> ar_fill_buffer osr s"
  shows "ar_load_inv good s' \<and> ar_cur s' = 0 \<and> length (ar_buf s') = length (ar_buf s) \<and>
    ar_pending unread s' = ar_pending unread s \<and>
    ar_fill s' = min (length (ar_buf s)) (length (ar_pending unread s))"
proof -
  obtain f where f: "ar_file s = Some f" "good f" using inv by (auto simp: ar_load_inv_def)
  define r b where "r = ar_fill s - ar_cur s" and
    "b = (if r > 0 then blit 0 (slice (ar_cur s) r (ar_buf s)) (ar_buf s) else ar_buf s)"
  have rl: "ar_cur s + r \<le> length (ar_buf s)" using inv by (simp add: ar_load_inv_def r_def)
  have b: "length b = length (ar_buf s)" "take r b = slice (ar_cur s) r (ar_buf s)"
    using rl by (auto simp: b_def blit_def slice_def)
  obtain f' where rd: "osr (length b - r) f =
      (int (length (take (length b - r) (unread f))), take (length b - r) (unread f), f')"
      "unread f' = drop (length b - r) (unread f)" "good f'"
    using reads_fully [OF f(2)] by blast
  define bs where "bs = take (length b - r) (unread f)"
  have s': "s' = s\<lparr>ar_file := Some f', ar_buf := blit r bs b, ar_fill := r + length bs, ar_cur := 0\<rparr>"
    by (simp add: s'_def ar_fill_buffer_def f file_read_def rd(1) bs_def Let_def flip: r_def b_def)
  have fit: "r + length bs \<le> length b" using b(1) rl by (simp add: bs_def)
  have "slice 0 (r + length bs) (blit r bs b) = take r b @ bs"
    using fit by (simp add: slice_def blit_def)
  moreover have "bs @ unread f' = unread f" by (simp add: bs_def rd(2))
  moreover have "length (slice (ar_cur s) r (ar_buf s)) = r" using rl by simp
  ultimately show ?thesis
    using f fit b rd(3) by (auto simp: s' ar_load_inv_def ar_pending_def bs_def min_def simp flip: r_def)
qed

lemma ar_read_ok:
  assumes inv: "ar_load_inv good s"
    and n: "n \<le> length (ar_buf s)" "n \<le> length (ar_pending unread s)"
  shows "\<exists>s'. ar_read osr n s = Inr (take n (ar_pending unread s), s') \<and> ar_load_inv good s' \<and>
    ar_pending unread s' = drop n (ar_pending unread s) \<and> length (ar_buf s') = length (ar_buf s)"
proof -
  let ?s1 = "if ar_cur s + n > ar_fill s then ar_fill_buffer osr s else s"
  have s1: "ar_load_inv good ?s1" "ar_cur ?s1 + n \<le> ar_fill ?s1" "ar_pending unread ?s1 = ar_pending unread s"
      "length (ar_buf ?s1) = length (ar_buf s)"
    using ar_fill_buffer_spec [OF inv] inv n by auto
  have "slice (ar_cur ?s1) n (ar_buf ?s1) = take n (ar_pending unread ?s1)"
    using s1(1,2) by (auto simp: ar_pending_def ar_load_inv_def slice_def min_def)
  moreover have "ar_pending unread (?s1\<lparr>ar_cur := ar_cur ?s1 + n\<rparr>) = drop n (ar_pending unread ?s1)"
    using s1(1,2) by (auto simp: ar_pending_def ar_load_inv_def slice_def drop_take add.commute)
  moreover have "ar_load_inv good (?s1\<lparr>ar_cur := ar_cur ?s1 + n\<rparr>)" using s1(1,2) by (simp add: ar_load_inv_def)
  ultimately show ?thesis using s1 by (simp add: ar_read_def ar_ensure_read_def Let_def)
qed

lemma ar_read_too_long:
  assumes inv: "ar_load_inv good s" and n: "length (ar_buf s) < n"
  shows "ar_read osr n s = Inl (PdkException ''Archive: premature end of stream'')"
  using ar_fill_buffer_spec [OF inv] inv n
  by (auto simp: ar_read_def ar_ensure_read_def Let_def ar_load_inv_def)

lemma ar_load_word_ok:
  assumes "ar_load_inv good s" "8 \<le> length (ar_buf s)" "n \<le> 8"
    "ar_pending unread s = le_bytes n x @ rest" "x < 256 ^ n"
  shows "\<exists>s'. ar_load_word osr n mk s = Inr (mk x, s') \<and> ar_load_inv good s' \<and> ar_pending unread s' = rest \<and>
    length (ar_buf s') = length (ar_buf s)"
  using ar_read_ok [OF assms(1), of n] assms(2-5) by (auto simp: ar_load_word_def)

lemma ar_read_count_ok:
  assumes "ar_load_inv good s" "8 \<le> length (ar_buf s)"
    "ar_pending unread s = le_bytes 4 n @ rest" "n < 2 ^ 32"
  shows "\<exists>s'. ar_read_count osr s = Inr (of_nat n, s') \<and> ar_load_inv good s' \<and> ar_pending unread s' = rest \<and>
    length (ar_buf s') = length (ar_buf s)"
  using ar_read_ok [OF assms(1), of 4] assms(2-4) by (auto simp: ar_read_count_def)

lemma ar_load_ok:
  assumes inv: "ar_load_inv good s" and b: "8 \<le> length (ar_buf s)"
    and p: "ar_pending unread s = encode_value v @ rest" and v: "storable v" "fits_buffer (length (ar_buf s)) v"
  shows "\<exists>s'. ar_load osr (type_of_value v) s = Inr (v, s') \<and> ar_load_inv good s' \<and> ar_pending unread s' = rest \<and>
    length (ar_buf s') = length (ar_buf s)"
proof -
  note word = ar_load_word_ok [OF inv b]
  show ?thesis
  proof (cases v)
    case (VString x)
    then have len: "length x < 2 ^ 32" "unat (of_nat (length x) :: u32) = length x"
      using v by (auto simp: unat_of_nat)
    obtain s1 where s1: "ar_read_count osr s = Inr (of_nat (length x), s1)" "ar_load_inv good s1"
        "ar_pending unread s1 = x @ rest" "length (ar_buf s1) = length (ar_buf s)"
      using ar_read_count_ok [OF inv b, of "length x" "x @ rest"] p VString len by auto
    show ?thesis
      using ar_read_ok [OF s1(2), of "length x"] s1 len v VString
      by (cases "x = []") (auto simp: ar_read_string_def)
  next
    case (VU8 x)
    then show ?thesis
      using word [OF _ _ unat_bounds(1) [of x], of rest "\<lambda>n. VU8 (of_nat n)"] p by simp
  next
    case (VU16 x)
    then show ?thesis
      using word [OF _ _ unat_bounds(2) [of x], of rest "\<lambda>n. VU16 (of_nat n)"] p by simp
  next
    case (VI32 x)
    then show ?thesis
      using word [OF _ _ unat_bounds(3) [of x], of rest "\<lambda>n. VI32 (of_nat n)"] p by simp
  next
    case (VU32 x)
    then show ?thesis
      using word [OF _ _ unat_bounds(3) [of x], of rest "\<lambda>n. VU32 (of_nat n)"] p by simp
  next
    case (VFloat x)
    then show ?thesis
      using word [OF _ _ unat_bounds(3) [of x], of rest "\<lambda>n. VFloat (of_nat n)"] p by simp
  next
    case (VDouble x)
    then show ?thesis
      using word [OF _ _ unat_bounds(4) [of x], of rest "\<lambda>n. VDouble (of_nat n)"] p by simp
  next
    case (VBool x)
    then show ?thesis using word [of 4 "if x then 1 else 0" rest "\<lambda>n. VBool (n \<noteq> 0)"] p
      by (cases x) simp_all
  qed
qed

lemma ar_load_all_ok:
  "ar_load_inv good s \<Longrightarrow> 8 \<le> length (ar_buf s) \<Longrightarrow>
     ar_pending unread s = concat (map encode_value vs) @ rest \<Longrightarrow>
     list_all (\<lambda>v. storable v \<and> fits_buffer (length (ar_buf s)) v) vs \<Longrightarrow>
     \<exists>s'. ar_load_all osr (map type_of_value vs) s = Inr (vs, s') \<and> ar_pending unread s' = rest"
proof (induction vs arbitrary: s)
  case (Cons v vs)
  then obtain s1 where s1: "ar_load osr (type_of_value v) s = Inr (v, s1)" "ar_load_inv good s1"
      "ar_pending unread s1 = concat (map encode_value vs) @ rest" "length (ar_buf s1) = length (ar_buf s)"
    using ar_load_ok [of s v "concat (map encode_value vs) @ rest"] by auto
  then show ?case using Cons.IH [of s1] Cons.prems by fastforce
qed simp

end

lemma mk_archive_props:
  "good f \<Longrightarrow> ar_store_inv good (mk_archive f False n)" "good f \<Longrightarrow> ar_load_inv good (mk_archive f l n)"
  "8 \<le> length (ar_buf (mk_archive f l n))"
  "ar_stored written (mk_archive f False n) = written f" "ar_pending unread (mk_archive f l n) = unread f"
  "length (ar_buf (mk_archive f l n)) = nat (max 128 n)"
  by (auto simp: ar_store_inv_def ar_load_inv_def mk_archive_def ar_stored_def ar_pending_def slice_def max_def)

section \<open>Whole archives\<close>

context byte_sink
begin

text \<open>A sequence of values stored into an archive and flushed is in the file, encoded, after what was there.\<close>

lemma stored_and_flushed:
  assumes "good f" "list_all storable vs"
  shows "\<exists>s f'. ar_store_all osw vs (mk_archive f False n) = Inr s \<and> ar_file (ar_flush osw s) = Some f' \<and> good f' \<and>
    written f' = written f @ concat (map encode_value vs)"
proof -
  obtain s where s: "ar_store_all osw vs (mk_archive f False n) = Inr s" "ar_store_inv good s"
      "ar_stored written s = written f @ concat (map encode_value vs)"
    using ar_store_all_stored [OF mk_archive_props(1) [where good = good], of f vs n] assms by (auto simp: mk_archive_props)
  then show ?thesis using ar_flush_stored [OF s(2)] by (auto simp: ar_store_inv_def ar_stored_def)
qed

end

context byte_source
begin

lemma loaded_back:
  assumes "good f" "unread f = concat (map encode_value vs) @ rest"
    "list_all (\<lambda>v. storable v \<and> fits_buffer (nat (max 128 n)) v) vs"
  shows "\<exists>s. ar_load_all osr (map type_of_value vs) (mk_archive f True n) = Inr (vs, s)"
  using ar_load_all_ok [OF mk_archive_props(2) [where good = good] mk_archive_props(3), of f True n vs rest] assms
  by (auto simp: mk_archive_props)

text \<open>A string longer than the buffer is refused.\<close>

lemma long_string_refused:
  assumes "good f" "unread f = encode_value (VString x) @ rest" "nat (max 128 n) < length x" "length x < 2 ^ 32"
  shows "ar_load osr TString (mk_archive f True n) = Inl (PdkException ''Archive: premature end of stream'')"
proof -
  note mk = mk_archive_props(2) [where good = good, OF assms(1), of True n]
  have u: "unat (of_nat (length x) :: u32) = length x" using assms(4) by (simp add: unat_of_nat)
  obtain s1 where s1: "ar_read_count osr (mk_archive f True n) = Inr (of_nat (length x), s1)" "ar_load_inv good s1"
      "length (ar_buf s1) = nat (max 128 n)"
    using ar_read_count_ok [OF mk mk_archive_props(3), of "length x" "x @ rest"] assms(2,4)
    by (auto simp: mk_archive_props)
  then show ?thesis
    using ar_read_too_long [OF s1(2), of "length x"] assms(3) u by (auto simp: ar_read_string_def)
qed

end

section \<open>The end of an archive\<close>

text \<open>The destructor closes, and lets no exception out.\<close>

definition destroy_archive :: "(bytes \<Rightarrow> 'f \<Rightarrow> int \<times> 'f) \<Rightarrow> 'f archive \<Rightarrow> 'f archive" where
  "destroy_archive osw s = ar_close osw s"

lemma destroy_closed_archive: "destroy_archive osw (ar_close osw s) = ar_close osw s"
  by (simp add: destroy_archive_def ar_close_def ar_flush_def)

end
