(* ===== verification/Posix_File.thy ===== *)
theory Posix_File
  imports C_Text
begin

unbundle bit_operations_syntax

text \<open>
  The class \<^verbatim>\<open>File\<close> (\<^verbatim>\<open>include/base.hpp\<close>, \<^verbatim>\<open>src/file.cpp\<close>) over the POSIX file operations it calls.
  A file system has directory entries (a path names an inode), inode contents, and the open file
  descriptions behind the descriptors of the process. \<^verbatim>\<open>open\<close>, \<^verbatim>\<open>read\<close>, \<^verbatim>\<open>write\<close>, \<^verbatim>\<open>lseek\<close>, \<^verbatim>\<open>rename\<close>,
  \<^verbatim>\<open>unlink\<close> and \<^verbatim>\<open>fstat\<close> follow their POSIX descriptions; whether the system lets a path be opened is
  the parameter \<open>perm\<close>. Device errors (a full disk) are not modelled: a write to an open descriptor
  writes everything.
\<close>

section \<open>The file system\<close>

datatype access = O_RDONLY | O_WRONLY | O_RDWR

record oflags =
  of_access :: access
  of_creat :: bool
  of_append :: bool
  of_trunc :: bool

record open_file =
  od_inode :: nat
  od_pos :: nat
  od_flags :: oflags

record fsys =
  fs_names :: "string \<rightharpoonup> nat"
  fs_data :: "nat \<Rightarrow> string"
  fs_next_inode :: nat
  fs_fds :: "int \<rightharpoonup> open_file"
  fs_next_fd :: nat

definition fs_content :: "fsys \<Rightarrow> string \<Rightarrow> string option" where
  "fs_content fs path = map_option (fs_data fs) (fs_names fs path)"

definition fs_install :: "nat \<Rightarrow> oflags \<Rightarrow> fsys \<Rightarrow> int \<times> fsys" where
  "fs_install ino flags fs =
     (int (fs_next_fd fs),
      fs\<lparr>fs_fds := (fs_fds fs)(int (fs_next_fd fs) \<mapsto> \<lparr>od_inode = ino, od_pos = 0, od_flags = flags\<rparr>),
         fs_next_fd := Suc (fs_next_fd fs)\<rparr>)"

definition posix_open :: "(string \<Rightarrow> bool) \<Rightarrow> string \<Rightarrow> oflags \<Rightarrow> fsys \<Rightarrow> int \<times> fsys" where
  "posix_open perm path flags fs =
     (if \<not> perm path then (-1, fs)
      else case fs_names fs path of
             Some ino \<Rightarrow>
               fs_install ino flags
                 (if of_trunc flags \<and> of_access flags \<noteq> O_RDONLY
                  then fs\<lparr>fs_data := (fs_data fs)(ino := [])\<rparr> else fs)
           | None \<Rightarrow>
               if of_creat flags
               then fs_install (fs_next_inode fs) flags
                      (fs\<lparr>fs_names := (fs_names fs)(path \<mapsto> fs_next_inode fs),
                          fs_data := (fs_data fs)(fs_next_inode fs := []),
                          fs_next_inode := Suc (fs_next_inode fs)\<rparr>)
               else (-1, fs))"

definition posix_close :: "int \<Rightarrow> fsys \<Rightarrow> fsys" where
  "posix_close fd fs = fs\<lparr>fs_fds := (fs_fds fs)(fd := None)\<rparr>"

definition write_at :: "nat \<Rightarrow> string \<Rightarrow> string \<Rightarrow> string" where
  "write_at pos s data =
     (let data' = data @ replicate (pos - length data) nul in take pos data' @ s @ drop (pos + length s) data')"

definition posix_write :: "int \<Rightarrow> string \<Rightarrow> fsys \<Rightarrow> int \<times> fsys" where
  "posix_write fd s fs =
     (case fs_fds fs fd of
        None \<Rightarrow> (-1, fs)
      | Some d \<Rightarrow>
          if of_access (od_flags d) = O_RDONLY then (-1, fs)
          else let data = fs_data fs (od_inode d);
                   pos = (if of_append (od_flags d) then length data else od_pos d)
               in (int (length s),
                   fs\<lparr>fs_data := (fs_data fs)(od_inode d := write_at pos s data),
                      fs_fds := (fs_fds fs)(fd \<mapsto> d\<lparr>od_pos := pos + length s\<rparr>)\<rparr>))"

definition posix_read :: "int \<Rightarrow> nat \<Rightarrow> fsys \<Rightarrow> int \<times> string \<times> fsys" where
  "posix_read fd n fs =
     (case fs_fds fs fd of
        None \<Rightarrow> (-1, [], fs)
      | Some d \<Rightarrow>
          if of_access (od_flags d) = O_WRONLY then (-1, [], fs)
          else let s = take n (drop (od_pos d) (fs_data fs (od_inode d)))
               in (int (length s), s, fs\<lparr>fs_fds := (fs_fds fs)(fd \<mapsto> d\<lparr>od_pos := od_pos d + length s\<rparr>)\<rparr>))"

definition posix_rename :: "string \<Rightarrow> string \<Rightarrow> fsys \<Rightarrow> fsys" where
  "posix_rename old new fs =
     (case fs_names fs old of
        None \<Rightarrow> fs
      | Some ino \<Rightarrow>
          if old = new then fs else fs\<lparr>fs_names := (fs_names fs)(old := None, new \<mapsto> ino)\<rparr>)"

definition posix_unlink :: "string \<Rightarrow> fsys \<Rightarrow> fsys" where
  "posix_unlink path fs = fs\<lparr>fs_names := (fs_names fs)(path := None)\<rparr>"

datatype whence = SEEK_SET | SEEK_CUR | SEEK_END

definition posix_lseek :: "int \<Rightarrow> int \<Rightarrow> whence \<Rightarrow> fsys \<Rightarrow> int \<times> fsys" where
  "posix_lseek fd off from fs =
     (case fs_fds fs fd of
        None \<Rightarrow> (-1, fs)
      | Some d \<Rightarrow>
          let base = (case from of SEEK_SET \<Rightarrow> 0 | SEEK_CUR \<Rightarrow> int (od_pos d)
                      | SEEK_END \<Rightarrow> int (length (fs_data fs (od_inode d))))
          in if base + off < 0 then (-1, fs)
             else (base + off, fs\<lparr>fs_fds := (fs_fds fs)(fd \<mapsto> d\<lparr>od_pos := nat (base + off)\<rparr>)\<rparr>))"

section \<open>The class File\<close>

definition modeWrite :: u32 where "modeWrite = 0x0001"
definition modeReadWrite :: u32 where "modeReadWrite = 0x0002"
definition modeCreate :: u32 where "modeCreate = 0x1000"
definition modeNoTruncate :: u32 where "modeNoTruncate = 0x2000"
definition hFileNull :: int where "hFileNull = -1"

record file_obj =
  f_fd :: int
  f_close_on_delete :: bool
  f_filename :: string

definition mk_file :: file_obj where
  "mk_file = \<lparr>f_fd = hFileNull, f_close_on_delete = True, f_filename = []\<rparr>"

definition mk_file_fd :: "int \<Rightarrow> file_obj" where
  "mk_file_fd hFile = \<lparr>f_fd = hFile, f_close_on_delete = False, f_filename = []\<rparr>"

definition open_flags :: "u32 \<Rightarrow> oflags" where
  "open_flags nOpenFlags =
     (let wr = nOpenFlags AND modeWrite \<noteq> 0; nt = nOpenFlags AND modeNoTruncate \<noteq> 0;
          cr = nOpenFlags AND modeCreate \<noteq> 0
      in \<lparr>of_access = (if nOpenFlags AND modeReadWrite = modeReadWrite then O_RDWR
                       else if wr then O_WRONLY else O_RDONLY),
          of_creat = cr, of_append = wr \<and> nt, of_trunc = \<not> (wr \<and> nt) \<and> wr \<and> \<not> nt \<and> cr\<rparr>)"

definition file_open :: "(string \<Rightarrow> bool) \<Rightarrow> string \<Rightarrow> u32 \<Rightarrow> file_obj \<Rightarrow> fsys \<Rightarrow> bool \<times> file_obj \<times> fsys" where
  "file_open perm name nOpenFlags f fs =
     (let (fd, fs1) = posix_open perm name (open_flags nOpenFlags) fs
      in if fd = -1 then (False, f, fs1)
         else (True, \<lparr>f_fd = fd, f_close_on_delete = True, f_filename = name\<rparr>,
               if f_fd f \<noteq> hFileNull \<and> f_close_on_delete f then posix_close (f_fd f) fs1 else fs1))"

definition mk_file_open :: "(string \<Rightarrow> bool) \<Rightarrow> string \<Rightarrow> u32 \<Rightarrow> fsys \<Rightarrow> fault + file_obj \<times> fsys" where
  "mk_file_open perm name nOpenFlags fs =
     (let (ok, f, fs') = file_open perm name nOpenFlags mk_file fs
      in if ok then Inr (f, fs') else Inl (PdkException ''File: cannot open''))"

definition file_seek :: "int \<Rightarrow> whence \<Rightarrow> file_obj \<Rightarrow> fsys \<Rightarrow> int \<times> fsys" where
  "file_seek lOff nFrom f fs = posix_lseek (f_fd f) lOff nFrom fs"

definition file_position :: "file_obj \<Rightarrow> fsys \<Rightarrow> int \<times> fsys" where
  "file_position f fs = posix_lseek (f_fd f) 0 SEEK_CUR fs"

definition file_length :: "file_obj \<Rightarrow> fsys \<Rightarrow> nat" where
  "file_length f fs = (case fs_fds fs (f_fd f) of Some d \<Rightarrow> length (fs_data fs (od_inode d)) | None \<Rightarrow> 0)"

definition file_put :: "string \<Rightarrow> file_obj \<Rightarrow> fsys \<Rightarrow> nat \<times> fsys" where
  "file_put s f fs = (let (n, fs') = posix_write (f_fd f) s fs in (if n < 0 then 0 else nat n, fs'))"

definition file_fetch :: "nat \<Rightarrow> file_obj \<Rightarrow> fsys \<Rightarrow> nat \<times> string \<times> fsys" where
  "file_fetch n f fs = (let (r, s, fs') = posix_read (f_fd f) n fs in (if r < 0 then 0 else nat r, s, fs'))"

definition file_close :: "file_obj \<Rightarrow> fsys \<Rightarrow> file_obj \<times> fsys" where
  "file_close f fs =
     (if f_fd f \<noteq> hFileNull \<and> f_close_on_delete f
      then (f\<lparr>f_fd := hFileNull\<rparr>, posix_close (f_fd f) fs) else (f, fs))"

definition destroy_file :: "file_obj \<Rightarrow> fsys \<Rightarrow> fsys" where
  "destroy_file f fs = (if f_close_on_delete f \<and> f_fd f \<noteq> hFileNull then posix_close (f_fd f) fs else fs)"

section \<open>Facts about the file system\<close>

text \<open>Every name and every open description refers to an inode below the next free one, and every
  descriptor is below the next free one; the null descriptor is never open.\<close>

definition fs_inv :: "fsys \<Rightarrow> bool" where
  "fs_inv fs \<longleftrightarrow>
     (\<forall>p ino. fs_names fs p = Some ino \<longrightarrow> ino < fs_next_inode fs) \<and>
     (\<forall>fd d. fs_fds fs fd = Some d \<longrightarrow>
        od_inode d < fs_next_inode fs \<and> 0 \<le> fd \<and> fd < int (fs_next_fd fs)) \<and>
     inj_on (fs_names fs) (dom (fs_names fs))"

lemma fs_inv_close: "fs_inv fs \<Longrightarrow> fs_inv (posix_close fd fs)"
  by (auto simp: fs_inv_def posix_close_def)

lemma fs_inv_write: "fs_inv fs \<Longrightarrow> fs_inv (snd (posix_write fd s fs))"
  by (auto simp: fs_inv_def posix_write_def Let_def split: option.splits)

lemma fs_inv_rename: "fs_inv fs \<Longrightarrow> fs_inv (posix_rename old new fs)"
  by (auto simp: fs_inv_def posix_rename_def inj_on_def dom_def split: option.splits if_splits)

lemma fs_inv_unlink: "fs_inv fs \<Longrightarrow> fs_inv (posix_unlink p fs)"
  by (auto simp: fs_inv_def posix_unlink_def inj_on_def dom_def)

lemma fs_inv_install: "fs_inv fs \<Longrightarrow> ino < fs_next_inode fs \<Longrightarrow> fs_inv (snd (fs_install ino fl fs))"
  by (auto simp: fs_inv_def fs_install_def less_Suc_eq) fastforce

lemma fs_inv_open: "fs_inv fs \<Longrightarrow> fs_inv (snd (posix_open perm p fl fs))"
proof -
  assume i: "fs_inv fs"
  have trunc: "fs_inv (fs\<lparr>fs_data := d\<rparr>)" for d using i by (simp add: fs_inv_def)
  have new: "fs_inv (fs\<lparr>fs_names := (fs_names fs)(p \<mapsto> fs_next_inode fs), fs_data := d,
      fs_next_inode := Suc (fs_next_inode fs)\<rparr>)" for d
    using i unfolding fs_inv_def inj_on_def dom_def by (auto simp: less_Suc_eq) (metis less_irrefl)+
  show ?thesis
    using i trunc new
    by (auto simp: posix_open_def intro!: fs_inv_install split: option.splits)
      (auto simp: fs_inv_def)
qed

lemma write_at_end [simp]: "write_at (length data) s data = data @ s"
  by (simp add: write_at_def)

end
