(* ===== verification/Archive_File.thy ===== *)
theory Archive_File
  imports Archive Posix_File
begin

unbundle bit_operations_syntax

text \<open>
  Archives on files: \<^verbatim>\<open>Archive\<close> over the \<^verbatim>\<open>File\<close> of \<^verbatim>\<open>src/file.cpp\<close>. The two interfaces the archive relies on are
  shown of an open descriptor, and the round trip is stated for a named file: opened for writing, written,
  closed, opened again and read.
\<close>

section \<open>Bytes and characters\<close>

text \<open>The file system holds characters, the archive bytes.\<close>

definition chars :: "bytes \<Rightarrow> string" where
  "chars bs = map (\<lambda>b. char_of (unat b)) bs"

definition bytes_of :: "string \<Rightarrow> bytes" where
  "bytes_of cs = map (\<lambda>c. of_nat (of_char c)) cs"

lemma bytes_of_chars [simp]: "bytes_of (chars bs) = bs"
proof -
  have "unat b mod 256 = unat b" for b :: u8 using unsigned_less [where 'a = nat, of b] by simp
  then have "of_nat (of_char (char_of (unat b) :: char)) = (b :: u8)" for b by simp
  then show ?thesis by (simp add: bytes_of_def chars_def comp_def)
qed

lemma chars_simps [simp]:
  "length (chars bs) = length bs" "chars [] = []" "length (bytes_of cs) = length cs" "bytes_of [] = []"
  "bytes_of (xs @ ys) = bytes_of xs @ bytes_of ys" "bytes_of (take n cs) = take n (bytes_of cs)" "bytes_of (drop n cs) = drop n (bytes_of cs)"
  by (simp_all add: chars_def bytes_of_def take_map drop_map)

section \<open>An open file as sink and source\<close>

definition disk_write :: "int \<Rightarrow> bytes \<Rightarrow> fsys \<Rightarrow> int \<times> fsys" where
  "disk_write fd bs fs = posix_write fd (chars bs) fs"

definition disk_read :: "int \<Rightarrow> nat \<Rightarrow> fsys \<Rightarrow> int \<times> bytes \<times> fsys" where
  "disk_read fd n fs = (let (r, cs, fs1) = posix_read fd n fs in (r, bytes_of cs, fs1))"

text \<open>These are the calls \<^verbatim>\<open>File::write\<close> and \<^verbatim>\<open>File::read\<close> make.\<close>

lemma archive_writes_through_file: "file_write (disk_write (f_fd f)) bs fs = file_put (chars bs) f fs"
  by (simp add: file_write_def disk_write_def file_put_def)

lemma archive_reads_through_file:
  "file_read (disk_read (f_fd f)) n fs = (let (k, cs, fs1) = file_fetch n f fs in (k, bytes_of cs, fs1))"
  by (simp add: file_read_def disk_read_def file_fetch_def split_beta Let_def)

text \<open>The descriptor is open for writing at the end of the file that has the name.\<close>

definition writing :: "string \<Rightarrow> nat \<Rightarrow> int \<Rightarrow> fsys \<Rightarrow> bool" where
  "writing path ino fd fs \<longleftrightarrow> fs_inv fs \<and> fs_names fs path = Some ino \<and>
     (case fs_fds fs fd of
        None \<Rightarrow> False
      | Some d \<Rightarrow> od_inode d = ino \<and> of_access (od_flags d) \<noteq> O_RDONLY \<and>
                  (of_append (od_flags d) \<or> od_pos d = length (fs_data fs ino)))"

definition reading :: "nat \<Rightarrow> int \<Rightarrow> fsys \<Rightarrow> bool" where
  "reading ino fd fs \<longleftrightarrow>
     (case fs_fds fs fd of None \<Rightarrow> False | Some d \<Rightarrow> od_inode d = ino \<and> of_access (od_flags d) \<noteq> O_WRONLY)"

definition unread_part :: "nat \<Rightarrow> int \<Rightarrow> fsys \<Rightarrow> bytes" where
  "unread_part ino fd fs = bytes_of (drop (od_pos (the (fs_fds fs fd))) (fs_data fs ino))"

interpretation disk_sink: byte_sink "disk_write fd" "\<lambda>fs. bytes_of (fs_data fs ino)" "writing path ino fd"
  for fd ino path
proof
  fix f :: fsys and bs :: bytes
  assume g: "writing path ino fd f"
  have inv: "fs_inv (snd (posix_write fd (chars bs) f))" using g fs_inv_write by (simp add: writing_def)
  obtain d where d: "fs_fds f fd = Some d" "od_inode d = ino" "of_access (od_flags d) \<noteq> O_RDONLY"
      "(if of_append (od_flags d) then length (fs_data f ino) else od_pos d) = length (fs_data f ino)"
    using g by (auto simp: writing_def split: option.splits)
  have w: "disk_write fd bs f = (int (length bs),
      f\<lparr>fs_data := (fs_data f)(ino := fs_data f ino @ chars bs),
        fs_fds := (fs_fds f)(fd \<mapsto> d\<lparr>od_pos := length (fs_data f ino) + length bs\<rparr>)\<rparr>)"
    using d by (simp add: disk_write_def posix_write_def Let_def)
  then show "fst (disk_write fd bs f) = int (length bs) \<and>
      bytes_of (fs_data (snd (disk_write fd bs f)) ino) = bytes_of (fs_data f ino) @ bs \<and> writing path ino fd (snd (disk_write fd bs f))"
    using inv g d by (auto simp: writing_def disk_write_def)
qed

interpretation disk_source: byte_source "disk_read fd" "unread_part ino fd" "reading ino fd"
  for fd ino
proof
  fix f :: fsys and n :: nat
  assume "reading ino fd f"
  then obtain d where d: "fs_fds f fd = Some d" "od_inode d = ino" "of_access (od_flags d) \<noteq> O_WRONLY"
    by (auto simp: reading_def split: option.splits)
  let ?s = "take n (drop (od_pos d) (fs_data f ino))"
  let ?f = "f\<lparr>fs_fds := (fs_fds f)(fd \<mapsto> d\<lparr>od_pos := od_pos d + length ?s\<rparr>)\<rparr>"
  have u: "bytes_of ?s = take n (unread_part ino fd f)" using d by (simp add: unread_part_def)
  have "disk_read fd n f = (int (length (bytes_of ?s)), bytes_of ?s, ?f)"
    using d by (simp add: disk_read_def posix_read_def Let_def)
  moreover have "unread_part ino fd ?f = drop n (unread_part ino fd f)"
    using d by (simp add: unread_part_def add.commute min_def)
  moreover have "reading ino fd ?f" using d by (simp add: reading_def)
  ultimately show "\<exists>f'. disk_read fd n f = (int (length (take n (unread_part ino fd f))), take n (unread_part ino fd f), f') \<and>
      unread_part ino fd f' = drop n (unread_part ino fd f) \<and> reading ino fd f'"
    unfolding u by blast
qed

section \<open>Opening and closing\<close>

definition modeRead :: u32 where "modeRead = 0"

lemma write_flags: "open_flags (modeWrite OR modeCreate) = \<lparr>of_access = O_WRONLY, of_creat = True, of_append = False, of_trunc = True\<rparr>"
  by (simp add: open_flags_def modeWrite_def modeCreate_def modeReadWrite_def modeNoTruncate_def Let_def)

lemma read_flags: "open_flags modeRead = \<lparr>of_access = O_RDONLY, of_creat = False, of_append = False, of_trunc = False\<rparr>"
  by (simp add: open_flags_def modeRead_def modeWrite_def modeCreate_def modeReadWrite_def modeNoTruncate_def Let_def)

lemma opened_for_writing:
  assumes "fs_inv fs" "perm path"
  shows "\<exists>f fs1 ino. mk_file_open perm path (modeWrite OR modeCreate) fs = Inr (f, fs1) \<and> writing path ino (f_fd f) fs1 \<and>
    fs_data fs1 ino = [] \<and> f_close_on_delete f \<and> f_fd f \<noteq> hFileNull"
proof -
  have inv: "fs_inv (snd (posix_open perm path (open_flags (modeWrite OR modeCreate)) fs))" using fs_inv_open assms(1) .
  show ?thesis
    using assms(2) inv
    by (cases "fs_names fs path")
      (auto simp: mk_file_open_def file_open_def posix_open_def fs_install_def mk_file_def hFileNull_def write_flags writing_def)
qed

lemma opened_for_reading:
  assumes "perm path" "fs_names fs path = Some ino"
  shows "\<exists>f fs1. mk_file_open perm path modeRead fs = Inr (f, fs1) \<and> reading ino (f_fd f) fs1 \<and>
    unread_part ino (f_fd f) fs1 = bytes_of (fs_data fs ino)"
  using assms
  by (auto simp: mk_file_open_def file_open_def posix_open_def fs_install_def mk_file_def hFileNull_def read_flags reading_def unread_part_def)

lemma closed_content: "fs_content (snd (file_close f fs)) path = fs_content fs path" "fs_names (snd (file_close f fs)) = fs_names fs"
    "fs_data (snd (file_close f fs)) = fs_data fs"
  by (simp_all add: file_close_def posix_close_def fs_content_def)

section \<open>Properties\<close>

text \<open>
  C8: What is saved is found again. On any file system, for a path that may be opened: a \<^verbatim>\<open>File\<close> opened for writing
  with creation, an \<^verbatim>\<open>Archive\<close> over it that stores any sequence of numbers, booleans and strings, a flush and
  \<^verbatim>\<open>File::close\<close> leave exactly the little-endian encoding of the values under that path, whatever the
  file held before; and a \<^verbatim>\<open>File\<close> opened on it for reading gives an \<^verbatim>\<open>Archive\<close>, of any buffer size that holds each
  string, the same values back.
\<close>

theorem archive_file_roundtrip:
  assumes "fs_inv fs" "perm path" "list_all (\<lambda>v. storable v \<and> fits_buffer (nat (max 128 nl)) v) vs"
  shows "\<exists>f fs1 s fs2. mk_file_open perm path (modeWrite OR modeCreate) fs = Inr (f, fs1) \<and>
    ar_store_all (disk_write (f_fd f)) vs (mk_archive fs1 False ns) = Inr s \<and>
    ar_file (ar_flush (disk_write (f_fd f)) s) = Some fs2 \<and>
    map_option bytes_of (fs_content (snd (file_close f fs2)) path) = Some (concat (map encode_value vs)) \<and>
    (\<exists>g fs3 t. mk_file_open perm path modeRead (snd (file_close f fs2)) = Inr (g, fs3) \<and>
       ar_load_all (disk_read (f_fd g)) (map type_of_value vs) (mk_archive fs3 True nl) = Inr (vs, t))"
proof -
  obtain f fs1 ino where o: "mk_file_open perm path (modeWrite OR modeCreate) fs = Inr (f, fs1)"
      "writing path ino (f_fd f) fs1" "fs_data fs1 ino = []"
    using opened_for_writing [of fs perm path] assms(1,2) by blast
  have "list_all storable vs" using assms(3) by (auto simp: list_all_iff)
  then obtain s fs2 where s: "ar_store_all (disk_write (f_fd f)) vs (mk_archive fs1 False ns) = Inr s"
      "ar_file (ar_flush (disk_write (f_fd f)) s) = Some fs2" "writing path ino (f_fd f) fs2"
      "bytes_of (fs_data fs2 ino) = concat (map encode_value vs)"
    using disk_sink.stored_and_flushed [OF o(2), of vs ns] o(3) by auto
  let ?fs = "snd (file_close f fs2)"
  have n: "fs_names ?fs path = Some ino" using s(3) by (simp add: closed_content writing_def)
  obtain g fs3 where g: "mk_file_open perm path modeRead ?fs = Inr (g, fs3)" "reading ino (f_fd g) fs3"
      "unread_part ino (f_fd g) fs3 = concat (map encode_value vs) @ []"
    using opened_for_reading [of perm path ?fs ino] assms(2) n s(4) by (auto simp: closed_content)
  obtain t where t: "ar_load_all (disk_read (f_fd g)) (map type_of_value vs) (mk_archive fs3 True nl) = Inr (vs, t)"
    using disk_source.loaded_back [OF g(2,3) assms(3)] by blast
  have c: "map_option bytes_of (fs_content ?fs path) = Some (concat (map encode_value vs))"
    using n s(4) by (simp add: fs_content_def closed_content)
  show ?thesis using o(1) s(1,2) c g(1) t by blast
qed

definition empty_fs :: fsys where
  "empty_fs = \<lparr>fs_names = Map.empty, fs_data = \<lambda>_. [], fs_next_inode = 0, fs_fds = Map.empty, fs_next_fd = 3\<rparr>"

lemma empty_fs_inv: "fs_inv empty_fs"
  by (simp add: fs_inv_def empty_fs_def)

theorem archive_file_roundtrip_witness:
  "\<exists>f fs1 s fs2. mk_file_open (\<lambda>p. True) ''a.bin'' (modeWrite OR modeCreate) empty_fs = Inr (f, fs1) \<and>
    ar_store_all (disk_write (f_fd f)) [VU16 258, VString [65, 66]] (mk_archive fs1 False 0) = Inr s \<and>
    ar_file (ar_flush (disk_write (f_fd f)) s) = Some fs2 \<and>
    map_option bytes_of (fs_content (snd (file_close f fs2)) ''a.bin'') = Some (concat (map encode_value [VU16 258, VString [65, 66]]))"
  using archive_file_roundtrip [OF empty_fs_inv, of "\<lambda>p. True" "''a.bin''" 0 "[VU16 258, VString [65, 66]]" 0] by auto

text \<open>
  A string longer than the loading buffer cannot be loaded. The store side takes it, and the bytes are all
  in the file, but \<^verbatim>\<open>_ensureRead\<close> compares with the buffer and throws premature end of stream for every
  length above the buffer size.
\<close>

theorem archive_long_string_unloadable:
  assumes "reading ino fd fs" "unread_part ino fd fs = encode_value (VString x) @ rest"
    "nat (max 128 n) < length x" "length x < 2 ^ 32"
  shows "ar_load (disk_read fd) TString (mk_archive fs True n) = Inl (PdkException ''Archive: premature end of stream'')"
  using disk_source.long_string_refused [OF assms] .

theorem archive_long_string_unloadable_witness:
  "\<exists>fs. ar_load (disk_read 3) TString (mk_archive fs True 0) = Inl (PdkException ''Archive: premature end of stream'')"
proof
  let ?x = "replicate 200 1" and ?fl = "\<lparr>of_access = O_RDONLY, of_creat = False, of_append = False, of_trunc = False\<rparr>"
  let ?fs = "empty_fs\<lparr>fs_data := \<lambda>_. chars (encode_value (VString ?x)), fs_fds := [3 \<mapsto> \<lparr>od_inode = 0, od_pos = 0, od_flags = ?fl\<rparr>]\<rparr>"
  show "ar_load (disk_read 3) TString (mk_archive ?fs True 0) = Inl (PdkException ''Archive: premature end of stream'')"
    by (rule archive_long_string_unloadable [where ino = 0 and x = ?x and rest = "[]"])
      (simp_all add: reading_def unread_part_def del: encode_value.simps)
qed

end
