(* ===== verification/Pg_Pool.thy ===== *)
theory Pg_Pool
  imports Semaphore
begin

text \<open>
  \<^verbatim>\<open>class PgConnectionPool\<close> and \<^verbatim>\<open>class PgGuard\<close> of \<^verbatim>\<open>src/pgpool.cpp\<close> and \<^verbatim>\<open>include/pgpool.hpp\<close>. A connection
  is its address. libpq is a parameter: whether a connection is valid, whether it is after \<^verbatim>\<open>PQreset\<close>,
  and what constructing a new one gives (\<open>None\<close> for its exception) are arguments of the calls that ask.

  \<^verbatim>\<open>acquire\<close> waits on the semaphore and then pops under the lock; \<^verbatim>\<open>release\<close> checks the connection,
  pushes under the lock and then signals. Each part is a definition; the step relation interleaves the
  parts of any number of callers.
\<close>

section \<open>State and methods\<close>

type_synonym conn = nat

record pg_pool =
  pg_size :: int
  pg_slots :: semaphore
  pg_all :: "conn list"
  pg_available :: "conn list"

text \<open>
  The constructor: \<open>cs\<close> are the addresses the \<^verbatim>\<open>pool_size\<close> successful constructions give. A negative size
  converts to a huge \<^verbatim>\<open>reserve\<close> argument, which throws.
\<close>

definition mk_pg_pool :: "conn list \<Rightarrow> int \<Rightarrow> fault + pg_pool" where
  "mk_pg_pool cs pool_size =
     (if pool_size < 0 then Inl (InvalidArgument ''vector::reserve'')
      else Inr \<lparr>pg_size = pool_size, pg_slots = mk_semaphore (word_of_int pool_size),
                pg_all = take (nat pool_size) cs, pg_available = take (nat pool_size) cs\<rparr>)"

definition pg_wait :: "int \<Rightarrow> pg_pool \<Rightarrow> int \<times> pg_pool" where
  "pg_wait timeout_ms s = (let (r, m) = sem_wait_ms timeout_ms (pg_slots s) in (r, s\<lparr>pg_slots := m\<rparr>))"

definition pg_take :: "pg_pool \<Rightarrow> fault + conn \<times> pg_pool" where
  "pg_take s =
     (case pg_available s of
        [] \<Rightarrow> Inl (UB ''front of an empty list'')
      | c # cs \<Rightarrow> Inr (c, s\<lparr>pg_available := cs\<rparr>))"

definition pg_acquire :: "int \<Rightarrow> pg_pool \<Rightarrow> fault + conn \<times> pg_pool" where
  "pg_acquire timeout_ms s =
     (let (r, s1) = pg_wait timeout_ms s
      in if r = 0 then Inl (PdkException ''PgConnectionPool::acquire: timed out'') else pg_take s1)"

definition pg_try_acquire :: "pg_pool \<Rightarrow> fault + conn option \<times> pg_pool" where
  "pg_try_acquire s =
     (let (r, s1) = pg_wait 0 s
      in if r = 0 then Inr (None, s1)
         else case pg_take s1 of Inl f \<Rightarrow> Inl f | Inr (c, s2) \<Rightarrow> Inr (Some c, s2))"

text \<open>
  The check at the start of \<^verbatim>\<open>release\<close>: \<open>valid\<close> and \<open>valid_after_reset\<close> are the two answers of libpq,
  \<open>fresh\<close> the address of the replacement, if its construction succeeds. The result is the connection
  that goes back to the pool.
\<close>

definition pg_check :: "bool \<Rightarrow> bool \<Rightarrow> conn option \<Rightarrow> conn \<Rightarrow> pg_pool \<Rightarrow> conn \<times> pg_pool" where
  "pg_check valid valid_after_reset fresh conn s =
     (if valid \<or> valid_after_reset then (conn, s)
      else case find_index conn (pg_all s) of
             None \<Rightarrow> (conn, s)
           | Some i \<Rightarrow>
               (case fresh of
                  None \<Rightarrow> (conn, s)
                | Some c \<Rightarrow> (c, s\<lparr>pg_all := (pg_all s)[i := c]\<rparr>)))"

definition pg_push :: "conn \<Rightarrow> pg_pool \<Rightarrow> pg_pool" where
  "pg_push conn s = s\<lparr>pg_available := pg_available s @ [conn]\<rparr>"

definition pg_signal :: "pg_pool \<Rightarrow> pg_pool" where
  "pg_signal s = s\<lparr>pg_slots := sem_signal (pg_slots s)\<rparr>"

definition pg_release :: "bool \<Rightarrow> bool \<Rightarrow> conn option \<Rightarrow> conn \<Rightarrow> pg_pool \<Rightarrow> pg_pool" where
  "pg_release valid valid_after_reset fresh conn s =
     (let (c, s1) = pg_check valid valid_after_reset fresh conn s in pg_signal (pg_push c s1))"

text \<open>
  A \<^verbatim>\<open>PgGuard\<close> is the connection it holds, or empty. Releasing returns the connections it hands to
  \<^verbatim>\<open>PgConnectionPool::release\<close>; moving empties the source.
\<close>

type_synonym pg_guard = "conn option"

definition guard_release :: "pg_guard \<Rightarrow> conn list \<times> pg_guard" where
  "guard_release g = (case g of None \<Rightarrow> ([], None) | Some c \<Rightarrow> ([c], None))"

definition guard_move :: "pg_guard \<Rightarrow> pg_guard \<times> pg_guard" where
  "guard_move other = (other, None)"

definition guard_assign :: "pg_guard \<Rightarrow> pg_guard \<Rightarrow> conn list \<times> pg_guard \<times> pg_guard" where
  "guard_assign g other = (let (rel, g1) = guard_release g in (rel, other, None))"

section \<open>Many callers\<close>

text \<open>
  \<open>taking\<close> counts the callers that have their slot and not yet their connection, \<open>returning\<close> those that
  have pushed and not yet signalled, and \<open>held\<close> are the connections out in guards.
\<close>

record pg_sys =
  ps_pool :: pg_pool
  ps_taking :: nat
  ps_returning :: nat
  ps_held :: "conn set"

datatype pg_event = PgWait | PgTimeout | PgTook conn | PgCheck conn conn | PgPush conn | PgSignal

inductive pg_step :: "pg_sys \<Rightarrow> pg_event \<Rightarrow> pg_sys \<Rightarrow> bool" where
  pg_waits: "pg_wait ms (ps_pool s) = (1, p) \<Longrightarrow>
    pg_step s PgWait (s\<lparr>ps_pool := p, ps_taking := Suc (ps_taking s)\<rparr>)"
| pg_times_out: "pg_wait ms (ps_pool s) = (0, p) \<Longrightarrow> pg_step s PgTimeout (s\<lparr>ps_pool := p\<rparr>)"
| pg_takes: "ps_taking s = Suc n \<Longrightarrow> pg_take (ps_pool s) = Inr (c, p) \<Longrightarrow>
    pg_step s (PgTook c) (s\<lparr>ps_pool := p, ps_taking := n, ps_held := insert c (ps_held s)\<rparr>)"
| pg_checks: "c \<in> ps_held s \<Longrightarrow> (\<And>d. fresh = Some d \<Longrightarrow> d \<notin> set (pg_all (ps_pool s))) \<Longrightarrow>
    pg_check v r fresh c (ps_pool s) = (c', p) \<Longrightarrow>
    pg_step s (PgCheck c c') (s\<lparr>ps_pool := p, ps_held := insert c' (ps_held s - {c})\<rparr>)"
| pg_pushes: "c \<in> ps_held s \<Longrightarrow>
    pg_step s (PgPush c) (s\<lparr>ps_pool := pg_push c (ps_pool s), ps_held := ps_held s - {c},
      ps_returning := Suc (ps_returning s)\<rparr>)"
| pg_signals: "ps_returning s = Suc n \<Longrightarrow>
    pg_step s PgSignal (s\<lparr>ps_pool := pg_signal (ps_pool s), ps_returning := n\<rparr>)"

definition ps_init :: "pg_pool \<Rightarrow> pg_sys" where
  "ps_init p = \<lparr>ps_pool = p, ps_taking = 0, ps_returning = 0, ps_held = {}\<rparr>"

definition ps_inv :: "int \<Rightarrow> pg_sys \<Rightarrow> bool" where
  "ps_inv n s \<longleftrightarrow>
     0 \<le> n \<and> n < 2 ^ 31 \<and> distinct (pg_all (ps_pool s)) \<and> int (length (pg_all (ps_pool s))) = n \<and>
     distinct (pg_available (ps_pool s)) \<and> set (pg_available (ps_pool s)) \<inter> ps_held s = {} \<and>
     set (pg_available (ps_pool s)) \<union> ps_held s = set (pg_all (ps_pool s)) \<and>
     unat (sem_count (pg_slots (ps_pool s))) + ps_taking s + ps_returning s
       = length (pg_available (ps_pool s))"

lemma ps_inv_init:
  assumes "mk_pg_pool cs n = Inr p" "distinct cs" "int (length cs) = n" "n < 2 ^ 31"
  shows "ps_inv n (ps_init p)"
proof -
  have "unat (word_of_int n :: u32) = length cs"
    using assms(3,4) by (auto simp: unat_of_nat)
  then show ?thesis
    using assms by (auto simp: mk_pg_pool_def ps_inv_def ps_init_def mk_semaphore_def split: if_splits)
qed

lemma ps_available_bound:
  assumes "ps_inv n s"
  shows "length (pg_available (ps_pool s)) < 2 ^ 31"
proof -
  have "card (set (pg_available (ps_pool s))) \<le> card (set (pg_all (ps_pool s)))"
    using assms by (intro card_mono) (auto simp: ps_inv_def)
  then show ?thesis using assms by (simp add: ps_inv_def distinct_card)
qed

lemma pg_wait_cases:
  "pg_wait ms p = (1, p') \<Longrightarrow> \<exists>m. p' = p\<lparr>pg_slots := m\<rparr> \<and> Suc (unat (sem_count m)) = unat (sem_count (pg_slots p))"
  "pg_wait ms p = (0, p') \<Longrightarrow> p' = p"
  by (auto simp: pg_wait_def sem_wait_ms_def Let_def word_greater_zero_iff unat_count_dec unat_gt_0
      split: if_splits)

lemma pg_check_cases:
  assumes "pg_check v r fresh c q = (c', p)"
  shows "p = q \<and> c' = c \<or>
    (\<exists>i. find_index c (pg_all q) = Some i \<and> p = q\<lparr>pg_all := (pg_all q)[i := c']\<rparr> \<and> fresh = Some c')"
  using assms by (simp add: pg_check_def split: if_split_asm option.split_asm)

lemma pg_step_inv:
  assumes "pg_step s e s'" "ps_inv n s"
  shows "ps_inv n s'"
  using assms(1)
proof cases
  case (pg_waits ms p)
  then show ?thesis using assms(2) pg_wait_cases(1) by (fastforce simp: ps_inv_def)
next
  case (pg_times_out ms p)
  then have "p = ps_pool s" using pg_wait_cases(2) by simp
  then show ?thesis using pg_times_out assms(2) by simp
next
  case (pg_takes k c p)
  then show ?thesis using assms(2) by (auto simp: ps_inv_def pg_take_def split: list.splits)
next
  case (pg_checks c fresh v r c' p)
  show ?thesis
  proof (cases "p = ps_pool s \<and> c' = c")
    case True
    then show ?thesis using pg_checks(1-3) assms(2) by (simp add: insert_absorb)
  next
    case False
    then obtain i where i: "find_index c (pg_all (ps_pool s)) = Some i"
        "p = (ps_pool s)\<lparr>pg_all := (pg_all (ps_pool s))[i := c']\<rparr>" "fresh = Some c'"
      using pg_check_cases [OF pg_checks(5)] by blast
    have d: "distinct (pg_all (ps_pool s))" using assms(2) by (simp add: ps_inv_def)
    have new: "c' \<notin> set (pg_all (ps_pool s))" using pg_checks(4) i(3) by simp
    have at: "i < length (pg_all (ps_pool s))" "pg_all (ps_pool s) ! i = c" using find_index_SomeD [OF i(1)] by auto
    have "set ((pg_all (ps_pool s))[i := c']) = insert c' (set (pg_all (ps_pool s)) - {c})"
      using d at by (simp add: set_update_distinct)
    moreover have "distinct ((pg_all (ps_pool s))[i := c'])" using d new by (simp add: distinct_list_update)
    ultimately show ?thesis using assms(2) pg_checks(2,3) i(2) new by (auto simp: ps_inv_def)
  qed
next
  case (pg_pushes c)
  then show ?thesis using assms(2) by (auto simp: ps_inv_def pg_push_def)
next
  case (pg_signals k)
  have "unat (sem_count (pg_slots (ps_pool s))) < 2 ^ 32 - 1"
    using assms(2) ps_available_bound [OF assms(2)] by (simp add: ps_inv_def)
  then show ?thesis
    using assms(2) pg_signals by (auto simp: ps_inv_def pg_signal_def sem_signal_def unat_word_ariths)
qed

lemma pg_steps_inv: "steps pg_step s es s' \<Longrightarrow> ps_inv n s \<Longrightarrow> ps_inv n s'"
  by (erule steps_invariant) (auto intro: pg_step_inv)

section \<open>Properties\<close>

text \<open>
  C27: the pool never pops an empty list. However \<^verbatim>\<open>acquire\<close>, \<^verbatim>\<open>try_acquire\<close> and \<^verbatim>\<open>release\<close> of any number
  of threads interleave, a caller that got a slot from the semaphore finds a connection.
\<close>

theorem pg_slot_has_connection:
  assumes "mk_pg_pool cs n = Inr p" "distinct cs" "int (length cs) = n" "n < 2 ^ 31"
    "steps pg_step (ps_init p) es s" "0 < ps_taking s"
  shows "\<exists>c p'. pg_take (ps_pool s) = Inr (c, p') \<and> c \<notin> ps_held s"
proof -
  have inv: "ps_inv n s" using pg_steps_inv [OF assms(5)] ps_inv_init [OF assms(1-4)] by simp
  then obtain c cs' where "pg_available (ps_pool s) = c # cs'"
    using assms(6) by (cases "pg_available (ps_pool s)") (auto simp: ps_inv_def)
  then show ?thesis using inv by (auto simp: ps_inv_def pg_take_def)
qed

text \<open>
  C10: every connection is either in the pool or in exactly one guard. Nothing is lost and nothing is
  handed out twice, also when broken connections are rebuilt: the available list has no duplicates,
  shares nothing with the guards, and together they are the pool's \<open>n\<close> connections.
\<close>

theorem pg_connections_accounted:
  assumes "mk_pg_pool cs n = Inr p" "distinct cs" "int (length cs) = n" "n < 2 ^ 31"
    "steps pg_step (ps_init p) es s"
  shows "set (pg_available (ps_pool s)) \<inter> ps_held s = {} \<and> distinct (pg_available (ps_pool s)) \<and>
    set (pg_available (ps_pool s)) \<union> ps_held s = set (pg_all (ps_pool s)) \<and>
    int (length (pg_available (ps_pool s)) + card (ps_held s)) = n"
proof -
  have inv: "ps_inv n s" using pg_steps_inv [OF assms(5)] ps_inv_init [OF assms(1-4)] by simp
  then have "finite (ps_held s)" by (metis List.finite_set finite_Un ps_inv_def)
  then have "card (set (pg_available (ps_pool s)) \<union> ps_held s)
      = card (set (pg_available (ps_pool s))) + card (ps_held s)"
    using inv by (intro card_Un_disjoint) (simp_all add: ps_inv_def)
  then have "length (pg_available (ps_pool s)) + card (ps_held s) = length (pg_all (ps_pool s))"
    using inv by (simp add: ps_inv_def distinct_card)
  then show ?thesis using inv by (simp add: ps_inv_def)
qed

lemma pg_example:
  "mk_pg_pool [11, 12] 2 = Inr \<lparr>pg_size = 2, pg_slots = \<lparr>sem_count = 2\<rparr>, pg_all = [11, 12], pg_available = [11, 12]\<rparr>"
  "steps pg_step (ps_init \<lparr>pg_size = 2, pg_slots = \<lparr>sem_count = 2\<rparr>, pg_all = [11, 12], pg_available = [11, 12]\<rparr>)
     [PgWait, PgTook 11, PgWait]
     \<lparr>ps_pool = \<lparr>pg_size = 2, pg_slots = \<lparr>sem_count = 0\<rparr>, pg_all = [11, 12], pg_available = [12]\<rparr>,
      ps_taking = 1, ps_returning = 0, ps_held = {11}\<rparr>"
proof -
  let ?p = "\<lambda>k av. \<lparr>pg_size = 2, pg_slots = \<lparr>sem_count = k\<rparr>, pg_all = [11, 12], pg_available = av\<rparr>"
  let ?s = "\<lambda>k av t h. \<lparr>ps_pool = ?p k av, ps_taking = t, ps_returning = 0, ps_held = h\<rparr>"
  show "mk_pg_pool [11, 12] 2 = Inr (?p 2 [11, 12])" by (simp add: mk_pg_pool_def mk_semaphore_def)
  have "pg_step (?s 2 [11, 12] 0 {}) PgWait (?s 1 [11, 12] 1 {})"
    using pg_waits [of 0 "?s 2 [11, 12] 0 {}"] by (simp add: pg_wait_def sem_wait_ms_def Let_def)
  moreover have "pg_step (?s 1 [11, 12] 1 {}) (PgTook 11) (?s 1 [12] 0 {11})"
    using pg_takes [of "?s 1 [11, 12] 1 {}" 0] by (simp add: pg_take_def)
  moreover have "pg_step (?s 1 [12] 0 {11}) PgWait (?s 0 [12] 1 {11})"
    using pg_waits [of 0 "?s 1 [12] 0 {11}"] by (simp add: pg_wait_def sem_wait_ms_def Let_def)
  ultimately show "steps pg_step (ps_init (?p 2 [11, 12])) [PgWait, PgTook 11, PgWait] (?s 0 [12] 1 {11})"
    unfolding ps_init_def by (blast intro: steps.intros)
qed

theorem pg_slot_has_connection_witness:
  "\<exists>c p'. pg_take \<lparr>pg_size = 2, pg_slots = \<lparr>sem_count = 0\<rparr>, pg_all = [11, 12], pg_available = [12]\<rparr> = Inr (c, p') \<and>
     c \<notin> {11}"
  using pg_slot_has_connection [OF pg_example(1) _ _ _ pg_example(2)] by simp

theorem pg_connections_accounted_witness:
  "\<exists>p es s. mk_pg_pool [11, 12] 2 = Inr p \<and> steps pg_step (ps_init p) es s \<and> ps_held s = {11} \<and>
     int (length (pg_available (ps_pool s)) + card (ps_held s)) = 2"
  using pg_connections_accounted [OF pg_example(1) _ _ _ pg_example(2)] pg_example by fastforce

text \<open>
  An undisturbed \<^verbatim>\<open>acquire\<close> followed by \<^verbatim>\<open>release\<close> gives the slot back and puts the connection at the
  end of the line, or its replacement if it was broken and could be rebuilt; the guards of a moved
  connection release it exactly once.
\<close>

theorem pg_acquire_release:
  assumes "pg_acquire ms s = Inr (c, s1)"
  shows "(\<exists>cs. pg_available s = c # cs \<and> pg_release True r fresh c s1 = s\<lparr>pg_available := cs @ [c]\<rparr>) \<and>
    (let (dst, src) = guard_move (Some c) in fst (guard_release dst) @ fst (guard_release src) = [c]) \<and>
    (let (rel, dst, src) = guard_assign (Some d) (Some c)
     in rel @ fst (guard_release dst) @ fst (guard_release src) = [d, c])"
proof -
  have "sem_count (pg_slots s) \<noteq> 0"
    using assms by (auto simp: pg_acquire_def pg_wait_def sem_wait_ms_def Let_def split: if_splits)
  then have "\<exists>cs. pg_available s = c # cs \<and> s1 = s\<lparr>pg_slots := (pg_slots s)\<lparr>sem_count := sem_count (pg_slots s) - 1\<rparr>,
      pg_available := cs\<rparr>"
    using assms by (auto simp: pg_acquire_def pg_wait_def sem_wait_ms_def pg_take_def Let_def
        word_greater_zero_iff split: list.splits)
  then show ?thesis
    by (auto simp: pg_release_def pg_check_def pg_push_def pg_signal_def sem_signal_def
        guard_move_def guard_release_def guard_assign_def)
qed

theorem pg_acquire_release_witness:
  "\<exists>cs. pg_available \<lparr>pg_size = 1, pg_slots = \<lparr>sem_count = 1\<rparr>, pg_all = [5], pg_available = [5]\<rparr> = 5 # cs"
  using pg_acquire_release [of 10 "\<lparr>pg_size = 1, pg_slots = \<lparr>sem_count = 1\<rparr>, pg_all = [5], pg_available = [5]\<rparr>" 5]
  by (simp add: pg_acquire_def pg_wait_def sem_wait_ms_def pg_take_def Let_def)
section \<open>Guards\<close>

text \<open>A guard made for a connection gives it back once: by its destructor, unless it was moved from.\<close>

definition mk_guard :: "conn option \<Rightarrow> pg_guard" where
  "mk_guard conn = conn"

definition destroy_guard :: "pg_guard \<Rightarrow> conn list" where
  "destroy_guard g = fst (guard_release g)"

definition guard_bool :: "pg_guard \<Rightarrow> bool" where
  "guard_bool g \<longleftrightarrow> g \<noteq> None"

definition guard_deref :: "pg_guard \<Rightarrow> fault + conn" where
  "guard_deref g = (case g of None \<Rightarrow> Inl (UB ''null pointer'') | Some c \<Rightarrow> Inr c)"

lemma guard_gives_back_once:
  assumes "guard_move (mk_guard (Some c)) = (g, g')"
  shows "destroy_guard g @ destroy_guard g' = [c]" "guard_bool g" "\<not> guard_bool g'"
  using assms by (auto simp: guard_move_def mk_guard_def destroy_guard_def guard_release_def guard_bool_def)

lemma guard_assign_gives_back:
  assumes "guard_assign (Some c) (Some d) = (rel, g, g')"
  shows "rel @ destroy_guard g @ destroy_guard g' = [c, d]"
  using assms by (auto simp: guard_assign_def guard_release_def destroy_guard_def split: prod.splits)

lemma guard_deref_defined: "(\<exists>c. guard_deref g = Inr c) \<longleftrightarrow> guard_bool g"
  by (cases g) (simp_all add: guard_deref_def guard_bool_def)

end
