(* ===== verification/Pg_Objects.thy ===== *)
theory Pg_Objects
  imports Pg_Pool C_Text
begin

text \<open>
  \<^verbatim>\<open>PgConnection\<close> and \<^verbatim>\<open>PgResult\<close> (\<^verbatim>\<open>src/pgpool.cpp\<close>, \<^verbatim>\<open>include/pgpool.hpp\<close>), the owners of what libpq allocates.
  libpq itself is a parameter: what a call returns is an argument; of libpq the model keeps which
  connections and which results exist, so that freeing one twice is a fault and forgetting one shows.
  \<^verbatim>\<open>Exception::format\<close> (\<^verbatim>\<open>include/base.hpp\<close>) cuts its text to its buffer.
\<close>

section \<open>libpq's objects\<close>

datatype ExecStatusType =
    PGRES_EMPTY_QUERY | PGRES_COMMAND_OK | PGRES_TUPLES_OK | PGRES_COPY_OUT | PGRES_COPY_IN
  | PGRES_BAD_RESPONSE | PGRES_NONFATAL_ERROR | PGRES_FATAL_ERROR | PGRES_COPY_BOTH | PGRES_SINGLE_TUPLE

record pq =
  pq_open :: "nat set"
  pq_results :: "nat set"

definition PQfinish :: "nat \<Rightarrow> pq \<Rightarrow> fault + pq" where
  "PQfinish c p = (if c \<in> pq_open p then Inr (p\<lparr>pq_open := pq_open p - {c}\<rparr>) else Inl (UB ''connection freed twice''))"

definition PQclear :: "nat \<Rightarrow> pq \<Rightarrow> fault + pq" where
  "PQclear r p = (if r \<in> pq_results p then Inr (p\<lparr>pq_results := pq_results p - {r}\<rparr>) else Inl (UB ''result freed twice''))"

definition exception_format :: "string \<Rightarrow> fault" where
  "exception_format text = PdkException (snprintf 4096 text)"

section \<open>PgConnection\<close>

record pg_connection =
  cn_connstr :: string
  cn_conn :: "nat option"

definition conn_is_valid :: "(nat \<Rightarrow> bool) \<Rightarrow> pg_connection \<Rightarrow> bool" where
  "conn_is_valid status_ok c = (case cn_conn c of None \<Rightarrow> False | Some a \<Rightarrow> status_ok a)"

text \<open>
  The constructor: \<open>answer\<close> is what \<^verbatim>\<open>PQconnectdb\<close> returns, null when out of memory. A connection that is
  not usable is freed before the exception.
\<close>

definition connect_failed :: string where
  "connect_failed = ''PgConnection: connect failed '' @ [CHR 0xE2, CHR 0x80, CHR 0x93, CHR 0x20]"

definition mk_pg_connection ::
  "nat option \<Rightarrow> (nat \<Rightarrow> bool) \<Rightarrow> string \<Rightarrow> string \<Rightarrow> pq \<Rightarrow> (fault + pg_connection) \<times> pq" where
  "mk_pg_connection answer status_ok PQerrorMessage connstr p =
     (let c = \<lparr>cn_connstr = connstr, cn_conn = answer\<rparr>;
          p1 = (case answer of None \<Rightarrow> p | Some a \<Rightarrow> p\<lparr>pq_open := insert a (pq_open p)\<rparr>)
      in if \<not> conn_is_valid status_ok c
         then let err = (case answer of Some a \<Rightarrow> PQerrorMessage | None \<Rightarrow> ''out of memory'')
              in case answer of
                   None \<Rightarrow> (Inl (exception_format (connect_failed @ err)), p1)
                 | Some a \<Rightarrow>
                     (case PQfinish a p1 of
                        Inl f \<Rightarrow> (Inl f, p1)
                      | Inr p2 \<Rightarrow> (Inl (exception_format (connect_failed @ err)), p2))
         else (Inr c, p1))"

definition destruct_pg_connection :: "pg_connection \<Rightarrow> pq \<Rightarrow> fault + pg_connection \<times> pq" where
  "destruct_pg_connection c p =
     (case cn_conn c of
        None \<Rightarrow> Inr (c, p)
      | Some a \<Rightarrow> (case PQfinish a p of Inl f \<Rightarrow> Inl f | Inr p1 \<Rightarrow> Inr (c\<lparr>cn_conn := None\<rparr>, p1)))"

text \<open>\<^verbatim>\<open>reset()\<close>: \<open>PQreset\<close> changes what the status of the connection will be.\<close>

definition conn_reset :: "(nat \<Rightarrow> (nat \<Rightarrow> bool) \<Rightarrow> nat \<Rightarrow> bool) \<Rightarrow> pg_connection \<Rightarrow> (nat \<Rightarrow> bool) \<Rightarrow> nat \<Rightarrow> bool" where
  "conn_reset PQreset c status_ok = (case cn_conn c of None \<Rightarrow> status_ok | Some a \<Rightarrow> PQreset a status_ok)"

text \<open>
  \<^verbatim>\<open>exec_params\<close>: the number of parameters and the array, null when there are none; libpq sees each text
  up to its first NUL.
\<close>

definition exec_params_args :: "string list \<Rightarrow> int \<times> string list option" where
  "exec_params_args params =
     (let vals = map c_str params
      in (to_int32 (int (length vals)), if vals = [] then None else Some vals))"

section \<open>PgResult\<close>

type_synonym pg_result = "nat option"

text \<open>\<^verbatim>\<open>exec\<close> and \<^verbatim>\<open>exec_params\<close> wrap what libpq returns, which may be null.\<close>

definition pg_exec :: "nat option \<Rightarrow> pq \<Rightarrow> pg_result \<times> pq" where
  "pg_exec answer p = (answer, case answer of None \<Rightarrow> p | Some r \<Rightarrow> p\<lparr>pq_results := insert r (pq_results p)\<rparr>)"

definition destruct_pg_result :: "pg_result \<Rightarrow> pq \<Rightarrow> fault + pq" where
  "destruct_pg_result x p = (case x of None \<Rightarrow> Inr p | Some r \<Rightarrow> PQclear r p)"

text \<open>The move constructor: the new object and what the source becomes.\<close>

definition result_move :: "pg_result \<Rightarrow> pg_result \<times> pg_result" where
  "result_move y = (y, None)"

text \<open>Move assignment between different objects; of an object to itself it does nothing.\<close>

definition result_assign :: "pg_result \<Rightarrow> pg_result \<Rightarrow> pq \<Rightarrow> fault + (pg_result \<times> pg_result) \<times> pq" where
  "result_assign x y p =
     (case (case x of None \<Rightarrow> Inr p | Some r \<Rightarrow> PQclear r p) of Inl f \<Rightarrow> Inl f | Inr p1 \<Rightarrow> Inr ((y, None), p1))"

definition result_status :: "(nat \<Rightarrow> ExecStatusType) \<Rightarrow> pg_result \<Rightarrow> ExecStatusType" where
  "result_status PQresultStatus x = (case x of None \<Rightarrow> PGRES_FATAL_ERROR | Some r \<Rightarrow> PQresultStatus r)"

definition result_ok :: "(nat \<Rightarrow> ExecStatusType) \<Rightarrow> pg_result \<Rightarrow> bool" where
  "result_ok PQresultStatus x \<longleftrightarrow>
     (let s = result_status PQresultStatus x in s = PGRES_TUPLES_OK \<or> s = PGRES_COMMAND_OK)"

definition command_ok :: "(nat \<Rightarrow> ExecStatusType) \<Rightarrow> pg_result \<Rightarrow> bool" where
  "command_ok PQresultStatus x \<longleftrightarrow> result_status PQresultStatus x = PGRES_COMMAND_OK"

definition ntuples :: "(nat \<Rightarrow> int) \<Rightarrow> pg_result \<Rightarrow> int" where
  "ntuples PQntuples x = (case x of None \<Rightarrow> 0 | Some r \<Rightarrow> PQntuples r)"

definition nfields :: "(nat \<Rightarrow> int) \<Rightarrow> pg_result \<Rightarrow> int" where
  "nfields PQnfields x = (case x of None \<Rightarrow> 0 | Some r \<Rightarrow> PQnfields r)"

text \<open>\<^verbatim>\<open>value\<close> gives a null pointer where libpq does, for a row or column out of range.\<close>

definition result_value :: "(nat \<Rightarrow> int \<Rightarrow> int \<Rightarrow> string option) \<Rightarrow> pg_result \<Rightarrow> int \<Rightarrow> int \<Rightarrow> string option" where
  "result_value PQgetvalue x row col = (case x of None \<Rightarrow> Some [] | Some r \<Rightarrow> PQgetvalue r row col)"

definition error_message :: "(nat \<Rightarrow> string) \<Rightarrow> pg_result \<Rightarrow> string" where
  "error_message PQresultErrorMessage x = (case x of None \<Rightarrow> [] | Some r \<Rightarrow> PQresultErrorMessage r)"

lemma command_ok_is_ok: "command_ok st x \<Longrightarrow> result_ok st x"
  by (simp add: command_ok_def result_ok_def Let_def)

lemma null_result_fails: "\<not> result_ok st None" "ntuples nt None = 0"
  by (simp_all add: result_ok_def result_status_def ntuples_def)

lemma failed_connection_freed:
  assumes "mk_pg_connection answer ok err cs p = (r, p')" "\<And>a. answer = Some a \<Longrightarrow> a \<notin> pq_open p"
  shows "case r of Inl f \<Rightarrow> p' = p \<and> (\<exists>t. f = PdkException t) | Inr c \<Rightarrow> conn_is_valid ok c \<and> pq_open p' = insert (the (cn_conn c)) (pq_open p)"
  using assms by (auto simp: mk_pg_connection_def conn_is_valid_def PQfinish_def exception_format_def Let_def split: option.splits if_splits)

lemma params_without_nul:
  "list_all (\<lambda>t. CHR 0x00 \<notin> set t) ps \<Longrightarrow> length ps < 2 ^ 31 \<Longrightarrow>
    exec_params_args ps = (int (length ps), if ps = [] then None else Some ps)"
proof -
  assume a: "list_all (\<lambda>t. CHR 0x00 \<notin> set t) ps" "length ps < 2 ^ 31"
  have "map c_str ps = ps"
    using a(1) by (intro map_idI) (auto simp: list_all_iff c_str_def takeWhile_eq_all_conv)
  then show ?thesis using a(2) by (simp add: exec_params_args_def in_int32_def)
qed


section \<open>A program that uses results\<close>

text \<open>
  Variables that hold \<^verbatim>\<open>PgResult\<close> objects: initialised from a query, moved, assigned and going out of
  scope, in any order. libpq returns results that are not in use, or null.
\<close>

record pg_client =
  pc_pq :: pq
  pc_vars :: "nat \<rightharpoonup> pg_result"

datatype result_event = Query nat | MoveInto nat nat | AssignTo nat nat | OutOfScope nat

inductive result_step :: "pg_client \<Rightarrow> result_event \<Rightarrow> pg_client \<Rightarrow> bool" where
  query: "pc_vars s v = None \<Longrightarrow> (\<And>r. answer = Some r \<Longrightarrow> r \<notin> pq_results (pc_pq s)) \<Longrightarrow> pg_exec answer (pc_pq s) = (x, p) \<Longrightarrow>
    result_step s (Query v) (s\<lparr>pc_pq := p, pc_vars := (pc_vars s)(v \<mapsto> x)\<rparr>)"
| move_into: "pc_vars s v = None \<Longrightarrow> pc_vars s w = Some y \<Longrightarrow> result_move y = (x', y') \<Longrightarrow>
    result_step s (MoveInto v w) (s\<lparr>pc_vars := (pc_vars s)(w \<mapsto> y', v \<mapsto> x')\<rparr>)"
| assign_self: "pc_vars s v \<noteq> None \<Longrightarrow> result_step s (AssignTo v v) s"
| assign_to: "v \<noteq> w \<Longrightarrow> pc_vars s v = Some x \<Longrightarrow> pc_vars s w = Some y \<Longrightarrow> result_assign x y (pc_pq s) = Inr ((x', y'), p) \<Longrightarrow>
    result_step s (AssignTo v w) (s\<lparr>pc_pq := p, pc_vars := (pc_vars s)(v \<mapsto> x', w \<mapsto> y')\<rparr>)"
| out_of_scope: "pc_vars s v = Some x \<Longrightarrow> destruct_pg_result x (pc_pq s) = Inr p \<Longrightarrow>
    result_step s (OutOfScope v) (s\<lparr>pc_pq := p, pc_vars := (pc_vars s)(v := None)\<rparr>)"

text \<open>Every result belongs to exactly one variable, or was there before.\<close>

definition owners_distinct :: "(nat \<rightharpoonup> pg_result) \<Rightarrow> bool" where
  "owners_distinct vars \<longleftrightarrow> (\<forall>v w r. vars v = Some (Some r) \<and> vars w = Some (Some r) \<longrightarrow> v = w)"

definition owned :: "(nat \<rightharpoonup> pg_result) \<Rightarrow> nat set" where
  "owned vars = {r. \<exists>v. vars v = Some (Some r)}"

definition pg_owned :: "nat set \<Rightarrow> pg_client \<Rightarrow> bool" where
  "pg_owned R s \<longleftrightarrow> owners_distinct (pc_vars s) \<and> R \<inter> owned (pc_vars s) = {} \<and>
     pq_results (pc_pq s) = R \<union> owned (pc_vars s)"

lemma owned_upd:
  "owners_distinct vars \<Longrightarrow> owned (vars(v \<mapsto> None)) = owned vars - {r. vars v = Some (Some r)}"
  "owners_distinct vars \<Longrightarrow> owned (vars(v := None)) = owned vars - {r. vars v = Some (Some r)}"
  by (auto simp: owned_def owners_distinct_def)

lemma owned_new: "vars v \<in> {None, Some None} \<Longrightarrow> owned (vars(v \<mapsto> Some r)) = insert r (owned vars)"
  unfolding owned_def by (auto; metis option.distinct(1) option.inject)

lemma owners_upd:
  "owners_distinct vars \<Longrightarrow> owners_distinct (vars(v \<mapsto> None))"
  "owners_distinct vars \<Longrightarrow> owners_distinct (vars(v := None))"
  "owners_distinct vars \<Longrightarrow> r \<notin> owned vars \<Longrightarrow> owners_distinct (vars(v \<mapsto> Some r))"
  by (auto simp: owners_distinct_def owned_def split: if_splits)

lemma owned_in: "vars v = Some (Some r) \<Longrightarrow> r \<in> owned vars"
  by (auto simp: owned_def)

lemma pg_owned_transfer:
  assumes "pg_owned R s" "pc_vars s w = Some y" "pc_vars s v = None \<or> pc_vars s v = Some None" "v \<noteq> w"
  shows "pg_owned R (s\<lparr>pc_vars := (pc_vars s)(w \<mapsto> None, v \<mapsto> y)\<rparr>)"
proof (cases y)
  case None
  have d: "owners_distinct (pc_vars s)" using assms(1) by (simp add: pg_owned_def)
  have "owned ((pc_vars s)(w \<mapsto> None, v \<mapsto> None)) = owned (pc_vars s)"
    using owned_upd(1) [OF owners_upd(1) [OF d, of w], of v] owned_upd(1) [OF d, of w] assms(2-4) None by auto
  then show ?thesis using assms(1) None owners_upd(1) [OF owners_upd(1) [OF d]] by (simp add: pg_owned_def)
next
  case (Some r)
  let ?a = "(pc_vars s)(w \<mapsto> None)"
  have d: "owners_distinct ?a" using assms(1) owners_upd by (simp add: pg_owned_def)
  have a: "owned ?a = owned (pc_vars s) - {r}" using assms(1,2) Some owned_upd(1) [of "pc_vars s" w] by (auto simp: pg_owned_def)
  have "owned (?a(v \<mapsto> Some r)) = owned (pc_vars s)"
    using owned_new [of ?a v r] assms(2-4) a Some owned_in [of "pc_vars s" w r] by auto
  moreover have "owners_distinct (?a(v \<mapsto> Some r))" using owners_upd(3) [OF d] a by simp
  ultimately show ?thesis using assms(1) Some by (simp add: pg_owned_def)
qed

lemma pg_owned_clear:
  assumes "pg_owned R s" "pc_vars s v = Some x"
  shows "\<exists>p. destruct_pg_result x (pc_pq s) = Inr p \<and> pg_owned R (s\<lparr>pc_pq := p, pc_vars := (pc_vars s)(v := None)\<rparr>) \<and>
    pg_owned R (s\<lparr>pc_pq := p, pc_vars := (pc_vars s)(v \<mapsto> None)\<rparr>)"
  using assms owned_upd [of "pc_vars s" v] owners_upd [of "pc_vars s" v] owned_in [of "pc_vars s" v]
  by (cases x) (auto simp: destruct_pg_result_def PQclear_def pg_owned_def)


lemma result_assign_destruct:
  "result_assign x y p = (case destruct_pg_result x p of Inl f \<Rightarrow> Inl f | Inr p1 \<Rightarrow> Inr ((y, None), p1))"
  by (simp add: result_assign_def destruct_pg_result_def)

lemma result_step_owned:
  assumes "result_step s e s'" "pg_owned R s"
  shows "pg_owned R s'"
  using assms(1)
proof cases
  case (query v answer x p)
  have "r \<notin> owned (pc_vars s)" if "answer = Some r" for r using query(4) that assms(2) by (auto simp: pg_owned_def)
  then show ?thesis
    using query assms(2) owned_new [of "pc_vars s" v] owned_upd(1) [of "pc_vars s" v]
      owners_upd(1) [of "pc_vars s" v] owners_upd(3) [of "pc_vars s" "the answer" v]
    by (cases answer) (auto simp: pg_exec_def pg_owned_def)
next
  case (move_into v w y x' y')
  have "v \<noteq> w" using move_into(3,4) by auto
  then show ?thesis using move_into pg_owned_transfer [OF assms(2) move_into(4), of v] by (auto simp: result_move_def)
next
  case (assign_to v w x y x' y' p)
  obtain q where q: "destruct_pg_result x (pc_pq s) = Inr q" "pg_owned R (s\<lparr>pc_pq := q, pc_vars := (pc_vars s)(v \<mapsto> None)\<rparr>)"
    using pg_owned_clear [OF assms(2) assign_to(4)] by auto
  have a: "p = q" "x' = y" "y' = None" using assign_to(6) q(1) by (simp_all add: result_assign_destruct)
  have "pg_owned R ((s\<lparr>pc_pq := q, pc_vars := (pc_vars s)(v \<mapsto> None)\<rparr>)\<lparr>pc_vars := ((pc_vars s)(v \<mapsto> None))(w \<mapsto> None, v \<mapsto> y)\<rparr>)"
    using pg_owned_transfer [OF q(2), of w y v] assign_to(3,5) by simp
  then show ?thesis using assign_to(2,3) a by (simp add: fun_upd_twist)
next
  case (out_of_scope v x p)
  then show ?thesis using pg_owned_clear [OF assms(2) out_of_scope(3)] by auto
qed (use assms(2) in simp)

text \<open>
  C38: results are freed exactly once. Through any sequence of queries, moves, assignments (of a variable
  to itself too) and ends of scope, the results libpq holds are those of the program before it and those
  of the variables, each of one variable; an assignment or an end of scope never frees a result twice, and
  when the last variable is gone nothing is left.
\<close>

theorem pg_results_accounted:
  assumes "steps result_step s es s'" "pc_vars s = Map.empty"
  shows "owners_distinct (pc_vars s') \<and> pq_results (pc_pq s') = pq_results (pc_pq s) \<union> owned (pc_vars s') \<and>
    (\<forall>v x. pc_vars s' v = Some x \<longrightarrow> (\<exists>p. destruct_pg_result x (pc_pq s') = Inr p) \<and> (\<forall>y. \<exists>z. result_assign x y (pc_pq s') = Inr z)) \<and>
    (pc_vars s' = Map.empty \<longrightarrow> pq_results (pc_pq s') = pq_results (pc_pq s))"
proof -
  let ?R = "pq_results (pc_pq s)"
  have "pg_owned ?R s" using assms(2) by (simp add: pg_owned_def owners_distinct_def owned_def)
  then have o: "pg_owned ?R s'" by (rule steps_invariant [OF assms(1)]) (rule result_step_owned)
  have d: "\<exists>p. destruct_pg_result x (pc_pq s') = Inr p" if "pc_vars s' v = Some x" for v x
    using pg_owned_clear [OF o that] by blast
  then have "\<exists>z. result_assign x y (pc_pq s') = Inr z" if "pc_vars s' v = Some x" for v x y
    using that by (fastforce simp: result_assign_destruct)
  then show ?thesis using o d by (auto simp: pg_owned_def owned_def)
qed

theorem pg_results_accounted_witness:
  "\<exists>s'. steps result_step \<lparr>pc_pq = \<lparr>pq_open = {1}, pq_results = {}\<rparr>, pc_vars = Map.empty\<rparr> [Query 0, MoveInto 1 0] s' \<and>
     pq_results (pc_pq s') = owned (pc_vars s') \<and> pc_vars s' 0 = Some None \<and> pc_vars s' 1 = Some (Some 7)"
proof -
  let ?s = "\<lparr>pc_pq = \<lparr>pq_open = {1}, pq_results = {}\<rparr>, pc_vars = Map.empty\<rparr> :: pg_client"
  let ?a = "\<lparr>pc_pq = \<lparr>pq_open = {1}, pq_results = {7}\<rparr>, pc_vars = [0 \<mapsto> Some 7]\<rparr> :: pg_client"
  let ?b = "\<lparr>pc_pq = \<lparr>pq_open = {1}, pq_results = {7}\<rparr>, pc_vars = [0 \<mapsto> None, 1 \<mapsto> Some 7]\<rparr> :: pg_client"
  have a: "result_step ?s (Query 0) ?a" using query [of ?s 0 "Some 7"] by (simp add: pg_exec_def)
  have b: "result_step ?a (MoveInto 1 0) ?b" using move_into [of ?a 1 0 "Some 7"] by (simp add: result_move_def)
  have r: "steps result_step ?s [Query 0, MoveInto 1 0] ?b" by (rule steps_cons, rule a, rule steps_cons, rule b, rule steps_nil)
  then have "pq_results (pc_pq ?b) = owned (pc_vars ?b)" using pg_results_accounted [OF r] by simp
  then show ?thesis using r by - (rule exI [of _ ?b], simp)
qed

end
