(* ===== verification/Mem_Stream.thy ===== *)
theory Mem_Stream
  imports Byte_Codec
begin

text \<open>
  \<^verbatim>\<open>class Stream\<close> and \<^verbatim>\<open>class MemoryStream\<close> of \<^verbatim>\<open>include/stream.hpp\<close>: a byte vector and a signed 32-bit
  position that \<^verbatim>\<open>seek\<close> may place anywhere, also before the start or past the end. \<^verbatim>\<open>int32_t\<close> sums that
  leave the range are the fault \<open>UB\<close>, and so is reading the caller's buffer past its end.
\<close>

datatype seek_origin = soBeginning | soCurrent | soEnd

record mem_stream =
  ms_buf :: bytes
  ms_pos :: int

definition mk_mem_stream :: mem_stream where
  "mk_mem_stream = \<lparr>ms_buf = [], ms_pos = 0\<rparr>"

definition resize_bytes :: "nat \<Rightarrow> bytes \<Rightarrow> bytes" where
  "resize_bytes n b = take n b @ replicate (n - length b) 0"

definition ms_read :: "int \<Rightarrow> mem_stream \<Rightarrow> int \<times> bytes \<times> mem_stream" where
  "ms_read n s =
     (if ms_pos s < 0 \<or> n \<le> 0 then (0, [], s)
      else let avail = to_int32 (int (length (ms_buf s))) - ms_pos s
           in if avail \<le> 0 then (0, [], s)
              else let cnt = (if n < avail then n else avail)
                   in (cnt, slice (nat (ms_pos s)) (nat cnt) (ms_buf s), s\<lparr>ms_pos := ms_pos s + cnt\<rparr>))"

definition ms_write :: "bytes \<Rightarrow> int \<Rightarrow> mem_stream \<Rightarrow> fault + int \<times> mem_stream" where
  "ms_write src n s =
     (if ms_pos s < 0 \<or> n \<le> 0 then Inr (0, s)
      else case add_int32 (ms_pos s) n of
             None \<Rightarrow> Inl (UB ''int overflow'')
           | Some newSize \<Rightarrow>
               if length src < nat n then Inl (UB ''memcpy out of range'')
               else let b = (if newSize > to_int32 (int (length (ms_buf s)))
                             then resize_bytes (nat newSize) (ms_buf s) else ms_buf s)
                    in Inr (n, s\<lparr>ms_buf := blit (nat (ms_pos s)) (take (nat n) src) b, ms_pos := newSize\<rparr>))"

definition ms_seek :: "int \<Rightarrow> seek_origin \<Rightarrow> mem_stream \<Rightarrow> fault + int \<times> mem_stream" where
  "ms_seek offset origin s =
     (case (case origin of
              soBeginning \<Rightarrow> Some offset
            | soCurrent \<Rightarrow> add_int32 (ms_pos s) offset
            | soEnd \<Rightarrow> add_int32 (to_int32 (int (length (ms_buf s)))) offset) of
        None \<Rightarrow> Inl (UB ''int overflow'')
      | Some p \<Rightarrow> Inr (p, s\<lparr>ms_pos := p\<rparr>))"

definition ms_SetSize :: "int \<Rightarrow> mem_stream \<Rightarrow> mem_stream" where
  "ms_SetSize n s =
     s\<lparr>ms_buf := resize_bytes (nat (if n > 0 then n else 0)) (ms_buf s),
       ms_pos := (if ms_pos s > n then n else ms_pos s)\<rparr>"

definition ms_clear :: "mem_stream \<Rightarrow> mem_stream" where
  "ms_clear s = s\<lparr>ms_buf := [], ms_pos := 0\<rparr>"

text \<open>\<^verbatim>\<open>position\<close> and \<^verbatim>\<open>set_position\<close> of the base class, through the overridden \<^verbatim>\<open>seek\<close>.\<close>

definition ms_position :: "mem_stream \<Rightarrow> fault + int \<times> mem_stream" where
  "ms_position s = ms_seek 0 soCurrent s"

definition ms_set_position :: "int \<Rightarrow> mem_stream \<Rightarrow> fault + mem_stream" where
  "ms_set_position p s = (case ms_seek p soBeginning s of Inl f \<Rightarrow> Inl f | Inr (_, s1) \<Rightarrow> Inr s1)"

text \<open>\<^verbatim>\<open>GetSize\<close> seeks to the current position, to the end, and back.\<close>

definition ms_GetSize :: "mem_stream \<Rightarrow> fault + int \<times> mem_stream" where
  "ms_GetSize s =
     (case ms_seek 0 soCurrent s of
        Inl f \<Rightarrow> Inl f
      | Inr (cur, s1) \<Rightarrow>
          (case ms_seek 0 soEnd s1 of
             Inl f \<Rightarrow> Inl f
           | Inr (e, s2) \<Rightarrow>
               (case ms_seek cur soBeginning s2 of Inl f \<Rightarrow> Inl f | Inr (_, s3) \<Rightarrow> Inr (e, s3))))"

definition ms_read_buffer :: "int \<Rightarrow> mem_stream \<Rightarrow> fault + bytes \<times> mem_stream" where
  "ms_read_buffer n s =
     (if n = 0 then Inr ([], s)
      else let (r, b, s') = ms_read n s
           in if r \<noteq> n then Inl (PdkException ''Stream: read error'') else Inr (b, s'))"

definition ms_write_buffer :: "bytes \<Rightarrow> int \<Rightarrow> mem_stream \<Rightarrow> fault + mem_stream" where
  "ms_write_buffer src n s =
     (if n = 0 then Inr s
      else case ms_write src n s of
             Inl f \<Rightarrow> Inl f
           | Inr (r, s') \<Rightarrow> if r \<noteq> n then Inl (PdkException ''Stream: write error'') else Inr s')"

definition ms_inv :: "mem_stream \<Rightarrow> bool" where
  "ms_inv s \<longleftrightarrow> in_int32 (ms_pos s) \<and> length (ms_buf s) < 2 ^ 31"

lemma ms_size_exact: "ms_inv s \<Longrightarrow> to_int32 (int (length (ms_buf s))) = int (length (ms_buf s))"
  by (simp add: ms_inv_def in_int32_of_nat)

lemma ms_position_set: "in_int32 p \<Longrightarrow> \<exists>s1. ms_set_position p s = Inr s1 \<and> ms_position s1 = Inr (p, s1) \<and> ms_buf s1 = ms_buf s"
  by (simp add: ms_set_position_def ms_position_def ms_seek_def add_int32_def)

lemma ms_GetSize_eq: "ms_inv s \<Longrightarrow> ms_GetSize s = Inr (int (length (ms_buf s)), s)"
  by (simp add: ms_GetSize_def ms_seek_def add_int32_def ms_size_exact)
     (simp add: ms_inv_def in_int32_def)

lemma length_resize [simp]: "length (resize_bytes n b) = n"
  by (simp add: resize_bytes_def)

text \<open>A write at the end of the stream appends, and leaves the position at the new end.\<close>

lemma ms_append:
  assumes "ms_inv s" "ms_pos s = int (length (ms_buf s))" "int (length (ms_buf s) + length src) < 2 ^ 31" "src \<noteq> []"
  shows "ms_write src (int (length src)) s =
    Inr (int (length src), \<lparr>ms_buf = ms_buf s @ src, ms_pos = int (length (ms_buf s @ src))\<rparr>)"
  using assms
  by (simp add: ms_write_def add_int32_def in_int32_def ms_size_exact blit_def resize_bytes_def Let_def
      nat_add_distrib)

lemma ms_read_within:
  assumes "ms_inv s" "0 \<le> ms_pos s" "0 < n" "ms_pos s + int n \<le> int (length (ms_buf s))"
  shows "ms_read (int n) s = (int n, slice (nat (ms_pos s)) n (ms_buf s), s\<lparr>ms_pos := ms_pos s + int n\<rparr>)"
proof -
  have "(if int n < int (length (ms_buf s)) - ms_pos s then int n else int (length (ms_buf s)) - ms_pos s) = int n"
    using assms(4) by simp
  then show ?thesis using assms by (simp add: ms_read_def ms_size_exact Let_def)
qed

lemma ms_take_front:
  assumes "ms_inv s" "ms_pos s = int (length (ms_buf s))" "k \<le> length (ms_buf s)"
  shows "ms_SetSize (int k) s = \<lparr>ms_buf = take k (ms_buf s), ms_pos = int k\<rparr>"
  using assms by (auto simp: ms_SetSize_def resize_bytes_def)

section \<open>Properties\<close>

text \<open>
  What is written can be read back. From any valid stream whose position is not negative, a
  write that keeps the stream below \<open>2 ^ 31\<close> bytes stores exactly the given bytes at the position and
  returns their number; seeking back to where it began and reading as many returns them, and the
  position is where the write left it. Bytes before and after the range are untouched, a gap between
  the old end and the position is zero.
\<close>

theorem ms_write_read_roundtrip:
  assumes inv: "ms_inv s" and p: "0 \<le> ms_pos s" and src: "src \<noteq> []"
    and fits: "ms_pos s + int (length src) < 2 ^ 31"
  shows "\<exists>s1 s2 s3. ms_write src (int (length src)) s = Inr (int (length src), s1) \<and>
    ms_seek (ms_pos s) soBeginning s1 = Inr (ms_pos s, s2) \<and>
    ms_read (int (length src)) s2 = (int (length src), src, s3) \<and> ms_pos s3 = ms_pos s1 \<and> ms_inv s3 \<and>
    ms_buf s3 = blit (nat (ms_pos s)) src
      (resize_bytes (max (length (ms_buf s)) (nat (ms_pos s) + length src)) (ms_buf s))"
proof -
  let ?p = "nat (ms_pos s)" and ?n = "length src"
  let ?b = "blit ?p src (resize_bytes (max (length (ms_buf s)) (?p + ?n)) (ms_buf s))"
  have np: "nat (ms_pos s + int ?n) = ?p + ?n" using p by (simp add: nat_add_distrib)
  have pos: "0 < ?n" using src by simp
  have add: "add_int32 (ms_pos s) (int ?n) = Some (ms_pos s + int ?n)"
    using fits p by (simp add: add_int32_def in_int32_def)
  have same: "resize_bytes (length (ms_buf s)) (ms_buf s) = ms_buf s" by (simp add: resize_bytes_def)
  have "(if ms_pos s + int ?n > int (length (ms_buf s)) then resize_bytes (?p + ?n) (ms_buf s) else ms_buf s)
      = resize_bytes (max (length (ms_buf s)) (?p + ?n)) (ms_buf s)"
  proof (cases "ms_pos s + int ?n > int (length (ms_buf s))")
    case True
    then have "length (ms_buf s) \<le> ?p + ?n" using p by linarith
    then show ?thesis using True by (simp add: max_def)
  next
    case False
    then have "?p + ?n \<le> length (ms_buf s)" using p by linarith
    then show ?thesis using False by (simp add: max_def same)
  qed
  then have w: "ms_write src (int ?n) s = Inr (int ?n, s\<lparr>ms_buf := ?b, ms_pos := ms_pos s + int ?n\<rparr>)"
    using p pos add by (simp add: ms_write_def ms_size_exact [OF inv] np same Let_def)
  let ?s1 = "s\<lparr>ms_buf := ?b, ms_pos := ms_pos s + int ?n\<rparr>" and ?s2 = "s\<lparr>ms_buf := ?b\<rparr>"
  have len: "length ?b = max (length (ms_buf s)) (?p + ?n)" by simp
  have inv2: "ms_inv ?s2" using inv fits p len by (auto simp: ms_inv_def)
  have "slice ?p ?n ?b = src" by (rule slice_blit_len) simp_all
  moreover have "?p + ?n \<le> length ?b" using len by simp
  then have "ms_pos ?s2 + int ?n \<le> int (length (ms_buf ?s2))" using p by simp
  ultimately have "ms_read (int ?n) ?s2 = (int ?n, src, ?s1)"
    using ms_read_within [OF inv2 _ pos] p by simp
  moreover have "ms_inv ?s1" using inv2 fits p by (auto simp: ms_inv_def in_int32_def)
  ultimately show ?thesis using w by (auto simp: ms_seek_def)
qed

theorem ms_write_read_roundtrip_witness:
  "\<exists>s1 s2 s3. ms_write [7, 8, 9] 3 mk_mem_stream = Inr (3, s1) \<and> ms_seek 0 soBeginning s1 = Inr (0, s2) \<and>
     ms_read 3 s2 = (3, [7, 8, 9], s3) \<and> ms_pos s3 = ms_pos s1"
  using ms_write_read_roundtrip [of mk_mem_stream "[7, 8, 9]"]
  by (auto simp: mk_mem_stream_def ms_inv_def in_int32_def)

section \<open>The base class\<close>

text \<open>\<^verbatim>\<open>Stream\<close> itself moves nothing: each of its virtual methods returns 0, so its buffer calls throw for every length but 0.\<close>

definition stream_read :: "int \<Rightarrow> int" where
  "stream_read n = 0"

definition stream_write :: "bytes \<Rightarrow> int \<Rightarrow> int" where
  "stream_write buf n = 0"

definition stream_seek :: "int \<Rightarrow> seek_origin \<Rightarrow> int" where
  "stream_seek offset origin = 0"

definition stream_read_buffer :: "int \<Rightarrow> fault + unit" where
  "stream_read_buffer n = (if n \<noteq> 0 \<and> stream_read n \<noteq> n then Inl (PdkException ''Stream: read error'') else Inr ())"

definition stream_write_buffer :: "bytes \<Rightarrow> int \<Rightarrow> fault + unit" where
  "stream_write_buffer buf n = (if n \<noteq> 0 \<and> stream_write buf n \<noteq> n then Inl (PdkException ''Stream: write error'') else Inr ())"

definition stream_GetSize :: int where
  "stream_GetSize =
     (let cur = stream_seek 0 soCurrent; len = stream_seek 0 soEnd; back = stream_seek cur soBeginning in len)"

lemma base_stream_throws: "stream_read_buffer n = Inr () \<longleftrightarrow> n = 0" "stream_write_buffer b n = Inr () \<longleftrightarrow> n = 0" "stream_GetSize = 0"
  by (simp_all add: stream_read_buffer_def stream_read_def stream_write_buffer_def stream_write_def stream_GetSize_def stream_seek_def)

end
