(* ===== verification/Tcp_Channel.thy ===== *)
theory Tcp_Channel
  imports Mem_Stream
begin

text \<open>
  The receive loop of \<^verbatim>\<open>TcpChannel::thread_proc\<close> (\<^verbatim>\<open>src/tcpserver.cpp\<close>): bytes arrive in pieces of
  any size, are appended to a \<^verbatim>\<open>MemoryStream\<close>, and packets are cut off its front by the length in
  their header (\<^verbatim>\<open>nMsgLen\<close>, bytes 4 to 7). Two statements of the loop have undefined behaviour for some
  inputs and fault there: the header is read without checking that eight bytes have arrived, and the
  rest is moved to the front by a \<^verbatim>\<open>memcpy\<close> whose ranges overlap when it is longer than the packet.
  \<^verbatim>\<open>recv\<close> is a parameter in the form of the list of pieces it delivers; the callback reads its packet.

  The specification is \<open>frames\<close>, which cuts the whole byte sequence at once.
\<close>

section \<open>The loop\<close>

text \<open>\<^verbatim>\<open>pPacket->h.nMsgLen\<close>: the \<^verbatim>\<open>int\<close> at offset 4.\<close>

definition packet_length :: "bytes \<Rightarrow> int" where
  "packet_length b = to_int32 (int (le_value (slice 4 4 b)))"

text \<open>
  One turn of the inner loop: it stops (\<open>NeedMore\<close>), resets the socket (\<open>Illegal\<close>), or hands a packet
  to \<^verbatim>\<open>OnAfterReceive\<close> and goes on with the shortened stream.
\<close>

datatype packet_result = NeedMore | Illegal | Packet bytes mem_stream

definition packet_turn :: "mem_stream \<Rightarrow> fault + packet_result" where
  "packet_turn m =
     (if ms_buf m = [] then Inr NeedMore
      else if length (ms_buf m) < 8 then Inl (UB ''read past the received bytes'')
      else let nPkLen = packet_length (ms_buf m)
           in if nPkLen < 1 then Inr Illegal
              else case ms_GetSize m of
                     Inl f \<Rightarrow> Inl f
                   | Inr (sz, m1) \<Rightarrow>
                       if nPkLen > sz then Inr NeedMore
                       else let nSize = sz - nPkLen
                            in if nSize > nPkLen then Inl (UB ''memcpy of overlapping ranges'')
                               else Inr (Packet (take (nat nPkLen) (ms_buf m1))
                                 (ms_SetSize nSize
                                   (m1\<lparr>ms_buf := blit 0 (slice (nat nPkLen) (nat nSize) (ms_buf m1)) (ms_buf m1)\<rparr>))))"

text \<open>
  The inner loop with the number of bytes as fuel: a packet has at least one byte, so it is enough
  (\<open>packet_loop_enough\<close> below). The result is the packets, the stream, and whether the connection was
  dropped.
\<close>

fun packet_loop :: "nat \<Rightarrow> mem_stream \<Rightarrow> fault + bytes list \<times> mem_stream \<times> bool" where
  "packet_loop 0 m = Inr ([], m, False)"
| "packet_loop (Suc n) m =
     (case packet_turn m of
        Inl f \<Rightarrow> Inl f
      | Inr NeedMore \<Rightarrow> Inr ([], m, False)
      | Inr Illegal \<Rightarrow> Inr ([], m, True)
      | Inr (Packet p m') \<Rightarrow>
          (case packet_loop n m' of
             Inl f \<Rightarrow> Inl f
           | Inr (ps, m'', d) \<Rightarrow> Inr (p # ps, m'', d)))"

text \<open>
  The outer loop with \<^verbatim>\<open>use_event()\<close> true over the pieces \<^verbatim>\<open>recv\<close> delivers; it ends when they do (an
  empty piece is the \<^verbatim>\<open>nLen < 1\<close> exit), and after an illegal length, because the socket is gone.
\<close>

fun channel_loop :: "mem_stream \<Rightarrow> bytes list \<Rightarrow> fault + bytes list \<times> mem_stream \<times> bool" where
  "channel_loop m [] = Inr ([], m, False)"
| "channel_loop m (c # cs) =
     (if c = [] then Inr ([], m, False)
      else case ms_write c (int (length c)) m of
             Inl f \<Rightarrow> Inl f
           | Inr (_, m1) \<Rightarrow>
               (case packet_loop (length (ms_buf m1)) m1 of
                  Inl f \<Rightarrow> Inl f
                | Inr (ps, m2, d) \<Rightarrow>
                    if d then Inr (ps, m2, True)
                    else (case channel_loop m2 cs of
                            Inl f \<Rightarrow> Inl f
                          | Inr (ps', m3, d') \<Rightarrow> Inr (ps @ ps', m3, d'))))"

section \<open>The specification\<close>

text \<open>
  \<open>frames b\<close> cuts packets off \<open>b\<close> while a whole one is there; it returns them, the rest, and whether it
  stopped at an illegal length.
\<close>

function frames :: "bytes \<Rightarrow> bytes list \<times> bytes \<times> bool" where
  "frames b =
     (if length b < 8 then ([], b, False)
      else if packet_length b < 1 then ([], b, True)
      else if nat (packet_length b) > length b then ([], b, False)
      else let (ps, r, d) = frames (drop (nat (packet_length b)) b)
           in (take (nat (packet_length b)) b # ps, r, d))"
  by pat_completeness auto
termination by (relation "measure length") auto

declare frames.simps [simp del]

text \<open>The stream of the loop always has its position at its end.\<close>

definition at_end :: "bytes \<Rightarrow> mem_stream" where
  "at_end b = \<lparr>ms_buf = b, ms_pos = int (length b)\<rparr>"

lemma at_end_buf [simp]: "ms_buf (at_end b) = b"
  by (simp add: at_end_def)

lemma at_end_inv: "length b < 2 ^ 31 \<Longrightarrow> ms_inv (at_end b)"
  by (simp add: ms_inv_def at_end_def in_int32_of_nat)

lemma packet_turn_at_end:
  assumes "length b < 2 ^ 31"
  shows "packet_turn (at_end b) =
    (if b = [] then Inr NeedMore
     else if length b < 8 then Inl (UB ''read past the received bytes'')
     else if packet_length b < 1 then Inr Illegal
     else if nat (packet_length b) > length b then Inr NeedMore
     else if length b - nat (packet_length b) > nat (packet_length b)
     then Inl (UB ''memcpy of overlapping ranges'')
     else Inr (Packet (take (nat (packet_length b)) b) (at_end (drop (nat (packet_length b)) b))))"
proof (cases "8 \<le> length b \<and> 1 \<le> packet_length b \<and> nat (packet_length b) \<le> length b")
  case True
  define n k where "n = nat (packet_length b)" and "k = length b - n"
  have n: "packet_length b = int n" "1 \<le> n" "n \<le> length b" using True by (auto simp: n_def)
  have k: "int (length b) - int n = int k" "length b - n = k" "k \<le> length b" using n by (auto simp: k_def)
  let ?b = "blit 0 (slice n k b) b"
  have b: "length ?b = length b" "take k ?b = drop n b"
    using n(3) by (simp_all add: blit_def slice_def k_def)
  have set: "ms_SetSize (int k) (at_end b\<lparr>ms_buf := ?b\<rparr>) = at_end (drop n b)"
    using ms_take_front [of "at_end b\<lparr>ms_buf := ?b\<rparr>" k] b k assms
    by (simp add: ms_inv_def at_end_def in_int32_of_nat)
  have "b \<noteq> []" "\<not> length b < 8" using True by auto
  then show ?thesis
    using n k by (simp add: packet_turn_def ms_GetSize_eq [OF at_end_inv [OF assms]] Let_def set)
next
  case False
  note gs = ms_GetSize_eq [OF at_end_inv [OF assms]]
  show ?thesis
  proof (cases "length b < 8 \<or> packet_length b < 1")
    case True
    then show ?thesis by (auto simp: packet_turn_def Let_def)
  next
    case len: False
    then have "b \<noteq> []" "packet_length b > int (length b)" "nat (packet_length b) > length b"
      using False by auto
    then show ?thesis using len by (simp add: packet_turn_def gs Let_def)
  qed
qed

lemma packet_loop_frames:
  "length b < 2 ^ 31 \<Longrightarrow> length b \<le> n \<Longrightarrow> packet_loop n (at_end b) = Inr (ps, m, d) \<Longrightarrow>
     (\<exists>r. frames b = (ps, r, d) \<and> m = at_end r \<and> length r \<le> length b)"
proof (induction n arbitrary: b ps m d)
  case 0
  then show ?case by (auto simp: frames.simps)
next
  case (Suc n)
  show ?case
  proof (cases "b = [] \<or> packet_length b < 1 \<or> nat (packet_length b) > length b")
    case True
    then show ?thesis
      using Suc.prems by (subst frames.simps) (auto simp: packet_turn_at_end split: if_splits)
  next
    case False
    let ?k = "nat (packet_length b)"
    from False Suc.prems have "8 \<le> length b"
      by (auto simp: packet_turn_at_end split: if_splits)
    moreover from False Suc.prems obtain ps' where
      rest: "packet_loop n (at_end (drop ?k b)) = Inr (ps', m, d)" and ps: "ps = take ?k b # ps'"
      by (auto simp: packet_turn_at_end split: if_splits sum.splits)
    moreover have "length (drop ?k b) \<le> n" using False Suc.prems(2) by auto
    moreover obtain r where "frames (drop ?k b) = (ps', r, d)" "m = at_end r" "length r \<le> length b - ?k"
      using Suc.IH [OF _ \<open>length (drop ?k b) \<le> n\<close> rest] le_less_trans [OF diff_le_self Suc.prems(1)]
      by auto
    ultimately show ?thesis using False by (subst frames.simps) auto
  qed
qed

text \<open>Frames of a longer input continue the frames of its beginning.\<close>

lemma packet_length_append: "8 \<le> length b \<Longrightarrow> packet_length (b @ c) = packet_length b"
  by (simp add: packet_length_def slice_append_left)

lemma frames_append:
  "frames b = (ps, r, d) \<Longrightarrow>
     frames (b @ c) = (if d then (ps, r @ c, True) else let (ps', r', d') = frames (r @ c) in (ps @ ps', r', d'))"
proof (induction b arbitrary: ps r d rule: frames.induct)
  case (1 b)
  show ?case
  proof (cases "length b < 8 \<or> packet_length b < 1 \<or> nat (packet_length b) > length b")
    case True
    then have "frames b = ([], b, 8 \<le> length b \<and> packet_length b < 1)"
      by (subst frames.simps) auto
    then have b: "ps = []" "r = b" "d \<longleftrightarrow> 8 \<le> length b \<and> packet_length b < 1" using "1.prems" by auto
    show ?thesis
    proof (cases d)
      case True
      then have "frames (b @ c) = ([], b @ c, True)"
        using b(3) packet_length_append [of b c] by (subst frames.simps) auto
      then show ?thesis using True b by simp
    next
      case False
      then show ?thesis using b(1,2) by (simp split: prod.splits)
    qed
  next
    case False
    let ?k = "nat (packet_length b)"
    obtain ps1 where f: "frames (drop ?k b) = (ps1, r, d)" and ps: "ps = take ?k b # ps1"
      using "1.prems" False by (subst (asm) (1) frames.simps) (auto split: prod.splits)
    have "frames (b @ c) = (let (ps', r', d') = frames (drop ?k b @ c) in (take ?k b # ps', r', d'))"
      using False packet_length_append [of b c] by (subst frames.simps) auto
    then show ?thesis using "1.IH" [OF _ _ _ f] False ps by (auto split: prod.splits)
  qed
qed

lemma channel_loop_frames:
  "channel_loop (at_end b) cs = Inr (ps, m, d) \<Longrightarrow> [] \<notin> set cs \<Longrightarrow> length b + length (concat cs) < 2 ^ 31 \<Longrightarrow>
     frames b = ([], b, False) \<Longrightarrow>
     (\<exists>r. frames (b @ concat cs) = (ps, r, d) \<and> (\<not> d \<longrightarrow> m = at_end r))"
proof (induction cs arbitrary: b ps m d)
  case Nil
  then show ?case by auto
next
  case (Cons c cs)
  have ne: "c \<noteq> []" using Cons.prems(2) by auto
  have w: "ms_write c (int (length c)) (at_end b) = Inr (int (length c), at_end (b @ c))"
    using ms_append [of "at_end b" c] ne Cons.prems(3) at_end_inv [of b] by (simp add: at_end_def)
  obtain ps1 m1 d1 where l: "packet_loop (length (b @ c)) (at_end (b @ c)) = Inr (ps1, m1, d1)"
    using Cons.prems w by (auto simp: at_end_def split: sum.splits)
  then obtain r where r: "frames (b @ c) = (ps1, r, d1)" "m1 = at_end r" "length r \<le> length (b @ c)"
    using packet_loop_frames [of "b @ c" "length (b @ c)"] Cons.prems(3) by auto
  show ?case
  proof (cases d1)
    case True
    then show ?thesis
      using Cons.prems w l r frames_append [OF r(1), of "concat cs"] by (auto simp: at_end_def)
  next
    case False
    then obtain ps2 where rest: "channel_loop (at_end r) cs = Inr (ps2, m, d)" and ps: "ps = ps1 @ ps2"
      using Cons.prems w l r(2) by (auto simp: at_end_def split: sum.splits)
    have "frames r = ([], r, False)"
      using frames_append [OF r(1), of "[]"] r(1) False by (auto split: prod.splits)
    then show ?thesis
      using Cons.IH [OF rest] Cons.prems r(3) ps False frames_append [OF r(1), of "concat cs"]
      by (auto split: prod.splits)
  qed
qed

lemma frames_concat: "frames b = (ps, r, d) \<Longrightarrow> concat ps @ r = b"
proof (induction b arbitrary: ps r d rule: frames.induct)
  case (1 b)
  show ?case
  proof (cases "length b < 8 \<or> packet_length b < 1 \<or> nat (packet_length b) > length b")
    case True
    then show ?thesis using "1.prems" by (subst (asm) (1) frames.simps) (auto split: if_splits)
  next
    case False
    then obtain ps1 where "frames (drop (nat (packet_length b)) b) = (ps1, r, d)"
        "ps = take (nat (packet_length b)) b # ps1"
      using "1.prems" by (subst (asm) (1) frames.simps) (auto split: prod.splits)
    then show ?thesis using "1.IH" False by fastforce
  qed
qed

lemma at_end_Nil: "mk_mem_stream = at_end []"
  by (simp add: mk_mem_stream_def at_end_def)

text \<open>A packet whose header says its own length.\<close>

definition well_formed_packet :: "bytes \<Rightarrow> bool" where
  "well_formed_packet p \<longleftrightarrow> 8 \<le> length p \<and> packet_length p = int (length p)"

lemma channel_write:
  "c \<noteq> [] \<Longrightarrow> length c < 2 ^ 31 \<Longrightarrow> ms_write c (int (length c)) (at_end []) = Inr (int (length c), at_end c)"
  using ms_append [of "at_end []" c] at_end_inv [of "[]"] by (simp add: at_end_def)

lemma channel_whole_packet:
  assumes "well_formed_packet p" "length p < 2 ^ 31"
  shows "packet_loop (length p) (at_end p) = Inr ([p], at_end [], False)"
proof -
  obtain n where n: "length p = Suc n" using assms(1) by (cases p) (auto simp: well_formed_packet_def)
  have turn: "packet_turn (at_end p) = Inr (Packet p (at_end []))"
    using assms by (auto simp: packet_turn_at_end well_formed_packet_def)
  have "packet_loop n (at_end []) = Inr ([], at_end [], False)"
    by (cases n) (simp_all add: packet_turn_at_end)
  then show ?thesis using turn by (simp add: n)
qed

section \<open>Properties\<close>

text \<open>
  reassembly does not depend on how the bytes were cut. Whenever the receive loop gets through
  the pieces \<^verbatim>\<open>recv\<close> delivered, the packets it handed on are exactly the frames of all the bytes put
  together, it dropped the connection exactly when those contain an illegal length, and packets and
  rest are the bytes received, none lost and none added.
\<close>

theorem tcp_reassembly:
  assumes "channel_loop mk_mem_stream cs = Inr (ps, m, d)" "[] \<notin> set cs" "length (concat cs) < 2 ^ 31"
  shows "\<exists>r. frames (concat cs) = (ps, r, d) \<and> concat ps @ r = concat cs \<and> (\<not> d \<longrightarrow> ms_buf m = r)"
proof -
  have "frames [] = ([], [], False)" by (simp add: frames.simps)
  then obtain r where "frames (concat cs) = (ps, r, d)" "\<not> d \<longrightarrow> m = at_end r"
    using channel_loop_frames [of "[]" cs ps m d] assms by (auto simp: at_end_Nil)
  then show ?thesis using frames_concat by auto
qed

text \<open>
  The loop delivers. When every \<^verbatim>\<open>recv\<close> returns one whole packet whose header says its length, the
  loop hands on exactly those packets, in order, without a fault, and keeps the connection.
\<close>

theorem tcp_whole_packets_delivered:
  assumes "list_all (\<lambda>p. well_formed_packet p \<and> length p < 2 ^ 31) ps"
  shows "channel_loop mk_mem_stream ps = Inr (ps, mk_mem_stream, False)"
  using assms
proof (induction ps)
  case (Cons p ps)
  then have p: "well_formed_packet p" "length p < 2 ^ 31" "p \<noteq> []" by (auto simp: well_formed_packet_def)
  then show ?case
    using Cons channel_whole_packet [OF p(1,2)] by (simp add: at_end_Nil channel_write)
qed simp

definition packet8 :: bytes where
  "packet8 = [1, 2, 3, 4, 8, 0, 0, 0]"

lemma packet8_ok: "well_formed_packet packet8" "length packet8 = 8" "packet8 \<noteq> []"
  by (simp_all add: well_formed_packet_def packet8_def packet_length_def slice_def in_int32_def)

theorem tcp_whole_packets_delivered_witness:
  "channel_loop mk_mem_stream [packet8, packet8] = Inr ([packet8, packet8], mk_mem_stream, False)"
  by (rule tcp_whole_packets_delivered) (simp add: packet8_ok)

theorem tcp_reassembly_witness:
  "\<exists>r. frames [0, 0, 0, 0, 10, 0, 0, 0, 1, 2] = ([[0, 0, 0, 0, 10, 0, 0, 0, 1, 2]], r, False) \<and> r = []"
proof -
  have "channel_loop mk_mem_stream [[0, 0, 0, 0, 10, 0, 0, 0], [1], [2]] =
      Inr ([[0, 0, 0, 0, 10, 0, 0, 0, 1, 2]], mk_mem_stream, False)"
    by code_simp
  from tcp_reassembly [OF this] show ?thesis by simp
qed

text \<open>
  A header that arrives in two pieces is undefined behaviour. If the first \<^verbatim>\<open>recv\<close> returns between
  one and seven bytes, the loop reads \<^verbatim>\<open>nMsgLen\<close> past the end of what it has.
\<close>

theorem tcp_split_header_ub:
  assumes "0 < length c" "length c < 8"
  shows "channel_loop mk_mem_stream (c # cs) = Inl (UB ''read past the received bytes'')"
proof -
  obtain n where n: "length c = Suc n" using assms(1) by (cases "length c") auto
  have "packet_turn (at_end c) = Inl (UB ''read past the received bytes'')"
    using assms by (auto simp: packet_turn_at_end)
  then have "packet_loop (length c) (at_end c) = Inl (UB ''read past the received bytes'')"
    by (simp add: n)
  then show ?thesis using assms channel_write [of c] by (auto simp: at_end_Nil)
qed

theorem tcp_split_header_ub_witness:
  "channel_loop mk_mem_stream [[1, 2, 3], [4]] = Inl (UB ''read past the received bytes'')"
  using tcp_split_header_ub [of "[1, 2, 3]" "[[4]]"] by simp

text \<open>
  So is pipelining. If one \<^verbatim>\<open>recv\<close> returns a packet followed by more bytes than the packet has, the
  \<^verbatim>\<open>memcpy\<close> that moves them to the front copies between overlapping ranges.
\<close>

theorem tcp_pipelined_packets_ub:
  assumes "well_formed_packet p" "length p < length q" "length p + length q < 2 ^ 31"
  shows "channel_loop mk_mem_stream ((p @ q) # cs) = Inl (UB ''memcpy of overlapping ranges'')"
proof -
  have p: "8 \<le> length p" "packet_length (p @ q) = int (length p)" "p \<noteq> []"
    using assms(1) by (auto simp: well_formed_packet_def packet_length_append)
  obtain n where n: "length (p @ q) = Suc n" using p(3) by (cases "length (p @ q)") auto
  have "packet_turn (at_end (p @ q)) = Inl (UB ''memcpy of overlapping ranges'')"
    using assms(2,3) p by (simp add: packet_turn_at_end)
  then have "packet_loop (length (p @ q)) (at_end (p @ q)) = Inl (UB ''memcpy of overlapping ranges'')"
    by (simp only: n packet_loop.simps sum.case)
  then show ?thesis using assms(3) p(3) channel_write [of "p @ q"] by (simp add: at_end_Nil)
qed

theorem tcp_pipelined_packets_ub_witness:
  "channel_loop mk_mem_stream [packet8 @ packet8 @ packet8] = Inl (UB ''memcpy of overlapping ranges'')"
  using tcp_pipelined_packets_ub [OF packet8_ok(1), of "packet8 @ packet8" "[]"] by (simp add: packet8_ok)

end
