(* ===== verification/Event_Bytes.thy ===== *)
theory Event_Bytes
  imports Event_Thread Tcp_Channel
begin

text \<open>
  The object representation of \<^verbatim>\<open>EVENTINFO\<close> (\<^verbatim>\<open>include/eventdefs.hpp\<close>), the 4096 bytes the code reaches by
  casting a packet to \<^verbatim>\<open>void*\<close> before it goes to a socket or a shared-memory slot, and by casting a
  receive buffer to \<^verbatim>\<open>PEVENTINFO\<close>. Members stand in order and without padding, little-endian; a \<^verbatim>\<open>short\<close>
  or \<^verbatim>\<open>int\<close> is stored modulo its width.
\<close>

definition encode_addr :: "xtmaddr \<Rightarrow> bytes" where
  "encode_addr a = le_bytes 2 (unat (usZoneId a)) @ le_bytes 2 (unat (usSysId a)) @
     le_bytes 2 (unat (usParentId a)) @ le_bytes 2 (unat (usChildId a)) @ le_bytes 4 (unat (ulTmpPid a))"

definition encode_header :: "xtmmsghdr \<Rightarrow> bytes" where
  "encode_header h = le_bytes 4 (unat (nMagicCookie h)) @ le_bytes 4 (nat (nMsgLen h mod 2 ^ 32)) @
     encode_addr (stReceiver h) @ encode_addr (stSender h) @ le_bytes 2 (nat (snHopCnt h mod 2 ^ 16)) @
     le_bytes 2 (unat (usTransactionId h)) @ le_bytes 2 (nat (snSerNo h mod 2 ^ 16)) @
     le_bytes 2 (unat (usType h)) @ le_bytes 2 (unat (usSubType h)) @ le_bytes 2 (unat (hdr_reserved h))"

definition encode_line :: "arsline \<Rightarrow> bytes" where
  "encode_line l = le_bytes 2 (unat (usAreaId l)) @ le_bytes 2 (unat (usSystemId l)) @
     le_bytes 2 (unat (usBoardId l)) @ le_bytes 2 (unat (usTrunkId l)) @ le_bytes 2 (unat (usChannelId l)) @
     concat (map (\<lambda>w. le_bytes 2 (unat w)) (usReserved l))"

definition encode_event :: "eventinfo \<Rightarrow> bytes" where
  "encode_event e = encode_header (ev_h e) @ encode_line (ev_line e) @ ev_Value e"

definition u16_at :: "nat \<Rightarrow> bytes \<Rightarrow> u16" where
  "u16_at i b = of_nat (le_value (slice i 2 b))"

definition u32_at :: "nat \<Rightarrow> bytes \<Rightarrow> u32" where
  "u32_at i b = of_nat (le_value (slice i 4 b))"

definition short_at :: "nat \<Rightarrow> bytes \<Rightarrow> int" where
  "short_at i b = (int (le_value (slice i 2 b)) + 2 ^ 15) mod 2 ^ 16 - 2 ^ 15"

definition addr_at :: "nat \<Rightarrow> bytes \<Rightarrow> xtmaddr" where
  "addr_at i b = \<lparr>usZoneId = u16_at i b, usSysId = u16_at (i + 2) b, usParentId = u16_at (i + 4) b,
     usChildId = u16_at (i + 6) b, ulTmpPid = u32_at (i + 8) b\<rparr>"

definition decode_event :: "bytes \<Rightarrow> eventinfo" where
  "decode_event b =
     \<lparr>ev_h = \<lparr>nMagicCookie = u32_at 0 b, nMsgLen = packet_length b, stReceiver = addr_at 8 b,
        stSender = addr_at 20 b, snHopCnt = short_at 32 b, usTransactionId = u16_at 34 b,
        snSerNo = short_at 36 b, usType = u16_at 38 b, usSubType = u16_at 40 b, hdr_reserved = u16_at 42 b\<rparr>,
      ev_line = \<lparr>usAreaId = u16_at 44 b, usSystemId = u16_at 46 b, usBoardId = u16_at 48 b,
        usTrunkId = u16_at 50 b, usChannelId = u16_at 52 b,
        usReserved = [u16_at 54 b, u16_at 56 b, u16_at 58 b]\<rparr>,
      ev_Value = drop 60 b\<rparr>"

definition event_ok :: "eventinfo \<Rightarrow> bool" where
  "event_ok e \<longleftrightarrow> in_int32 (nMsgLen (ev_h e)) \<and> length (usReserved (ev_line e)) = 3 \<and>
     length (ev_Value e) = MAX_VALUE_SIZE \<and>
     - (2 ^ 15) \<le> snHopCnt (ev_h e) \<and> snHopCnt (ev_h e) < 2 ^ 15 \<and>
     - (2 ^ 15) \<le> snSerNo (ev_h e) \<and> snSerNo (ev_h e) < 2 ^ 15"

section \<open>Facts\<close>

lemma length_encode_addr [simp]: "length (encode_addr a) = 12"
  by (simp add: encode_addr_def)

lemma length_encode_header [simp]: "length (encode_header h) = 44"
  by (simp add: encode_header_def)

lemma length_encode_line [simp]: "length (usReserved l) = 3 \<Longrightarrow> length (encode_line l) = 16"
  by (simp add: encode_line_def length_concat comp_def sum_list_triv)

lemma length_encode_event: "event_ok e \<Longrightarrow> length (encode_event e) = MAX_EVENTINFO_SIZE"
  by (simp add: encode_event_def event_ok_def MAX_EVENTINFO_SIZE_def)

lemma le_value_u32: "le_value (le_bytes 4 (unat (w :: u32))) = unat w"
proof -
  have "unat w < 4294967296" using unsigned_less [of w] by simp
  then show ?thesis by simp
qed

lemma to_int32_mod: "in_int32 n \<Longrightarrow> to_int32 (n mod 4294967296) = n"
  by (simp add: to_int32_def in_int32_def mod_simps)

lemma short_mod:
  assumes "- 32768 \<le> n" "n < (32768 :: int)"
  shows "(n mod 65536 + 32768) mod 65536 - 32768 = n"
  using assms by (simp add: mod_simps)

lemma nat_mod_less: "nat (n mod 2 ^ 32) < 256 ^ 4" "nat (n mod 2 ^ 16) < 256 ^ 2"
  by (simp_all add: nat_less_iff)

lemma le_value_int:
  "le_value (le_bytes 4 (nat (n mod 2 ^ 32))) = nat (n mod 2 ^ 32)"
  "le_value (le_bytes 2 (nat (n mod 2 ^ 16))) = nat (n mod 2 ^ 16)"
  using nat_mod_less by (auto intro: le_value_le_bytes_id)

lemma addr_at_skip: "length xs \<le> i \<Longrightarrow> addr_at i (xs @ ys) = addr_at (i - length xs) ys"
  by (simp add: addr_at_def u16_at_def u32_at_def slice_skip Suc_diff_le)

lemma addr_at_first: "addr_at 0 (encode_addr a @ ys) = a"
  by (simp add: addr_at_def u16_at_def u32_at_def encode_addr_def slice_skip slice_first le_value_u16 le_value_u32)

lemma packet_length_encode: "event_ok e \<Longrightarrow> packet_length (encode_event e) = nMsgLen (ev_h e)"
  by (simp add: packet_length_def encode_event_def encode_header_def slice_skip slice_first le_value_int
      to_int32_mod event_ok_def)

lemma reserved_three:
  assumes "length xs = 3" shows "xs = [xs ! 0, xs ! 1, xs ! 2]"
  using assms by (auto simp: numeral_3_eq_3 length_Suc_conv)

lemma decode_encode_header:
  assumes "event_ok e"
  shows "ev_h (decode_event (encode_event e)) = ev_h e"
  using assms
  by (simp add: decode_event_def packet_length_encode)
    (simp add: event_ok_def encode_event_def encode_header_def addr_at_skip addr_at_first u16_at_def u32_at_def
      short_at_def slice_skip slice_first le_value_u16 le_value_u32 le_value_int short_mod)

lemma decode_encode_line:
  assumes "event_ok e"
  shows "ev_line (decode_event (encode_event e)) = ev_line e"
proof -
  have "length (usReserved (ev_line e)) = 3" using assms by (simp add: event_ok_def)
  then obtain a b c where "usReserved (ev_line e) = [a, b, c]" using reserved_three by blast
  then show ?thesis
    by (simp add: decode_event_def encode_event_def encode_line_def u16_at_def slice_skip slice_first le_value_u16)
qed

lemma decode_encode_event: "event_ok e \<Longrightarrow> decode_event (encode_event e) = e"
proof -
  assume ok: "event_ok e"
  have "ev_Value (decode_event (encode_event e)) = ev_Value e"
    using ok by (simp add: decode_event_def encode_event_def event_ok_def)
  then show ?thesis
    using decode_encode_header [OF ok] decode_encode_line [OF ok] by (intro eventinfo.equality) simp_all
qed

lemma slice_take: "i + k \<le> n \<Longrightarrow> slice i k (take n b) = slice i k b"
  by (simp add: slice_def drop_take min_def)

lemma slice_prefix: "take n b = take n c \<Longrightarrow> i + k \<le> n \<Longrightarrow> slice i k b = slice i k c"
  using slice_take [of i k n b] slice_take [of i k n c] by simp

text \<open>The header and line part of a packet are its first 60 bytes.\<close>

lemma decode_prefix:
  assumes "take n b = take n c" "60 \<le> n"
  shows "ev_h (decode_event b) = ev_h (decode_event c)" "ev_line (decode_event b) = ev_line (decode_event c)"
  using slice_prefix [OF assms(1)] assms(2)
  by (simp_all add: decode_event_def packet_length_def addr_at_def u16_at_def u32_at_def short_at_def)

end
