(* ===== verification/Sock.thy ===== *)
theory Sock
  imports C_Text
begin

text \<open>
  The socket classes (\<^verbatim>\<open>src/sock.cpp\<close>, \<^verbatim>\<open>include/sock.hpp\<close>): \<^verbatim>\<open>Socket\<close>, \<^verbatim>\<open>TcpSocket\<close>, \<^verbatim>\<open>UnixUdp\<close> and
  \<^verbatim>\<open>InetUdpSocket\<close>. The kernel appears as the set of descriptors the process has open, those of them
  in non-blocking mode, the addresses they are bound to, and the socket files in the file system. What
  a system call answers is an argument of the method that makes it: a descriptor or \<open>-1\<close> for
  \<^verbatim>\<open>socket\<close> and \<^verbatim>\<open>accept\<close>, success or failure for the others. \<open>inet_addr\<close> and \<open>gethostbyname\<close> are
  parameters. Log lines are not modelled.
\<close>

section \<open>State\<close>

datatype family = AF_UNIX | AF_INET

abbreviation INVALID_SOCKET :: int where "INVALID_SOCKET \<equiv> -1"

definition INADDR_NONE :: u32 where "INADDR_NONE = 0xffffffff"
definition INADDR_ANY :: u32 where "INADDR_ANY = 0"
definition INADDR_BROADCAST :: u32 where "INADDR_BROADCAST = 0xffffffff"

record kernel =
  k_fds :: "int set"
  k_nonblock :: "int set"
  k_bound :: "int \<rightharpoonup> u32 \<times> u16"
  k_files :: "string set"

record sock =
  sk_fd :: int
  sk_path :: string
  sk_family :: family

definition mk_sock :: sock where
  "mk_sock = \<lparr>sk_fd = INVALID_SOCKET, sk_path = [], sk_family = AF_INET\<rparr>"

definition k_close :: "int \<Rightarrow> kernel \<Rightarrow> kernel" where
  "k_close fd k =
     k\<lparr>k_fds := k_fds k - {fd}, k_nonblock := k_nonblock k - {fd}, k_bound := (k_bound k)(fd := None)\<rparr>"

section \<open>Socket\<close>

definition sock_close :: "'a sock_scheme \<Rightarrow> kernel \<Rightarrow> 'a sock_scheme \<times> kernel" where
  "sock_close s k =
     (let k1 = (if sk_fd s \<noteq> INVALID_SOCKET then k_close (sk_fd s) k else k);
          k2 = (if sk_path s \<noteq> [] then k1\<lparr>k_files := k_files k1 - {sk_path s}\<rparr> else k1)
      in (s\<lparr>sk_fd := INVALID_SOCKET, sk_path := []\<rparr>, k2))"

definition assign_socket :: "int \<Rightarrow> family \<Rightarrow> 'a sock_scheme \<Rightarrow> bool \<times> 'a sock_scheme" where
  "assign_socket hSocket nAddrType s = (True, s\<lparr>sk_fd := hSocket, sk_family := nAddrType\<rparr>)"

text \<open>\<open>fd\<close> is what \<^verbatim>\<open>socket\<close> returns, \<open>reuse_ok\<close> whether \<^verbatim>\<open>setsockopt(SO_REUSEADDR)\<close> succeeds.\<close>

definition create_socket ::
  "int \<Rightarrow> bool \<Rightarrow> family \<Rightarrow> 'a sock_scheme \<Rightarrow> kernel \<Rightarrow> bool \<times> 'a sock_scheme \<times> kernel" where
  "create_socket fd reuse_ok nAddrFormat s k =
     (if sk_fd s \<noteq> INVALID_SOCKET then (False, s, k)
      else if fd = INVALID_SOCKET then (False, s\<lparr>sk_family := nAddrFormat, sk_fd := fd\<rparr>, k)
      else let k1 = k\<lparr>k_fds := insert fd (k_fds k)\<rparr>
           in if nAddrFormat = AF_INET \<and> \<not> reuse_ok
              then (False, s\<lparr>sk_family := nAddrFormat, sk_fd := INVALID_SOCKET\<rparr>, k_close fd k1)
              else (True, s\<lparr>sk_family := nAddrFormat, sk_fd := fd\<rparr>, k1))"

text \<open>\<^verbatim>\<open>bind(pszPath)\<close> removes the file first; \<^verbatim>\<open>sun_path\<close> holds 107 characters.\<close>

definition bind_path :: "bool \<Rightarrow> string \<Rightarrow> 'a sock_scheme \<Rightarrow> kernel \<Rightarrow> bool \<times> kernel" where
  "bind_path bind_ok pszPath s k =
     (let k1 = k\<lparr>k_files := k_files k - {pszPath}\<rparr>
      in if bind_ok then (True, k1\<lparr>k_files := insert (take 107 pszPath) (k_files k1)\<rparr>) else (False, k1))"

text \<open>\<^verbatim>\<open>bind(nPort, pszAddr)\<close>; \<^verbatim>\<open>long\<close> has 64 bits, so the unsigned address is compared as it is.\<close>

definition bind_port ::
  "(string \<Rightarrow> u32) \<Rightarrow> bool \<Rightarrow> nat \<Rightarrow> string option \<Rightarrow> 'a sock_scheme \<Rightarrow> kernel \<Rightarrow> bool \<times> kernel" where
  "bind_port inet_addr bind_ok nPort pszAddr s k =
     (let do_bind = (\<lambda>addr. if bind_ok
            then (True, k\<lparr>k_bound := (k_bound k)(sk_fd s \<mapsto> (addr, of_nat nPort))\<rparr>) else (False, k))
      in case pszAddr of
           None \<Rightarrow> do_bind INADDR_ANY
         | Some a \<Rightarrow> (let lResult = uint (inet_addr a)
                      in if lResult = -1 then (False, k) else do_bind (inet_addr a)))"

definition sock_open_path ::
  "int \<Rightarrow> bool \<Rightarrow> string \<Rightarrow> 'a sock_scheme \<Rightarrow> kernel \<Rightarrow> bool \<times> 'a sock_scheme \<times> kernel" where
  "sock_open_path fd bind_ok pszPath s k =
     (let (created, s1, k1) = create_socket fd True AF_UNIX (s\<lparr>sk_path := pszPath\<rparr>) k
      in if \<not> created then (False, s1, k1)
         else let (bound, k2) = bind_path bind_ok pszPath s1 k1
              in if \<not> bound then (False, sock_close s1 k2) else (True, s1, k2))"

text \<open>\<^verbatim>\<open>select\<close>: \<open>selnum\<close> is the answer of the system call, \<open>isset\<close> whether the descriptor is in the set.\<close>

definition sock_select :: "int \<Rightarrow> bool \<Rightarrow> 'a sock_scheme \<Rightarrow> int" where
  "sock_select selnum isset s =
     (if sk_fd s = INVALID_SOCKET then -1
      else if selnum = -1 then -1
      else if selnum = 0 \<or> \<not> isset then 0 else 1)"

definition select_timeval :: "int \<Rightarrow> int \<times> int" where
  "select_timeval timeout =
     (let q = (if 0 \<le> timeout then timeout div 1000 else - ((- timeout) div 1000))
      in (q, (timeout - q * 1000) * 1000))"

text \<open>
  The address of a datagram's sender and the names of the two ends: \<open>addr\<close> is what the kernel
  answers, of the family of the socket, \<open>None\<close> when the call failed. It is received into a 16-byte
  \<^verbatim>\<open>sockaddr\<close>: of a socket file's path at most 14 bytes are stored, and with no NUL among them the
  \<^verbatim>\<open>%s\<close> conversion reads past the object.
\<close>

datatype sock_address = UnixAddr string | InetAddr u32 u16

definition show_sock_address :: "(u32 \<Rightarrow> string) \<Rightarrow> nat \<Rightarrow> sock_address \<Rightarrow> fault + string \<times> nat" where
  "show_sock_address inet_ntoa port a =
     (case a of
        UnixAddr p \<Rightarrow> if length p < 14 then Inr (snprintf 108 p, port) else Inl (UB ''sun_path beyond sockaddr'')
      | InetAddr ip n \<Rightarrow> Inr (snprintf 64 (inet_ntoa ip), unat n))"

definition sock_recv_from ::
  "(u32 \<Rightarrow> string) \<Rightarrow> (bytes \<times> sock_address) option \<Rightarrow> nat \<Rightarrow> string \<Rightarrow> nat \<Rightarrow> fault + int \<times> bytes \<times> string \<times> nat" where
  "sock_recv_from inet_ntoa datagram nBufLen rAddr rPort =
     (case datagram of
        None \<Rightarrow> Inr (-1, [], rAddr, rPort)
      | Some (bs, a) \<Rightarrow>
          (case show_sock_address inet_ntoa rPort a of
             Inl f \<Rightarrow> Inl f
           | Inr ap \<Rightarrow> Inr (int (length (take nBufLen bs)), take nBufLen bs, ap)))"

definition sock_name :: "(u32 \<Rightarrow> string) \<Rightarrow> sock_address option \<Rightarrow> string \<Rightarrow> nat \<Rightarrow> fault + bool \<times> string \<times> nat" where
  "sock_name inet_ntoa answer rAddr rPort =
     (case answer of
        None \<Rightarrow> Inr (False, rAddr, rPort)
      | Some a \<Rightarrow>
          (case show_sock_address inet_ntoa rPort a of Inl f \<Rightarrow> Inl f | Inr ap \<Rightarrow> Inr (True, ap)))"

definition peer_name :: "(u32 \<Rightarrow> string) \<Rightarrow> sock_address option \<Rightarrow> string \<Rightarrow> nat \<Rightarrow> fault + bool \<times> string \<times> nat" where
  "peer_name inet_ntoa answer rAddr rPort =
     (case answer of
        None \<Rightarrow> Inr (False, rAddr, rPort)
      | Some a \<Rightarrow>
          (case show_sock_address inet_ntoa rPort a of Inl f \<Rightarrow> Inl f | Inr ap \<Rightarrow> Inr (True, ap)))"

text \<open>
  \<^verbatim>\<open>send_to\<close>. The AF_UNIX loop retries until \<^verbatim>\<open>RETRY_COUNT\<close> attempts; \<open>answers\<close> are the results of the
  successive \<^verbatim>\<open>sendto\<close> calls. The result carries how many calls were made.
\<close>

definition RETRY_COUNT :: nat where "RETRY_COUNT = 1"

fun unix_send_loop :: "int \<Rightarrow> int \<Rightarrow> bool \<Rightarrow> nat \<Rightarrow> int list \<Rightarrow> (int \<times> nat) option" where
  "unix_send_loop ok nBufLen has_path retry [] = None"
| "unix_send_loop ok nBufLen has_path retry (len # answers) =
     (if len = nBufLen then Some (ok, Suc retry)
      else if RETRY_COUNT \<le> Suc retry \<or> \<not> has_path then Some (0, Suc retry)
      else unix_send_loop ok nBufLen has_path (Suc retry) answers)"

definition resolve :: "(string \<Rightarrow> u32) \<Rightarrow> (string \<Rightarrow> u32 option) \<Rightarrow> string \<Rightarrow> u32 option" where
  "resolve inet_addr gethostbyname host =
     (if inet_addr host = INADDR_NONE then gethostbyname host else Some (inet_addr host))"

definition sock_send_to ::
  "(string \<Rightarrow> u32) \<Rightarrow> (string \<Rightarrow> u32 option) \<Rightarrow> (sock_address \<Rightarrow> int list) \<Rightarrow> int \<Rightarrow> nat \<Rightarrow> string option
    \<Rightarrow> 'a sock_scheme \<Rightarrow> int option" where
  "sock_send_to inet_addr gethostbyname sendto nBufLen nHostPort host s =
     (if sk_family s = AF_UNIX
      then (case host of
              None \<Rightarrow> Some 0
            | Some h \<Rightarrow> map_option fst (unix_send_loop nBufLen nBufLen (sk_path s \<noteq> []) 0 (sendto (UnixAddr (take 107 h)))))
      else if sk_fd s = INVALID_SOCKET then Some (-1)
      else let send = (\<lambda>ip. case sendto (InetAddr ip (of_nat nHostPort)) of n # _ \<Rightarrow> Some n | [] \<Rightarrow> None)
           in case host of
                None \<Rightarrow> send INADDR_BROADCAST
              | Some h \<Rightarrow> (case resolve inet_addr gethostbyname h of None \<Rightarrow> Some (-1) | Some ip \<Rightarrow> send ip))"

section \<open>TcpSocket\<close>

record tcp_sock = sock +
  ts_port :: nat
  ts_addr_buf :: string
  ts_reconnect_interval :: int
  ts_reconnect_retry_count :: int
  ts_exit :: bool

definition mk_tcp_sock :: tcp_sock where
  "mk_tcp_sock = \<lparr>sk_fd = INVALID_SOCKET, sk_path = [], sk_family = AF_INET, ts_port = 0, ts_addr_buf = [],
     ts_reconnect_interval = 5, ts_reconnect_retry_count = 0, ts_exit = False\<rparr>"

text \<open>\<^verbatim>\<open>TcpSocket::open\<close> and \<^verbatim>\<open>InetUdpSocket::open\<close> differ in the socket type only.\<close>

definition inet_open ::
  "(string \<Rightarrow> u32) \<Rightarrow> int \<Rightarrow> bool \<Rightarrow> bool \<Rightarrow> nat \<Rightarrow> string option \<Rightarrow> 'a sock_scheme \<Rightarrow> kernel
    \<Rightarrow> bool \<times> 'a sock_scheme \<times> kernel" where
  "inet_open inet_addr fd reuse_ok bind_ok nPort pszAddr s k =
     (let (created, s1, k1) = create_socket fd reuse_ok AF_INET s k
      in if \<not> created then (False, s1, k1)
         else let (bound, k2) = bind_port inet_addr bind_ok nPort pszAddr s1 k1
              in if bound then (True, s1, k2) else (False, sock_close s1 k2))"

abbreviation inet_udp_open ::
  "(string \<Rightarrow> u32) \<Rightarrow> int \<Rightarrow> bool \<Rightarrow> bool \<Rightarrow> nat \<Rightarrow> string option \<Rightarrow> 'a sock_scheme \<Rightarrow> kernel
    \<Rightarrow> bool \<times> 'a sock_scheme \<times> kernel" where
  "inet_udp_open \<equiv> inet_open"

definition prepare_to_server ::
  "(string \<Rightarrow> u32) \<Rightarrow> int \<Rightarrow> bool \<Rightarrow> bool \<Rightarrow> bool \<Rightarrow> nat \<Rightarrow> string option \<Rightarrow> 'a sock_scheme \<Rightarrow> kernel
    \<Rightarrow> bool \<times> 'a sock_scheme \<times> kernel" where
  "prepare_to_server inet_addr fd reuse_ok bind_ok listen_ok nPort pszAddr s k =
     (let (opened, s1, k1) = inet_open inet_addr fd reuse_ok bind_ok nPort pszAddr s k
      in (opened \<and> listen_ok, s1, k1))"

text \<open>
  What the kernel answers to a connection attempt: the result of \<^verbatim>\<open>connect\<close> (success, in progress, or
  another error), the result of \<^verbatim>\<open>select\<close>, whether the descriptor is in one of the sets afterwards, and
  the result of \<^verbatim>\<open>getsockopt(SO_ERROR)\<close>, \<open>None\<close> when that call fails.
\<close>

datatype connect_answer = Connected | InProgress | Refused

record attempt =
  at_connect :: connect_answer
  at_select :: int
  at_isset :: bool
  at_so_error :: "int option"

definition connect_plain :: "attempt \<Rightarrow> 'a sock_scheme \<Rightarrow> kernel \<Rightarrow> bool \<times> 'a sock_scheme \<times> kernel" where
  "connect_plain at s k = (at_connect at = Connected, s, k)"

definition connect_timed :: "attempt \<Rightarrow> 'a sock_scheme \<Rightarrow> kernel \<Rightarrow> bool \<times> 'a sock_scheme \<times> kernel" where
  "connect_timed at s k =
     (let nFlags = sk_fd s \<in> k_nonblock k;
          k1 = k\<lparr>k_nonblock := insert (sk_fd s) (k_nonblock k)\<rparr>;
          restore = (\<lambda>k. k\<lparr>k_nonblock := (if nFlags then insert (sk_fd s) (k_nonblock k) else k_nonblock k - {sk_fd s})\<rparr>)
      in case at_connect at of
           Refused \<Rightarrow> (False, s, k1)
         | Connected \<Rightarrow> (True, s, restore k1)
         | InProgress \<Rightarrow>
             if at_select at = 0 then (False, sock_close s k1)
             else if at_isset at
             then (case at_so_error at of
                     None \<Rightarrow> (False, s, k1)
                   | Some e \<Rightarrow> if e \<noteq> 0 then (False, sock_close s (restore k1)) else (True, s, restore k1))
             else (False, s, k1))"

definition tcp_connect ::
  "(string \<Rightarrow> u32) \<Rightarrow> (string \<Rightarrow> u32 option) \<Rightarrow> (u32 \<Rightarrow> u16 \<Rightarrow> attempt) \<Rightarrow> nat \<Rightarrow> string option \<Rightarrow> bool
    \<Rightarrow> 'a sock_scheme \<Rightarrow> kernel \<Rightarrow> bool \<times> 'a sock_scheme \<times> kernel" where
  "tcp_connect inet_addr gethostbyname net nPort lpszAddr bBlock s k =
     (case lpszAddr of
        None \<Rightarrow> (False, s, k)
      | Some a \<Rightarrow>
          (case resolve inet_addr gethostbyname a of
             None \<Rightarrow> (False, s, k)
           | Some ip \<Rightarrow>
               if \<not> bBlock then connect_plain (net ip (of_nat nPort)) s k
               else connect_timed (net ip (of_nat nPort)) s k))"

definition prepare_to_client ::
  "(string \<Rightarrow> u32) \<Rightarrow> (string \<Rightarrow> u32 option) \<Rightarrow> (u32 \<Rightarrow> u16 \<Rightarrow> attempt) \<Rightarrow> int \<Rightarrow> bool \<Rightarrow> nat \<Rightarrow> string option \<Rightarrow> bool
    \<Rightarrow> tcp_sock \<Rightarrow> kernel \<Rightarrow> bool \<times> tcp_sock \<times> kernel" where
  "prepare_to_client inet_addr gethostbyname net fd reuse_ok nPort pszAddr bBlock s k =
     (let s0 = s\<lparr>ts_port := nPort, ts_addr_buf := take 15 (case pszAddr of Some a \<Rightarrow> a | None \<Rightarrow> [])\<rparr>;
          (created, s1, k1) = create_socket fd reuse_ok AF_INET s0 k
      in if \<not> created then (False, s1, k1)
         else let (ok, s2, k2) = tcp_connect inet_addr gethostbyname net nPort pszAddr bBlock s1 k1
              in if ok then (True, s2, k2) else (False, sock_close s2 k2))"

text \<open>
  \<^verbatim>\<open>reconnect\<close>. Each round has the descriptor \<^verbatim>\<open>socket\<close> returns, the answer of \<^verbatim>\<open>setsockopt\<close> and the
  answers of the network; \<open>None\<close> when the rounds given are used up and the loop still runs.
\<close>

type_synonym round = "int \<times> bool \<times> (u32 \<Rightarrow> u16 \<Rightarrow> attempt)"

fun reconnect ::
  "(string \<Rightarrow> u32) \<Rightarrow> (string \<Rightarrow> u32 option) \<Rightarrow> int \<Rightarrow> round list \<Rightarrow> tcp_sock \<Rightarrow> kernel
    \<Rightarrow> (bool \<times> tcp_sock \<times> kernel) option" where
  "reconnect inet_addr gethostbyname nCount rounds s k =
     (if ts_exit s then Some (False, s, k)
      else case rounds of
             [] \<Rightarrow> None
           | (fd, reuse_ok, net) # later \<Rightarrow>
               (let (s0, k0) = sock_close s k;
                    (ok, s1, k1) = prepare_to_client inet_addr gethostbyname net fd reuse_ok (ts_port s0)
                                     (Some (ts_addr_buf s0)) True s0 k0
                in if ok then Some (True, s1, k1)
                   else if ts_reconnect_retry_count s1 \<noteq> 0 \<and> ts_reconnect_retry_count s1 < nCount + 1
                   then Some (False, s1, k1)
                   else reconnect inet_addr gethostbyname (nCount + 1) later s1 k1))"

declare reconnect.simps [simp del]

text \<open>The two \<^verbatim>\<open>accept\<close> overloads; \<open>tmp\<close> is what the system call returns.\<close>

definition accept_into :: "int \<Rightarrow> 'a sock_scheme \<Rightarrow> kernel \<Rightarrow> bool \<times> 'a sock_scheme \<times> kernel" where
  "accept_into tmp s k =
     (if sk_fd s = INVALID_SOCKET then (False, s, k)
      else if tmp = INVALID_SOCKET then (False, s, k)
      else (True, s\<lparr>sk_fd := tmp\<rparr>, k\<lparr>k_fds := insert tmp (k_fds k)\<rparr>))"

definition accept_new :: "int \<Rightarrow> 'a sock_scheme \<Rightarrow> kernel \<Rightarrow> sock option \<times> kernel" where
  "accept_new nSocket s k =
     (if nSocket = INVALID_SOCKET then (None, k)
      else (Some (snd (assign_socket nSocket AF_INET mk_sock)), k\<lparr>k_fds := insert nSocket (k_fds k)\<rparr>))"

section \<open>UnixUdp\<close>

definition udp_send_to :: "(sock_address \<Rightarrow> int list) \<Rightarrow> string \<Rightarrow> int \<Rightarrow> 'a sock_scheme \<Rightarrow> int option" where
  "udp_send_to sendto sun_path nBuflen s =
     map_option fst (unix_send_loop 1 nBuflen (sk_path s \<noteq> []) 0 (sendto (UnixAddr sun_path)))"

fun unix_recv_loop :: "bool \<Rightarrow> nat \<Rightarrow> int list \<Rightarrow> int option" where
  "unix_recv_loop has_path retry [] = None"
| "unix_recv_loop has_path retry (len # answers) =
     (if 0 < len then Some len
      else if RETRY_COUNT \<le> Suc retry \<or> \<not> has_path then Some 0
      else unix_recv_loop has_path (Suc retry) answers)"

definition udp_recv_from :: "int list \<Rightarrow> 'a sock_scheme \<Rightarrow> int option" where
  "udp_recv_from answers s = unix_recv_loop (sk_path s \<noteq> []) 0 answers"

section \<open>Descriptors\<close>

text \<open>
  \<open>fresh_fd\<close> is what the kernel guarantees of a new descriptor; \<open>fd_inv\<close> says that the process has the
  descriptor of the socket open and \<open>others\<close>, which it is not one of.
\<close>

definition fresh_fd :: "int \<Rightarrow> kernel \<Rightarrow> bool" where
  "fresh_fd fd k \<longleftrightarrow> fd = INVALID_SOCKET \<or> 0 \<le> fd \<and> fd \<notin> k_fds k"

definition fd_inv :: "int set \<Rightarrow> 'a sock_scheme \<Rightarrow> kernel \<Rightarrow> bool" where
  "fd_inv others s k \<longleftrightarrow>
     INVALID_SOCKET \<notin> others \<and> sk_fd s \<notin> others \<and>
     k_fds k = (if sk_fd s = INVALID_SOCKET then others else insert (sk_fd s) others)"

lemma fd_inv_close: "fd_inv others s k \<Longrightarrow> sock_close s k = (s', k') \<Longrightarrow> fd_inv others s' k' \<and> sk_fd s' = INVALID_SOCKET \<and> k_fds k' = others"
  by (auto simp: fd_inv_def sock_close_def k_close_def Let_def split: if_splits)

lemma fd_inv_closed: "fd_inv others s k \<Longrightarrow> fd_inv others (fst (sock_close s k)) (snd (sock_close s k))"
  using fd_inv_close [of others s k] by (cases "sock_close s k") auto

lemma fd_inv_create:
  "fd_inv others s k \<Longrightarrow> fresh_fd fd k \<Longrightarrow> create_socket fd u fam s k = (r, s', k') \<Longrightarrow> fd_inv others s' k'"
  by (auto simp: fd_inv_def create_socket_def k_close_def fresh_fd_def Let_def split: if_splits)

lemma bind_path_frame: "bind_path b p s k = (r, k') \<Longrightarrow> k_fds k' = k_fds k"
  by (auto simp: bind_path_def Let_def split: if_splits)

lemma bind_port_frame: "bind_port ia b port a s k = (r, k') \<Longrightarrow> k_fds k' = k_fds k"
  by (auto simp: bind_port_def Let_def split: if_splits option.splits)

lemma fd_inv_frame: "fd_inv others s k \<Longrightarrow> k_fds k' = k_fds k \<Longrightarrow> sk_fd s' = sk_fd s \<Longrightarrow> fd_inv others s' k'"
  by (simp add: fd_inv_def)

lemma fd_inv_open_path:
  assumes "fd_inv others s k" "fresh_fd fd k" "sock_open_path fd b path s k = (r, s', k')"
  shows "fd_inv others s' k'"
proof -
  obtain c s1 k1 where c: "create_socket fd True AF_UNIX (s\<lparr>sk_path := path\<rparr>) k = (c, s1, k1)"
    using prod_cases3 by blast
  have "fd_inv others (s\<lparr>sk_path := path\<rparr>) k" using assms(1) by (rule fd_inv_frame) simp_all
  then have 1: "fd_inv others s1 k1" using assms(2) c by (rule fd_inv_create)
  obtain bd k2 where b: "bind_path b path s1 k1 = (bd, k2)" by (cases "bind_path b path s1 k1")
  then have 2: "fd_inv others s1 k2" using fd_inv_frame [OF 1] bind_path_frame by blast
  show ?thesis
    using assms(3) c b 1 2 fd_inv_closed [OF 2]
    by (cases "sock_close s1 k2") (simp add: sock_open_path_def split: if_splits)
qed

lemma fd_inv_inet_open:
  assumes "fd_inv others s k" "fresh_fd fd k" "inet_open ia fd u b port a s k = (r, s', k')"
  shows "fd_inv others s' k'"
proof -
  obtain c s1 k1 where c: "create_socket fd u AF_INET s k = (c, s1, k1)" using prod_cases3 by blast
  have 1: "fd_inv others s1 k1" using assms(1,2) c by (rule fd_inv_create)
  obtain bd k2 where b: "bind_port ia b port a s1 k1 = (bd, k2)" by (cases "bind_port ia b port a s1 k1")
  then have 2: "fd_inv others s1 k2" using fd_inv_frame [OF 1] bind_port_frame by blast
  show ?thesis
    using assms(3) c b 1 2 fd_inv_closed [OF 2]
    by (cases "sock_close s1 k2") (simp add: inet_open_def split: if_splits)
qed

lemma fd_inv_connect_timed:
  assumes "fd_inv others s k" "connect_timed at s k = (r, s', k')"
  shows "fd_inv others s' k'"
proof -
  have nb: "fd_inv others s (k\<lparr>k_nonblock := n\<rparr>)" for n using assms(1) by (simp add: fd_inv_def)
  then have cl: "fd_inv others (fst (sock_close s (k\<lparr>k_nonblock := n\<rparr>))) (snd (sock_close s (k\<lparr>k_nonblock := n\<rparr>)))" for n
    by (rule fd_inv_closed)
  show ?thesis
    using assms(2) nb cl [of "insert (sk_fd s) (k_nonblock k)"] cl [of "k_nonblock k"] cl [of "k_nonblock k - {sk_fd s}"]
    by (auto simp: connect_timed_def Let_def insert_absorb split: connect_answer.splits option.splits if_splits)
qed

lemma fd_inv_connect:
  "fd_inv others s k \<Longrightarrow> tcp_connect ia gh net port a blk s k = (r, s', k') \<Longrightarrow> fd_inv others s' k'"
  by (auto simp: tcp_connect_def connect_plain_def intro: fd_inv_connect_timed split: option.splits if_splits)

lemma fd_inv_client:
  assumes "fd_inv others s k" "fresh_fd fd k" "prepare_to_client ia gh net fd u port a blk s k = (r, s', k')"
  shows "fd_inv others s' k'" "\<not> r \<Longrightarrow> sk_fd s = INVALID_SOCKET \<Longrightarrow> sk_fd s' = INVALID_SOCKET"
proof -
  let ?s = "s\<lparr>ts_port := port, ts_addr_buf := take 15 (case a of Some a \<Rightarrow> a | None \<Rightarrow> [])\<rparr>"
  obtain c s1 k1 where c: "create_socket fd u AF_INET ?s k = (c, s1, k1)" using prod_cases3 by blast
  have "fd_inv others ?s k" using assms(1) by (rule fd_inv_frame) simp_all
  then have 1: "fd_inv others s1 k1" using assms(2) c by (rule fd_inv_create)
  obtain ok s2 k2 where t: "tcp_connect ia gh net port a blk s1 k1 = (ok, s2, k2)" using prod_cases3 by blast
  then have 2: "fd_inv others s2 k2" using 1 fd_inv_connect by blast
  have r: "(r, s', k') = (if \<not> c then (False, s1, k1) else if ok then (True, s2, k2) else (False, sock_close s2 k2))"
    using assms(3) c t by (auto simp: prepare_to_client_def Let_def)
  then show "fd_inv others s' k'"
    using 1 2 fd_inv_closed [OF 2] by (cases "sock_close s2 k2") (simp split: if_splits)
  have "\<not> c \<Longrightarrow> sk_fd s = INVALID_SOCKET \<Longrightarrow> sk_fd s1 = INVALID_SOCKET"
    using c by (auto simp: create_socket_def Let_def split: if_splits)
  then show "\<not> r \<Longrightarrow> sk_fd s = INVALID_SOCKET \<Longrightarrow> sk_fd s' = INVALID_SOCKET"
    using r by (auto simp: sock_close_def Let_def split: if_splits)
qed

section \<open>Reconnecting\<close>

lemma tcp_settings_kept:
  "ts_exit (fst (sock_close s k)) = ts_exit s" "ts_reconnect_retry_count (fst (sock_close s k)) = ts_reconnect_retry_count s"
  "ts_addr_buf (fst (sock_close s k)) = ts_addr_buf s" "ts_port (fst (sock_close s k)) = ts_port s"
  by (simp_all add: sock_close_def Let_def)

lemma create_socket_settings:
  assumes "create_socket fd u fam s k = (r, s', k')"
  shows "ts_exit s' = ts_exit s \<and> ts_reconnect_retry_count s' = ts_reconnect_retry_count s \<and>
    ts_addr_buf s' = ts_addr_buf s \<and> ts_port s' = ts_port s"
  using assms by (auto simp: create_socket_def Let_def split: if_splits)

lemma connect_refused:
  assumes "\<And>ip p. at_connect (net ip p) = Refused" "tcp_connect ia gh net port a blk s k = (r, s', k')"
  shows "\<not> r \<and> s' = s"
  using assms(2) by (auto simp: tcp_connect_def connect_plain_def connect_timed_def assms(1) split: option.splits if_splits)

lemma client_refused:
  assumes "\<And>ip p. at_connect (net ip p) = Refused" "prepare_to_client ia gh net fd u port a blk s k = (r, s', k')"
  shows "\<not> r \<and> ts_exit s' = ts_exit s \<and> ts_reconnect_retry_count s' = ts_reconnect_retry_count s"
proof -
  let ?s = "s\<lparr>ts_port := port, ts_addr_buf := take 15 (case a of Some a \<Rightarrow> a | None \<Rightarrow> [])\<rparr>"
  obtain c s1 k1 where c: "create_socket fd u AF_INET ?s k = (c, s1, k1)" using prod_cases3 by blast
  obtain ok s2 k2 where t: "tcp_connect ia gh net port a blk s1 k1 = (ok, s2, k2)" using prod_cases3 by blast
  have "\<not> ok" "s2 = s1" using connect_refused [OF assms(1) t] by auto
  then show ?thesis
    using assms(2) c t create_socket_settings [OF c] tcp_settings_kept [of s1 k2]
    by (cases "sock_close s1 k2") (auto simp: prepare_to_client_def Let_def split: if_splits)
qed

definition unreachable :: "round \<Rightarrow> bool" where
  "unreachable rd \<longleftrightarrow> (\<forall>ip p. at_connect (snd (snd rd) ip p) = Refused)"

lemma reconnect_refused:
  assumes "\<not> ts_exit s" "\<forall>rd\<in>set rounds. unreachable rd"
  shows "if ts_reconnect_retry_count s \<noteq> 0 \<and> rounds \<noteq> [] \<and> ts_reconnect_retry_count s < nCount + int (length rounds)
    then \<exists>s' k'. reconnect ia gh nCount rounds s k = Some (False, s', k')
    else reconnect ia gh nCount rounds s k = None"
  using assms
proof (induction rounds arbitrary: nCount s k)
  case Nil
  then show ?case by (simp add: reconnect.simps)
next
  case (Cons rd rounds)
  obtain fd u net where rd: "rd = (fd, u, net)" by (cases rd)
  obtain s0 k0 where c: "sock_close s k = (s0, k0)" by (cases "sock_close s k")
  obtain ok s1 k1 where p: "prepare_to_client ia gh net fd u (ts_port s0) (Some (ts_addr_buf s0)) True s0 k0 = (ok, s1, k1)"
    using prod_cases3 by blast
  have "at_connect (net ip q) = Refused" for ip q using Cons.prems(2) rd by (simp add: unreachable_def)
  then have set: "\<not> ok" "ts_exit s1 = ts_exit s" "ts_reconnect_retry_count s1 = ts_reconnect_retry_count s"
    using client_refused [OF _ p] tcp_settings_kept [of s k] c by simp_all
  have step: "reconnect ia gh nCount (rd # rounds) s k =
      (if ts_reconnect_retry_count s \<noteq> 0 \<and> ts_reconnect_retry_count s < nCount + 1 then Some (False, s1, k1)
       else reconnect ia gh (nCount + 1) rounds s1 k1)"
    using Cons.prems(1) by (subst reconnect.simps) (simp add: rd c p set)
  show ?case
    using Cons.IH [of s1 "nCount + 1" k1] Cons.prems set step by (auto simp: algebra_simps split: if_splits)
qed

section \<open>Properties\<close>

text \<open>
  A refused second \<^verbatim>\<open>open\<close> makes \<^verbatim>\<open>close\<close> remove the wrong file. \<^verbatim>\<open>Socket::open\<close> records the new
  path before it finds that the socket is already open: when a socket bound to \<open>p\<close> is asked to open
  \<open>p'\<close> it returns false, and closing it then deletes \<open>p'\<close>, whoever owns it, and leaves \<open>p\<close> behind.
\<close>

theorem sock_failed_open_unlinks_other:
  assumes "sock_open_path fd True p s k = (True, s1, k1)" "length p \<le> 107" "p' \<noteq> p" "p' \<noteq> []"
    "sock_open_path fd' b p' s1 k1 = (r, s2, k2)" "sock_close s2 k2 = (s3, k3)"
  shows "\<not> r \<and> p \<in> k_files k3 \<and> p' \<notin> k_files k3"
proof -
  have s1: "sk_fd s1 \<noteq> INVALID_SOCKET" "p \<in> k_files k1"
    using assms(1,2) by (auto simp: sock_open_path_def create_socket_def bind_path_def sock_close_def Let_def split: if_splits)
  then have "r = False" "s2 = s1\<lparr>sk_path := p'\<rparr>" "k2 = k1"
    using assms(5) by (auto simp: sock_open_path_def create_socket_def)
  then show ?thesis using assms(3,4,6) s1 by (auto simp: sock_close_def k_close_def Let_def)
qed

theorem sock_failed_open_unlinks_other_witness:
  "\<exists>s1 k1 s2 k2 s3 k3.
     sock_open_path 5 True ''/tmp/a'' mk_sock \<lparr>k_fds = {}, k_nonblock = {}, k_bound = Map.empty, k_files = {''/tmp/b''}\<rparr>
       = (True, s1, k1) \<and>
     sock_open_path 6 True ''/tmp/b'' s1 k1 = (False, s2, k2) \<and> sock_close s2 k2 = (s3, k3) \<and>
     ''/tmp/a'' \<in> k_files k3 \<and> ''/tmp/b'' \<notin> k_files k3"
proof -
  let ?k = "\<lparr>k_fds = {}, k_nonblock = {}, k_bound = Map.empty, k_files = {''/tmp/b''}\<rparr>"
  obtain r1 s1 k1 where o: "sock_open_path 5 True ''/tmp/a'' mk_sock ?k = (r1, s1, k1)" using prod_cases3 by blast
  then have "r1" by (auto simp: sock_open_path_def create_socket_def bind_path_def mk_sock_def Let_def)
  moreover obtain r s2 k2 where o2: "sock_open_path 6 True ''/tmp/b'' s1 k1 = (r, s2, k2)" using prod_cases3 by blast
  moreover obtain s3 k3 where c: "sock_close s2 k2 = (s3, k3)" by (cases "sock_close s2 k2")
  ultimately have "\<not> r \<and> ''/tmp/a'' \<in> k_files k3 \<and> ''/tmp/b'' \<notin> k_files k3"
    using sock_failed_open_unlinks_other [of 5 "''/tmp/a''" mk_sock ?k s1 k1 "''/tmp/b''" 6 True r s2 k2 s3 k3] o by simp
  then show ?thesis using o o2 c \<open>r1\<close> by auto
qed

text \<open>
  \<^verbatim>\<open>reconnect\<close> keeps its retry limit. Against a peer that refuses every attempt, with a limit \<open>n\<close>
  other than 0 it gives up with false after exactly \<open>n + 1\<close> attempts; with limit 0 it never gives up.
\<close>

theorem reconnect_gives_up:
  assumes "\<not> ts_exit s" "\<forall>rd\<in>set rounds. unreachable rd" "0 \<le> ts_reconnect_retry_count s"
  shows "(reconnect ia gh 0 rounds s k = None \<longleftrightarrow>
      ts_reconnect_retry_count s = 0 \<or> int (length rounds) \<le> ts_reconnect_retry_count s) \<and>
    (\<forall>r s' k'. reconnect ia gh 0 rounds s k = Some (r, s', k') \<longrightarrow> \<not> r)"
proof -
  have "rounds = [] \<longleftrightarrow> length rounds = 0" by simp
  then show ?thesis
    using reconnect_refused [OF assms(1,2), of 0 ia gh k] assms(3) by (auto split: if_splits)
qed

theorem reconnect_gives_up_witness:
  "reconnect (\<lambda>_. 1) (\<lambda>_. None) 0 (replicate 2 (-1, True, \<lambda>_ _. \<lparr>at_connect = Refused, at_select = 0, at_isset = False, at_so_error = None\<rparr>))
     (mk_tcp_sock\<lparr>ts_reconnect_retry_count := 1\<rparr>) \<lparr>k_fds = {}, k_nonblock = {}, k_bound = Map.empty, k_files = {}\<rparr> \<noteq> None"
  by (subst reconnect_gives_up [THEN conjunct1]) (auto simp: mk_tcp_sock_def unreachable_def)

text \<open>
  An interrupted wait counts as a connection: \<^verbatim>\<open>connect\<close> tests \<^verbatim>\<open>select\<close> for 0 only, and after a failed
  \<^verbatim>\<open>select\<close> the sets still contain the descriptor and no socket error is pending yet.
\<close>

lemma connect_interrupted_reports_success:
  "fst (connect_timed \<lparr>at_connect = InProgress, at_select = -1, at_isset = True, at_so_error = Some 0\<rparr> s k)"
  by (simp add: connect_timed_def Let_def)

text \<open>A host name is kept in 16 bytes, so \<^verbatim>\<open>reconnect\<close> resolves its first 15 characters.\<close>

lemma client_host_truncated:
  assumes "prepare_to_client ia gh net fd u port (Some h) blk s k = (r, s', k')"
  shows "ts_addr_buf s' = take 15 h"
proof -
  let ?s = "s\<lparr>ts_port := port, ts_addr_buf := take 15 h\<rparr>"
  obtain c s1 k1 where c: "create_socket fd u AF_INET ?s k = (c, s1, k1)" using prod_cases3 by blast
  obtain ok s2 k2 where t: "tcp_connect ia gh net port (Some h) blk s1 k1 = (ok, s2, k2)" using prod_cases3 by blast
  have "ts_addr_buf s2 = ts_addr_buf s1"
    using t by (auto simp: tcp_connect_def connect_plain_def connect_timed_def sock_close_def Let_def
        split: option.splits if_splits connect_answer.splits)
  then show ?thesis
    using assms c t create_socket_settings [OF c] tcp_settings_kept(3) [of s2 k2]
    by (cases "sock_close s2 k2") (auto simp: prepare_to_client_def Let_def split: if_splits)
qed

text \<open>An address that \<^verbatim>\<open>inet_addr\<close> cannot read is not noticed where \<^verbatim>\<open>long\<close> has 64 bits.\<close>

lemma bind_port_accepts_bad_address:
  "inet_addr a = INADDR_NONE \<Longrightarrow> bind_port inet_addr True port (Some a) s k =
     (True, k\<lparr>k_bound := (k_bound k)(sk_fd s \<mapsto> (INADDR_NONE, of_nat port))\<rparr>)"
  by (simp add: bind_port_def INADDR_NONE_def)

text \<open>The listening descriptor is lost when \<^verbatim>\<open>accept\<close> stores the new one over it.\<close>

lemma accept_into_leaks:
  assumes "sk_fd s \<in> k_fds k" "sk_fd s \<noteq> INVALID_SOCKET" "tmp \<noteq> INVALID_SOCKET" "tmp \<noteq> sk_fd s"
    "accept_into tmp s k = (r, s', k')" "sock_close s' k' = (s'', k'')"
  shows "sk_fd s \<in> k_fds k''"
  using assms by (auto simp: accept_into_def sock_close_def k_close_def Let_def)

text \<open>With \<^verbatim>\<open>RETRY_COUNT\<close> 1 the datagram loops make one attempt, and report failure as 0.\<close>

lemma unix_loops_once:
  "unix_send_loop ok n p 0 (len # answers) = Some (if len = n then ok else 0, 1)"
  "unix_recv_loop p 0 (len # answers) = Some (if 0 < len then len else 0)"
  by (simp_all add: RETRY_COUNT_def)

lemma select_timeval_exact:
  assumes "select_timeval t = (sec, usec)"
  shows "sec * 1000000 + usec = t * 1000" "0 \<le> t \<Longrightarrow> 0 \<le> usec \<and> usec < 1000000"
proof -
  have s: "sec = (if 0 \<le> t then t div 1000 else - ((- t) div 1000))" "usec = (t - sec * 1000) * 1000"
    using assms by (auto simp: select_timeval_def Let_def)
  show "sec * 1000000 + usec = t * 1000" unfolding s(2) by simp
  show "0 \<le> t \<Longrightarrow> 0 \<le> usec \<and> usec < 1000000" using s minus_div_mult_eq_mod [of t 1000] by simp
qed

text \<open>A datagram from a socket file with a path of 14 characters or more is read past its address.\<close>

lemma recv_from_long_path_ub:
  "14 \<le> length p \<Longrightarrow> \<exists>f. sock_recv_from nt (Some (bs, UnixAddr p)) n ra rp = Inl f"
  by (simp add: sock_recv_from_def show_sock_address_def)

end
