(* ===== verification/Udp_Server.thy ===== *)
theory Udp_Server
  imports Event_Bytes Sock
begin

text \<open>
  The datagram wrappers (\<^verbatim>\<open>src/udpserver.cpp\<close>, \<^verbatim>\<open>include/udpserver.hpp\<close>) over Unix and Internet sockets:
  senders, receivers with their receive loop, servers with the \<^verbatim>\<open>OnBeforeSend\<close> callback, and
  \<^verbatim>\<open>UUdpIfThread\<close>, which overrides the callbacks with its \<^verbatim>\<open>send_handle\<close> and \<^verbatim>\<open>recv_handle\<close>. A packet is the
  4096 bytes of an \<^verbatim>\<open>EVENTINFO\<close>. The receive loop is a function of what \<^verbatim>\<open>recvfrom\<close> delivers: the bytes
  of a datagram, or \<open>None\<close> for an error. Callbacks are functions on the packet.
\<close>

section \<open>Sending\<close>

text \<open>\<^verbatim>\<open>send_to(pInfo, dest)\<close>: the first \<^verbatim>\<open>EVENTINFO_LENGTH(pInfo)\<close> bytes of the packet go out.\<close>

definition udp_datagram :: "bytes \<Rightarrow> int \<Rightarrow> fault + bytes" where
  "udp_datagram pInfo nLen =
     (if nLen < 0 \<or> int (length pInfo) < nLen then Inl (UB ''send beyond the packet'')
      else Inr (take (nat nLen) pInfo))"

definition udp_sender_send_event :: "bytes \<Rightarrow> fault + bytes" where
  "udp_sender_send_event pInfo = udp_datagram pInfo (packet_length pInfo)"

definition udp_sender_send :: "bytes \<Rightarrow> int \<Rightarrow> fault + bytes" where
  "udp_sender_send pInfo nLen = udp_datagram pInfo nLen"

text \<open>The senders open their socket: a bare Unix one, and an Internet one on any port.\<close>

definition uudp_sender_open :: "int \<Rightarrow> sock \<Rightarrow> kernel \<Rightarrow> bool \<times> sock \<times> kernel" where
  "uudp_sender_open fd s k = create_socket fd True AF_UNIX s k"

definition iudp_sender_open :: "(string \<Rightarrow> u32) \<Rightarrow> int \<Rightarrow> bool \<Rightarrow> bool \<Rightarrow> sock \<Rightarrow> kernel \<Rightarrow> bool \<times> sock \<times> kernel" where
  "iudp_sender_open inet_addr fd reuse_ok bind_ok s k = inet_udp_open inet_addr fd reuse_ok bind_ok 0 None s k"

text \<open>The servers first give the packet and its length to \<^verbatim>\<open>OnBeforeSend\<close>, which may change both.\<close>

definition udp_server_send_event :: "(bytes \<times> int \<Rightarrow> bytes \<times> int) option \<Rightarrow> bytes \<Rightarrow> fault + bytes" where
  "udp_server_send_event OnBeforeSend pInfo =
     (let nLen = packet_length pInfo;
          pInfo' = (case OnBeforeSend of None \<Rightarrow> pInfo | Some f \<Rightarrow> fst (f (pInfo, nLen)))
      in udp_sender_send_event pInfo')"

definition udp_server_send :: "(bytes \<times> int \<Rightarrow> bytes \<times> int) option \<Rightarrow> bytes \<Rightarrow> int \<Rightarrow> fault + bytes" where
  "udp_server_send OnBeforeSend pInfo nLen =
     (let (pInfo', nLen') = (case OnBeforeSend of None \<Rightarrow> (pInfo, nLen) | Some f \<Rightarrow> f (pInfo, nLen))
      in udp_sender_send pInfo' nLen')"

section \<open>Receiving\<close>

definition set_msg_len :: "int \<Rightarrow> bytes \<Rightarrow> bytes" where
  "set_msg_len nLen b = blit 4 (le_bytes 4 (nat (nLen mod 2 ^ 32))) b"

text \<open>\<^verbatim>\<open>add_event(pBuffer)\<close>: the callback gets the packet and its length field.\<close>

definition udp_add_event :: "bytes \<Rightarrow> bytes \<times> int" where
  "udp_add_event pBuffer = (pBuffer, packet_length pBuffer)"

text \<open>\<^verbatim>\<open>UUdpReceiver::add_event(pBuffer, nLen)\<close> wraps raw bytes in a packet of type 1, subtype 2, and
  \<^verbatim>\<open>IUdpReceiver::add_event(Buffer, nLen)\<close> passes them on.\<close>

definition uudp_add_raw :: "bytes option \<Rightarrow> int \<Rightarrow> fault + (eventinfo \<times> int)" where
  "uudp_add_raw pBuffer nLen =
     (case fill_value pBuffer nLen (ev_Value zero_event) of
        Inl f \<Rightarrow> Inl f
      | Inr v \<Rightarrow>
          (case add_int32 (int EVENTINFO_HEADER_LENGTH) nLen of
             None \<Rightarrow> Inl (UB ''int overflow'')
           | Some len \<Rightarrow>
               Inr (zero_event\<lparr>ev_h := (ev_h zero_event)\<lparr>usType := 1, usSubType := 2, nMsgLen := len\<rparr>,
                               ev_Value := v\<rparr>, len)))"

definition iudp_add_raw :: "bytes \<Rightarrow> int \<Rightarrow> bytes \<times> int" where
  "iudp_add_raw Buffer nLen = (Buffer, nLen)"

text \<open>
  The receive loop, with the packet buffer as its state. A datagram is cut to the buffer; its length
  replaces a length field that disagrees. The loop ends when \<^verbatim>\<open>recv_from\<close> returns less than 1. The
  result is what the callback got, in order, and whether the thread is still receiving when the given
  datagrams are used up.
\<close>

fun udp_recv_loop :: "bytes \<Rightarrow> bytes option list \<Rightarrow> (bytes \<times> int) list \<times> bool" where
  "udp_recv_loop packet [] = ([], True)"
| "udp_recv_loop packet (None # rs) = ([], False)"
| "udp_recv_loop packet (Some d # rs) =
     (let data = take MAX_EVENTINFO_SIZE d; nLen = int (length data)
      in if nLen < 1 then ([], False)
         else let p = blit 0 data packet;
                  p' = (if nLen \<noteq> packet_length p then set_msg_len nLen p else p);
                  (rest, alive) = udp_recv_loop p' rs
              in (udp_add_event p' # rest, alive))"

text \<open>The start of the receivers: they throw when the socket cannot be opened.\<close>

definition uudp_receiver_start :: "int \<Rightarrow> bool \<Rightarrow> string \<Rightarrow> sock \<Rightarrow> kernel \<Rightarrow> fault + sock \<times> kernel" where
  "uudp_receiver_start fd bind_ok pszPath s k =
     (let (ok, s', k') = sock_open_path fd bind_ok pszPath s k
      in if \<not> ok then Inl (PdkException ''UUdpReceiver Create Error'') else Inr (s', k'))"

definition iudp_receiver_start ::
  "(string \<Rightarrow> u32) \<Rightarrow> int \<Rightarrow> bool \<Rightarrow> bool \<Rightarrow> string option \<Rightarrow> nat \<Rightarrow> int \<Rightarrow> sock \<Rightarrow> kernel \<Rightarrow> fault + bool \<times> sock \<times> kernel" where
  "iudp_receiver_start inet_addr fd reuse_ok bind_ok pszAddr nPort create_ret s k =
     (let (ok, s', k') = inet_udp_open inet_addr fd reuse_ok bind_ok nPort pszAddr s k
      in if \<not> ok then Inl (PdkException ''IUdpReceiver Create Error'') else Inr (create_ret = 1, s', k'))"

text \<open>\<^verbatim>\<open>UUdpServer::start\<close> goes on without a send socket, \<^verbatim>\<open>IUdpServer::start\<close> throws.\<close>

definition uudp_server_start ::
  "int \<Rightarrow> int \<Rightarrow> bool \<Rightarrow> string \<Rightarrow> sock \<Rightarrow> sock \<Rightarrow> kernel \<Rightarrow> fault + sock \<times> sock \<times> kernel" where
  "uudp_server_start send_fd recv_fd bind_ok pszPath snd_sock rcv_sock k =
     (let (opened, s1, k1) = uudp_sender_open send_fd snd_sock k
      in case uudp_receiver_start recv_fd bind_ok pszPath rcv_sock k1 of
           Inl f \<Rightarrow> Inl f
         | Inr (r1, k2) \<Rightarrow> Inr (s1, r1, k2))"

definition iudp_server_start ::
  "(string \<Rightarrow> u32) \<Rightarrow> int \<Rightarrow> int \<Rightarrow> bool \<Rightarrow> bool \<Rightarrow> bool \<Rightarrow> bool \<Rightarrow> string option \<Rightarrow> nat \<Rightarrow> int \<Rightarrow> sock \<Rightarrow> sock \<Rightarrow> kernel
    \<Rightarrow> fault + bool \<times> sock \<times> sock \<times> kernel" where
  "iudp_server_start inet_addr send_fd recv_fd u1 b1 u2 b2 pszAddr nPort create_ret snd_sock rcv_sock k =
     (let (opened, s1, k1) = iudp_sender_open inet_addr send_fd u1 b1 snd_sock k
      in if \<not> opened then Inl (PdkException ''IUdpServer Create Error'')
         else case iudp_receiver_start inet_addr recv_fd u2 b2 pszAddr nPort create_ret rcv_sock k1 of
                Inl f \<Rightarrow> Inl f
              | Inr (r, r1, k2) \<Rightarrow> Inr (r, s1, r1, k2))"

section \<open>UUdpIfThread\<close>

text \<open>
  The overridden \<^verbatim>\<open>send_handle\<close> works on the packet in place and gets the length by value; the channel's
  \<^verbatim>\<open>OnBeforeSend\<close> is \<^verbatim>\<open>before_send\<close>, which calls it too.
\<close>

definition before_send :: "(bytes \<times> int \<Rightarrow> bytes) \<Rightarrow> bytes \<times> int \<Rightarrow> bytes \<times> int" where
  "before_send send_handle = (\<lambda>(p, nLen). (send_handle (p, nLen), nLen))"

definition udpif_send_to :: "(bytes \<times> int \<Rightarrow> bytes) \<Rightarrow> bytes \<Rightarrow> int \<Rightarrow> fault + bytes" where
  "udpif_send_to send_handle Buffer nLen =
     udp_server_send_event (Some (before_send send_handle)) (set_msg_len nLen (send_handle (Buffer, nLen)))"

text \<open>The event loop hands the events of the queue to \<^verbatim>\<open>recv_handle\<close>.\<close>

definition udpif_turn :: "qthread \<Rightarrow> (fault + (eventinfo \<times> int) \<times> qthread) outcome" where
  "udpif_turn s =
     (case qthread_remove s of
        Blocked \<Rightarrow> Blocked
      | Ret (p, s') \<Rightarrow>
          Ret (case queue_deref p (qt_queue s') of
                 None \<Rightarrow> Inl (UB ''null packet'')
               | Some e \<Rightarrow> Inr ((e, nMsgLen (ev_h e)), s')))"

section \<open>The length field\<close>

lemma length_set_msg_len [simp]: "8 \<le> length b \<Longrightarrow> length (set_msg_len n b) = length b"
  by (simp add: set_msg_len_def)

lemma packet_length_set:
  assumes "8 \<le> length b" "0 \<le> n" "n < 2 ^ 31"
  shows "packet_length (set_msg_len n b) = n"
proof -
  have "slice 4 4 (set_msg_len n b) = le_bytes 4 (nat (n mod 2 ^ 32))"
    unfolding set_msg_len_def using assms(1) by (intro slice_blit_len) simp_all
  then show ?thesis
    using assms(2,3) by (simp add: packet_length_def le_value_int) (simp add: in_int32_def)
qed

lemma to_int32_upper: "2 ^ 31 \<le> v \<Longrightarrow> v < 2 ^ 32 \<Longrightarrow> to_int32 v < 0"
proof -
  assume v: "2 ^ 31 \<le> v" "v < 2 ^ 32"
  have "(v + 2 ^ 31) mod 2 ^ 32 = ((v - 2 ^ 31) + 2 ^ 32) mod 2 ^ 32" by (simp add: add.commute)
  also have "\<dots> = v - 2 ^ 31" using v by (simp only: mod_add_self2) (simp add: mod_pos_pos_trivial)
  finally show ?thesis using v by (simp add: to_int32_def)
qed

lemma set_msg_len_same:
  assumes "8 \<le> length b" "packet_length b = n" "0 \<le> n"
  shows "set_msg_len n b = b"
proof -
  let ?v = "le_value (slice 4 4 b)"
  have len: "length (slice 4 4 b) = 4" using assms(1) by simp
  have v: "?v < 2 ^ 32" using le_value_bound [of "slice 4 4 b"] len by simp
  have small: "?v < 2 ^ 31"
  proof (rule ccontr)
    assume "\<not> ?v < 2 ^ 31"
    then have "to_int32 (int ?v) < 0" using v to_int32_upper [of "int ?v"] by simp
    then show False using assms(2,3) by (simp add: packet_length_def)
  qed
  then have "n = int ?v" using assms(2) by (simp add: packet_length_def in_int32_def)
  then have "le_bytes 4 (nat (n mod 2 ^ 32)) = slice 4 4 b"
    using small le_bytes_le_value [of "slice 4 4 b"] len by simp
  moreover have "take 4 b @ slice 4 4 b @ drop 8 b = b"
    using append_take_drop_id [of 4 b] append_take_drop_id [of 4 "drop 4 b"] by (simp add: slice_def)
  ultimately show ?thesis using len by (simp add: set_msg_len_def blit_def)
qed

lemma take_blit_0: "length d \<le> length b \<Longrightarrow> take (length d) (blit 0 d b) = d"
  by (simp add: blit_def)

lemma take_set_msg_len: "8 \<le> n \<Longrightarrow> n \<le> length b \<Longrightarrow> take n (set_msg_len v b) = set_msg_len v (take n b)"
  by (simp add: set_msg_len_def blit_def take_drop min_def)

section \<open>The receive loop\<close>

definition got_datagram :: "bytes \<Rightarrow> bytes \<times> int \<Rightarrow> bool" where
  "got_datagram d out \<longleftrightarrow> length (fst out) = MAX_EVENTINFO_SIZE \<and> snd out = int (length d) \<and>
     (8 \<le> length d \<longrightarrow> take (length d) (fst out) = set_msg_len (int (length d)) d)"

lemma udp_turn:
  assumes "length packet = MAX_EVENTINFO_SIZE" "d \<noteq> []" "length d \<le> MAX_EVENTINFO_SIZE"
  shows "\<exists>p'. got_datagram d (p', int (length d)) \<and> (\<forall>rs. udp_recv_loop packet (Some d # rs) =
      ((p', int (length d)) # fst (udp_recv_loop p' rs), snd (udp_recv_loop p' rs)))"
proof -
  let ?p = "blit 0 d packet"
  let ?p' = "if int (length d) \<noteq> packet_length ?p then set_msg_len (int (length d)) ?p else ?p"
  have len: "length ?p = 4096" using assms(1,3) by (simp add: MAX_EVENTINFO_SIZE_def)
  have small: "length d \<le> 4096" using assms(3) by (simp add: MAX_EVENTINFO_SIZE_def)
  have pl: "packet_length ?p' = int (length d)" using packet_length_set [of ?p "int (length d)"] len small by auto
  have "?p' = set_msg_len (int (length d)) ?p" using set_msg_len_same [of ?p "int (length d)"] len by auto
  then have "8 \<le> length d \<longrightarrow> take (length d) ?p' = set_msg_len (int (length d)) d"
    using take_set_msg_len [of "length d" ?p "int (length d)"] take_blit_0 [of d packet] assms(1,3) len small by simp
  then have "got_datagram d (?p', int (length d))" using len by (simp add: got_datagram_def MAX_EVENTINFO_SIZE_def)
  moreover have "udp_recv_loop packet (Some d # rs) =
      ((?p', int (length d)) # fst (udp_recv_loop ?p' rs), snd (udp_recv_loop ?p' rs))" for rs
    using assms(2,3) pl by (simp add: udp_add_event_def Let_def split_beta)
  ultimately show ?thesis by blast
qed

lemma udp_run:
  assumes "length packet = MAX_EVENTINFO_SIZE" "\<forall>d\<in>set ds. d \<noteq> [] \<and> length d \<le> MAX_EVENTINFO_SIZE"
  shows "\<exists>out p. list_all2 got_datagram ds out \<and> length p = MAX_EVENTINFO_SIZE \<and>
    (\<forall>rs. udp_recv_loop packet (map Some ds @ rs) = (out @ fst (udp_recv_loop p rs), snd (udp_recv_loop p rs)))"
  using assms
proof (induction ds arbitrary: packet)
  case Nil
  then show ?case by (intro exI [of _ "[]"] exI [of _ packet]) simp
next
  case (Cons d ds)
  have d: "d \<noteq> []" "length d \<le> MAX_EVENTINFO_SIZE" using Cons.prems(2) by auto
  obtain p' where g: "got_datagram d (p', int (length d))"
    and t: "\<forall>rs. udp_recv_loop packet (Some d # rs) =
      ((p', int (length d)) # fst (udp_recv_loop p' rs), snd (udp_recv_loop p' rs))"
    using udp_turn [OF Cons.prems(1) d] by blast
  have len: "length p' = MAX_EVENTINFO_SIZE" using g by (simp add: got_datagram_def)
  obtain out p where r: "list_all2 got_datagram ds out" "length p = MAX_EVENTINFO_SIZE"
      "\<forall>rs. udp_recv_loop p' (map Some ds @ rs) = (out @ fst (udp_recv_loop p rs), snd (udp_recv_loop p rs))"
    using Cons.IH [OF len] Cons.prems(2) by auto
  have "udp_recv_loop packet (map Some (d # ds) @ rs) =
      (((p', int (length d)) # out) @ fst (udp_recv_loop p rs), snd (udp_recv_loop p rs))" for rs
    using t [THEN spec, of "map Some ds @ rs"] r(3) by simp
  then show ?case using g r(1,2) by (intro exI [of _ "(p', int (length d)) # out"] exI [of _ p]) simp
qed

section \<open>Properties\<close>

text \<open>
  Every datagram is delivered, alone. Whatever the receive buffer holds from earlier packets, each of
  a sequence of datagrams of 1 to 4096 bytes reaches the callback once, in order, with its own length;
  its bytes are the datagram's with the length field set to the number of bytes received, so a packet
  whose length field is right arrives unchanged. The thread goes on receiving.
\<close>

theorem udp_datagrams_delivered:
  assumes "length packet = MAX_EVENTINFO_SIZE" "\<forall>d\<in>set ds. d \<noteq> [] \<and> length d \<le> MAX_EVENTINFO_SIZE"
  shows "\<exists>out. udp_recv_loop packet (map Some ds) = (out, True) \<and> list_all2 got_datagram ds out \<and>
    (\<forall>d\<in>set ds. 8 \<le> length d \<and> packet_length d = int (length d) \<longrightarrow> set_msg_len (int (length d)) d = d)"
proof -
  obtain out p where r: "list_all2 got_datagram ds out"
      "\<forall>rs. udp_recv_loop packet (map Some ds @ rs) = (out @ fst (udp_recv_loop p rs), snd (udp_recv_loop p rs))"
    using udp_run [OF assms] by blast
  then show ?thesis using r(2) [THEN spec, of "[]"] set_msg_len_same by auto
qed

theorem udp_datagrams_delivered_witness:
  "\<exists>out. udp_recv_loop (replicate MAX_EVENTINFO_SIZE 0) (map Some [[1], [2, 3]]) = (out, True) \<and>
     list_all2 got_datagram [[1], [2, 3]] out"
  using udp_datagrams_delivered [of "replicate MAX_EVENTINFO_SIZE 0" "[[1], [2, 3]]"]
  by (auto simp: MAX_EVENTINFO_SIZE_def)

text \<open>
  An empty datagram ends the receiver. \<^verbatim>\<open>recvfrom\<close> returns 0 for a datagram without bytes, which the
  loop takes for an error: the thread returns, and nothing that is sent afterwards is received.
\<close>

theorem udp_empty_datagram_stops:
  assumes "length packet = MAX_EVENTINFO_SIZE" "\<forall>d\<in>set ds. d \<noteq> [] \<and> length d \<le> MAX_EVENTINFO_SIZE"
  shows "\<exists>out. length out = length ds \<and> udp_recv_loop packet (map Some ds @ Some [] # rs) = (out, False)"
proof -
  obtain out p where r: "list_all2 got_datagram ds out"
      "\<forall>rs. udp_recv_loop packet (map Some ds @ rs) = (out @ fst (udp_recv_loop p rs), snd (udp_recv_loop p rs))"
    using udp_run [OF assms] by blast
  have "udp_recv_loop p (Some [] # rs) = ([], False)" by simp
  then show ?thesis using r(2) [THEN spec, of "Some [] # rs"] list_all2_lengthD [OF r(1)] by auto
qed

theorem udp_empty_datagram_stops_witness:
  "\<exists>out. length out = 1 \<and> udp_recv_loop (replicate MAX_EVENTINFO_SIZE 0) [Some [1], Some [], Some [2]] = (out, False)"
  using udp_empty_datagram_stops [of "replicate MAX_EVENTINFO_SIZE 0" "[[1]]" "[Some [2]]"]
  by (auto simp: MAX_EVENTINFO_SIZE_def)

text \<open>
  C18: an event sent by \<^verbatim>\<open>send_to\<close> arrives. For a packet whose length field covers the header and fits the
  structure, the datagram the sender makes is delivered by a receiver, whatever its buffer held, as a
  packet with the same header and line and the same payload bytes.
\<close>

theorem udp_event_roundtrip:
  assumes "event_ok e" "60 \<le> nMsgLen (ev_h e)" "nMsgLen (ev_h e) \<le> 4096" "length packet = MAX_EVENTINFO_SIZE"
  shows "\<exists>d p. udp_sender_send_event (encode_event e) = Inr d \<and>
    udp_recv_loop packet [Some d] = ([(p, nMsgLen (ev_h e))], True) \<and>
    ev_h (decode_event p) = ev_h e \<and> ev_line (decode_event p) = ev_line e \<and>
    take (nat (event_value_length e)) (ev_Value (decode_event p)) = take (nat (event_value_length e)) (ev_Value e)"
proof -
  let ?n = "nat (nMsgLen (ev_h e))"
  let ?d = "take ?n (encode_event e)"
  have len: "length (encode_event e) = 4096" using length_encode_event [OF assms(1)] by (simp add: MAX_EVENTINFO_SIZE_def)
  have pl: "packet_length (encode_event e) = nMsgLen (ev_h e)" by (rule packet_length_encode [OF assms(1)])
  have n: "60 \<le> ?n" "?n \<le> 4096" "length ?d = ?n" using assms(2,3) len by simp_all
  have send: "udp_sender_send_event (encode_event e) = Inr ?d"
    using assms(2,3) len pl by (simp add: udp_sender_send_event_def udp_datagram_def)
  have d: "?d \<noteq> []" "length ?d \<le> MAX_EVENTINFO_SIZE"
    using n len by (auto simp: MAX_EVENTINFO_SIZE_def simp flip: length_0_conv)
  obtain p where p: "got_datagram ?d (p, int (length ?d))"
      and run: "\<forall>rs. udp_recv_loop packet (Some ?d # rs) =
        ((p, int (length ?d)) # fst (udp_recv_loop p rs), snd (udp_recv_loop p rs))"
    using udp_turn [OF assms(4) d] by blast
  have len_d: "int (length ?d) = nMsgLen (ev_h e)" using n(3) assms(2) by simp
  have recv: "udp_recv_loop packet [Some ?d] = ([(p, nMsgLen (ev_h e))], True)"
    using run [THEN spec, of "[]"] by (simp only: len_d udp_recv_loop.simps(1) fst_conv snd_conv)
  have "packet_length ?d = nMsgLen (ev_h e)"
    using pl slice_take [of 4 4 ?n "encode_event e"] n(1) by (simp add: packet_length_def)
  then have "set_msg_len (int (length ?d)) ?d = ?d" using n assms(2) by (intro set_msg_len_same) simp_all
  then have pre: "take ?n p = take ?n (encode_event e)" using p n by (simp add: got_datagram_def)
  have "ev_h (decode_event p) = ev_h e" "ev_line (decode_event p) = ev_line e"
    using decode_prefix [OF pre n(1)] decode_encode_event [OF assms(1)] by simp_all
  moreover have "take (?n - 60) (drop 60 p) = take (?n - 60) (drop 60 (encode_event e))"
    using arg_cong [OF pre, of "drop 60"] by (simp add: drop_take)
  then have "take (?n - 60) (ev_Value (decode_event p)) = take (?n - 60) (ev_Value (decode_event (encode_event e)))"
    by (simp add: decode_event_def)
  moreover have "nat (event_value_length e) = ?n - 60" using assms(2) by (simp add: event_value_length_def)
  ultimately show ?thesis using send recv decode_encode_event [OF assms(1)] by (metis (no_types))
qed

theorem udp_event_roundtrip_witness:
  "\<exists>d p. udp_sender_send_event (encode_event (zero_event\<lparr>ev_h := (ev_h zero_event)\<lparr>nMsgLen := 60, usType := 7\<rparr>\<rparr>)) = Inr d \<and>
     udp_recv_loop (replicate MAX_EVENTINFO_SIZE 0) [Some d] = ([(p, 60)], True) \<and> usType (ev_h (decode_event p)) = 7"
proof -
  define e where "e = zero_event\<lparr>ev_h := (ev_h zero_event)\<lparr>nMsgLen := 60, usType := 7\<rparr>\<rparr>"
  have e: "event_ok e" "nMsgLen (ev_h e) = 60" "usType (ev_h e) = 7"
    by (simp_all add: e_def event_ok_def zero_event_def in_int32_def)
  obtain d p where "udp_sender_send_event (encode_event e) = Inr d"
      "udp_recv_loop (replicate MAX_EVENTINFO_SIZE 0) [Some d] = ([(p, nMsgLen (ev_h e))], True)"
      "ev_h (decode_event p) = ev_h e"
    using udp_event_roundtrip [of e "replicate MAX_EVENTINFO_SIZE 0"] e by auto
  then show ?thesis using e unfolding e_def by metis
qed

text \<open>
  \<^verbatim>\<open>UUdpIfThread::send_to\<close> runs \<^verbatim>\<open>send_handle\<close> twice on every packet, itself and through the
  \<^verbatim>\<open>OnBeforeSend\<close> it installed: a handler that is not idempotent spoils what is sent.
\<close>

lemma udpif_handles_twice:
  "udpif_send_to h b n = udp_sender_send_event (h (set_msg_len n (h (b, n)), packet_length (set_msg_len n (h (b, n)))))"
  by (simp add: udpif_send_to_def udp_server_send_event_def before_send_def)

end
