(* ===== verification/Ranked_Steps.thy ===== *)
theory Ranked_Steps
  imports Prelude
begin

text \<open>
  Bounded progress of a step relation: every step that counts, taken from a good state, keeps the state
  good and lowers its rank, and a good state that is not final has an internal step. A run from a good
  state then has at most \<open>rank\<close> steps that count, and the component can always finish by itself.
\<close>

locale ranked_steps =
  fixes step :: "'s \<Rightarrow> 'e \<Rightarrow> 's \<Rightarrow> bool"
    and good :: "'s \<Rightarrow> bool"
    and counts :: "'e \<Rightarrow> bool"
    and internal :: "'e \<Rightarrow> bool"
    and rank :: "'s \<Rightarrow> nat"
    and final :: "'s \<Rightarrow> bool"
  assumes lowers: "step s e s' \<Longrightarrow> good s \<Longrightarrow> counts e \<Longrightarrow> good s' \<and> rank s' < rank s"
    and enabled: "good s \<Longrightarrow> \<not> final s \<Longrightarrow> \<exists>e s'. step s e s' \<and> internal e"
    and internal_counts: "internal e \<Longrightarrow> counts e"
begin

lemma bounded: "steps step s es s' \<Longrightarrow> good s \<Longrightarrow> list_all counts es \<Longrightarrow> good s' \<and> rank s' + length es \<le> rank s"
  by (induction rule: steps.induct) (use lowers in force)+

lemma stopped_is_final: "good s \<Longrightarrow> (\<nexists>e s'. step s e s' \<and> internal e) \<Longrightarrow> final s"
  using enabled by blast

lemma finishes: "good s \<Longrightarrow> \<exists>es s'. steps step s es s' \<and> list_all internal es \<and> final s'"
proof (induction "rank s" arbitrary: s rule: less_induct)
  case less
  show ?case
  proof (cases "final s")
    case True
    then show ?thesis using steps_nil [of step s] by (intro exI [of _ "[]"]) auto
  next
    case False
    then obtain e s1 where e: "step s e s1" "internal e" using enabled [OF less.prems] by blast
    then have "good s1" "rank s1 < rank s" using lowers [OF e(1) less.prems] internal_counts by auto
    then obtain es s2 where "steps step s1 es s2" "list_all internal es" "final s2" using less.hyps by blast
    then show ?thesis using e steps_cons [of step s e s1 es s2] by (intro exI [of _ "e # es"]) auto
  qed
qed

end

end
