(* ===== verification/Teardown.thy ===== *)
theory Teardown
  imports Sock Thread_Lifecycle Ranked_Steps
begin

text \<open>
  Destruction of a datagram receiver while its worker may be inside \<^verbatim>\<open>recvfrom\<close>: the destructors of \<^verbatim>\<open>UUdpReceiver\<close>
  and \<^verbatim>\<open>IUdpReceiver\<close> (\<^verbatim>\<open>src/udpserver.cpp\<close>), each a sequence of atomic actions, against the worker's loop, with \<^verbatim>\<open>Socket::close\<close> as it looks to another thread: the
  exchange of the descriptor, \<^verbatim>\<open>shutdown\<close>, \<^verbatim>\<open>close\<close> and the removal of the path. Descriptors refer to open
  sockets; a worker blocked in the kernel waits on the socket, not on the descriptor, and \<^verbatim>\<open>shutdown\<close> is
  what makes it return. The callback \<^verbatim>\<open>OnAfterReceive\<close> is the program's: here it returns, and does not use the receiver. A
  TCP channel, whose worker may also reset its own socket, is not the subject of this theory.
\<close>

section \<open>The two threads\<close>

text \<open>
  The worker: about to test \<^verbatim>\<open>do_exit()\<close>; about to read the descriptor with so many tries left; with the
  descriptor read; in the kernel on a socket; after an unsuccessful try; in the callback; gone.
\<close>

datatype recv_pc =
    AtCheck | Reading nat | Loaded nat int | InRecv nat nat | Retrying nat | Handling | Finished

datatype td_action =
    ClosePre | Exchange | Shutdown | CloseFd | Unlink | ClosePost | ResetCallback

record td_sys =
  td_obj :: thread_obj
  td_fd :: int
  td_path :: bool
  td_local :: int
  td_todo :: "td_action list"
  td_joining :: bool
  td_worker :: recv_pc
  td_tries :: nat
  td_table :: "int \<rightharpoonup> nat"
  td_shut :: "nat set"

text \<open>\<^verbatim>\<open>Socket::close\<close>, and the destructors.\<close>

definition socket_close_actions :: "td_action list" where
  "socket_close_actions = [Exchange, Shutdown, CloseFd, Unlink]"

definition destruct_uudp_receiver :: "td_action list" where
  "destruct_uudp_receiver = [ClosePre] @ socket_close_actions @ [ClosePost, ResetCallback]"

definition destruct_iudp_receiver :: "td_action list" where
  "destruct_iudp_receiver = [ClosePre] @ socket_close_actions @ [ClosePost, ResetCallback]"

fun td_act :: "td_action \<Rightarrow> td_sys \<Rightarrow> td_sys" where
  "td_act ClosePre s = s\<lparr>td_obj := close_pre (td_obj s)\<rparr>"
| "td_act Exchange s = s\<lparr>td_local := td_fd s, td_fd := -1\<rparr>"
| "td_act Shutdown s =
     (if td_local s = -1 then s
      else case td_table s (td_local s) of None \<Rightarrow> s | Some d \<Rightarrow> s\<lparr>td_shut := insert d (td_shut s)\<rparr>)"
| "td_act CloseFd s = (if td_local s = -1 then s else s\<lparr>td_table := (td_table s)(td_local s := None)\<rparr>)"
| "td_act Unlink s = s\<lparr>td_path := False\<rparr>"
| "td_act ClosePost s = s"
| "td_act ResetCallback s = s"

text \<open>
  A try that brought nothing: \<^verbatim>\<open>Socket::recv\<close> and \<^verbatim>\<open>recv_from\<close> of an Internet socket have one,
  \<^verbatim>\<open>UnixUdp::recv_from\<close> has \<^verbatim>\<open>RETRY_COUNT\<close>, as long as the path is set.
\<close>

definition recv_failed :: "nat \<Rightarrow> recv_pc" where
  "recv_failed n = (if n \<le> 1 then Finished else Retrying (n - 1))"

fun worker_next :: "td_sys \<Rightarrow> recv_pc" where
  "worker_next s =
     (case td_worker s of
        AtCheck \<Rightarrow> if do_exit (td_obj s) then Finished else Reading (td_tries s)
      | Reading n \<Rightarrow> Loaded n (td_fd s)
      | Loaded n f \<Rightarrow> (case td_table s f of None \<Rightarrow> recv_failed n | Some d \<Rightarrow> InRecv n d)
      | InRecv n d \<Rightarrow> recv_failed n
      | Retrying n \<Rightarrow> if td_path s then Reading n else Finished
      | Handling \<Rightarrow> AtCheck
      | Finished \<Rightarrow> Finished)"

text \<open>
  The worker leaves the kernel by itself only when its socket is shut down; otherwise something has to
  arrive: data, or an empty datagram. \<open>Opened\<close> is another part of the program opening a descriptor.
\<close>

datatype td_event = Worked | Data | EmptyDatagram | Acted td_action | JoinSkipped | JoinBegan | JoinEnded | Opened int

inductive td_step :: "td_sys \<Rightarrow> td_event \<Rightarrow> td_sys \<Rightarrow> bool" where
  worked: "td_worker s \<noteq> Finished \<Longrightarrow> (\<And>n d. td_worker s = InRecv n d \<Longrightarrow> d \<in> td_shut s) \<Longrightarrow>
    td_step s Worked (s\<lparr>td_worker := worker_next s\<rparr>)"
| data: "td_worker s = InRecv n d \<Longrightarrow> td_step s Data (s\<lparr>td_worker := Handling\<rparr>)"
| empty_datagram: "td_worker s = InRecv n d \<Longrightarrow> td_step s EmptyDatagram (s\<lparr>td_worker := worker_next s\<rparr>)"
| acted: "td_todo s = a # rest \<Longrightarrow> a \<noteq> ClosePost \<Longrightarrow> td_step s (Acted a) ((td_act a s)\<lparr>td_todo := rest\<rparr>)"
| join_skipped: "td_todo s = ClosePost # rest \<Longrightarrow> \<not> td_joining s \<Longrightarrow> close_post_begin (td_obj s) = None \<Longrightarrow>
    td_step s JoinSkipped (s\<lparr>td_todo := rest\<rparr>)"
| join_began: "td_todo s = ClosePost # rest \<Longrightarrow> \<not> td_joining s \<Longrightarrow> close_post_begin (td_obj s) = Some (j, m) \<Longrightarrow>
    td_step s JoinBegan (s\<lparr>td_obj := m, td_joining := True\<rparr>)"
| join_ended: "td_todo s = ClosePost # rest \<Longrightarrow> td_joining s \<Longrightarrow> td_worker s = Finished \<Longrightarrow>
    td_step s JoinEnded (s\<lparr>td_obj := close_post_end (td_obj s), td_joining := False, td_todo := rest\<rparr>)"
| opened: "td_table s f = None \<Longrightarrow> f \<ge> 0 \<Longrightarrow> d \<notin> ran (td_table s) \<union> td_shut s \<Longrightarrow>
    td_step s (Opened f) (s\<lparr>td_table := (td_table s)(f \<mapsto> d)\<rparr>)"

inductive_cases td_stepE: "td_step s e s'"

section \<open>The destructor returns\<close>

text \<open>Where the worker can be, for the descriptor \<open>f\<close> and socket \<open>d\<close> of the receiver.\<close>

fun pc_ok :: "nat \<Rightarrow> int \<Rightarrow> nat \<Rightarrow> recv_pc \<Rightarrow> bool" where
  "pc_ok tries f d (Reading n) \<longleftrightarrow> 1 \<le> n \<and> n \<le> tries"
| "pc_ok tries f d (Loaded n g) \<longleftrightarrow> 1 \<le> n \<and> n \<le> tries \<and> (g = f \<or> g = -1)"
| "pc_ok tries f d (InRecv n e) \<longleftrightarrow> 1 \<le> n \<and> n \<le> tries \<and> e = d"
| "pc_ok tries f d (Retrying n) \<longleftrightarrow> 1 \<le> n \<and> n \<le> tries"
| "pc_ok tries f d _ \<longleftrightarrow> True"

text \<open>What the destructor still has to do determines the state of the descriptor and of the socket.\<close>

definition td_phase :: "td_action list \<Rightarrow> int \<Rightarrow> nat \<Rightarrow> td_sys \<Rightarrow> bool" where
  "td_phase rest f d s \<longleftrightarrow>
     td_todo s = ClosePre # socket_close_actions @ ClosePost # rest \<and> td_fd s = f \<and> td_table s f = Some d \<and> \<not> td_joining s \<or>
     th_stop (td_obj s) \<and>
     (td_todo s = socket_close_actions @ ClosePost # rest \<and> td_fd s = f \<and> td_table s f = Some d \<and> \<not> td_joining s \<or>
      td_todo s = [Shutdown, CloseFd, Unlink] @ ClosePost # rest \<and> td_fd s = -1 \<and> td_local s = f \<and> td_table s f = Some d \<and> \<not> td_joining s \<or>
      td_todo s = [CloseFd, Unlink] @ ClosePost # rest \<and> td_fd s = -1 \<and> td_local s = f \<and> d \<in> td_shut s \<and> td_table s f = Some d \<and> \<not> td_joining s \<or>
      td_todo s = Unlink # ClosePost # rest \<and> td_fd s = -1 \<and> d \<in> td_shut s \<and> td_table s f = None \<and> \<not> td_joining s \<or>
      td_todo s = ClosePost # rest \<and> td_fd s = -1 \<and> d \<in> td_shut s \<and> td_table s f = None \<or>
      set (td_todo s) \<subseteq> {ResetCallback} \<and> td_worker s = Finished \<and> \<not> td_joining s)"

definition td_inv :: "td_action list \<Rightarrow> int \<Rightarrow> nat \<Rightarrow> td_sys \<Rightarrow> bool" where
  "td_inv rest f d s \<longleftrightarrow> f \<noteq> -1 \<and> 1 \<le> td_tries s \<and> td_table s (-1) = None \<and> pc_ok (td_tries s) f d (td_worker s) \<and>
     th_closing (td_obj s) = td_joining s \<and> (th_thread (td_obj s) = NoThread \<longrightarrow> td_worker s = Finished) \<and> td_phase rest f d s"


lemma recv_failed_ok: "1 \<le> n \<Longrightarrow> n \<le> k \<Longrightarrow> pc_ok k f d (recv_failed n)"
  by (auto simp: recv_failed_def)

lemma phase_fd: "td_phase rest f d s \<Longrightarrow> td_worker s \<noteq> Finished \<Longrightarrow> td_fd s = f \<or> td_fd s = -1"
  by (auto simp: td_phase_def)

lemma phase_table: "td_phase rest f d s \<Longrightarrow> td_worker s \<noteq> Finished \<Longrightarrow> td_table s f = None \<or> td_table s f = Some d"
  by (auto simp: td_phase_def)

lemma phase_worker: "td_phase rest f d s \<Longrightarrow> td_worker s \<noteq> Finished \<Longrightarrow> td_phase rest f d (s\<lparr>td_worker := w\<rparr>)"
  by (auto simp: td_phase_def)

lemma worker_next_ok:
  assumes "td_inv rest f d s" "td_worker s \<noteq> Finished"
  shows "pc_ok (td_tries s) f d (worker_next s)"
proof (cases "td_worker s")
  case (Loaded n g)
  then have "td_table s g = None \<or> td_table s g = Some d" "1 \<le> n" "n \<le> td_tries s"
    using assms phase_table [of rest f d s] by (auto simp: td_inv_def)
  then show ?thesis using Loaded recv_failed_ok by auto
qed (use assms phase_fd [of rest f d s] recv_failed_ok in \<open>auto simp: td_inv_def\<close>)

lemma td_worker_inv:
  assumes "td_inv rest f d s" "td_worker s \<noteq> Finished" "pc_ok (td_tries s) f d w"
  shows "td_inv rest f d (s\<lparr>td_worker := w\<rparr>)"
  using assms phase_worker [of rest f d s w] by (auto simp: td_inv_def)

lemma td_closer_inv:
  assumes "td_inv rest f d s" "td_todo s = a # todo" "a \<noteq> ClosePost" "set rest \<subseteq> {ResetCallback}"
  shows "td_inv rest f d ((td_act a s)\<lparr>td_todo := todo\<rparr>)"
  using assms by (cases a) (auto simp: td_inv_def td_phase_def socket_close_actions_def close_pre_def)

lemma td_step_inv:
  assumes "td_step s e s'" "td_inv rest f d s" "set rest \<subseteq> {ResetCallback}" "\<And>g. e \<noteq> Opened g"
  shows "td_inv rest f d s'"
  using assms(1)
proof cases
  case worked
  then show ?thesis using td_worker_inv [OF assms(2)] worker_next_ok [OF assms(2)] by simp
next
  case (data n e)
  then show ?thesis using td_worker_inv [OF assms(2), of Handling] by simp
next
  case (empty_datagram n e)
  then show ?thesis using td_worker_inv [OF assms(2)] worker_next_ok [OF assms(2)] by simp
next
  case (acted a todo)
  then show ?thesis using td_closer_inv [OF assms(2)] assms(3) by simp
next
  case (join_skipped todo)
  then show ?thesis using assms(2,3)
    by (auto simp: td_inv_def td_phase_def socket_close_actions_def close_post_begin_def split: if_splits)
next
  case (join_began todo j m)
  then show ?thesis using assms(2,3)
    by (auto simp: td_inv_def td_phase_def socket_close_actions_def close_post_begin_def split: if_splits)
next
  case (join_ended todo)
  then show ?thesis using assms(2,3)
    by (auto simp: td_inv_def td_phase_def socket_close_actions_def close_post_end_def)
qed (use assms(4) in auto)

text \<open>What is left to do once the stop has been requested.\<close>

fun pc_left :: "recv_pc \<Rightarrow> nat" where
  "pc_left (Retrying n) = 4 * n + 4"
| "pc_left (Reading n) = 4 * n + 3"
| "pc_left (Loaded n f) = 4 * n + 2"
| "pc_left (InRecv n d) = 4 * n + 1"
| "pc_left Handling = 2"
| "pc_left AtCheck = 1"
| "pc_left Finished = 0"

definition td_left :: "td_sys \<Rightarrow> nat" where
  "td_left s = pc_left (td_worker s) + 2 * length (td_todo s) - (if td_joining s then 1 else 0)"

lemma recv_failed_left: "1 \<le> n \<Longrightarrow> pc_left (recv_failed n) \<le> 4 * n"
  by (auto simp: recv_failed_def)

lemma worker_next_left:
  assumes "td_inv rest f d s" "td_worker s \<noteq> Finished" "th_stop (td_obj s)"
  shows "pc_left (worker_next s) < pc_left (td_worker s)"
  using assms recv_failed_left
  by (cases "td_worker s") (auto simp: td_inv_def do_exit_def less_Suc_eq_le split: option.splits intro: le_SucI)

lemma td_act_keeps [simp]:
  "td_todo (td_act a s) = td_todo s" "td_worker (td_act a s) = td_worker s" "td_joining (td_act a s) = td_joining s"
  "td_tries (td_act a s) = td_tries s" "th_stop (td_obj s) \<Longrightarrow> th_stop (td_obj (td_act a s))"
  by (cases a; auto simp: close_pre_def split: option.splits)+

lemma phase_join: "td_inv rest f d s \<Longrightarrow> td_joining s \<Longrightarrow> td_todo s = ClosePost # rest"
  by (auto simp: td_inv_def td_phase_def)

lemma td_step_left:
  assumes "td_step s e s'" "td_inv rest f d s" "th_stop (td_obj s)" "\<And>g. e \<noteq> Opened g"
  shows "td_left s' < td_left s \<and> th_stop (td_obj s') \<and> td_tries s' = td_tries s"
  using assms(1)
proof cases
  case worked
  then show ?thesis using worker_next_left [OF assms(2) _ assms(3)] assms(3) phase_join [OF assms(2)] by (auto simp: td_left_def)
next
  case (data n e)
  then show ?thesis using assms(2,3) phase_join [OF assms(2)] by (auto simp: td_left_def td_inv_def)
next
  case (empty_datagram n e)
  then show ?thesis using worker_next_left [OF assms(2) _ assms(3)] assms(3) phase_join [OF assms(2)] by (auto simp: td_left_def)
next
  case (acted a todo)
  then show ?thesis using assms(3) phase_join [OF assms(2)] by (auto simp: td_left_def)
qed (use assms(3,4) in \<open>auto simp: td_left_def close_post_begin_def close_post_end_def split: if_splits\<close>)


lemma td_steps_inv:
  assumes "steps td_step s es s'" "td_inv rest f d s" "set rest \<subseteq> {ResetCallback}" "\<And>g. Opened g \<notin> set es"
  shows "td_inv rest f d s' \<and> td_tries s' = td_tries s"
  using assms
proof (induction rule: steps.induct)
  case (steps_cons s e s1 es s2)
  have e: "\<And>g. e \<noteq> Opened g" "\<And>g. Opened g \<notin> set es" using steps_cons.prems(3) by auto
  have "td_tries s1 = td_tries s" using steps_cons(1) e(1) by cases auto
  then show ?case
    using steps_cons.IH [OF td_step_inv [OF steps_cons(1) steps_cons.prems(1,2) e(1)] steps_cons.prems(2) e(2)] by simp
qed simp

lemma td_steps_todo: "steps td_step s es s' \<Longrightarrow> length (td_todo s') \<le> length (td_todo s)"
  by (induction rule: steps.induct) (auto elim!: td_stepE)

definition external :: "td_event \<Rightarrow> bool" where
  "external e \<longleftrightarrow> e = Data \<or> e = EmptyDatagram \<or> (\<exists>g. e = Opened g)"

lemma external_simps [simp]:
  "\<not> external Worked" "\<not> external (Acted a)" "\<not> external JoinSkipped" "\<not> external JoinBegan" "\<not> external JoinEnded"
  by (auto simp: external_def)

lemma td_progress:
  assumes "td_inv rest f d s" "td_todo s \<noteq> []"
  shows "\<exists>e s'. td_step s e s' \<and> \<not> external e"
proof (cases "td_todo s")
  case (Cons a todo)
  show ?thesis
  proof (cases "a = ClosePost")
    case False
    then show ?thesis using Cons acted by fastforce
  next
    case True
    have shut: "td_worker s \<noteq> Finished \<Longrightarrow> d \<in> td_shut s" using assms(1) Cons True
      by (auto simp: td_inv_def td_phase_def socket_close_actions_def)
    consider "td_worker s \<noteq> Finished" | "td_joining s" "td_worker s = Finished" | "\<not> td_joining s" by blast
    then show ?thesis
    proof cases
      case 1
      then have "td_step s Worked (s\<lparr>td_worker := worker_next s\<rparr>)"
        using shut assms(1) by (intro worked) (auto simp: td_inv_def)
      then show ?thesis using external_simps by blast
    next
      case 2
      then show ?thesis using join_ended [of s todo] Cons True external_simps by blast
    next
      case 3
      then show ?thesis using Cons True external_simps join_skipped [of s todo] join_began [of s todo]
        by (cases "close_post_begin (td_obj s)") (blast, metis surj_pair)
    qed
  qed
qed (use assms(2) in simp)

text \<open>After the stop request the destructor and the worker make bounded progress.\<close>

definition td_stopping :: "td_sys \<Rightarrow> bool" where
  "td_stopping s \<longleftrightarrow> th_stop (td_obj s) \<and> (\<exists>rest f d. set rest \<subseteq> {ResetCallback} \<and> td_inv rest f d s)"

interpretation tdr: ranked_steps td_step td_stopping "\<lambda>e. \<forall>g. e \<noteq> Opened g" "\<lambda>e. \<not> external e" td_left "\<lambda>s. td_todo s = []"
proof unfold_locales
  fix s e s' assume s: "td_step s e s'" "td_stopping s" and e: "\<forall>g. e \<noteq> Opened g"
  obtain rest f d where i: "set rest \<subseteq> {ResetCallback}" "td_inv rest f d s" using s(2) by (auto simp: td_stopping_def)
  have "td_inv rest f d s'" using td_step_inv [OF s(1) i(2,1)] e by blast
  then show "td_stopping s' \<and> td_left s' < td_left s"
    using td_step_left [OF s(1) i(2)] s(2) e i(1) by (auto simp: td_stopping_def)
next
  fix s assume "td_stopping s" "td_todo s \<noteq> []"
  then show "\<exists>e s'. td_step s e s' \<and> \<not> external e" using td_progress by (auto simp: td_stopping_def)
qed (auto simp: external_def)

text \<open>
  A receiver about to be destroyed: its socket is open, and its worker is somewhere in its loop, or it
  never had one.
\<close>

definition td_ready :: "td_sys \<Rightarrow> bool" where
  "td_ready s \<longleftrightarrow> td_fd s \<noteq> -1 \<and> 1 \<le> td_tries s \<and> td_table s (-1) = None \<and> \<not> td_joining s \<and> \<not> th_closing (td_obj s) \<and>
     (th_thread (td_obj s) = NoThread \<longrightarrow> td_worker s = Finished) \<and>
     (case td_table s (td_fd s) of None \<Rightarrow> False | Some d \<Rightarrow> pc_ok (td_tries s) (td_fd s) d (td_worker s))"

lemma td_ready_inv:
  assumes "td_ready s" "td_todo s = ClosePre # socket_close_actions @ ClosePost # rest"
  shows "\<exists>d. td_inv rest (td_fd s) d s"
  using assms by (cases "td_table s (td_fd s)") (auto simp: td_ready_def td_inv_def td_phase_def)

lemma destructor_forms:
  assumes "p \<in> {destruct_uudp_receiver, destruct_iudp_receiver}"
  obtains rest where "p = ClosePre # socket_close_actions @ ClosePost # rest" "set rest \<subseteq> {ResetCallback}"
    "length p = 7"
  using assms by (auto simp: destruct_uudp_receiver_def destruct_iudp_receiver_def socket_close_actions_def)

text \<open>
  C15: the destructors of the two datagram receivers return, provided the callback of the worker returns and does not use the
  receiver, and no descriptor is opened meanwhile. Wherever the worker is when the destructor starts, before, in or after
  \<^verbatim>\<open>recvfrom\<close> or in the callback, and however the two interleave, once the stop is requested at most \<open>18 + 4 * tries\<close>
  steps are left, even if datagrams keep arriving, and a run that goes as far as it can by itself, with nothing arriving, has
  finished the destructor, with the worker joined.
\<close>

theorem receiver_destructor_returns:
  assumes "p \<in> {destruct_uudp_receiver, destruct_iudp_receiver}" "td_ready s" "td_todo s = p"
    "steps td_step s es s1" "steps td_step s1 es' s2" "\<And>g. Opened g \<notin> set es \<union> set es'" "th_stop (td_obj s1)"
  shows "length es' \<le> 18 + 4 * td_tries s \<and>
    ((\<nexists>e s3. td_step s2 e s3 \<and> \<not> external e) \<longrightarrow> td_todo s2 = [] \<and> td_worker s2 = Finished)"
proof -
  obtain rest where rest: "p = ClosePre # socket_close_actions @ ClosePost # rest" "set rest \<subseteq> {ResetCallback}" "length p = 7"
    using destructor_forms [OF assms(1)] .
  obtain d where d: "td_inv rest (td_fd s) d s" using td_ready_inv [OF assms(2)] rest(1) assms(3) by auto
  have 1: "td_inv rest (td_fd s) d s1" "td_tries s1 = td_tries s" using td_steps_inv [OF assms(4) d rest(2)] assms(6) by auto
  have 2: "td_inv rest (td_fd s) d s2" using td_steps_inv [OF assms(5) 1(1) rest(2)] assms(6) by auto
  have "td_stopping s1" using 1(1) rest(2) assms(7) by (auto simp: td_stopping_def)
  then have 3: "td_stopping s2" "length es' \<le> td_left s1"
    using tdr.bounded [OF assms(5)] assms(6) by (fastforce simp: list_all_iff)+
  have "length (td_todo s1) \<le> 7" using td_steps_todo [OF assms(4)] assms(3) rest(3) by simp
  moreover have "pc_left (td_worker s1) \<le> 4 * td_tries s + 4" using 1 by (cases "td_worker s1") (auto simp: td_inv_def)
  ultimately have "td_left s1 \<le> 18 + 4 * td_tries s" by (simp add: td_left_def)
  moreover have "td_todo s2 = [] \<Longrightarrow> td_worker s2 = Finished" using 2 by (auto simp: td_inv_def td_phase_def)
  ultimately show ?thesis using 3 tdr.stopped_is_final [OF 3(1)] by auto
qed

text \<open>A receiver whose worker is at \<open>pc\<close>.\<close>

definition td_example :: "recv_pc \<Rightarrow> td_action list \<Rightarrow> td_sys" where
  "td_example pc p = \<lparr>td_obj = mk_thread\<lparr>th_thread := Joinable 1\<rparr>, td_fd = 3, td_path = True, td_local = -1, td_todo = p,
     td_joining = False, td_worker = pc, td_tries = 1, td_table = [3 \<mapsto> 0], td_shut = {}\<rparr>"

definition do_act :: "td_action \<Rightarrow> td_sys \<Rightarrow> td_sys" where
  "do_act a s = (td_act a s)\<lparr>td_todo := tl (td_todo s)\<rparr>"

lemma do_act_step: "td_todo s \<noteq> [] \<Longrightarrow> hd (td_todo s) = a \<Longrightarrow> a \<noteq> ClosePost \<Longrightarrow> td_step s (Acted a) (do_act a s)"
  using acted [of s a "tl (td_todo s)"] by (cases "td_todo s") (auto simp: do_act_def)

lemmas example_simps = td_example_def do_act_def destruct_uudp_receiver_def socket_close_actions_def

theorem receiver_destructor_returns_witness:
  "\<exists>s1 s2. steps td_step (td_example (InRecv 1 0) destruct_uudp_receiver) [Acted ClosePre] s1 \<and>
     steps td_step s1 [Acted Exchange, Acted Shutdown, Worked] s2 \<and> length [Acted Exchange, Acted Shutdown, Worked] \<le> 18 + 4 * 1"
proof -
  let ?s = "td_example (InRecv 1 0) destruct_uudp_receiver"
  let ?s1 = "do_act ClosePre ?s"
  let ?s2 = "do_act Shutdown (do_act Exchange ?s1)"
  have 1: "steps td_step ?s [Acted ClosePre] ?s1"
    by (rule steps_cons, rule do_act_step) (simp_all add: example_simps steps_nil)
  have a: "td_step ?s1 (Acted Exchange) (do_act Exchange ?s1)" by (rule do_act_step) (simp_all add: example_simps)
  have b: "td_step (do_act Exchange ?s1) (Acted Shutdown) ?s2" by (rule do_act_step) (simp_all add: example_simps)
  have 2: "td_step ?s2 Worked (?s2\<lparr>td_worker := worker_next ?s2\<rparr>)"
    by (rule worked) (simp_all add: example_simps)
  have 3: "steps td_step ?s1 [Acted Exchange, Acted Shutdown, Worked] (?s2\<lparr>td_worker := worker_next ?s2\<rparr>)"
    by (rule steps_cons, rule a, rule steps_cons, rule b, rule steps_cons, rule 2, rule steps_nil)
  have "td_ready ?s" by (simp add: td_ready_def example_simps mk_thread_def)
  then show ?thesis
    using receiver_destructor_returns [of destruct_uudp_receiver ?s, OF _ _ _ 1 3] 1 3
    by (auto simp: example_simps close_pre_def)
qed

text \<open>A closer that joins a worker waiting on a socket nobody has shut down waits for the network.\<close>

lemma stuck_in_join:
  "td_worker s = InRecv n d \<Longrightarrow> d \<notin> td_shut s \<Longrightarrow> td_todo s = ClosePost # rest \<Longrightarrow> td_joining s \<Longrightarrow> td_step s e s' \<Longrightarrow> external e"
  by (erule td_stepE) (auto simp: external_def)

lemma join_before_close_hangs:
  "\<exists>s1. steps td_step (td_example (InRecv 1 0) [ClosePre, ClosePost]) [Acted ClosePre, JoinBegan] s1 \<and> td_todo s1 = [ClosePost] \<and>
     (\<forall>e s2. td_step s1 e s2 \<longrightarrow> external e)"
proof -
  let ?s = "td_example (InRecv 1 0) [ClosePre, ClosePost]"
  let ?s1 = "do_act ClosePre ?s"
  let ?m = "(td_obj ?s1)\<lparr>th_closing := True, th_thread := MovedFrom\<rparr>"
  let ?s2 = "?s1\<lparr>td_obj := ?m, td_joining := True\<rparr>"
  have a: "td_step ?s (Acted ClosePre) ?s1" by (rule do_act_step) (simp_all add: example_simps)
  have b: "td_step ?s1 JoinBegan ?s2"
    by (rule join_began [of _ "[]" "Joinable 1"]) (simp_all add: example_simps close_post_begin_def close_pre_def mk_thread_def)
  have r: "steps td_step ?s [Acted ClosePre, JoinBegan] ?s2" by (rule steps_cons, rule a, rule steps_cons, rule b, rule steps_nil)
  have t: "td_worker ?s2 = InRecv 1 0" "0 \<notin> td_shut ?s2" "td_todo ?s2 = ClosePost # []" "td_joining ?s2"
    by (simp_all add: example_simps)
  show ?thesis by (rule exI [of _ ?s2]) (use r t stuck_in_join [OF t] in blast)
qed

text \<open>
  The worker reads the descriptor before it enters the kernel. If the destructor closes it in between and
  the number is given to another file, the worker waits there, and the destructor for the worker.
\<close>

lemma reused_descriptor_hangs:
  assumes "td_todo s = Unlink # ClosePost # rest" "td_worker s = Loaded n f" "td_table s f = None" "f \<ge> 0" "\<not> td_joining s"
    "th_thread (td_obj s) = Joinable w" "\<not> th_closing (td_obj s)" "d \<notin> ran (td_table s) \<union> td_shut s"
  shows "\<exists>s1. steps td_step s [Opened f, Worked, Acted Unlink, JoinBegan] s1 \<and> td_todo s1 = ClosePost # rest \<and>
     (\<forall>e s2. td_step s1 e s2 \<longrightarrow> external e)"
proof -
  let ?a = "s\<lparr>td_table := (td_table s)(f \<mapsto> d)\<rparr>"
  let ?b = "?a\<lparr>td_worker := worker_next ?a\<rparr>"
  let ?c = "do_act Unlink ?b"
  let ?d = "?c\<lparr>td_obj := (td_obj s)\<lparr>th_closing := True, th_thread := MovedFrom\<rparr>, td_joining := True\<rparr>"
  have a: "td_step s (Opened f) ?a" by (rule opened) (use assms in auto)
  have b: "td_step ?a Worked ?b" by (rule worked) (use assms in simp_all)
  have c: "td_step ?b (Acted Unlink) ?c" by (rule do_act_step) (use assms in simp_all)
  have d: "td_step ?c JoinBegan ?d"
    by (rule join_began [of _ rest "Joinable w"]) (use assms in \<open>simp_all add: do_act_def close_post_begin_def\<close>)
  have r: "steps td_step s [Opened f, Worked, Acted Unlink, JoinBegan] ?d"
    by (rule steps_cons, rule a, rule steps_cons, rule b, rule steps_cons, rule c, rule steps_cons, rule d, rule steps_nil)
  have t: "td_worker ?d = InRecv n d" "d \<notin> td_shut ?d" "td_todo ?d = ClosePost # rest" "td_joining ?d"
    using assms by (simp_all add: do_act_def)
  show ?thesis by (rule exI [of _ ?d]) (use r t stuck_in_join [OF t] in blast)
qed

end
