(* ===== verification/Udp_Inet.thy ===== *)
theory Udp_Inet
  imports Udp_Server Teardown
begin

text \<open>
  The rest of \<^verbatim>\<open>src/udpserver.cpp\<close>: the receive loop and the sends of the Internet classes, and the
  construction, start and destruction of \<^verbatim>\<open>UUdpIfThread\<close>, which owns a Unix datagram server and an event
  queue. \<^verbatim>\<open>IUdpReceiver\<close> receives through \<^verbatim>\<open>Socket::recv_from\<close>, which also writes the sender's address
  into a local buffer.
\<close>

section \<open>The Internet receiver and server\<close>

definition iudp_add_event :: "bytes \<Rightarrow> bytes \<times> int" where
  "iudp_add_event Buffer = (let nLen = packet_length Buffer in (Buffer, nLen))"

fun iudp_recv_loop ::
  "(u32 \<Rightarrow> string) \<Rightarrow> string \<Rightarrow> nat \<Rightarrow> bytes \<Rightarrow> (bytes \<times> sock_address) option list \<Rightarrow> fault + (bytes \<times> int) list \<times> bool" where
  "iudp_recv_loop inet_ntoa addr port packet [] = Inr ([], True)"
| "iudp_recv_loop inet_ntoa addr port packet (r # rs) =
     (case sock_recv_from inet_ntoa r MAX_EVENTINFO_SIZE addr port of
        Inl f \<Rightarrow> Inl f
      | Inr (nLen, data, addr', port') \<Rightarrow>
          if nLen < 1 then Inr ([], False)
          else let p = blit 0 data packet;
                   p' = (if nLen \<noteq> packet_length p then set_msg_len nLen p else p)
               in case iudp_recv_loop inet_ntoa addr' port' p' rs of
                    Inl f \<Rightarrow> Inl f
                  | Inr (rest, alive) \<Rightarrow> Inr (iudp_add_event p' # rest, alive))"

definition iudp_thread_proc :: "(u32 \<Rightarrow> string) \<Rightarrow> (bytes \<times> sock_address) option list \<Rightarrow> fault + (bytes \<times> int) list \<times> bool" where
  "iudp_thread_proc inet_ntoa rs = iudp_recv_loop inet_ntoa [] 0 (encode_event zero_event) rs"

definition iudp_sender_send_event :: "bytes \<Rightarrow> fault + bytes" where
  "iudp_sender_send_event pInfo = udp_datagram pInfo (packet_length pInfo)"

definition iudp_server_send :: "(bytes \<times> int \<Rightarrow> bytes \<times> int) option \<Rightarrow> bytes \<Rightarrow> int \<Rightarrow> fault + bytes" where
  "iudp_server_send OnBeforeSend pBuffer nLen =
     (let (b, n) = (case OnBeforeSend of None \<Rightarrow> (pBuffer, nLen) | Some f \<Rightarrow> f (pBuffer, nLen))
      in udp_sender_send b n)"

definition iudp_server_send_event :: "(bytes \<times> int \<Rightarrow> bytes \<times> int) option \<Rightarrow> bytes \<Rightarrow> fault + bytes" where
  "iudp_server_send_event OnBeforeSend pInfo =
     (let nLen = packet_length pInfo;
          b = (case OnBeforeSend of None \<Rightarrow> pInfo | Some f \<Rightarrow> fst (f (pInfo, nLen)))
      in iudp_sender_send_event b)"

section \<open>UUdpIfThread\<close>

record udpif =
  ui_qthread :: qthread
  ui_path :: string
  ui_send :: sock
  ui_recv :: sock
  ui_receiver :: thread_obj

definition mk_udpif_n :: "int \<Rightarrow> udpif" where
  "mk_udpif_n n = \<lparr>ui_qthread = mk_qthread_n n, ui_path = [], ui_send = mk_sock, ui_recv = mk_sock, ui_receiver = mk_thread\<rparr>"

definition mk_udpif :: udpif where
  "mk_udpif = mk_udpif_n DEF_EVENT_QUEUE_LENGTH"

text \<open>\<^verbatim>\<open>start\<close>: the channel (an exception leaves the thread unmade), then the thread of the event queue.\<close>

definition udpif_start ::
  "int \<Rightarrow> int \<Rightarrow> bool \<Rightarrow> wid \<Rightarrow> wid \<Rightarrow> string \<Rightarrow> udpif \<Rightarrow> kernel \<Rightarrow> (fault + udpif \<times> kernel) outcome" where
  "udpif_start send_fd recv_fd bind_ok v w pszPath u k =
     (let u1 = u\<lparr>ui_path := pszPath\<rparr>
      in case uudp_server_start send_fd recv_fd bind_ok pszPath (ui_send u1) (ui_recv u1) k of
           Inl f \<Rightarrow> Ret (Inl f)
         | Inr (s, r, k1) \<Rightarrow>
             (case thread_create v (ui_receiver u1) of
                Blocked \<Rightarrow> Blocked
              | Ret (_, _, th) \<Rightarrow>
                  (case qthread_start w (ui_qthread u1) of
                     Blocked \<Rightarrow> Blocked
                   | Ret (_, _, q) \<Rightarrow>
                       Ret (Inr (u1\<lparr>ui_send := s, ui_recv := r, ui_receiver := th, ui_qthread := q\<rparr>, k1)))))"

text \<open>
  The destructor: first the channel goes, with the destructor of its receiver, then the event loop is
  told to stop. \<open>udpif_stop_queue\<close> is the part of \<^verbatim>\<open>QThread::close\<close> before its join.
\<close>

definition destruct_udpif_channel :: "td_action list" where
  "destruct_udpif_channel = destruct_uudp_receiver"

definition udpif_stop_queue :: "udpif \<Rightarrow> fault + udpif" where
  "udpif_stop_queue u = map_sum id (\<lambda>q. u\<lparr>ui_qthread := q\<rparr>) (qthread_close_begin (ui_qthread u))"

section \<open>The two families behave alike\<close>

text \<open>
  Whatever addresses the datagrams come from, the Internet receiver hands to its callback exactly what
  the Unix receiver would, and ends at the same point.
\<close>

theorem iudp_loop_matches:
  assumes "list_all (\<lambda>r. case r of Some (d, UnixAddr p) \<Rightarrow> False | _ \<Rightarrow> True) rs"
  shows "iudp_recv_loop nt addr port packet rs = Inr (udp_recv_loop packet (map (map_option fst) rs))"
  using assms
proof (induction rs arbitrary: addr port packet)
  case (Cons r rs)
  show ?case
  proof (cases r)
    case None
    then show ?thesis by (simp add: sock_recv_from_def)
  next
    case (Some da)
    obtain d ip n where da: "da = (d, InetAddr ip n)"
      using Cons.prems Some by (cases da) (auto split: sock_address.splits)
    have t: "list_all (\<lambda>r. case r of Some (d, UnixAddr p) \<Rightarrow> False | _ \<Rightarrow> True) rs" using Cons.prems by simp
    show ?thesis
      by (simp add: Some da sock_recv_from_def show_sock_address_def Cons.IH [OF t] iudp_add_event_def udp_add_event_def Let_def split_beta)
  qed
qed simp

text \<open>The events of the Internet family make the trip too.\<close>

lemma iudp_send_matches:
  "iudp_server_send_event cb p = udp_server_send_event cb p" "iudp_server_send cb p n = udp_server_send cb p n"
  by (simp_all add: iudp_server_send_event_def udp_server_send_event_def iudp_sender_send_event_def udp_sender_send_event_def
      iudp_server_send_def udp_server_send_def)

text \<open>
  A failed start leaves no thread: neither the receiver's nor the queue's. A successful one leaves both,
  and the receiver's socket open.
\<close>

lemma udpif_start_effect:
  assumes "udpif_start sfd rfd b v w path u k = Ret r"
  shows "case r of
      Inl f \<Rightarrow> \<exists>s1 k1 s2 k2. uudp_sender_open sfd (ui_send u) k = (s1, k1) \<and> sock_open_path rfd b path (ui_recv u) (snd k1) = (False, s2, k2)
    | Inr (u1, k1) \<Rightarrow> thread_joinable (ui_receiver u1) \<and> thread_joinable (qt_thread (ui_qthread u1)) \<and> ui_path u1 = path"
  using assms
  by (auto simp: udpif_start_def uudp_server_start_def uudp_receiver_start_def thread_create_def qthread_start_def thread_joinable_def Let_def
      split: prod.splits sum.splits outcome.splits if_splits jthread_slot.splits)

text \<open>
  While the channel exists its receiver calls \<^verbatim>\<open>recv_handle\<close> in its own thread, so the order of the
  destructor matters: after the channel's destructor the receiver is gone, before the queue is stopped.
\<close>

lemma udpif_channel_joined:
  assumes "td_ready s" "td_todo s = destruct_udpif_channel" "steps td_step s es s1" "\<And>g. Opened g \<notin> set es"
    "td_todo s1 = []"
  shows "td_worker s1 = Finished"
proof -
  obtain d where "td_inv [ResetCallback] (td_fd s) d s"
    using td_ready_inv [OF assms(1)] assms(2) by (auto simp: destruct_udpif_channel_def destruct_uudp_receiver_def)
  then have "td_inv [ResetCallback] (td_fd s) d s1" using td_steps_inv [OF assms(3)] assms(4) by auto
  then show ?thesis using assms(5) by (auto simp: td_inv_def td_phase_def)
qed

end
