(* ===== verification/Tcp_Server.thy ===== *)
theory Tcp_Server
  imports Tcp_Channel Thread_Lifecycle
begin

unbundle bit_operations_syntax

text \<open>
  The connection table of \<^verbatim>\<open>TcpServer\<close> (\<^verbatim>\<open>src/tcpserver.cpp\<close>, \<^verbatim>\<open>include/tcpserver.hpp\<close>): the accept loop with
  its limit check, the sweep of disconnected channels, \<^verbatim>\<open>close_channel\<close>, and the selection of the channels
  \<^verbatim>\<open>broadcast\<close> and \<^verbatim>\<open>send_all\<close> hand to \<^verbatim>\<open>OnBeforeSend\<close>. A channel is its identity, status and type; its
  receive loop is \<open>Tcp_Channel\<close>. The accept loop leaves the lock between the limit check and the
  insertion, so these are two steps, interleaved with what other threads do to the table. What
  \<^verbatim>\<open>select\<close>, \<^verbatim>\<open>accept\<close> and \<^verbatim>\<open>Thread::create\<close> answer are arguments.
\<close>

section \<open>State\<close>

definition TCP_MASK :: u32 where "TCP_MASK = 0xefef"
definition TCP_CONN :: u32 where "TCP_CONN = 0xe1e1"
definition TCP_PING :: u32 where "TCP_PING = 0xe3e3"
definition TCP_PONG :: u32 where "TCP_PONG = 0xe7e7"
definition TCP_DISC :: u32 where "TCP_DISC = 0x1010"

lemmas tcp_status_defs = TCP_MASK_def TCP_CONN_def TCP_PING_def TCP_PONG_def TCP_DISC_def

record channel =
  ch_id :: nat
  ch_status :: u32
  ch_type :: int

record tcp_server =
  sv_channels :: "channel list"
  sv_limit :: int
  sv_addr :: string
  sv_port :: int
  sv_use_event :: bool

definition mk_tcp_server :: tcp_server where
  "mk_tcp_server = \<lparr>sv_channels = [], sv_limit = 1, sv_addr = [], sv_port = 0, sv_use_event = True\<rparr>"

definition mk_channel :: "nat \<Rightarrow> channel" where
  "mk_channel i = \<lparr>ch_id = i, ch_status = TCP_CONN, ch_type = 0\<rparr>"

definition set_limit :: "int \<Rightarrow> tcp_server \<Rightarrow> tcp_server" where
  "set_limit nCount sv = sv\<lparr>sv_limit := nCount\<rparr>"

definition set_status :: "nat \<Rightarrow> u32 \<Rightarrow> tcp_server \<Rightarrow> tcp_server" where
  "set_status i st sv = sv\<lparr>sv_channels := map (\<lambda>c. if ch_id c = i then c\<lparr>ch_status := st\<rparr> else c) (sv_channels sv)\<rparr>"

section \<open>Operations\<close>

text \<open>\<^verbatim>\<open>start\<close>: \<open>bind_ok\<close> is the answer of \<^verbatim>\<open>prepare_to_server\<close>, \<open>create_ret\<close> that of \<^verbatim>\<open>create\<close>.\<close>

definition tcp_server_start :: "(string option \<Rightarrow> int \<Rightarrow> bool) \<Rightarrow> int \<Rightarrow> string option \<Rightarrow> int \<Rightarrow> tcp_server \<Rightarrow> bool \<times> tcp_server" where
  "tcp_server_start bind_ok create_ret pszAddr nPort sv =
     (let sv1 = (case pszAddr of Some a \<Rightarrow> sv\<lparr>sv_addr := a\<rparr> | None \<Rightarrow> sv); sv2 = sv1\<lparr>sv_port := nPort\<rparr>
      in if \<not> bind_ok (if sv_addr sv2 = [] then None else Some (sv_addr sv2)) (sv_port sv2) then (False, sv2)
         else (create_ret = 1, sv2))"

definition check_channels :: "tcp_server \<Rightarrow> tcp_server" where
  "check_channels sv = sv\<lparr>sv_channels := filter (\<lambda>c. ch_status c AND TCP_DISC = 0) (sv_channels sv)\<rparr>"

fun erase_channel :: "nat \<Rightarrow> channel list \<Rightarrow> channel list" where
  "erase_channel i [] = []"
| "erase_channel i (c # cs) = (if ch_id c = i then cs else c # erase_channel i cs)"

definition close_channel :: "nat \<Rightarrow> tcp_server \<Rightarrow> tcp_server" where
  "close_channel i sv = sv\<lparr>sv_channels := erase_channel i (sv_channels sv)\<rparr>"

text \<open>The channels a message goes to, in order.\<close>

definition send_all :: "tcp_server \<Rightarrow> nat list" where
  "send_all sv = map ch_id (sv_channels sv)"

definition broadcast :: "u16 \<Rightarrow> tcp_server \<Rightarrow> nat list" where
  "broadcast usType sv =
     map ch_id (filter (\<lambda>c. ch_status c AND TCP_CONN \<noteq> 0 \<and> ch_type c = int (unat usType)) (sv_channels sv))"

text \<open>
  One turn of the accept loop up to the limit check: leave the loop, go round again, or go on with a
  new channel. \<open>client\<close> is the answer of \<^verbatim>\<open>accept\<close>: a channel identity, \<^verbatim>\<open>nullptr\<close> or an exception.
\<close>

datatype accept_answer = Accepted nat | NoClient | AcceptThrows
datatype turn = Leave | Again | Admit nat

definition accept_check :: "int \<Rightarrow> accept_answer \<Rightarrow> tcp_server \<Rightarrow> turn \<times> tcp_server" where
  "accept_check nResult client sv =
     (if nResult = -1 then (Leave, sv)
      else let sv1 = check_channels sv
           in if nResult = 0 then (Again, sv1)
              else case client of
                     AcceptThrows \<Rightarrow> (Leave, sv1)
                   | NoClient \<Rightarrow> (Again, sv1)
                   | Accepted i \<Rightarrow>
                       if to_int32 (int (length (sv_channels sv1))) = sv_limit sv1 then (Again, sv1)
                       else (Admit i, sv1))"

text \<open>The rest of the turn: \<open>on_connected\<close> is what the callback does to the new channel, \<open>created\<close>
  whether its thread started.\<close>

definition accept_insert :: "(channel \<Rightarrow> channel) \<Rightarrow> bool \<Rightarrow> nat \<Rightarrow> tcp_server \<Rightarrow> tcp_server" where
  "accept_insert on_connected created i sv =
     (if created then sv\<lparr>sv_channels := sv_channels sv @ [on_connected (mk_channel i)]\<rparr> else sv)"

section \<open>The server among its threads\<close>

text \<open>\<open>pending\<close> is the connection the accept thread has admitted and not yet inserted.\<close>

record server_sys =
  ss_server :: tcp_server
  ss_pending :: "nat option"

datatype server_event = TurnEnds | Admitted nat | Inserted nat | StatusChange nat u32 | ChannelClosed nat

inductive server_step :: "server_sys \<Rightarrow> server_event \<Rightarrow> server_sys \<Rightarrow> bool" where
  srv_turn: "ss_pending s = None \<Longrightarrow> accept_check r client (ss_server s) = (t, sv) \<Longrightarrow> t \<in> {Leave, Again} \<Longrightarrow>
    server_step s TurnEnds (s\<lparr>ss_server := sv\<rparr>)"
| srv_admit: "ss_pending s = None \<Longrightarrow> accept_check r client (ss_server s) = (Admit i, sv) \<Longrightarrow>
    server_step s (Admitted i) \<lparr>ss_server = sv, ss_pending = Some i\<rparr>"
| srv_insert: "ss_pending s = Some i \<Longrightarrow>
    server_step s (Inserted i) \<lparr>ss_server = accept_insert f created i (ss_server s), ss_pending = None\<rparr>"
| srv_status: "server_step s (StatusChange i st) (s\<lparr>ss_server := set_status i st (ss_server s)\<rparr>)"
| srv_close: "server_step s (ChannelClosed i) (s\<lparr>ss_server := close_channel i (ss_server s)\<rparr>)"

definition connections :: "server_sys \<Rightarrow> nat" where
  "connections s = length (sv_channels (ss_server s)) + (if ss_pending s = None then 0 else 1)"

lemma length_check_channels: "length (sv_channels (check_channels sv)) \<le> length (sv_channels sv)"
  by (simp add: check_channels_def)

lemma length_erase_channel: "length (erase_channel i cs) \<le> length cs"
  by (induction cs) auto

lemma check_channels_limit [simp]: "sv_limit (check_channels sv) = sv_limit sv"
  by (simp add: check_channels_def)

lemma accept_check_cases:
  assumes "accept_check r client sv = (t, sv')"
  shows "sv' \<in> {sv, check_channels sv}"
    and "t = Admit i \<Longrightarrow> sv' = check_channels sv \<and> to_int32 (int (length (sv_channels sv'))) \<noteq> sv_limit sv"
  using assms by (auto simp: accept_check_def Let_def split: if_splits accept_answer.splits)

lemma server_step_limit:
  assumes "server_step s e s'" "int (connections s) \<le> sv_limit (ss_server s)" "sv_limit (ss_server s) < 2 ^ 31"
  shows "int (connections s') \<le> sv_limit (ss_server s') \<and> sv_limit (ss_server s') = sv_limit (ss_server s)"
  using assms(1)
proof cases
  case (srv_turn r client t sv)
  then have "sv \<in> {ss_server s, check_channels (ss_server s)}" using accept_check_cases(1) by blast
  then show ?thesis
    using srv_turn(2,3) assms(2) length_check_channels [of "ss_server s"] by (auto simp: connections_def)
next
  case (srv_admit r client i sv)
  have sv: "sv = check_channels (ss_server s)"
      "to_int32 (int (length (sv_channels sv))) \<noteq> sv_limit (ss_server s)"
    using accept_check_cases(2) [OF srv_admit(4) refl] by auto
  have le: "int (length (sv_channels sv)) \<le> sv_limit (ss_server s)"
    using assms(2) srv_admit(3) length_check_channels [of "ss_server s"] by (simp add: connections_def sv(1))
  then have "to_int32 (int (length (sv_channels sv))) = int (length (sv_channels sv))"
    using assms(3) by (intro to_int32_id) (simp add: in_int32_def)
  then have "int (length (sv_channels sv)) < sv_limit (ss_server s)" using sv(2) le by simp
  then show ?thesis using srv_admit(2) sv(1) by (simp add: connections_def)
next
  case (srv_insert i f created)
  then show ?thesis using assms(2) by (auto simp: connections_def accept_insert_def)
next
  case (srv_status i st)
  then show ?thesis using assms(2) by (auto simp: connections_def set_status_def)
next
  case (srv_close i)
  then show ?thesis
    using assms(2) length_erase_channel [of i "sv_channels (ss_server s)"] by (auto simp: connections_def close_channel_def)
qed

section \<open>Properties\<close>

text \<open>
  C28: the connection limit holds under every interleaving. From a new server with limit \<open>n\<close>, whatever
  clients connect, channels disconnect or are closed, also between the limit check and the insertion of
  a new channel, the server never has more than \<open>n\<close> connections.
\<close>

theorem tcp_server_limit:
  assumes "0 \<le> n" "n < 2 ^ 31"
    "steps server_step \<lparr>ss_server = set_limit n mk_tcp_server, ss_pending = None\<rparr> es s"
  shows "int (connections s) \<le> n"
proof -
  let ?P = "\<lambda>s. int (connections s) \<le> sv_limit (ss_server s) \<and> sv_limit (ss_server s) = n"
  have "?P \<lparr>ss_server = set_limit n mk_tcp_server, ss_pending = None\<rparr>"
    using assms(1) by (simp add: connections_def set_limit_def mk_tcp_server_def)
  moreover have "?P s \<Longrightarrow> server_step s e s' \<Longrightarrow> ?P s'" for s e s'
    using server_step_limit [of s e s'] assms(2) by simp
  ultimately have "?P s" using steps_invariant [OF assms(3), of ?P] by blast
  then show ?thesis by simp
qed

theorem tcp_server_limit_witness:
  "\<exists>s. steps server_step \<lparr>ss_server = set_limit 1 mk_tcp_server, ss_pending = None\<rparr> [Admitted 7, Inserted 7] s \<and>
     int (connections s) \<le> 1"
proof -
  let ?sv = "set_limit 1 mk_tcp_server"
  have "accept_check 1 (Accepted 7) ?sv = (Admit 7, ?sv)"
    by (simp add: accept_check_def check_channels_def set_limit_def mk_tcp_server_def to_int32_def Let_def)
  then have "server_step \<lparr>ss_server = ?sv, ss_pending = None\<rparr> (Admitted 7) \<lparr>ss_server = ?sv, ss_pending = Some 7\<rparr>"
    using srv_admit [of "\<lparr>ss_server = ?sv, ss_pending = None\<rparr>"] by simp
  moreover have "server_step \<lparr>ss_server = ?sv, ss_pending = Some 7\<rparr> (Inserted 7)
      \<lparr>ss_server = accept_insert id True 7 ?sv, ss_pending = None\<rparr>"
    using srv_insert [of "\<lparr>ss_server = ?sv, ss_pending = Some 7\<rparr>" 7 id True] by simp
  ultimately have run: "steps server_step \<lparr>ss_server = ?sv, ss_pending = None\<rparr> [Admitted 7, Inserted 7]
      \<lparr>ss_server = accept_insert id True 7 ?sv, ss_pending = None\<rparr>" by (blast intro: steps.intros)
  then show ?thesis using tcp_server_limit [OF _ _ run] by auto
qed

text \<open>
  Lowering the limit below the number of connections removes it. The check tests for equality: with
  more than \<^verbatim>\<open>limit_\<close> live channels every further client is admitted, and the table grows.
\<close>

theorem tcp_server_lowered_limit_ignored:
  assumes "list_all (\<lambda>c. ch_status c AND TCP_DISC = 0) (sv_channels sv)" "n < int (length (sv_channels sv))"
    "length (sv_channels sv) < 2 ^ 31"
  shows "accept_check 1 (Accepted i) (set_limit n sv) = (Admit i, set_limit n sv)"
proof -
  have "to_int32 (int (length (sv_channels sv))) = int (length (sv_channels sv))"
    using assms(3) by (intro to_int32_id) (simp add: in_int32_def)
  moreover have "check_channels (set_limit n sv) = set_limit n sv"
    using assms(1) by (simp add: check_channels_def set_limit_def list_all_iff)
  ultimately show ?thesis using assms(2) by (simp add: accept_check_def set_limit_def Let_def)
qed

theorem tcp_server_lowered_limit_ignored_witness:
  "accept_check 1 (Accepted 9) (set_limit 1 (mk_tcp_server\<lparr>sv_channels := [mk_channel 1, mk_channel 2]\<rparr>)) =
     (Admit 9, set_limit 1 (mk_tcp_server\<lparr>sv_channels := [mk_channel 1, mk_channel 2]\<rparr>))"
  using tcp_server_lowered_limit_ignored [of "mk_tcp_server\<lparr>sv_channels := [mk_channel 1, mk_channel 2]\<rparr>" 1 9]
  by (simp add: mk_channel_def tcp_status_defs)

text \<open>
  The status words are chosen so that the bit tests work: the sweep removes exactly the channels marked
  \<^verbatim>\<open>TCP_DISC\<close>, and a broadcast reaches exactly the channels of its type that are not.
\<close>

lemma tcp_status_bits:
  assumes "st \<in> {TCP_MASK, TCP_CONN, TCP_PING, TCP_PONG, TCP_DISC}"
  shows "st AND TCP_DISC = 0 \<longleftrightarrow> st \<noteq> TCP_DISC" "st AND TCP_CONN \<noteq> 0 \<longleftrightarrow> st \<noteq> TCP_DISC"
  using assms by (auto simp: tcp_status_defs)

lemma sweep_then_broadcast:
  assumes "\<forall>c\<in>set (sv_channels sv). ch_status c \<in> {TCP_MASK, TCP_CONN, TCP_PING, TCP_PONG, TCP_DISC}"
  shows "broadcast ty (check_channels sv) = broadcast ty sv"
    "set (send_all (check_channels sv)) = {ch_id c |c. c \<in> set (sv_channels sv) \<and> ch_status c \<noteq> TCP_DISC}"
proof -
  have "filter (\<lambda>c. ch_status c AND TCP_CONN \<noteq> 0 \<and> ch_type c = int (unat ty)) (filter (\<lambda>c. ch_status c AND TCP_DISC = 0) (sv_channels sv))
      = filter (\<lambda>c. ch_status c AND TCP_CONN \<noteq> 0 \<and> ch_type c = int (unat ty)) (sv_channels sv)"
    unfolding filter_filter using assms tcp_status_bits by (intro filter_cong) auto
  then show "broadcast ty (check_channels sv) = broadcast ty sv" by (simp add: broadcast_def check_channels_def)
  show "set (send_all (check_channels sv)) = {ch_id c |c. c \<in> set (sv_channels sv) \<and> ch_status c \<noteq> TCP_DISC}"
    using assms tcp_status_bits(1) by (auto simp: send_all_def check_channels_def)
qed

section \<open>Accessors\<close>

text \<open>\<^verbatim>\<open>count\<close> is the limit on connections, not their number.\<close>

definition server_count :: "tcp_server \<Rightarrow> int" where
  "server_count sv = sv_limit sv"

definition set_use_event :: "bool \<Rightarrow> tcp_server \<Rightarrow> tcp_server" where
  "set_use_event b sv = sv\<lparr>sv_use_event := b\<rparr>"

definition use_event :: "tcp_server \<Rightarrow> bool" where
  "use_event sv = sv_use_event sv"

definition channel_set_type :: "int \<Rightarrow> channel \<Rightarrow> channel" where
  "channel_set_type nType c = c\<lparr>ch_type := nType\<rparr>"

definition channel_type :: "channel \<Rightarrow> int" where
  "channel_type c = ch_type c"

definition channel_status :: "channel \<Rightarrow> u32" where
  "channel_status c = ch_status c"

lemma accessors_frame:
  "use_event (set_use_event b sv) = b" "sv_channels (set_use_event b sv) = sv_channels sv"
  "channel_type (channel_set_type t c) = t" "channel_status (channel_set_type t c) = channel_status c"
  by (simp_all add: use_event_def set_use_event_def channel_type_def channel_set_type_def channel_status_def)

lemma count_is_the_limit: "server_count mk_tcp_server = 1 \<and> sv_channels mk_tcp_server = []"
  by (simp add: server_count_def mk_tcp_server_def)

end
