(* ===== verification/Tcp_Teardown.thy ===== *)
theory Tcp_Teardown
  imports Tcp_Server Teardown
begin

text \<open>
  What \<^verbatim>\<open>src/tcpserver.cpp\<close> does when a connection or the server goes: \<^verbatim>\<open>TcpChannel::send\<close>, which closes the
  channel when the peer is gone, \<^verbatim>\<open>TcpServer::close\<close>, and the destructor of the server, which holds \<^verbatim>\<open>lock_\<close> while
  it destroys the channels and so joins their workers.
\<close>

section \<open>TcpChannel::send\<close>

text \<open>
  \<open>n\<close> is what \<^verbatim>\<open>Socket::send\<close> returns, \<open>caller\<close> the calling thread. The last component is the worker that is
  joined before the call returns. A thread that joins itself gets an exception, and the \<^verbatim>\<open>jthread\<close> it
  holds terminates the process as it is unwound: \<open>None\<close>.
\<close>

definition channel_send :: "bool \<Rightarrow> int \<Rightarrow> wid \<Rightarrow> thread_obj \<Rightarrow> (int \<times> thread_obj \<times> jthread_slot option) option" where
  "channel_send has_sock n caller th =
     (if \<not> has_sock then Some (-1, th, None)
      else if n = -1
           then (let th1 = close_pre th
                 in case close_post_begin th1 of
                      None \<Rightarrow> Some (n, th1, None)
                    | Some (j, th2) \<Rightarrow> if j = Joinable caller then None else Some (n, th2, Some j))
           else Some (n, th, None))"

text \<open>From another thread a failed send stops and joins the worker; from the worker's callback it ends the process.\<close>

lemma channel_send_failed:
  assumes "th_thread th = Joinable w" "\<not> th_closing th"
  shows "caller \<noteq> w \<Longrightarrow> \<exists>th'. channel_send True (-1) caller th = Some (-1, th', Some (Joinable w)) \<and> do_exit th' \<and>
      th_thread (close_post_end th') = NoThread"
    "channel_send True (-1) w th = None"
  using assms by (auto simp: channel_send_def close_pre_def close_post_begin_def close_post_end_def do_exit_def)

lemma channel_send_sent: "n \<noteq> -1 \<Longrightarrow> channel_send True n caller th = Some (n, th, None)"
  by (simp add: channel_send_def)

section \<open>The destructor of the server\<close>

text \<open>\<^verbatim>\<open>close()\<close>: the worker is told to stop, the listening socket is closed, the worker is joined.\<close>

definition tcp_server_close :: "td_action list" where
  "tcp_server_close = [ClosePre] @ socket_close_actions @ [ClosePost]"

text \<open>
  After \<^verbatim>\<open>close()\<close> and the reset of the callbacks, the destructor takes \<^verbatim>\<open>lock_\<close>, joins the workers of the
  channels one after the other, and releases it. A worker is outside a callback, inside one, waiting for
  \<^verbatim>\<open>lock_\<close> because its callback called \<^verbatim>\<open>broadcast\<close> or \<^verbatim>\<open>send_all\<close>, or gone. Its socket is closed before it is
  joined, so outside a callback it goes.
\<close>

datatype cb_pc = Outside | InCallback | WantsLock | HasLock | Gone

datatype lock_holder = Free | Destructor | Worker nat

record sv_teardown =
  st_lock :: lock_holder
  st_workers :: "cb_pc list"
  st_joined :: nat
  st_done :: bool

inductive sv_step :: "sv_teardown \<Rightarrow> sv_teardown \<Rightarrow> bool" where
  takes_lock: "st_lock s = Free \<Longrightarrow> \<not> st_done s \<Longrightarrow> sv_step s (s\<lparr>st_lock := Destructor\<rparr>)"
| joins: "st_lock s = Destructor \<Longrightarrow> st_joined s < length (st_workers s) \<Longrightarrow> st_workers s ! st_joined s = Gone \<Longrightarrow>
    sv_step s (s\<lparr>st_joined := Suc (st_joined s)\<rparr>)"
| unlocks: "st_lock s = Destructor \<Longrightarrow> st_joined s = length (st_workers s) \<Longrightarrow> sv_step s (s\<lparr>st_lock := Free, st_done := True\<rparr>)"
| leaves: "i < length (st_workers s) \<Longrightarrow> st_workers s ! i = Outside \<Longrightarrow> st_lock s = Destructor \<Longrightarrow> i = st_joined s \<Longrightarrow>
    sv_step s (s\<lparr>st_workers := (st_workers s)[i := Gone]\<rparr>)"
| returns: "i < length (st_workers s) \<Longrightarrow> st_workers s ! i = InCallback \<Longrightarrow> sv_step s (s\<lparr>st_workers := (st_workers s)[i := Outside]\<rparr>)"
| acquires: "i < length (st_workers s) \<Longrightarrow> st_workers s ! i = WantsLock \<Longrightarrow> st_lock s = Free \<Longrightarrow>
    sv_step s (s\<lparr>st_lock := Worker i, st_workers := (st_workers s)[i := HasLock]\<rparr>)"
| releases: "i < length (st_workers s) \<Longrightarrow> st_workers s ! i = HasLock \<Longrightarrow> st_lock s = Worker i \<Longrightarrow>
    sv_step s (s\<lparr>st_lock := Free, st_workers := (st_workers s)[i := InCallback]\<rparr>)"

inductive_cases sv_stepE: "sv_step s s'"

text \<open>
  If no callback uses the lock, the destructor finishes: what is left to do goes down with every step.
\<close>

fun cb_left :: "cb_pc \<Rightarrow> nat" where
  "cb_left InCallback = 2"
| "cb_left Outside = 1"
| "cb_left _ = 0"

definition sv_left :: "sv_teardown \<Rightarrow> nat" where
  "sv_left s = sum_list (map cb_left (st_workers s)) + (length (st_workers s) - st_joined s) +
     (if st_done s then 0 else if st_lock s = Destructor then 1 else 2)"

definition lock_free_callbacks :: "sv_teardown \<Rightarrow> bool" where
  "lock_free_callbacks s \<longleftrightarrow> (st_lock s = Free \<or> st_lock s = Destructor \<and> \<not> st_done s) \<and> st_joined s \<le> length (st_workers s) \<and>
     list_all (\<lambda>pc. pc \<in> {Outside, InCallback, Gone}) (st_workers s)"

lemma cb_left_update:
  "i < length ws \<Longrightarrow> cb_left pc < cb_left (ws ! i) \<Longrightarrow> sum_list (map cb_left (ws[i := pc])) < sum_list (map cb_left ws)"
  by (induction ws arbitrary: i) (auto split: nat.splits)

lemma callback_pc: "lock_free_callbacks s \<Longrightarrow> i < length (st_workers s) \<Longrightarrow> st_workers s ! i \<in> {Outside, InCallback, Gone}"
  unfolding lock_free_callbacks_def list_all_length by blast

lemma sv_step_left:
  assumes "sv_step s s'" "lock_free_callbacks s"
  shows "lock_free_callbacks s' \<and> sv_left s' < sv_left s"
  using assms(1)
proof cases
  case (leaves i)
  then show ?thesis using assms(2) cb_left_update [of i "st_workers s" Gone]
    by (auto simp: lock_free_callbacks_def sv_left_def list_all_length nth_list_update)
next
  case (returns i)
  then show ?thesis using assms(2) cb_left_update [of i "st_workers s" Outside]
    by (auto simp: lock_free_callbacks_def sv_left_def list_all_length nth_list_update)
next
  case (acquires i)
  then show ?thesis using callback_pc [OF assms(2), of i] by simp
next
  case (releases i)
  then show ?thesis using callback_pc [OF assms(2), of i] by simp
qed (use assms(2) in \<open>auto simp: lock_free_callbacks_def sv_left_def\<close>)

lemma destructor_progress:
  assumes "lock_free_callbacks s" "\<not> st_done s"
  shows "\<exists>s'. sv_step s s'"
proof (cases "st_lock s = Destructor \<and> st_joined s < length (st_workers s)")
  case True
  then have "st_workers s ! st_joined s \<in> {Outside, InCallback, Gone}"
    using callback_pc [OF assms(1)] by blast
  then show ?thesis using True joins [of s] leaves [of "st_joined s" s] returns [of "st_joined s" s] by auto
next
  case False
  then show ?thesis using assms takes_lock [of s] unlocks [of s] by (fastforce simp: lock_free_callbacks_def)
qed

interpretation svr: ranked_steps "\<lambda>s (e :: unit) s'. sv_step s s'" lock_free_callbacks "\<lambda>_. True" "\<lambda>_. True" sv_left st_done
  by unfold_locales (use sv_step_left destructor_progress in auto)

lemma server_destructor_returns:
  assumes "lock_free_callbacks s"
  shows "\<exists>es s'. steps (\<lambda>s (e :: unit) s'. sv_step s s') s es s' \<and> st_done s'"
    "steps (\<lambda>s (e :: unit) s'. sv_step s s') s es s' \<Longrightarrow> length es \<le> sv_left s"
  using svr.finishes [OF assms] svr.bounded [of s es s'] assms by (auto simp: list_all_iff)

text \<open>
  If the callback of a channel waits for the lock when the destructor has it, the destructor waits for
  the worker and the worker for the destructor.
\<close>

lemma server_destructor_deadlock:
  "sv_step \<lparr>st_lock = Free, st_workers = [WantsLock], st_joined = 0, st_done = False\<rparr>
     \<lparr>st_lock = Destructor, st_workers = [WantsLock], st_joined = 0, st_done = False\<rparr>"
  "\<not> sv_step \<lparr>st_lock = Destructor, st_workers = [WantsLock], st_joined = 0, st_done = False\<rparr> s'"
proof -
  show "sv_step \<lparr>st_lock = Free, st_workers = [WantsLock], st_joined = 0, st_done = False\<rparr>
     \<lparr>st_lock = Destructor, st_workers = [WantsLock], st_joined = 0, st_done = False\<rparr>"
    using takes_lock [of "\<lparr>st_lock = Free, st_workers = [WantsLock], st_joined = 0, st_done = False\<rparr>"] by simp
  show "\<not> sv_step \<lparr>st_lock = Destructor, st_workers = [WantsLock], st_joined = 0, st_done = False\<rparr> s'"
    by (auto elim!: sv_stepE)
qed

end
