(* ===== verification/Global_Timer.thy ===== *)
theory Global_Timer
  imports C_Text
begin

text \<open>
  \<^verbatim>\<open>class GlobalTimer\<close> of \<^verbatim>\<open>src/util.cpp\<close> and \<^verbatim>\<open>include/util.hpp\<close>: one-shot timers, each a heap-allocated
  \<^verbatim>\<open>TimeSpec\<close> that a map (object, then number) and a list both point to. The heap is explicit, so that a
  pointer kept after \<^verbatim>\<open>delete\<close> is visible: using one is the fault \<open>UB\<close>. \<^verbatim>\<open>start_timer\<close>, \<^verbatim>\<open>stop_timer\<close> and
  one pass of \<^verbatim>\<open>thread_proc\<close> each run under \<^verbatim>\<open>lock_\<close>. The time of day is an argument; the objects are
  numbers, and the events posted to them are the result of a pass.
\<close>

section \<open>State and methods\<close>

type_synonym addr = nat
type_synonym obj_id = nat

record timeval =
  tv_sec :: int
  tv_usec :: int

record time_spec =
  sp_tv :: timeval
  sp_nTerm :: int
  sp_nWhich :: u8
  sp_obj :: obj_id

record global_timer =
  gt_heap :: "addr \<rightharpoonup> time_spec"
  gt_map :: "obj_id \<rightharpoonup> (int \<rightharpoonup> addr)"
  gt_list :: "addr list"
  gt_next :: addr

definition mk_global_timer :: global_timer where
  "mk_global_timer = \<lparr>gt_heap = Map.empty, gt_map = Map.empty, gt_list = [], gt_next = 0\<rparr>"

text \<open>Division of C++ integers truncates towards zero.\<close>

definition cdiv :: "int \<Rightarrow> int \<Rightarrow> int" where
  "cdiv a b = (if (a < 0) = (b < 0) then \<bar>a\<bar> div \<bar>b\<bar> else - (\<bar>a\<bar> div \<bar>b\<bar>))"

definition DIFFTIME :: "timeval \<Rightarrow> timeval \<Rightarrow> int" where
  "DIFFTIME t u = \<bar>(tv_sec t - tv_sec u) * 1000 + cdiv (tv_usec t - tv_usec u) 1000\<bar>"

text \<open>\<^verbatim>\<open>timer_map_[obj]\<close>: the entry, created empty when there is none.\<close>

definition gt_entry :: "obj_id \<Rightarrow> global_timer \<Rightarrow> (int \<rightharpoonup> addr)" where
  "gt_entry obj s = (case gt_map s obj of None \<Rightarrow> Map.empty | Some wm \<Rightarrow> wm)"

definition AddElement :: "timeval \<Rightarrow> obj_id \<Rightarrow> int \<Rightarrow> int \<Rightarrow> global_timer \<Rightarrow> bool \<times> global_timer" where
  "AddElement now obj msecs nWhich s =
     (let wm = gt_entry obj s
      in if wm nWhich \<noteq> None then (False, s\<lparr>gt_map := (gt_map s)(obj \<mapsto> wm)\<rparr>)
         else let p = gt_next s;
                  sp = \<lparr>sp_tv = now, sp_nTerm = msecs, sp_nWhich = word_of_int nWhich, sp_obj = obj\<rparr>
              in (True, s\<lparr>gt_heap := (gt_heap s)(p \<mapsto> sp), gt_next := Suc p,
                         gt_map := (gt_map s)(obj \<mapsto> wm(nWhich \<mapsto> p)), gt_list := gt_list s @ [p]\<rparr>))"

definition erase_which :: "obj_id \<Rightarrow> int \<Rightarrow> global_timer \<Rightarrow> global_timer" where
  "erase_which obj nWhich s =
     (let wm = (gt_entry obj s)(nWhich := None)
      in s\<lparr>gt_map := (gt_map s)(obj := (if wm = Map.empty then None else Some wm))\<rparr>)"

definition RemoveElement :: "obj_id \<Rightarrow> int \<Rightarrow> global_timer \<Rightarrow> fault + bool \<times> global_timer" where
  "RemoveElement obj nWhich s =
     (case gt_map s obj of
        None \<Rightarrow> Inr (False, s)
      | Some wm \<Rightarrow>
          (case wm nWhich of
             None \<Rightarrow> Inr (False, s)
           | Some p \<Rightarrow>
               if gt_heap s p = None then Inl (UB ''delete of a freed TimeSpec'')
               else Inr (True, (erase_which obj nWhich s)\<lparr>gt_list := removeAll p (gt_list s),
                                                          gt_heap := (gt_heap s)(p := None)\<rparr>)))"

definition start_timer :: "timeval \<Rightarrow> obj_id \<Rightarrow> int \<Rightarrow> int \<Rightarrow> global_timer \<Rightarrow> bool \<times> global_timer" where
  "start_timer now obj msecs nWhich s = AddElement now obj msecs nWhich s"

definition stop_timer :: "obj_id \<Rightarrow> int \<Rightarrow> global_timer \<Rightarrow> fault + bool \<times> global_timer" where
  "stop_timer obj nWhich s = RemoveElement obj nWhich s"

text \<open>
  The pass in \<^verbatim>\<open>thread_proc\<close>. What a due timer posts are the arguments of the call of \<^verbatim>\<open>add_event\<close>: the object,
  the number and the text in \<^verbatim>\<open>strBuf\<close>. The list argument of the scan is the part of \<^verbatim>\<open>timer_list_\<close> still to
  visit.
\<close>

type_synonym post = "obj_id \<times> u16 \<times> string"

definition timer_text :: "timeval \<Rightarrow> time_spec \<Rightarrow> string" where
  "timer_text ntv sp = snprintf 64 (''Term:'' @ show_int (DIFFTIME (sp_tv sp) ntv) @ '', Delay:'' @ show_int (sp_nTerm sp))"

definition timer_post :: "timeval \<Rightarrow> time_spec \<Rightarrow> post" where
  "timer_post ntv sp = (sp_obj sp, ucast (sp_nWhich sp), timer_text ntv sp)"

definition expired :: "timeval \<Rightarrow> time_spec \<Rightarrow> bool" where
  "expired ntv sp \<longleftrightarrow> DIFFTIME (sp_tv sp) ntv \<ge> sp_nTerm sp"

fun gt_scan :: "timeval \<Rightarrow> addr list \<Rightarrow> global_timer \<Rightarrow> fault + post list \<times> global_timer" where
  "gt_scan ntv [] s = Inr ([], s)"
| "gt_scan ntv (p # ps) s =
     (case gt_heap s p of
        None \<Rightarrow> Inl (UB ''read of a freed TimeSpec'')
      | Some sp \<Rightarrow>
          (case gt_map s (sp_obj sp) of
             None \<Rightarrow> gt_scan ntv ps s
           | Some wm \<Rightarrow>
               if wm (uint (sp_nWhich sp)) = None then gt_scan ntv ps s
               else if expired ntv sp
               then (case gt_scan ntv ps
                       ((erase_which (sp_obj sp) (uint (sp_nWhich sp)) s)
                          \<lparr>gt_list := remove1 p (gt_list s), gt_heap := (gt_heap s)(p := None)\<rparr>) of
                       Inl f \<Rightarrow> Inl f
                     | Inr (evs, s') \<Rightarrow> Inr (timer_post ntv sp # evs, s'))
               else gt_scan ntv ps s))"

definition gt_pass :: "timeval \<Rightarrow> global_timer \<Rightarrow> fault + post list \<times> global_timer" where
  "gt_pass ntv s = gt_scan ntv (gt_list s) s"

section \<open>Invariant\<close>

text \<open>
  The map and the list are two indices of the same set of live \<^verbatim>\<open>TimeSpec\<close>s. It holds as long as every
  number passed to \<^verbatim>\<open>start_timer\<close> survives the conversion to \<^verbatim>\<open>uint8_t\<close>.
\<close>

definition gt_lookup :: "global_timer \<Rightarrow> obj_id \<Rightarrow> int \<Rightarrow> addr option" where
  "gt_lookup s obj w = gt_entry obj s w"

definition gt_inv :: "global_timer \<Rightarrow> bool" where
  "gt_inv s \<longleftrightarrow>
     distinct (gt_list s) \<and> set (gt_list s) = dom (gt_heap s) \<and> (\<forall>p \<in> dom (gt_heap s). p < gt_next s) \<and>
     (\<forall>obj w p. gt_lookup s obj w = Some p \<longleftrightarrow>
        (\<exists>sp. gt_heap s p = Some sp \<and> sp_obj sp = obj \<and> uint (sp_nWhich sp) = w))"

lemma gt_inv_init: "gt_inv mk_global_timer"
  by (simp add: gt_inv_def mk_global_timer_def gt_lookup_def gt_entry_def)

lemma gt_lookup_erase:
  "gt_lookup (erase_which obj w s) o' w' = (if o' = obj \<and> w' = w then None else gt_lookup s o' w')"
  by (auto simp: gt_lookup_def gt_entry_def erase_which_def Let_def split: option.splits)
     (metis fun_upd_other fun_upd_triv fun_upd_upd option.case_eq_if)+

lemma gt_lookup_update [simp]:
  "gt_lookup (s\<lparr>gt_list := l, gt_heap := h\<rparr>) = gt_lookup s"
  by (intro ext) (simp add: gt_lookup_def gt_entry_def)

lemma erase_which_fields [simp]:
  "gt_heap (erase_which obj w s) = gt_heap s" "gt_list (erase_which obj w s) = gt_list s"
  "gt_next (erase_which obj w s) = gt_next s"
  by (simp_all add: erase_which_def Let_def)

text \<open>Removing one live timer from both indices and the heap.\<close>

definition gt_drop :: "addr \<Rightarrow> time_spec \<Rightarrow> global_timer \<Rightarrow> global_timer" where
  "gt_drop p sp s = (erase_which (sp_obj sp) (uint (sp_nWhich sp)) s)
     \<lparr>gt_list := remove1 p (gt_list s), gt_heap := (gt_heap s)(p := None)\<rparr>"

lemma gt_drop_inv:
  assumes "gt_inv s" "gt_heap s p = Some sp"
  shows "gt_inv (gt_drop p sp s)"
proof -
  have l: "gt_lookup s obj w = Some q \<longleftrightarrow> (\<exists>sp. gt_heap s q = Some sp \<and> sp_obj sp = obj \<and> uint (sp_nWhich sp) = w)"
    for obj w q using assms(1) by (simp add: gt_inv_def)
  have p: "gt_lookup s (sp_obj sp) (uint (sp_nWhich sp)) = Some p" using l assms(2) by blast
  have "gt_lookup (gt_drop p sp s) obj w = Some q \<longleftrightarrow>
      (\<exists>sp'. gt_heap (gt_drop p sp s) q = Some sp' \<and> sp_obj sp' = obj \<and> uint (sp_nWhich sp') = w)" for obj w q
    using l [of obj w q] p assms(2) by (auto simp: gt_drop_def gt_lookup_erase)
  then show ?thesis using assms by (auto simp: gt_inv_def gt_drop_def)
qed

lemma gt_live:
  assumes "gt_inv s" "gt_heap s p = Some sp"
  shows "\<exists>wm. gt_map s (sp_obj sp) = Some wm \<and> wm (uint (sp_nWhich sp)) = Some p"
proof -
  have "gt_lookup s (sp_obj sp) (uint (sp_nWhich sp)) = Some p" using assms by (auto simp: gt_inv_def)
  then show ?thesis by (auto simp: gt_lookup_def gt_entry_def split: option.splits)
qed

lemma AddElement_spec:
  assumes inv: "gt_inv s" and w: "0 \<le> w" "w < 256"
  shows "fst (AddElement now obj ms w s) = (gt_lookup s obj w = None) \<and> gt_inv (snd (AddElement now obj ms w s)) \<and>
    gt_lookup (snd (AddElement now obj ms w s)) obj w \<noteq> None"
proof (cases "gt_lookup s obj w")
  case None
  have u: "uint (word_of_int w :: u8) = w" using w by (simp add: uint_word_of_int)
  let ?p = "gt_next s" and ?s = "snd (AddElement now obj ms w s)"
  let ?sp = "\<lparr>sp_tv = now, sp_nTerm = ms, sp_nWhich = word_of_int w :: u8, sp_obj = obj\<rparr>"
  have a: "AddElement now obj ms w s = (True, s\<lparr>gt_heap := (gt_heap s)(?p \<mapsto> ?sp), gt_next := Suc ?p,
      gt_map := (gt_map s)(obj \<mapsto> (gt_entry obj s)(w \<mapsto> ?p)), gt_list := gt_list s @ [?p]\<rparr>)"
    using None by (simp add: AddElement_def gt_lookup_def Let_def)
  have look: "gt_lookup ?s o' w' = (if o' = obj \<and> w' = w then Some ?p else gt_lookup s o' w')" for o' w'
    by (auto simp: a gt_lookup_def gt_entry_def)
  have fresh: "gt_heap s ?p = None" using inv by (auto simp: gt_inv_def)
  have "gt_lookup ?s o' w' = Some q \<longleftrightarrow> (\<exists>sp. gt_heap ?s q = Some sp \<and> sp_obj sp = o' \<and> uint (sp_nWhich sp) = w')"
    for o' w' q
  proof -
    have "gt_lookup s o' w' = Some q \<longleftrightarrow> (\<exists>sp. gt_heap s q = Some sp \<and> sp_obj sp = o' \<and> uint (sp_nWhich sp) = w')"
      using inv by (simp add: gt_inv_def)
    then show ?thesis using look [of o' w'] fresh None u by (auto simp: a)
  qed
  moreover have "\<forall>p \<in> dom (gt_heap ?s). p < gt_next ?s"
    using inv by (auto simp: gt_inv_def a) (metis domI less_SucI)
  ultimately show ?thesis using inv fresh None look [of obj w] by (auto simp: gt_inv_def a)
next
  case (Some p)
  then have "gt_map s obj = Some (gt_entry obj s)"
    by (auto simp: gt_lookup_def gt_entry_def split: option.splits)
  then have "AddElement now obj ms w s = (False, s)"
    using Some by (simp add: AddElement_def gt_lookup_def Let_def fun_upd_idem)
  then show ?thesis using inv Some by simp
qed

lemma RemoveElement_spec:
  assumes inv: "gt_inv s"
  shows "\<exists>s'. RemoveElement obj w s = Inr (gt_lookup s obj w \<noteq> None, s') \<and> gt_inv s' \<and>
    gt_lookup s' = (\<lambda>o' w'. if o' = obj \<and> w' = w then None else gt_lookup s o' w')"
proof (cases "gt_lookup s obj w")
  case None
  then have "RemoveElement obj w s = Inr (False, s)"
    by (cases "gt_map s obj") (simp_all add: RemoveElement_def gt_lookup_def gt_entry_def)
  then show ?thesis using inv None by (auto simp: fun_eq_iff)
next
  case (Some p)
  then obtain sp where sp: "gt_heap s p = Some sp" "sp_obj sp = obj" "uint (sp_nWhich sp) = w"
    using inv by (auto simp: gt_inv_def)
  have "distinct (gt_list s)" using inv by (simp add: gt_inv_def)
  moreover obtain wm where "gt_map s obj = Some wm" "wm w = Some p"
    using Some by (cases "gt_map s obj") (simp_all add: gt_lookup_def gt_entry_def)
  ultimately have "RemoveElement obj w s = Inr (True, gt_drop p sp s)"
    using sp by (simp add: RemoveElement_def gt_drop_def distinct_remove1_removeAll)
  then show ?thesis
    using gt_drop_inv [OF inv sp(1)] Some sp by (auto simp: gt_drop_def gt_lookup_erase fun_eq_iff)
qed

section \<open>A pass\<close>

definition is_expired :: "timeval \<Rightarrow> global_timer \<Rightarrow> addr \<Rightarrow> bool" where
  "is_expired ntv s p = (case gt_heap s p of None \<Rightarrow> False | Some sp \<Rightarrow> expired ntv sp)"

definition timer_event :: "timeval \<Rightarrow> global_timer \<Rightarrow> addr \<Rightarrow> post" where
  "timer_event ntv s p = timer_post ntv (the (gt_heap s p))"

lemma filter_remove1_neg: "\<not> P p \<Longrightarrow> filter P (remove1 p xs) = filter P xs"
  by (induction xs) auto

lemma gt_scan_spec:
  "gt_inv s \<Longrightarrow> distinct ps \<Longrightarrow> set ps \<subseteq> dom (gt_heap s) \<Longrightarrow>
     \<exists>s'. gt_scan ntv ps s = Inr (map (timer_event ntv s) (filter (is_expired ntv s) ps), s') \<and> gt_inv s' \<and>
          gt_heap s' = (\<lambda>p. if p \<in> set ps \<and> is_expired ntv s p then None else gt_heap s p)"
proof (induction ps arbitrary: s)
  case Nil
  then show ?case by auto
next
  case (Cons p ps)
  then obtain sp where sp: "gt_heap s p = Some sp" by auto
  from gt_live [OF Cons.prems(1) sp] obtain wm where
    wm: "gt_map s (sp_obj sp) = Some wm" "wm (uint (sp_nWhich sp)) = Some p" by auto
  show ?case
  proof (cases "expired ntv sp")
    case False
    then have ne: "\<not> is_expired ntv s p" using sp by (simp add: is_expired_def)
    obtain s' where s': "gt_scan ntv ps s = Inr (map (timer_event ntv s) (filter (is_expired ntv s) ps), s')" "gt_inv s'"
        "gt_heap s' = (\<lambda>p. if p \<in> set ps \<and> is_expired ntv s p then None else gt_heap s p)"
      using Cons.IH [of s] Cons.prems by auto
    then show ?thesis using sp wm False ne by (auto simp: fun_eq_iff)
  next
    case True
    then have e: "is_expired ntv s p" using sp by (simp add: is_expired_def)
    let ?s = "gt_drop p sp s"
    have heap: "gt_heap ?s = (gt_heap s)(p := None)" by (simp add: gt_drop_def)
    have sub: "set ps \<subseteq> dom (gt_heap ?s)" using Cons.prems(2,3) by (auto simp: heap)
    have same: "is_expired ntv ?s q = is_expired ntv s q" "timer_event ntv ?s q = timer_event ntv s q" if "q \<in> set ps" for q
      using that Cons.prems(2) by (auto simp: is_expired_def timer_event_def heap)
    obtain s' where s': "gt_scan ntv ps ?s = Inr (map (timer_event ntv ?s) (filter (is_expired ntv ?s) ps), s')" "gt_inv s'"
        "gt_heap s' = (\<lambda>p. if p \<in> set ps \<and> is_expired ntv ?s p then None else gt_heap ?s p)"
      using Cons.IH [OF gt_drop_inv [OF Cons.prems(1) sp] _ sub] Cons.prems(2) by auto
    have "map (timer_event ntv ?s) (filter (is_expired ntv ?s) ps) = map (timer_event ntv s) (filter (is_expired ntv s) ps)"
      using same by (auto cong: filter_cong)
    moreover have "gt_heap s' = (\<lambda>q. if q \<in> set (p # ps) \<and> is_expired ntv s q then None else gt_heap s q)"
      using s'(3) same e by (auto simp: heap fun_eq_iff)
    moreover have "gt_scan ntv (p # ps) s = (case gt_scan ntv ps ?s of Inl f \<Rightarrow> Inl f
        | Inr (evs, s') \<Rightarrow> Inr (timer_event ntv s p # evs, s'))"
      using sp wm True by (simp add: gt_drop_def timer_event_def split: sum.splits)
    ultimately show ?thesis using s' e by auto
  qed
qed

section \<open>Properties\<close>

text \<open>
  timers with numbers below 256 work. In a consistent state \<^verbatim>\<open>start_timer\<close> returns whether the
  number was free and leaves the timer running; \<^verbatim>\<open>stop_timer\<close> returns whether it was running and leaves
  it stopped, touching no other; neither ever uses a freed \<^verbatim>\<open>TimeSpec\<close>, and map, list and heap stay
  consistent.
\<close>

theorem timer_start_stop:
  assumes "gt_inv s" "0 \<le> w" "w < 256"
  shows "\<exists>s1 s2. start_timer now obj ms w s = (gt_lookup s obj w = None, s1) \<and> gt_inv s1 \<and>
    stop_timer obj w s1 = Inr (True, s2) \<and> gt_inv s2 \<and> gt_lookup s2 obj w = None \<and>
    (\<forall>o' w'. (o', w') \<noteq> (obj, w) \<longrightarrow> gt_lookup s2 o' w' = gt_lookup s1 o' w') \<and>
    stop_timer obj w s2 = Inr (False, s2)"
proof -
  let ?s1 = "snd (AddElement now obj ms w s)"
  note a = AddElement_spec [OF assms, of now obj ms]
  obtain s2 where s2: "RemoveElement obj w ?s1 = Inr (True, s2)" "gt_inv s2"
      "gt_lookup s2 = (\<lambda>o' w'. if o' = obj \<and> w' = w then None else gt_lookup ?s1 o' w')"
    using RemoveElement_spec [of ?s1 obj w] a by auto
  have "gt_lookup s2 obj w = None" using s2(3) by simp
  then have "RemoveElement obj w s2 = Inr (False, s2)"
    by (auto simp: RemoveElement_def gt_lookup_def gt_entry_def split: option.splits)
  then show ?thesis
    using a s2 by (intro exI [of _ ?s1] exI [of _ s2]) (auto simp: start_timer_def stop_timer_def prod_eq_iff)
qed

theorem timer_start_stop_witness:
  "\<exists>s1. start_timer \<lparr>tv_sec = 5, tv_usec = 0\<rparr> 1 100 7 mk_global_timer = (True, s1) \<and> gt_inv s1"
  using timer_start_stop [OF gt_inv_init, of 7 "\<lparr>tv_sec = 5, tv_usec = 0\<rparr>" 1 100]
  by (auto simp: mk_global_timer_def gt_lookup_def gt_entry_def)

text \<open>
  A pass fires exactly what is due. In a consistent state one pass of the timer thread never uses
  freed memory; it posts one event per timer whose interval has elapsed, in the order the timers were
  started, with the number it was started under; it removes exactly those and leaves the others.
\<close>

theorem timer_pass_fires_due:
  assumes "gt_inv s"
  shows "\<exists>s'. gt_pass ntv s = Inr (map (timer_event ntv s) (filter (is_expired ntv s) (gt_list s)), s') \<and> gt_inv s' \<and>
    (\<forall>p. gt_heap s' p = (if is_expired ntv s p then None else gt_heap s p))"
proof -
  have "distinct (gt_list s)" "set (gt_list s) = dom (gt_heap s)" using assms by (auto simp: gt_inv_def)
  then show ?thesis
    using gt_scan_spec [OF assms, of "gt_list s" ntv]
    by (auto simp: gt_pass_def is_expired_def split: option.splits)
qed

definition t0 :: timeval where "t0 = \<lparr>tv_sec = 5, tv_usec = 0\<rparr>"
definition t1 :: timeval where "t1 = \<lparr>tv_sec = 5, tv_usec = 200000\<rparr>"

lemma show_examples: "show_nat 200 = ''200''" "show_nat 100 = ''100''"
  by code_simp+

theorem timer_pass_fires_due_witness:
  "\<exists>s'. gt_pass t1 (snd (start_timer t0 1 100 7 mk_global_timer)) = Inr ([(1, 7, ''Term:200, Delay:100'')], s') \<and> gt_inv s'"
proof -
  let ?s = "snd (start_timer t0 1 100 7 mk_global_timer)"
  have inv: "gt_inv ?s" using AddElement_spec [OF gt_inv_init, of 7] by (simp add: start_timer_def)
  have "map (timer_event t1 ?s) (filter (is_expired t1 ?s) (gt_list ?s)) = [(1, 7, ''Term:200, Delay:100'')]"
    by (simp add: start_timer_def AddElement_def mk_global_timer_def gt_entry_def Let_def is_expired_def
        expired_def timer_event_def timer_post_def timer_text_def show_int_def show_examples DIFFTIME_def cdiv_def t0_def t1_def)
  then show ?thesis using timer_pass_fires_due [OF inv, of t1] by auto
qed

text \<open>
  A timer with a number of 256 or more never fires. Its \<^verbatim>\<open>TimeSpec\<close> keeps only the low eight bits,
  the pass looks it up in the map under those, does not find it there, and skips it at every time.
\<close>

theorem timer_number_256_never_fires:
  assumes "256 \<le> w"
  shows "\<exists>s. start_timer now obj ms w mk_global_timer = (True, s) \<and> gt_pass ntv s = Inr ([], s)"
proof -
  have "uint (word_of_int w :: u8) < 256" using uint_lt2p [of "word_of_int w :: u8"] by simp
  then have "uint (word_of_int w :: u8) \<noteq> w" using assms by simp
  then show ?thesis
    by (simp add: start_timer_def AddElement_def mk_global_timer_def gt_entry_def Let_def gt_pass_def)
qed

theorem timer_number_256_never_fires_witness:
  "\<exists>s. start_timer t0 1 100 256 mk_global_timer = (True, s) \<and> gt_pass t1 s = Inr ([], s)"
  using timer_number_256_never_fires [of 256 t0 1 100 t1] by simp

text \<open>
  With its low byte also in use it corrupts the map. Timers 0 and 256 of one object: when the
  second fires it is found under number 0, the entry of the other is erased, its own stays behind
  pointing to freed memory, and \<^verbatim>\<open>stop_timer\<close> of it deletes that memory again.
\<close>

theorem timer_number_256_double_free:
  "\<exists>s1 s2 s3. start_timer t0 obj 100000 0 mk_global_timer = (True, s1) \<and>
     start_timer t0 obj 100 256 s1 = (True, s2) \<and> gt_pass t1 s2 = Inr ([(obj, 0, ''Term:200, Delay:100'')], s3) \<and>
     stop_timer obj 256 s3 = Inl (UB ''delete of a freed TimeSpec'')"
  by (simp add: start_timer_def AddElement_def mk_global_timer_def gt_entry_def Let_def gt_pass_def
      erase_which_def stop_timer_def RemoveElement_def expired_def timer_post_def timer_text_def show_int_def show_examples DIFFTIME_def cdiv_def t0_def t1_def)

text \<open>
  The elapsed time is an absolute value, so a clock set back fires timers early: a timer of \<open>ms\<close>
  milliseconds is due at a time that lies \<open>ms\<close> before it was started.
\<close>

theorem timer_clock_back_fires:
  assumes "0 \<le> k" "sp_nTerm sp \<le> k * 1000"
  shows "expired \<lparr>tv_sec = tv_sec (sp_tv sp) - k, tv_usec = tv_usec (sp_tv sp)\<rparr> sp"
  using assms by (simp add: expired_def DIFFTIME_def cdiv_def)

theorem timer_clock_back_fires_witness:
  "expired \<lparr>tv_sec = 2, tv_usec = 0\<rparr> \<lparr>sp_tv = t0, sp_nTerm = 3000, sp_nWhich = 0, sp_obj = 1\<rparr>"
  using timer_clock_back_fires [of 3 "\<lparr>sp_tv = t0, sp_nTerm = 3000, sp_nWhich = 0, sp_obj = 1\<rparr>"]
  by (simp add: t0_def)

end
