(* ===== verification/Timer_Instance.thy ===== *)
theory Timer_Instance
  imports Global_Timer Thread_Lifecycle
begin

text \<open>
  The one \<^verbatim>\<open>GlobalTimer\<close> of the process (\<^verbatim>\<open>src/util.cpp\<close>): \<^verbatim>\<open>get()\<close>, which makes it on first use without a lock,
  the functions \<^verbatim>\<open>start_timer\<close>, \<^verbatim>\<open>stop_timer\<close> and \<^verbatim>\<open>stop_global_timer\<close> that use it, and its destructor; and the
  signal masks of \<^verbatim>\<open>Thread\<close> (\<^verbatim>\<open>include/jthread.hpp\<close>).
\<close>

section \<open>get()\<close>

text \<open>
  The static members, and every \<^verbatim>\<open>GlobalTimer\<close> made so far with its thread. A caller has not begun, has seen
  a null \<^verbatim>\<open>instance_\<close>, has assigned it, waits for \<^verbatim>\<open>initialized_\<close>, or has its answer. \<^verbatim>\<open>instance_\<close> is read again
  at each use.
\<close>

datatype get_pc = Idle | Tested | Made | Waiting | Returned nat

record timer_globals =
  tg_timers :: "(global_timer \<times> thread_obj) list"
  tg_instance :: "nat option"
  tg_initialized :: bool
  tg_callers :: "nat \<Rightarrow> get_pc"

definition tg_init :: timer_globals where
  "tg_init = \<lparr>tg_timers = [], tg_instance = None, tg_initialized = False, tg_callers = (\<lambda>_. Idle)\<rparr>"

definition set_pc :: "nat \<Rightarrow> get_pc \<Rightarrow> timer_globals \<Rightarrow> timer_globals" where
  "set_pc t pc g = g\<lparr>tg_callers := (tg_callers g)(t := pc)\<rparr>"

definition get_test :: "timer_globals \<Rightarrow> get_pc" where
  "get_test g = (case tg_instance g of None \<Rightarrow> Tested | Some i \<Rightarrow> Returned i)"

definition get_new :: "timer_globals \<Rightarrow> timer_globals" where
  "get_new g = g\<lparr>tg_timers := tg_timers g @ [(mk_global_timer, mk_thread)], tg_instance := Some (length (tg_timers g))\<rparr>"

definition get_create :: "timer_globals \<Rightarrow> timer_globals outcome" where
  "get_create g =
     (case tg_instance g of
        None \<Rightarrow> Blocked
      | Some i \<Rightarrow>
          (case thread_create i (snd (tg_timers g ! i)) of
             Blocked \<Rightarrow> Blocked
           | Ret (_, _, th) \<Rightarrow> Ret (g\<lparr>tg_timers := (tg_timers g)[i := (fst (tg_timers g ! i), th)]\<rparr>)))"

inductive get_step :: "timer_globals \<Rightarrow> timer_globals \<Rightarrow> bool" where
  tests: "tg_callers g t = Idle \<Longrightarrow> get_step g (set_pc t (get_test g) g)"
| makes: "tg_callers g t = Tested \<Longrightarrow> get_step g (set_pc t Made (get_new g))"
| creates: "tg_callers g t = Made \<Longrightarrow> get_create g = Ret g' \<Longrightarrow> get_step g (set_pc t Waiting g')"
| runs: "(a, th) \<in> set (tg_timers g) \<Longrightarrow> thread_joinable th \<Longrightarrow> get_step g (g\<lparr>tg_initialized := True\<rparr>)"
| returns: "tg_callers g t = Waiting \<Longrightarrow> tg_initialized g \<Longrightarrow> tg_instance g = Some i \<Longrightarrow> get_step g (set_pc t (Returned i) g)"

inductive_cases get_stepE: "get_step g g'"

text \<open>The functions on the timer.\<close>

definition timer_start :: "timeval \<Rightarrow> nat \<Rightarrow> obj_id \<Rightarrow> int \<Rightarrow> int \<Rightarrow> timer_globals \<Rightarrow> bool \<times> timer_globals" where
  "timer_start now i obj msecs nWhich g =
     (let (r, s) = AddElement now obj msecs nWhich (fst (tg_timers g ! i))
      in (r, g\<lparr>tg_timers := (tg_timers g)[i := (s, snd (tg_timers g ! i))]\<rparr>))"

definition timer_stop :: "nat \<Rightarrow> obj_id \<Rightarrow> int \<Rightarrow> timer_globals \<Rightarrow> fault + bool \<times> timer_globals" where
  "timer_stop i obj nWhich g =
     (case RemoveElement obj nWhich (fst (tg_timers g ! i)) of
        Inl f \<Rightarrow> Inl f
      | Inr (r, s) \<Rightarrow> Inr (r, g\<lparr>tg_timers := (tg_timers g)[i := (s, snd (tg_timers g ! i))]\<rparr>))"

text \<open>\<^verbatim>\<open>stop_global_timer\<close> closes the thread; \<^verbatim>\<open>instance_\<close> stays. The state after the join.\<close>

definition stop_global_timer :: "nat \<Rightarrow> timer_globals \<Rightarrow> timer_globals" where
  "stop_global_timer i g =
     (let th = close_pre (snd (tg_timers g ! i));
          th' = (case close_post_begin th of None \<Rightarrow> th | Some (j, m) \<Rightarrow> close_post_end m)
      in g\<lparr>tg_timers := (tg_timers g)[i := (fst (tg_timers g ! i), th')]\<rparr>)"

section \<open>One timer for everybody, once it is there\<close>

definition settled :: "nat \<Rightarrow> timer_globals \<Rightarrow> bool" where
  "settled i g \<longleftrightarrow> tg_instance g = Some i \<and> (\<forall>t. tg_callers g t = Idle \<or> tg_callers g t = Returned i)"

lemma get_step_settled: "get_step g g' \<Longrightarrow> settled i g \<Longrightarrow> settled i g' \<and> tg_timers g' = tg_timers g"
proof (erule get_stepE)
  fix t assume "settled i g" "g' = set_pc t (get_test g) g" "tg_callers g t = Idle"
  then show ?thesis by (auto simp: settled_def set_pc_def get_test_def)
qed (auto simp: settled_def set_pc_def; metis get_pc.distinct)+

text \<open>
  Once the timer exists and nobody is in the middle of making it, every call of \<^verbatim>\<open>get\<close> returns it, at once,
  and no second one is made.
\<close>

lemma get_settled:
  assumes "get_step\<^sup>*\<^sup>* g g'" "settled i g"
  shows "settled i g' \<and> tg_timers g' = tg_timers g \<and> (tg_callers g' t = Idle \<longrightarrow> tg_callers (set_pc t (get_test g') g') t = Returned i)"
proof -
  have "settled i g' \<and> tg_timers g' = tg_timers g"
    using assms by (induction rule: rtranclp_induct) (use get_step_settled in force)+
  then show ?thesis by (simp add: settled_def set_pc_def get_test_def)
qed

lemma thread_create_new: "thread_create w mk_thread = Ret (1, True, mk_thread\<lparr>th_thread := Joinable w\<rparr>)"
  by (simp add: thread_create_def mk_thread_def thread_joinable_def)

text \<open>The first caller alone gets there.\<close>

lemma first_get:
  "\<exists>g. get_step\<^sup>*\<^sup>* tg_init g \<and> settled 0 g \<and> tg_callers g t = Returned 0 \<and> thread_joinable (snd (tg_timers g ! 0))"
proof -
  let ?a = "set_pc t Tested tg_init"
  let ?b = "set_pc t Made (get_new ?a)"
  let ?c = "set_pc t Waiting (?b\<lparr>tg_timers := [(mk_global_timer, mk_thread\<lparr>th_thread := Joinable 0\<rparr>)]\<rparr>)"
  let ?d = "?c\<lparr>tg_initialized := True\<rparr>"
  let ?e = "set_pc t (Returned 0) ?d"
  note d = set_pc_def tg_init_def get_new_def get_test_def
  have a: "get_step tg_init ?a" using tests [of tg_init t] by (simp add: d)
  have b: "get_step ?a ?b" by (rule makes) (simp add: d)
  have c: "get_step ?b ?c" by (rule creates) (simp_all add: d get_create_def thread_create_new)
  have e: "get_step ?c ?d" by (rule runs [of mk_global_timer "mk_thread\<lparr>th_thread := Joinable 0\<rparr>"]) (simp_all add: d thread_joinable_def)
  have f: "get_step ?d ?e" by (rule returns) (simp_all add: d)
  have "get_step\<^sup>*\<^sup>* tg_init ?e" using a b c e f by (meson converse_rtranclp_into_rtranclp rtranclp.rtrancl_refl)
  moreover have "settled 0 ?e \<and> tg_callers ?e t = Returned 0 \<and> thread_joinable (snd (tg_timers ?e ! 0))"
    by (auto simp: settled_def d thread_joinable_def)
  ultimately show ?thesis by blast
qed


text \<open>
  Two callers that both see a null \<^verbatim>\<open>instance_\<close> can be given different timers: a timer one of them starts
  cannot be stopped by the other.
\<close>

lemma get_race:
  assumes "tg_callers g t = Waiting" "tg_callers g u = Tested" "t \<noteq> u" "tg_initialized g" "tg_instance g = Some i" "i < length (tg_timers g)"
  shows "\<exists>g'. get_step\<^sup>*\<^sup>* g g' \<and> tg_callers g' t = Returned i \<and> tg_callers g' u = Returned (length (tg_timers g))"
proof -
  let ?n = "length (tg_timers g)"
  let ?a = "set_pc t (Returned i) g"
  let ?b = "set_pc u Made (get_new ?a)"
  let ?b' = "?b\<lparr>tg_timers := tg_timers g @ [(mk_global_timer, mk_thread\<lparr>th_thread := Joinable ?n\<rparr>)]\<rparr>"
  let ?c = "set_pc u Waiting ?b'"
  let ?d = "set_pc u (Returned ?n) ?c"
  note d = set_pc_def get_new_def
  have a: "get_step g ?a" by (rule returns) (use assms in simp_all)
  have b: "get_step ?a ?b" by (rule makes) (use assms in \<open>simp add: d\<close>)
  have "get_create ?b = Ret ?b'" by (simp add: get_create_def d thread_create_new)
  then have c: "get_step ?b ?c" by (intro creates) (simp_all add: d)
  have e: "get_step ?c ?d" by (rule returns) (use assms in \<open>simp_all add: d\<close>)
  have "get_step\<^sup>*\<^sup>* g ?d" using a b c e by (meson converse_rtranclp_into_rtranclp rtranclp.rtrancl_refl)
  then show ?thesis using assms by - (rule exI [of _ ?d], simp add: d)
qed

lemma other_timer_not_stopped:
  assumes "i \<noteq> j" "j < length (tg_timers g)" "fst (tg_timers g ! j) = mk_global_timer" "timer_start now i obj ms w g = (r, g')"
  shows "\<exists>h. timer_stop j obj w g' = Inr (False, h)"
  using assms by (auto simp: timer_start_def timer_stop_def RemoveElement_def mk_global_timer_def Let_def split: prod.splits)

text \<open>After \<^verbatim>\<open>stop_global_timer\<close> timers are accepted and nothing runs them: \<^verbatim>\<open>get\<close> does not start the thread again.\<close>

lemma stopped_timer_accepts:
  assumes "settled i g" "i < length (tg_timers g)" "fst (tg_timers g ! i) = mk_global_timer" "\<not> th_closing (snd (tg_timers g ! i))"
    "get_step\<^sup>*\<^sup>* (stop_global_timer i g) g'"
  shows "fst (timer_start now i obj ms w g') \<and> \<not> thread_joinable (snd (tg_timers g' ! i))"
proof -
  let ?h = "stop_global_timer i g"
  have h: "settled i ?h" "i < length (tg_timers ?h)" "fst (tg_timers ?h ! i) = mk_global_timer" "\<not> thread_joinable (snd (tg_timers ?h ! i))"
    using assms(1-4)
    by (auto simp: stop_global_timer_def settled_def close_pre_def close_post_begin_def close_post_end_def thread_joinable_def Let_def
        split: option.splits jthread_slot.splits if_splits)
  have "tg_timers g' = tg_timers ?h" using get_settled [OF assms(5) h(1)] by simp
  then show ?thesis
    using h by (simp add: timer_start_def AddElement_def gt_entry_def mk_global_timer_def Let_def split: prod.splits)
qed

section \<open>The destructor\<close>

text \<open>It deletes what the map refers to, in the order of the map, which is an argument.\<close>

fun delete_specs :: "addr list \<Rightarrow> global_timer \<Rightarrow> fault + global_timer" where
  "delete_specs [] s = Inr s"
| "delete_specs (p # ps) s =
     (if gt_heap s p = None then Inl (UB ''delete of freed memory'') else delete_specs ps (s\<lparr>gt_heap := (gt_heap s)(p := None)\<rparr>))"

definition enumerates :: "(obj_id \<times> int \<times> addr) list \<Rightarrow> global_timer \<Rightarrow> bool" where
  "enumerates es s \<longleftrightarrow> distinct (map (\<lambda>(obj, w, p). (obj, w)) es) \<and> set es = {(obj, w, p). gt_lookup s obj w = Some p}"

lemma delete_specs_all:
  "distinct ps \<Longrightarrow> set ps = dom (gt_heap s) \<Longrightarrow> \<exists>s'. delete_specs ps s = Inr s' \<and> gt_heap s' = Map.empty"
proof (induction ps arbitrary: s)
  case (Cons p ps)
  then have p: "gt_heap s p \<noteq> None" by auto
  have s: "set ps = dom (gt_heap (s\<lparr>gt_heap := (gt_heap s)(p := None)\<rparr>))" using Cons.prems by auto
  show ?case using Cons.IH [OF _ s] Cons.prems(1) p by (simp only: delete_specs.simps if_False distinct.simps)
qed (use dom_eq_empty_conv in force)

lemma timer_destructor_frees_all:
  assumes "gt_inv s" "enumerates es s"
  shows "\<exists>s'. delete_specs (map (\<lambda>(obj, w, p). p) es) s = Inr s' \<and> gt_heap s' = Map.empty"
proof (rule delete_specs_all)
  have l: "gt_lookup s obj w = Some p \<longleftrightarrow> (\<exists>sp. gt_heap s p = Some sp \<and> sp_obj sp = obj \<and> uint (sp_nWhich sp) = w)" for obj w p
    using assms(1) by (auto simp: gt_inv_def)
  have e: "(obj, w, p) \<in> set es \<longleftrightarrow> gt_lookup s obj w = Some p" for obj w p using assms(2) by (simp add: enumerates_def)
  have "p \<in> dom (gt_heap s) \<longleftrightarrow> (\<exists>obj w. (obj, w, p) \<in> set es)" for p unfolding e l by auto
  moreover have "p \<in> set (map (\<lambda>(obj, w, p). p) es) \<longleftrightarrow> (\<exists>obj w. (obj, w, p) \<in> set es)" for p by force
  ultimately show "set (map (\<lambda>(obj, w, p). p) es) = dom (gt_heap s)" by blast
  have "distinct es" using assms(2) by (simp add: enumerates_def distinct_map)
  moreover have "inj_on (\<lambda>(obj, w, p). p) (set es)"
  proof (rule inj_onI)
    fix a b assume m: "a \<in> set es" "b \<in> set es" "(case a of (obj, w, p) \<Rightarrow> p) = (case b of (obj, w, p) \<Rightarrow> p)"
    obtain o1 w1 p1 o2 w2 p2 where "a = (o1, w1, p1)" "b = (o2, w2, p2)" by (cases a, cases b)
    then show "a = b" using m by (auto simp: e l)
  qed
  ultimately show "distinct (map (\<lambda>(obj, w, p). p) es)" by (simp add: distinct_map)
qed

section \<open>Signal masks\<close>

text \<open>A thread's mask is the set of the signals it blocks; \<open>SIGKILL\<close> and \<open>SIGSTOP\<close> cannot be blocked.\<close>

type_synonym sigmask = "nat set"

definition all_signals :: "nat set" where "all_signals = {1..64}"
definition unblockable :: "nat set" where "unblockable = {9, 19}"
definition SIGABRT :: nat where "SIGABRT = 6"
definition SIGSEGV :: nat where "SIGSEGV = 11"

definition sig_block :: "nat set \<Rightarrow> sigmask \<Rightarrow> sigmask" where
  "sig_block ss m = m \<union> (ss - unblockable)"

definition sig_unblock :: "nat set \<Rightarrow> sigmask \<Rightarrow> sigmask" where
  "sig_unblock ss m = m - ss"

definition sig_allow :: "nat \<Rightarrow> sigmask \<Rightarrow> sigmask" where
  "sig_allow sig m = sig_unblock {sig} m"

definition sig_prevent :: "nat \<Rightarrow> sigmask \<Rightarrow> sigmask" where
  "sig_prevent sig m = sig_block {sig} m"

definition sig_allow_all :: "sigmask \<Rightarrow> sigmask" where
  "sig_allow_all m = sig_unblock all_signals m"

definition sig_prevent_all :: "sigmask \<Rightarrow> sigmask" where
  "sig_prevent_all m = sig_block (all_signals - {SIGSEGV} - {SIGABRT}) m"

text \<open>
  A signal prevented after everything was allowed is the only one blocked; preventing everything leaves
  the crash signals as they were.
\<close>

lemma sig_masks:
  "m \<subseteq> all_signals \<Longrightarrow> sig \<notin> unblockable \<Longrightarrow> sig_prevent sig (sig_allow_all m) = {sig}"
  "sig \<notin> m \<Longrightarrow> sig \<notin> unblockable \<Longrightarrow> sig_allow sig (sig_prevent sig m) = m"
  "SIGSEGV \<in> sig_prevent_all m \<longleftrightarrow> SIGSEGV \<in> m" "SIGABRT \<in> sig_prevent_all m \<longleftrightarrow> SIGABRT \<in> m"
  by (auto simp: sig_prevent_def sig_allow_all_def sig_block_def sig_unblock_def sig_allow_def sig_prevent_all_def)

end
