(* ===== verification/Net_Interfaces.thy ===== *)
theory Net_Interfaces
  imports C_Text
begin

text \<open>
  \<^verbatim>\<open>IfConfig\<close> of \<^verbatim>\<open>include/ifconfig.hpp\<close>: the list of the network interfaces and the queries on one of them. The
  answers of \<^verbatim>\<open>socket\<close> and \<^verbatim>\<open>ioctl\<close> are arguments; an address is its four bytes. \<^verbatim>\<open>mac_addr\<close> is modelled from
  the point where it has the address: its first line declares a string \<^verbatim>\<open>addr\<close> that hides the method it
  means to call, so it does not compile.
\<close>

section \<open>The object\<close>

record if_config =
  ic_fd :: int
  ic_list :: "string list"

text \<open>Requests are made in a buffer of 4096 bytes, each entry 40 bytes with a name of at most 15.\<close>

definition IFNAMSIZ :: nat where "IFNAMSIZ = 16"
definition sizeof_ifreq :: nat where "sizeof_ifreq = 40"

definition SIOCGIFCONF :: "nat \<Rightarrow> string list \<Rightarrow> nat \<times> string list" where
  "SIOCGIFCONF len names = (let ns = take (len div sizeof_ifreq) names in (length ns * sizeof_ifreq, ns))"

definition refresh_interfaces :: "string list option \<Rightarrow> if_config \<Rightarrow> fault + if_config" where
  "refresh_interfaces answer c =
     (case answer of
        None \<Rightarrow> Inl (PdkException ''ioctl SIOCGIFCONF'')
      | Some names \<Rightarrow>
          (let (ifc_len, ifc_req) = SIOCGIFCONF 4096 names
           in Inr (c\<lparr>ic_list := take (ifc_len div sizeof_ifreq) ifc_req\<rparr>)))"

text \<open>The constructor, over the set of open descriptors: the object's destructor runs only if it was made.\<close>

definition mk_if_config :: "int \<Rightarrow> string list option \<Rightarrow> int set \<Rightarrow> (fault + if_config) \<times> int set" where
  "mk_if_config fd answer fds =
     (let c = \<lparr>ic_fd = fd, ic_list = []\<rparr>
      in if fd = -1 then (Inl (PdkException ''socket create error''), fds)
         else (refresh_interfaces answer c, insert fd fds))"

definition destruct_if_config :: "if_config \<Rightarrow> int set \<Rightarrow> int set" where
  "destruct_if_config c fds = (if ic_fd c \<noteq> -1 then fds - {ic_fd c} else fds)"

definition interfaces :: "string list option \<Rightarrow> if_config \<Rightarrow> fault + string list \<times> if_config" where
  "interfaces answer c = map_sum id (\<lambda>c'. (ic_list c', c')) (refresh_interfaces answer c)"

text \<open>A query: the name is cut to the field, and the kernel's table answers for it.\<close>

definition ifr_name :: "string \<Rightarrow> string" where
  "ifr_name pszifname = take (IFNAMSIZ - 1) (c_str pszifname)"

definition inet_ntoa4 :: "bytes \<Rightarrow> string" where
  "inet_ntoa4 a = concat (map (\<lambda>(i, b). (if i = 0 then [] else ''.'') @ show_nat (unat b)) (enumerate 0 a))"

definition if_getaddr :: "(string \<Rightarrow> bytes option) \<Rightarrow> string \<Rightarrow> fault + string" where
  "if_getaddr ioctl pszifname =
     (case ioctl (ifr_name pszifname) of None \<Rightarrow> Inl (PdkException ''ioctl'') | Some a \<Rightarrow> Inr (inet_ntoa4 a))"

text \<open>\<^verbatim>\<open>addr\<close>, \<^verbatim>\<open>mask\<close> and \<^verbatim>\<open>broadcast_addr\<close> differ in the request.\<close>

datatype if_request = SIOCGIFADDR | SIOCGIFNETMASK | SIOCGIFBRDADDR

definition if_addr :: "(if_request \<Rightarrow> string \<Rightarrow> bytes option) \<Rightarrow> string \<Rightarrow> fault + string" where
  "if_addr ioctl pszifname = if_getaddr (ioctl SIOCGIFADDR) pszifname"

definition if_mask :: "(if_request \<Rightarrow> string \<Rightarrow> bytes option) \<Rightarrow> string \<Rightarrow> fault + string" where
  "if_mask ioctl pszifname = if_getaddr (ioctl SIOCGIFNETMASK) pszifname"

definition if_broadcast_addr :: "(if_request \<Rightarrow> string \<Rightarrow> bytes option) \<Rightarrow> string \<Rightarrow> fault + string" where
  "if_broadcast_addr ioctl pszifname = if_getaddr (ioctl SIOCGIFBRDADDR) pszifname"

definition if_flags :: "(string \<Rightarrow> u16 option) \<Rightarrow> string \<Rightarrow> fault + u16" where
  "if_flags ioctl pszifname =
     (case ioctl (ifr_name pszifname) of None \<Rightarrow> Inl (PdkException ''ioctl SIOCGIFFLAGS'') | Some f \<Rightarrow> Inr f)"

definition IFF_UP :: u16 where "IFF_UP = 1"

definition is_up :: "(string \<Rightarrow> u16 option) \<Rightarrow> string \<Rightarrow> fault + bool" where
  "is_up ioctl pszifname = map_sum id (\<lambda>f. and f IFF_UP \<noteq> 0) (if_flags ioctl pszifname)"

section \<open>The text of a hardware address\<close>

definition hex_digit :: "nat \<Rightarrow> char" where
  "hex_digit n = ''0123456789abcdef'' ! n"

definition hex2 :: "u8 \<Rightarrow> string" where
  "hex2 b = [hex_digit (unat b div 16), hex_digit (unat b mod 16)]"

fun mac_loop :: "string \<Rightarrow> bytes \<Rightarrow> string" where
  "mac_loop mac [] = mac"
| "mac_loop mac (b # bs) = mac_loop ((if mac \<noteq> [] then mac @ '':'' else mac) @ hex2 b) bs"

definition mac_text :: "bytes option \<Rightarrow> fault + string" where
  "mac_text sa_data =
     (case sa_data of None \<Rightarrow> Inl (PdkException ''ioctl SIOCGARP'') | Some ha \<Rightarrow> Inr (mac_loop [] (take 6 ha)))"


section \<open>Properties\<close>

text \<open>The list holds the first 102 interfaces: what does not fit the buffer is left out without notice.\<close>

lemma refresh_keeps_102: "refresh_interfaces (Some names) c = Inr (c\<lparr>ic_list := take 102 names\<rparr>)"
  by (simp add: refresh_interfaces_def SIOCGIFCONF_def sizeof_ifreq_def Let_def min_def)

text \<open>A constructor whose query fails leaves its descriptor open; otherwise the destructor closes it.\<close>

lemma if_config_descriptors:
  assumes "fd \<noteq> -1" "fd \<notin> fds"
  shows "snd (mk_if_config fd None fds) = insert fd fds" "isl (fst (mk_if_config fd None fds))"
    "mk_if_config fd (Some names) fds = (Inr c, fds') \<Longrightarrow> destruct_if_config c fds' = fds"
  using assms by (auto simp: mk_if_config_def refresh_interfaces_def destruct_if_config_def SIOCGIFCONF_def Let_def)

text \<open>A reader of the text.\<close>

definition hex_value :: "char \<Rightarrow> nat" where
  "hex_value c = (if of_char c < (58 :: nat) then of_char c - 48 else of_char c - 87)"

fun parse_mac :: "string \<Rightarrow> bytes" where
  "parse_mac (a # b # c # rest) = word_of_nat (16 * hex_value a + hex_value b) # parse_mac rest"
| "parse_mac [a, b] = [word_of_nat (16 * hex_value a + hex_value b)]"
| "parse_mac _ = []"

lemma hex_value_digit: "n < 16 \<Longrightarrow> hex_value (hex_digit n) = n"
proof -
  assume "n < 16"
  then have "n \<in> set [0..<16]" by simp
  also have "[0..<16] = [0, 1, 2, 3, 4, 5, 6, 7, 8, 9, 10, 11, 12, 13, 14, 15]" by (simp add: upt_rec)
  finally show ?thesis by (auto simp: hex_digit_def hex_value_def)
qed

lemma hex2_value: "\<exists>a b. hex2 x = [a, b] \<and> word_of_nat (16 * hex_value a + hex_value b) = x"
proof -
  have lt: "unat x < 256" using unsigned_less [of x] by simp
  then have "unat x div 16 < 16" by (simp add: less_mult_imp_div_less)
  then have "16 * hex_value (hex_digit (unat x div 16)) + hex_value (hex_digit (unat x mod 16)) = unat x"
    by (simp add: hex_value_digit mult_div_mod_eq)
  then show ?thesis by (simp only: hex2_def) (metis of_nat_unat ucast_id)
qed

lemma mac_loop_append: "mac \<noteq> [] \<Longrightarrow> mac_loop mac bs = mac @ concat (map (\<lambda>b. CHR '':'' # hex2 b) bs)"
  by (induction bs arbitrary: mac) simp_all

text \<open>
  The text of a hardware address determines it: two digits for each of the six bytes, colons
  between them, seventeen characters in all, from which the bytes can be read back.
\<close>

theorem mac_text_roundtrip:
  assumes "6 \<le> length ha"
  shows "\<exists>t. mac_text (Some ha) = Inr t \<and> length t = 17 \<and> parse_mac t = take 6 ha"
proof -
  have parse: "parse_mac (hex2 b @ concat (map (\<lambda>b. CHR '':'' # hex2 b) bs)) = b # bs" for b bs
  proof (induction bs arbitrary: b)
    case Nil
    then show ?case using hex2_value [of b] by auto
  next
    case (Cons c bs)
    then show ?case using hex2_value [of b] by auto
  qed
  have len: "length (concat (map (\<lambda>b. CHR '':'' # hex2 b) bs)) = 3 * length bs" for bs
    by (induction bs) (auto simp: hex2_def)
  obtain b bs where h: "take 6 ha = b # bs" using assms by (cases "take 6 ha") auto
  have "length (b # bs) = 6" using assms by (simp flip: h)
  then show ?thesis
    using h parse [of b bs] len [of bs] mac_loop_append [of "hex2 b" bs] by (simp add: mac_text_def hex2_def)
qed

theorem mac_text_roundtrip_witness:
  "\<exists>t. mac_text (Some [0, 0x1a, 0xff, 3, 4, 5, 9]) = Inr t \<and> length t = 17 \<and> parse_mac t = [0, 0x1a, 0xff, 3, 4, 5]"
  using mac_text_roundtrip [of "[0, 0x1a, 0xff, 3, 4, 5, 9]"] by simp

end
