(* ===== verification/Shm_Queue.thy ===== *)
theory Shm_Queue
  imports Queue_Interface Ring_Buffer Byte_Codec
begin

text \<open>
  The queue in shared memory (\<^verbatim>\<open>include/sharedmemory.hpp\<close>): \<^verbatim>\<open>SharedMemory\<close> with its process-shared mutex
  and \<^verbatim>\<open>ShmQueue\<close> with two POSIX semaphores, the ring indices and the slots. The shared part and the
  caller's own part (\<^verbatim>\<open>queue_objects_\<close>: how many slot pointers it has, and whether they point into the
  mapping in use) are one record, with the segment that holds the mutex. A slot is the \<open>sz\<close> bytes of a \<^verbatim>\<open>T\<close>. \<^verbatim>\<open>put\<close> and
  \<^verbatim>\<open>get\<close> are split where the code leaves the lock: the copy of the object and the read of a slot happen outside it. An
  operation that locks a mutex nobody has initialised is undefined, and one that finds it locked for good blocks.
\<close>

section \<open>SharedMemory\<close>

text \<open>
  A segment exists or not; its mutex is uninitialised (\<open>None\<close>) or initialised and free or locked.
  \<^verbatim>\<open>initialize\<close> sets \<^verbatim>\<open>origin_\<close> when the segment already existed; \<^verbatim>\<open>attach\<close> initialises the mutex when
  \<^verbatim>\<open>origin_\<close> is set.
\<close>

record segment =
  seg_mutex :: "bool option"

definition shm_initialize :: "segment option \<Rightarrow> bool \<times> segment" where
  "shm_initialize existing = (case existing of None \<Rightarrow> (False, \<lparr>seg_mutex = None\<rparr>) | Some g \<Rightarrow> (True, g))"

definition shm_attach :: "bool \<Rightarrow> segment \<Rightarrow> segment" where
  "shm_attach origin g = (if origin then g\<lparr>seg_mutex := Some False\<rparr> else g)"

definition shm_lock :: "segment \<Rightarrow> fault + segment outcome" where
  "shm_lock g = (case seg_mutex g of
     None \<Rightarrow> Inl (UB ''lock of an uninitialised mutex'')
   | Some locked \<Rightarrow> Inr (if locked then Blocked else Ret (g\<lparr>seg_mutex := Some True\<rparr>)))"

section \<open>ShmQueue\<close>

record shm_queue =
  sq_sem_put :: nat
  sq_sem_get :: nat
  sq_max :: nat
  sq_next_put :: nat
  sq_next_get :: nat
  sq_cur_len :: int
  sq_slots :: "bytes list"
  sq_nobjects :: nat
  sq_mapped :: bool
  sq_shm :: segment

text \<open>A section between \<^verbatim>\<open>shm_->lock()\<close> and \<^verbatim>\<open>shm_->unlock()\<close>; the mutex is free again after it.\<close>

definition sq_locked :: "(shm_queue \<Rightarrow> 'b) \<Rightarrow> shm_queue \<Rightarrow> (fault + 'b) outcome" where
  "sq_locked body q =
     (case shm_lock (sq_shm q) of
        Inl f \<Rightarrow> Ret (Inl f)
      | Inr Blocked \<Rightarrow> Blocked
      | Inr (Ret g) \<Rightarrow> Ret (Inr (body q)))"

definition EVENT_QUEUE_LENGTH :: nat where
  "EVENT_QUEUE_LENGTH = 56"

text \<open>\<^verbatim>\<open>initialize(n)\<close>: a new segment is set up, an existing one (\<open>Some q\<close>) is used as it is.\<close>

definition sq_setup :: "nat \<Rightarrow> shm_queue \<Rightarrow> shm_queue" where
  "sq_setup n q = q\<lparr>sq_sem_put := n, sq_sem_get := 0, sq_next_put := 0, sq_next_get := 0, sq_cur_len := 0,
     sq_max := n\<rparr>"

definition mk_shm_queue :: "nat \<Rightarrow> shm_queue option \<Rightarrow> nat \<Rightarrow> shm_queue" where
  "mk_shm_queue sz existing n =
     (let (origin, g) = shm_initialize (map_option sq_shm existing);
          g1 = shm_attach origin g
      in case existing of
           Some q \<Rightarrow> q\<lparr>sq_nobjects := n, sq_mapped := True, sq_shm := g1\<rparr>
         | None \<Rightarrow> sq_setup n \<lparr>sq_sem_put = 0, sq_sem_get = 0, sq_max = 0, sq_next_put = 0, sq_next_get = 0,
                     sq_cur_len = 0, sq_slots = replicate n (replicate sz 0), sq_nobjects = n, sq_mapped = True,
                     sq_shm = g1\<rparr>)"

text \<open>
  \<^verbatim>\<open>reset\<close>: \<^verbatim>\<open>initialize(max_, true)\<close> attaches the segment again at another address, sets it up, and
  returns before the slot pointers are renewed; the old mapping is gone.
\<close>

definition sq_reset :: "shm_queue \<Rightarrow> shm_queue" where
  "sq_reset q = (sq_setup (sq_max q) q)\<lparr>sq_mapped := False, sq_shm := shm_attach True (sq_shm q)\<rparr>"

definition sq_advance :: "shm_queue \<Rightarrow> nat \<Rightarrow> nat" where
  "sq_advance q i = (if i + 1 = sq_max q then 0 else i + 1)"

definition sq_object :: "nat \<Rightarrow> shm_queue \<Rightarrow> fault + bytes" where
  "sq_object mSlot q =
     (if sq_nobjects q \<le> mSlot then Inl (UB ''queue_objects_ index'')
      else if \<not> sq_mapped q then Inl (UB ''slot pointer into a detached mapping'')
      else Inr (sq_slots q ! mSlot))"

definition sq_put_reserve :: "shm_queue \<Rightarrow> (fault + (nat \<times> shm_queue) option) outcome" where
  "sq_put_reserve q =
     (if sq_sem_put q = 0 then Ret (Inr None)
      else sq_locked (\<lambda>q. Some (sq_next_put q mod sq_max q,
                 q\<lparr>sq_next_put := sq_advance q (sq_next_put q), sq_cur_len := sq_cur_len q + 1\<rparr>))
             (q\<lparr>sq_sem_put := sq_sem_put q - 1\<rparr>))"

definition sq_put_copy :: "nat \<Rightarrow> nat \<Rightarrow> bytes \<Rightarrow> int \<Rightarrow> shm_queue \<Rightarrow> fault + shm_queue" where
  "sq_put_copy sz mSlot object nLen q =
     (let n = (if nLen = 0 then int sz else nLen)
      in if n < 0 \<or> int sz < n \<or> length object \<noteq> sz then Inl (UB ''memcpy beyond the object'')
         else case sq_object mSlot q of
                Inl f \<Rightarrow> Inl f
              | Inr old \<Rightarrow> Inr (q\<lparr>sq_slots := (sq_slots q)[mSlot := blit 0 (take (nat n) object) old]\<rparr>))"

definition sq_put_post :: "shm_queue \<Rightarrow> shm_queue" where
  "sq_put_post q = q\<lparr>sq_sem_get := sq_sem_get q + 1\<rparr>"

definition sq_put :: "nat \<Rightarrow> bytes \<Rightarrow> int \<Rightarrow> shm_queue \<Rightarrow> (fault + int \<times> shm_queue) outcome" where
  "sq_put sz object nLen q =
     (case sq_put_reserve q of
        Blocked \<Rightarrow> Blocked
      | Ret (Inl f) \<Rightarrow> Ret (Inl f)
      | Ret (Inr None) \<Rightarrow> Ret (Inr (-1, q))
      | Ret (Inr (Some (mSlot, q1))) \<Rightarrow>
          (case sq_put_copy sz mSlot object nLen q1 of
             Inl f \<Rightarrow> Ret (Inl f)
           | Inr q2 \<Rightarrow> Ret (Inr (0, sq_put_post q2))))"

definition sq_put_event :: "shm_queue \<Rightarrow> (fault + bool \<times> shm_queue) outcome" where
  "sq_put_event q =
     (case sq_locked (\<lambda>q. 1 < sq_cur_len q) q of
        Blocked \<Rightarrow> Blocked
      | Ret (Inl f) \<Rightarrow> Ret (Inl f)
      | Ret (Inr bRet) \<Rightarrow> Ret (Inr (bRet, q\<lparr>sq_sem_get := sq_sem_get q + 1\<rparr>)))"

text \<open>The slot a \<^verbatim>\<open>get\<close> takes, its index and the state after the lock; then the release of the slot.\<close>

definition sq_take_slot :: "shm_queue \<Rightarrow> nat \<times> shm_queue" where
  "sq_take_slot q =
     (sq_next_get q mod sq_max q,
      q\<lparr>sq_cur_len := sq_cur_len q - 1, sq_next_get := sq_advance q (sq_next_get q)\<rparr>)"

definition sq_get_release :: "shm_queue \<Rightarrow> shm_queue" where
  "sq_get_release q = q\<lparr>sq_sem_put := sq_sem_put q + 1\<rparr>"

text \<open>
  \<^verbatim>\<open>get\<close> returns a slot pointer (here its index) or \<^verbatim>\<open>nullptr\<close>; \<open>Blocked\<close> when it waits. Every wake-up
  with an empty queue takes one count of the semaphore and waits again.
\<close>

function sq_get :: "shm_queue \<Rightarrow> (fault + (nat option \<times> shm_queue)) outcome" where
  "sq_get q =
     (if sq_sem_get q = 0 then Blocked
      else let q1 = q\<lparr>sq_sem_get := sq_sem_get q - 1\<rparr>
           in case sq_locked (\<lambda>q. if sq_cur_len q = 0 then None else Some (sq_take_slot q)) q1 of
                Blocked \<Rightarrow> Blocked
              | Ret (Inl f) \<Rightarrow> Ret (Inl f)
              | Ret (Inr None) \<Rightarrow> sq_get q1
              | Ret (Inr (Some (mSlot, q2))) \<Rightarrow>
                  if sq_nobjects q2 = 0 then Ret (Inr (None, q2))
                  else if sq_nobjects q2 \<le> mSlot then Ret (Inl (UB ''queue_objects_ index''))
                  else Ret (Inr (Some mSlot, sq_get_release q2)))"
  by pat_completeness auto
termination by (relation "measure sq_sem_get") auto

declare sq_get.simps [simp del]

definition sq_try_get :: "shm_queue \<Rightarrow> (fault + (int \<times> nat option \<times> shm_queue)) outcome" where
  "sq_try_get q =
     (if sq_sem_get q = 0 then Ret (Inr (0, None, q))
      else case sq_locked sq_take_slot (q\<lparr>sq_sem_get := sq_sem_get q - 1\<rparr>) of
             Blocked \<Rightarrow> Blocked
           | Ret (Inl f) \<Rightarrow> Ret (Inl f)
           | Ret (Inr (mSlot, q1)) \<Rightarrow>
               if sq_nobjects q1 \<le> mSlot then Ret (Inl (UB ''queue_objects_ index''))
               else Ret (Inr (1, Some mSlot, sq_get_release q1)))"

text \<open>
  \<^verbatim>\<open>try_get(obj, nWaitTimeout)\<close> polls: each round is the queue it sees and the clock in seconds after the
  sleep; \<open>None\<close> when the rounds given end before the call returns.
\<close>

fun sq_try_get_for :: "int \<Rightarrow> (shm_queue \<times> int) list \<Rightarrow> (fault + (int \<times> nat option)) outcome option" where
  "sq_try_get_for nDeadline [] = None"
| "sq_try_get_for nDeadline ((q, now) # rounds) =
     (case sq_try_get q of
        Blocked \<Rightarrow> Some Blocked
      | Ret (Inl f) \<Rightarrow> Some (Ret (Inl f))
      | Ret (Inr (r, sl, q')) \<Rightarrow>
          if r \<noteq> 0 then Some (Ret (Inr (1, sl)))
          else if nDeadline < now then Some (Ret (Inr (0, None)))
          else sq_try_get_for nDeadline rounds)"

definition sq_peek :: "bytes \<Rightarrow> nat \<Rightarrow> shm_queue \<Rightarrow> (fault + int) outcome" where
  "sq_peek pValue offset q =
     (if sq_cur_len q \<le> 0 then Ret (Inr 0)
      else sq_locked (\<lambda>q.
             if list_ex (\<lambda>i. slice offset (length pValue) (sq_slots q ! ((sq_next_get q + i) mod sq_max q)) = pValue)
                  [0..<nat (sq_cur_len q)]
             then 1 else 0) q)"

definition sq_length :: "shm_queue \<Rightarrow> int" where
  "sq_length q = sq_cur_len q"

section \<open>The sequential queue\<close>

definition sq_inv :: "nat \<Rightarrow> shm_queue \<Rightarrow> bool" where
  "sq_inv sz q \<longleftrightarrow>
     sq_mapped q \<and> sq_nobjects q = sq_max q \<and> length (sq_slots q) = sq_max q \<and> 0 < sq_max q \<and>
     (\<forall>s\<in>set (sq_slots q). length s = sz) \<and> sq_next_get q < sq_max q \<and>
     sq_next_put q = ring_index (sq_slots q) (sq_next_get q) (sq_sem_get q) \<and>
     sq_cur_len q = int (sq_sem_get q) \<and> sq_sem_put q + sq_sem_get q = sq_max q \<and>
     seg_mutex (sq_shm q) = Some False"

lemma sq_locked_free: "seg_mutex (sq_shm q) = Some False \<Longrightarrow> sq_locked body q = Ret (Inr (body q))"
  by (simp add: sq_locked_def shm_lock_def)

definition sq_contents :: "shm_queue \<Rightarrow> bytes list" where
  "sq_contents q = ring_slice (sq_slots q) (sq_next_get q) (sq_sem_get q)"

text \<open>The queue of a process that finds the segment another process has made.\<close>

definition sq_joined :: "nat \<Rightarrow> nat \<Rightarrow> shm_queue" where
  "sq_joined sz n = mk_shm_queue sz (Some (mk_shm_queue sz None n)) n"

lemma sq_inv_joined: "0 < n \<Longrightarrow> sq_inv sz (sq_joined sz n) \<and> sq_contents (sq_joined sz n) = [] \<and> sq_max (sq_joined sz n) = n"
  by (simp add: sq_inv_def sq_contents_def mk_shm_queue_def sq_setup_def sq_joined_def shm_initialize_def shm_attach_def)

text \<open>
  The process that makes the segment never initialises the mutex: its first \<^verbatim>\<open>put\<close> is undefined, until a second process has
  attached.
\<close>

lemma sq_put_on_new_segment: "0 < n \<Longrightarrow> \<exists>f. sq_put sz x k (mk_shm_queue sz None n) = Ret (Inl f)"
  by (simp add: sq_put_def sq_put_reserve_def sq_locked_def shm_lock_def mk_shm_queue_def sq_setup_def shm_initialize_def
    shm_attach_def)

lemma sq_advance_ring:
  assumes "i < sq_max q" "length (sq_slots q) = sq_max q"
  shows "sq_advance q i = ring_next (sq_slots q) i"
proof (cases "i + 1 = sq_max q")
  case True
  then show ?thesis using assms(2) by (simp add: sq_advance_def ring_next_def)
next
  case False
  then show ?thesis using assms by (simp add: sq_advance_def ring_next_def)
qed

lemma sq_put_full: "sq_inv sz q \<Longrightarrow> sq_sem_get q = sq_max q \<Longrightarrow> sq_put sz x n q = Ret (Inr (-1, q))"
  by (simp add: sq_inv_def sq_put_def sq_put_reserve_def)

lemma sq_put_room:
  assumes inv: "sq_inv sz q" and room: "sq_sem_get q < sq_max q"
    and x: "length x = sz" and n: "0 \<le> n" "n \<le> int sz"
  defines "m \<equiv> if n = 0 then sz else nat n"
  shows "\<exists>old q'. sq_put sz x n q = Ret (Inr (0, q')) \<and> sq_inv sz q' \<and> length old = sz \<and>
    sq_contents q' = sq_contents q @ [take m x @ drop m old] \<and> sq_max q' = sq_max q"
proof -
  let ?i = "ring_index (sq_slots q) (sq_next_get q) (sq_sem_get q)"
  let ?old = "sq_slots q ! ?i"
  let ?v = "blit 0 (take m x) ?old"
  let ?q = "q\<lparr>sq_sem_put := sq_sem_put q - 1, sq_next_put := ring_next (sq_slots q) ?i,
      sq_cur_len := sq_cur_len q + 1, sq_slots := (sq_slots q)[?i := ?v], sq_sem_get := sq_sem_get q + 1\<rparr>"
  have len: "length (sq_slots q) = sq_max q" and ne: "sq_slots q \<noteq> []" using inv by (auto simp: sq_inv_def)
  have i: "?i < sq_max q" "sq_next_put q = ?i" using inv ne len ring_index_less [OF ne] by (simp_all add: sq_inv_def)
  have old: "length ?old = sz" using inv i(1) len by (simp add: sq_inv_def)
  have m: "m \<le> sz" using n by (auto simp: m_def)
  note adv = sq_advance_ring [of ?i "q\<lparr>sq_sem_put := sq_sem_put q - 1\<rparr>", simplified, OF i(1) len]
  have put: "sq_put sz x n q = Ret (Inr (0, ?q))"
    using inv room x n i adv
    by (simp add: sq_put_def sq_put_reserve_def sq_put_copy_def sq_put_post_def sq_object_def sq_inv_def Let_def m_def
      sq_locked_free)
  have v: "length ?v = sz" "?v = take m x @ drop m ?old" using m old x by (simp_all add: blit_def)
  have "sq_inv sz ?q"
    using inv room i v(1) by (auto simp: sq_inv_def ring_next_index dest: set_update_subset_insert [THEN subsetD])
  moreover have "sq_contents ?q = sq_contents q @ [take m x @ drop m ?old]"
    using ring_slice_push [of "sq_sem_get q" "sq_slots q" "sq_next_get q" ?v] room len v(2)
    by (simp add: sq_contents_def)
  ultimately show ?thesis using put old by auto
qed

lemma sq_take_room:
  assumes inv: "sq_inv sz q" and some: "sq_sem_get q \<noteq> 0"
  shows "\<exists>q'. sq_get q = Ret (Inr (Some (sq_next_get q), q')) \<and> sq_try_get q = Ret (Inr (1, Some (sq_next_get q), q')) \<and>
    sq_inv sz q' \<and> sq_contents q = sq_slots q ! sq_next_get q # sq_contents q' \<and> sq_slots q' = sq_slots q \<and>
    sq_max q' = sq_max q"
proof -
  let ?q = "q\<lparr>sq_sem_get := sq_sem_get q - 1, sq_cur_len := sq_cur_len q - 1,
      sq_next_get := ring_next (sq_slots q) (sq_next_get q), sq_sem_put := sq_sem_put q + 1\<rparr>"
  obtain k where k: "sq_sem_get q = Suc k" using some by (cases "sq_sem_get q") auto
  have len: "length (sq_slots q) = sq_max q" and g: "sq_next_get q < sq_max q" using inv by (auto simp: sq_inv_def)
  note adv = sq_advance_ring [of "sq_next_get q" "q\<lparr>sq_sem_get := k\<rparr>", simplified, OF g len]
  have "sq_get q = Ret (Inr (Some (sq_next_get q), ?q))"
    using inv k g adv by (subst sq_get.simps) (simp add: sq_take_slot_def sq_get_release_def sq_inv_def Let_def sq_locked_free)
  moreover have "sq_try_get q = Ret (Inr (1, Some (sq_next_get q), ?q))"
    using inv k g adv by (simp add: sq_try_get_def sq_take_slot_def sq_get_release_def sq_inv_def Let_def sq_locked_free)
  moreover have "sq_inv sz ?q"
    using inv k len g ring_less_of_start(2) [of "sq_next_get q" "sq_slots q"] by (auto simp: sq_inv_def ring_index_next)
  moreover have "sq_contents q = sq_slots q ! sq_next_get q # sq_contents ?q"
    using ring_slice_pop [of "sq_next_get q" "sq_slots q" k] g len k by (simp add: sq_contents_def)
  ultimately show ?thesis by auto
qed

text \<open>
  Whole objects put and read at once: the interface of a queue. A caller of \<^verbatim>\<open>try_get\<close> reads the slot it
  was given.
\<close>

definition sq_put_object :: "nat \<Rightarrow> bytes \<Rightarrow> shm_queue \<Rightarrow> bool \<times> shm_queue" where
  "sq_put_object sz x q = (case sq_put sz x 0 q of Ret (Inr (r, q')) \<Rightarrow> (r = 0, q') | _ \<Rightarrow> (False, q))"

definition sq_read_next :: "shm_queue \<Rightarrow> bytes option \<times> shm_queue" where
  "sq_read_next q =
     (case sq_try_get q of Ret (Inr (r, Some i, q')) \<Rightarrow> (Some (sq_slots q' ! i), q') | _ \<Rightarrow> (None, q))"

lemma sq_put_object_cases:
  assumes "sq_inv sz q"
  shows "sq_put_object sz x q = (False, q) \<and> (length x \<noteq> sz \<or> sq_sem_get q = sq_max q) \<or>
    (\<exists>q'. sq_put_object sz x q = (True, q') \<and> sq_inv sz q' \<and> sq_contents q' = sq_contents q @ [x])"
proof (cases "length x = sz \<and> sq_sem_get q < sq_max q")
  case True
  then show ?thesis
    using sq_put_room [OF assms, of x 0] by (fastforce simp: sq_put_object_def)
next
  case False
  have le: "sq_sem_get q \<le> sq_max q" using assms by (simp add: sq_inv_def)
  show ?thesis
  proof (cases "sq_sem_get q = sq_max q")
    case True
    then show ?thesis using sq_put_full [OF assms True] by (simp add: sq_put_object_def)
  next
    case room: False
    then have "length x \<noteq> sz" using False le by simp
    then have "\<exists>f. sq_put sz x 0 q = Ret (Inl f)"
      using assms room by (auto simp: sq_put_def sq_put_reserve_def sq_put_copy_def sq_inv_def Let_def sq_locked_free)
    then show ?thesis using \<open>length x \<noteq> sz\<close> by (auto simp: sq_put_object_def)
  qed
qed

lemma sq_read_next_cases:
  assumes "sq_inv sz q"
  shows "sq_read_next q = (None, q) \<and> sq_contents q = [] \<or>
    (\<exists>x q'. sq_read_next q = (Some x, q') \<and> sq_inv sz q' \<and> sq_contents q = x # sq_contents q')"
proof (cases "sq_sem_get q = 0")
  case True
  then show ?thesis by (simp add: sq_read_next_def sq_try_get_def sq_contents_def)
next
  case False
  then show ?thesis using sq_take_room [OF assms False] by (auto simp: sq_read_next_def)
qed

interpretation shmq: fifo_queue sq_contents "sq_inv sz" "sq_put_object sz" sq_read_next for sz
proof unfold_locales
  fix q x q'
  assume i: "sq_inv sz q"
  show "sq_put_object sz x q = (True, q') \<Longrightarrow> sq_contents q' = sq_contents q @ [x] \<and> sq_inv sz q'"
    "sq_put_object sz x q = (False, q') \<Longrightarrow> sq_contents q' = sq_contents q \<and> sq_inv sz q'"
    using sq_put_object_cases [OF i, of x] i by auto
  show "sq_read_next q = (None, q') \<Longrightarrow> sq_contents q = [] \<and> sq_contents q' = [] \<and> sq_inv sz q'"
    "sq_read_next q = (Some x, q') \<Longrightarrow> sq_contents q = x # sq_contents q' \<and> sq_inv sz q'"
    using sq_read_next_cases [OF i] i by auto
qed

lemma sq_put_object_max: "sq_inv sz q \<Longrightarrow> sq_put_object sz x q = (b, q') \<Longrightarrow> sq_max q' = sq_max q"
  by (auto simp: sq_put_object_def sq_put_def sq_put_reserve_def sq_put_copy_def sq_put_post_def sq_inv_def sq_locked_free
    Let_def split: if_splits outcome.splits sum.splits)

lemma sq_read_next_max: "sq_inv sz q \<Longrightarrow> sq_read_next q = (r, q') \<Longrightarrow> sq_max q' = sq_max q"
  by (auto simp: sq_read_next_def sq_try_get_def sq_take_slot_def sq_get_release_def sq_inv_def sq_locked_free Let_def
    split: if_splits outcome.splits sum.splits)

lemma sq_run_max:
  "sq_inv sz q \<Longrightarrow> run_queue (sq_put_object sz) sq_read_next ops q = (acc, del, q') \<Longrightarrow> sq_max q' = sq_max q"
proof (induction ops arbitrary: q acc del)
  case (Cons op ops)
  show ?case
  proof (cases op)
    case (PutOp x)
    obtain b q1 where p: "sq_put_object sz x q = (b, q1)" by (cases "sq_put_object sz x q")
    have "sq_inv sz q1" using shmq.put_invar [OF Cons.prems(1), of x] p by simp
    then show ?thesis using Cons p PutOp sq_put_object_max [OF Cons.prems(1) p] by (force split: prod.splits)
  next
    case GetOp
    obtain r q1 where g: "sq_read_next q = (r, q1)" by (cases "sq_read_next q")
    have "sq_inv sz q1" using shmq.get_invar [OF Cons.prems(1)] g by simp
    then show ?thesis using Cons g GetOp sq_read_next_max [OF Cons.prems(1) g] by (force split: prod.splits)
  qed
qed simp

section \<open>Properties\<close>

text \<open>
  C19: the shared-memory queue is a bounded FIFO for a process that attaches to a segment another process has made with the
  same size, so that its mutex is initialised, and that then uses it alone, one call after the other. Any
  sequence of whole-object \<^verbatim>\<open>put\<close>s, each with its \<^verbatim>\<open>shm_->lock()\<close>, and reads through \<^verbatim>\<open>try_get\<close> delivers
  the accepted objects in order, loses none, and never holds more than \<^verbatim>\<open>max_\<close>; no call faults or waits for the mutex: a
  put of a whole object is refused only when the queue is full, and a read finds nothing only when it is empty.
\<close>

theorem shm_queue_fifo:
  assumes "0 < n" "run_queue (sq_put_object sz) sq_read_next ops (sq_joined sz n) = (acc, del, q)"
  shows "acc = del @ sq_contents q \<and> length (sq_contents q) \<le> n \<and> sq_length q = int (length (sq_contents q)) \<and>
    (\<forall>x. length x = sz \<longrightarrow> (\<exists>r q'. sq_put sz x 0 q = Ret (Inr (r, q')) \<and> (r = -1 \<longleftrightarrow> length (sq_contents q) = n))) \<and>
    (\<exists>r p q'. sq_try_get q = Ret (Inr (r, p, q')) \<and> (r = 0 \<longleftrightarrow> sq_contents q = []))"
proof -
  have "sq_contents (sq_joined sz n) @ acc = del @ sq_contents q \<and> sq_inv sz q"
    using shmq.run_conserves [OF _ assms(2)] sq_inv_joined [OF assms(1)] by blast
  then have run: "acc = del @ sq_contents q" "sq_inv sz q" using sq_inv_joined [OF assms(1), of sz] by auto
  have m: "sq_max q = n" using sq_run_max [OF _ assms(2)] sq_inv_joined [OF assms(1), of sz] by simp
  have len: "length (sq_contents q) = sq_sem_get q" "sq_sem_get q \<le> n" "sq_cur_len q = int (sq_sem_get q)"
    using run(2) m by (auto simp: sq_inv_def sq_contents_def)
  have "\<exists>r q'. sq_put sz x 0 q = Ret (Inr (r, q')) \<and> (r = -1 \<longleftrightarrow> sq_sem_get q = n)" if "length x = sz" for x
    using sq_put_full [OF run(2), of x 0] sq_put_room [OF run(2) _ that, of 0] m len(2) by (cases "sq_sem_get q = n") auto
  moreover have "\<exists>r p q'. sq_try_get q = Ret (Inr (r, p, q')) \<and> (r = 0 \<longleftrightarrow> sq_contents q = [])"
  proof (cases "sq_sem_get q = 0")
    case True
    then show ?thesis using len(1) by (simp add: sq_try_get_def)
  next
    case False
    then show ?thesis using sq_take_room [OF run(2) False] len(1) by auto
  qed
  ultimately show ?thesis using run len by (auto simp: sq_length_def)
qed

theorem shm_queue_fifo_witness:
  "(\<lambda>(acc, del, q). acc = del @ sq_contents q \<and> length (sq_contents q) \<le> 2)
     (run_queue (sq_put_object 1) sq_read_next [PutOp [7], PutOp [8], GetOp] (sq_joined 1 2))"
  using shm_queue_fifo [of 2 1 "[PutOp [7], PutOp [8], GetOp]"]
  by (cases "run_queue (sq_put_object 1) sq_read_next [PutOp [7], PutOp [8], GetOp] (sq_joined 1 2)") auto

text \<open>
  Two producers can make a consumer read a slot nobody has written. \<^verbatim>\<open>put\<close> copies the object after
  it has left the lock: when one producer has reserved its slot and a second one completes its \<^verbatim>\<open>put\<close>,
  \<^verbatim>\<open>get\<close> returns the first producer's slot with its old contents.
\<close>

theorem shm_unwritten_slot_delivered:
  assumes "sq_inv sz q" "sq_contents q = []" "2 \<le> sq_max q" "length b = sz"
    "sq_put_reserve q = Ret (Inr (Some (slot, q1)))" "sq_put sz b 0 q1 = Ret (Inr (0, q2))"
  shows "\<exists>q3. sq_get q2 = Ret (Inr (Some slot, q3)) \<and> sq_slots q3 ! slot = sq_slots q ! slot"
proof -
  have z: "sq_sem_get q = 0" using assms(2) by (simp add: sq_contents_def ring_slice_def)
  have i: "sq_next_get q < sq_max q" "sq_next_put q = sq_next_get q" "sq_sem_put q = sq_max q" "sq_cur_len q = 0"
      "sq_mapped q" "sq_nobjects q = sq_max q" "length (sq_slots q) = sq_max q" "seg_mutex (sq_shm q) = Some False"
    using assms(1) z by (auto simp: sq_inv_def)
  have q1: "slot = sq_next_get q"
      "q1 = q\<lparr>sq_sem_put := sq_max q - 1, sq_next_put := sq_advance q (sq_next_get q), sq_cur_len := 1\<rparr>"
    using assms(5) i by (auto simp: sq_put_reserve_def sq_locked_free sq_advance_def split: if_splits)
  have adv: "sq_advance q (sq_next_get q) < sq_max q" "sq_advance q (sq_next_get q) \<noteq> sq_next_get q"
    using i(1) assms(3) by (auto simp: sq_advance_def)
  have q2: "sq_sem_get q2 = 1" "sq_cur_len q2 = 2" "sq_next_get q2 = sq_next_get q" "sq_max q2 = sq_max q"
      "sq_nobjects q2 = sq_max q" "sq_slots q2 ! slot = sq_slots q ! slot"
      "seg_mutex (sq_shm q2) = Some False"
    using assms(4,6) adv i z
    by (auto simp: q1 sq_put_def sq_put_reserve_def sq_put_copy_def sq_put_post_def sq_object_def Let_def sq_locked_free
        split: if_splits)
  show ?thesis
    using q2 i(1) by (subst sq_get.simps) (simp add: sq_take_slot_def sq_get_release_def q1(1) Let_def sq_locked_free)
qed

theorem shm_unwritten_slot_delivered_witness:
  "\<exists>q1 q2 q3. sq_put_reserve (sq_joined 1 2) = Ret (Inr (Some (0, q1))) \<and> sq_put 1 [9] 0 q1 = Ret (Inr (0, q2)) \<and>
     sq_get q2 = Ret (Inr (Some 0, q3)) \<and> sq_slots q3 ! 0 = [0]"
proof -
  let ?q = "sq_joined 1 2"
  note ev = sq_joined_def mk_shm_queue_def sq_setup_def shm_initialize_def shm_attach_def sq_put_reserve_def sq_locked_free
  obtain q1 where r: "sq_put_reserve ?q = Ret (Inr (Some (0, q1)))" by (simp add: ev)
  then obtain q2 where p: "sq_put 1 [9] 0 q1 = Ret (Inr (0, q2))"
    by (auto simp: ev sq_put_def sq_put_copy_def sq_put_post_def sq_object_def sq_advance_def Let_def)
  have "sq_inv 1 ?q" "sq_contents ?q = []" "2 \<le> sq_max ?q" "sq_slots ?q ! 0 = [0]"
    using sq_inv_joined [of 2 1] by (auto simp: sq_joined_def mk_shm_queue_def sq_setup_def shm_initialize_def)
  then show ?thesis using shm_unwritten_slot_delivered [of 1 ?q "[9]" 0 q1 q2] r p by auto
qed

text \<open>
  The slot is given back before the caller has read it: on a full ring the next \<^verbatim>\<open>put\<close> writes into the
  slot the last \<^verbatim>\<open>get\<close> returned.
\<close>

lemma shm_slot_reused_before_read:
  assumes "sq_inv sz q" "sq_sem_get q = sq_max q" "sq_get q = Ret (Inr (Some i, q1))" "length x = sz"
  shows "\<exists>q2. sq_put sz x 0 q1 = Ret (Inr (0, q2)) \<and> sq_slots q2 ! i = x"
proof -
  have pos: "sq_sem_get q \<noteq> 0" using assms(1,2) by (simp add: sq_inv_def)
  obtain q' where t: "sq_get q = Ret (Inr (Some (sq_next_get q), q'))" "sq_try_get q = Ret (Inr (1, Some (sq_next_get q), q'))"
      "sq_inv sz q'" "sq_slots q' = sq_slots q" "sq_max q' = sq_max q"
    using sq_take_room [OF assms(1) pos] by blast
  then have q1: "i = sq_next_get q" "q' = q1" using assms(3) by auto
  have full: "sq_next_put q = sq_next_get q"
    using assms(1,2) by (simp add: sq_inv_def ring_index_def)
  have q1': "sq_next_put q1 = sq_next_get q" "sq_sem_put q1 = 1" "sq_mapped q1" "sq_nobjects q1 = sq_max q"
      "seg_mutex (sq_shm q1) = Some False"
    using t(2) assms(1,2) pos full q1(2)
    by (auto simp: sq_try_get_def sq_take_slot_def sq_get_release_def sq_inv_def Let_def sq_locked_free split: if_splits)
  have g: "sq_next_get q < sq_max q" "length (sq_slots q) = sq_max q" "length (sq_slots q ! sq_next_get q) = sz"
    using assms(1) by (auto simp: sq_inv_def)
  show ?thesis
    using q1' g t(4,5) q1 assms(4)
    by (auto simp: sq_put_def sq_put_reserve_def sq_put_copy_def sq_put_post_def sq_object_def Let_def blit_def sq_locked_free)
qed

text \<open>
  A wake-up without an object (\<^verbatim>\<open>put_event\<close>, or the destructor of another user) is harmless for \<^verbatim>\<open>get\<close>,
  which checks the length, and drives the length of the queue to \<open>-1\<close> in \<^verbatim>\<open>try_get\<close>, which does not.
\<close>

lemma shm_try_get_after_put_event:
  assumes "sq_inv sz q" "sq_contents q = []" "sq_put_event q = Ret (Inr (b, q1))"
  shows "sq_get q1 = Blocked" "\<exists>i q2. sq_try_get q1 = Ret (Inr (1, Some i, q2)) \<and> sq_length q2 = -1"
proof -
  have z: "sq_sem_get q = 0" using assms(2) by (simp add: sq_contents_def ring_slice_def)
  have q1: "q1 = q\<lparr>sq_sem_get := 1\<rparr>" "sq_cur_len q = 0" "sq_nobjects q = sq_max q" "sq_next_get q < sq_max q"
      "seg_mutex (sq_shm q) = Some False"
    using assms(1,3) z by (auto simp: sq_put_event_def sq_inv_def sq_locked_free)
  show "sq_get q1 = Blocked" by (subst sq_get.simps) (simp add: q1 sq_get.simps Let_def sq_locked_free)
  show "\<exists>i q2. sq_try_get q1 = Ret (Inr (1, Some i, q2)) \<and> sq_length q2 = -1"
    using q1 by (simp add: sq_try_get_def sq_take_slot_def sq_get_release_def sq_length_def Let_def sq_locked_free)
qed

text \<open>After \<^verbatim>\<open>reset\<close> the slot pointers are stale, and the first \<^verbatim>\<open>put\<close> writes through one.\<close>

lemma shm_put_after_reset_ub: "sq_inv sz q \<Longrightarrow> length x = sz \<Longrightarrow> \<exists>f. sq_put sz x 0 (sq_reset q) = Ret (Inl f)"
  by (auto simp: sq_put_def sq_put_reserve_def sq_put_copy_def sq_object_def sq_reset_def sq_setup_def sq_inv_def Let_def
    sq_locked_free shm_attach_def)

text \<open>
  The creator of a segment never initialises its mutex, and every later user initialises it again,
  also while it is locked.
\<close>

lemma shm_mutex_inverted:
  "shm_initialize None = (origin, g) \<Longrightarrow> \<exists>f. shm_lock (shm_attach origin g) = Inl f"
  "shm_initialize (Some g) = (origin, g') \<Longrightarrow> \<exists>g''. shm_lock (shm_attach origin g') = Inr (Ret g'')"
  by (auto simp: shm_initialize_def shm_attach_def shm_lock_def)

text \<open>The destructor of a queue object posts \<^verbatim>\<open>sem_get_\<close> for whoever else uses the segment, as \<^verbatim>\<open>put_event\<close> does.\<close>

definition destroy_shm_queue :: "shm_queue \<Rightarrow> shm_queue" where
  "destroy_shm_queue q = q\<lparr>sq_sem_get := sq_sem_get q + 1\<rparr>"

lemma destroy_shm_queue_posts: "seg_mutex (sq_shm q) = Some False \<Longrightarrow> \<exists>b. sq_put_event q = Ret (Inr (b, destroy_shm_queue q))"
  by (simp add: destroy_shm_queue_def sq_put_event_def sq_locked_free)

lemma destroy_shm_queue_unbalances: "sq_inv sz q \<Longrightarrow> \<not> sq_inv sz (destroy_shm_queue q)"
  by (simp add: sq_inv_def destroy_shm_queue_def)

end
