(* ===== verification/Shared_Memory.thy ===== *)
theory Shared_Memory
  imports Shm_Queue
begin

text \<open>
  The life of a \<^verbatim>\<open>SharedMemory\<close> object (\<^verbatim>\<open>include/sharedmemory.hpp\<close>) in the system: the file that names the
  segment, the key made from it, the segment under that key, and the mapping of the object. \<open>ftok\<close> is a
  parameter (\<open>None\<close> for its failure, which the code reports and goes on with key \<open>-1\<close>); segments are found
  by key, and \<^verbatim>\<open>shmget\<close> for a new segment succeeds. Constructor, \<^verbatim>\<open>attach\<close>, \<^verbatim>\<open>data\<close>, \<^verbatim>\<open>unlock\<close>, \<^verbatim>\<open>detach\<close>,
  \<^verbatim>\<open>destroy\<close> and the destructor.
\<close>

record shm_os =
  os_files :: "string set"
  os_segments :: "int \<rightharpoonup> segment"

record shared_memory =
  shm_path :: string
  shm_key :: int
  shm_size :: int
  shm_origin :: bool
  shm_mapped :: bool

definition sizeof_mutex :: int where "sizeof_mutex = 40"

text \<open>\<open>created\<close> is whether \<^verbatim>\<open>open\<close> with \<^verbatim>\<open>O_CREAT\<close> succeeds for a missing file.\<close>

definition shm_check_file :: "bool \<Rightarrow> string \<Rightarrow> shm_os \<Rightarrow> shm_os" where
  "shm_check_file created path os =
     (if path \<in> os_files os then os else if created then os\<lparr>os_files := insert path (os_files os)\<rparr> else os)"

definition shm_total_size :: "int \<Rightarrow> int \<Rightarrow> int" where
  "shm_total_size sizeof_T nSize = (if nSize = -1 then sizeof_mutex + sizeof_T else nSize + sizeof_mutex)"

definition mk_shared_memory ::
  "(string \<Rightarrow> int option) \<Rightarrow> bool \<Rightarrow> int \<Rightarrow> string \<Rightarrow> int \<Rightarrow> shm_os \<Rightarrow> shared_memory \<times> shm_os" where
  "mk_shared_memory ftok created sizeof_T path nSize os =
     (let os1 = shm_check_file created path os;
          key = (case ftok path of None \<Rightarrow> -1 | Some k \<Rightarrow> k);
          (origin, seg) = shm_initialize (os_segments os1 key)
      in (\<lparr>shm_path = path, shm_key = key, shm_size = shm_total_size sizeof_T nSize, shm_origin = origin, shm_mapped = False\<rparr>,
          os1\<lparr>os_segments := (os_segments os1)(key \<mapsto> seg)\<rparr>))"

text \<open>\<^verbatim>\<open>data\<close> attaches on the first use; \<open>None\<close> when the segment is gone.\<close>

definition shm_data :: "shared_memory \<Rightarrow> shm_os \<Rightarrow> (shared_memory \<times> shm_os) option" where
  "shm_data m os =
     (if shm_mapped m then Some (m, os)
      else case os_segments os (shm_key m) of
             None \<Rightarrow> None
           | Some seg \<Rightarrow> Some (m\<lparr>shm_mapped := True\<rparr>,
               os\<lparr>os_segments := (os_segments os)(shm_key m \<mapsto> shm_attach (shm_origin m) seg)\<rparr>))"

text \<open>Unlocking a mutex that was never initialised is undefined; one that is free stays free.\<close>

definition shm_unlock :: "shared_memory \<Rightarrow> shm_os \<Rightarrow> fault + shm_os" where
  "shm_unlock m os =
     (if \<not> shm_mapped m then Inr os
      else case os_segments os (shm_key m) of
             None \<Rightarrow> Inr os
           | Some seg \<Rightarrow>
               (case seg_mutex seg of
                  None \<Rightarrow> Inl (UB ''unlock of an uninitialised mutex'')
                | Some _ \<Rightarrow> Inr (os\<lparr>os_segments := (os_segments os)(shm_key m \<mapsto> seg\<lparr>seg_mutex := Some False\<rparr>)\<rparr>)))"

definition shm_detach :: "shared_memory \<Rightarrow> shared_memory" where
  "shm_detach m = m\<lparr>shm_mapped := False\<rparr>"

definition shm_destroy :: "shared_memory \<Rightarrow> shm_os \<Rightarrow> int \<times> shm_os" where
  "shm_destroy m os =
     (case os_segments os (shm_key m) of
        None \<Rightarrow> (-1, os)
      | Some _ \<Rightarrow>
          (1, os\<lparr>os_segments := (os_segments os)(shm_key m := None),
                 os_files := (if shm_path m \<noteq> [] then os_files os - {shm_path m} else os_files os)\<rparr>))"

definition destruct_shared_memory :: "shared_memory \<Rightarrow> shm_os \<Rightarrow> fault + shared_memory \<times> shm_os" where
  "destruct_shared_memory m os = (case shm_unlock m os of Inl f \<Rightarrow> Inl f | Inr os' \<Rightarrow> Inr (shm_detach m, os'))"

section \<open>Facts\<close>

text \<open>
  The first user finds no segment and makes one, a later user of the same path finds it; after \<^verbatim>\<open>destroy\<close>
  neither the segment nor the file is there and the next user makes a new one.
\<close>

lemma shm_first_and_later:
  assumes "ftok path = Some k" "os_segments os k = None" "mk_shared_memory ftok True sz path n os = (m1, os1)"
    "mk_shared_memory ftok True sz path n os1 = (m2, os2)"
  shows "\<not> shm_origin m1 \<and> shm_origin m2 \<and> shm_key m1 = shm_key m2 \<and> path \<in> os_files os1 \<and> os2 = os1"
  using assms by (auto simp: mk_shared_memory_def shm_initialize_def shm_check_file_def Let_def split: if_splits)

lemma shm_destroy_clears:
  assumes "mk_shared_memory ftok True sz path n os = (m, os1)" "path \<noteq> []" "shm_destroy m os1 = (r, os2)"
  shows "r = 1 \<and> os_segments os2 (shm_key m) = None \<and> path \<notin> os_files os2"
  using assms by (auto simp: mk_shared_memory_def shm_destroy_def shm_initialize_def shm_check_file_def Let_def split: prod.splits option.splits)

text \<open>
  The mutex is initialised by the users that find the segment, not by the one that makes it: the first
  user's destructor unlocks a mutex that was never initialised, unless a second user has attached.
\<close>

lemma shm_first_user_destructor:
  assumes "ftok path = Some k" "os_segments os k = None" "mk_shared_memory ftok True sz path n os = (m1, os1)"
    "shm_data m1 os1 = Some (m2, os2)"
  shows "destruct_shared_memory m2 os2 = Inl (UB ''unlock of an uninitialised mutex'')"
proof -
  have m1: "m1 = \<lparr>shm_path = path, shm_key = k, shm_size = shm_total_size sz n, shm_origin = False, shm_mapped = False\<rparr>"
    "os_segments os1 k = Some \<lparr>seg_mutex = None\<rparr>"
    using assms(1-3) by (auto simp: mk_shared_memory_def shm_initialize_def shm_check_file_def Let_def split: if_splits)
  then have "m2 = m1\<lparr>shm_mapped := True\<rparr>" "os_segments os2 k = Some \<lparr>seg_mutex = None\<rparr>"
    using assms(4) by (auto simp: shm_data_def shm_attach_def)
  then show ?thesis using m1(1) by (simp add: destruct_shared_memory_def shm_unlock_def)
qed

text \<open>A later user that attaches while the mutex is held makes it free again: the exclusion is broken.\<close>

lemma shm_late_attach_breaks_lock:
  assumes "os_segments os (shm_key m) = Some seg" "seg_mutex seg = Some True" "shm_origin m" "\<not> shm_mapped m"
    "shm_data m os = Some (m', os')"
  shows "\<exists>seg'. os_segments os' (shm_key m) = Some seg' \<and> shm_lock seg' \<noteq> Inr Blocked"
  using assms by (auto simp: shm_data_def shm_attach_def shm_lock_def)

end
