(* ===== verification/Shm_Thread.thy ===== *)
theory Shm_Thread
  imports Shared_Memory Event_Bytes
begin

text \<open>
  \<^verbatim>\<open>ShmQThread\<close> (\<^verbatim>\<open>include/sharedmemory.hpp\<close>): a \<^verbatim>\<open>Thread\<close> whose events are in a queue in shared memory, so
  that they outlive the process. When it starts on a queue that still holds events it runs a second
  thread, \<^verbatim>\<open>CongestThread\<close>, that posts the semaphore the worker waits on until at most one event is left.
  A slot is the bytes of an \<^verbatim>\<open>EVENTINFO\<close>.
\<close>

section \<open>The object\<close>

record shm_qthread =
  sqt_thread :: thread_obj
  sqt_queue :: shm_queue
  sqt_congest :: bool

definition mk_shm_qthread :: "shm_queue option \<Rightarrow> nat \<Rightarrow> shm_qthread" where
  "mk_shm_qthread existing nBufferLen =
     \<lparr>sqt_thread = mk_thread, sqt_queue = mk_shm_queue MAX_EVENTINFO_SIZE existing nBufferLen, sqt_congest = False\<rparr>"


text \<open>\<^verbatim>\<open>add\<close> copies as many bytes of the packet as its length field says.\<close>

definition shmqt_add :: "eventinfo \<Rightarrow> shm_qthread \<Rightarrow> (fault + bool \<times> shm_qthread) outcome" where
  "shmqt_add pEvent s =
     (case sq_put MAX_EVENTINFO_SIZE (encode_event pEvent) (nMsgLen (ev_h pEvent)) (sqt_queue s) of
        Blocked \<Rightarrow> Blocked
      | Ret r \<Rightarrow> Ret (map_sum id (\<lambda>(r, q). (r = 0, s\<lparr>sqt_queue := q\<rparr>)) r))"

definition shmqt_remove :: "shm_qthread \<Rightarrow> (fault + nat option \<times> shm_qthread) outcome" where
  "shmqt_remove s =
     (case sq_get (sqt_queue s) of
        Blocked \<Rightarrow> Blocked
      | Ret r \<Rightarrow> Ret (map_sum id (\<lambda>(p, q). (p, s\<lparr>sqt_queue := q\<rparr>)) r))"

definition shmqt_try_remove :: "shm_qthread \<Rightarrow> (fault + nat option \<times> shm_qthread) outcome" where
  "shmqt_try_remove s =
     (case sq_try_get (sqt_queue s) of
        Blocked \<Rightarrow> Blocked
      | Ret r \<Rightarrow> Ret (map_sum id (\<lambda>(r, p, q). (if r = 1 then p else None, s\<lparr>sqt_queue := q\<rparr>)) r))"

definition shmqt_add_event :: "u16 \<Rightarrow> u16 \<Rightarrow> bytes option \<Rightarrow> int \<Rightarrow> shm_qthread \<Rightarrow> (fault + bool \<times> shm_qthread) outcome" where
  "shmqt_add_event type stype pValue nLen s =
     (case fill_value pValue nLen (ev_Value zero_event) of
        Inl f \<Rightarrow> Ret (Inl f)
      | Inr v \<Rightarrow>
          (case add_int32 (int EVENTINFO_HEADER_LENGTH) nLen of
             None \<Rightarrow> Ret (Inl (UB ''int overflow''))
           | Some len \<Rightarrow>
               shmqt_add (zero_event\<lparr>ev_h := (ev_h zero_event)\<lparr>usType := type, usSubType := stype, nMsgLen := len\<rparr>,
                                     ev_Value := v\<rparr>) s))"

definition shmqt_add_event32 :: "u16 \<Rightarrow> u16 \<Rightarrow> u32 \<Rightarrow> shm_qthread \<Rightarrow> (fault + bool \<times> shm_qthread) outcome" where
  "shmqt_add_event32 type stype value s =
     shmqt_add (zero_event\<lparr>ev_h := (ev_h zero_event)\<lparr>usType := type, usSubType := stype,
                                                      nMsgLen := int EVENTINFO_HEADER_LENGTH + 4\<rparr>,
                           ev_Value := blit 0 (le_bytes 4 (unat value)) (ev_Value zero_event)\<rparr>) s"

definition shmqt_add_quit_event :: "shm_qthread \<Rightarrow> (fault + bool \<times> shm_qthread) outcome" where
  "shmqt_add_quit_event s = shmqt_add_event CI_QUIT_THREAD 0 None 0 s"

text \<open>\<^verbatim>\<open>close\<close> up to the \<^verbatim>\<open>close_post\<close> of \<^verbatim>\<open>Thread\<close>.\<close>

definition shmqt_close_begin :: "shm_qthread \<Rightarrow> (fault + shm_qthread) outcome" where
  "shmqt_close_begin s =
     (case shmqt_add_quit_event (s\<lparr>sqt_thread := close_pre (sqt_thread s)\<rparr>) of
        Blocked \<Rightarrow> Blocked
      | Ret r \<Rightarrow> Ret (map_sum id snd r))"

text \<open>One turn of \<^verbatim>\<open>CongestThread::thread_proc\<close>; it ends when \<^verbatim>\<open>put_event\<close> returns false.\<close>

definition congest_turn :: "shm_qthread \<Rightarrow> (fault + shm_qthread) outcome" where
  "congest_turn s =
     (case sq_put_event (sqt_queue s) of
        Blocked \<Rightarrow> Blocked
      | Ret r \<Rightarrow> Ret (map_sum id (\<lambda>(more, q). s\<lparr>sqt_queue := q, sqt_congest := more\<rparr>) r))"

section \<open>An event through shared memory\<close>

text \<open>What \<^verbatim>\<open>add_event\<close> hands to the queue for a payload that fits.\<close>

lemma shmqt_add_event_packet:
  assumes "length payload \<le> MAX_VALUE_SIZE"
  shows "\<exists>e. event_ok e \<and> event_carries e type stype payload \<and> nMsgLen (ev_h e) = 60 + int (length payload) \<and>
    shmqt_add_event type stype (Some payload) (int (length payload)) s = shmqt_add e s"
proof -
  let ?v = "if payload = [] then ev_Value zero_event else blit 0 payload (ev_Value zero_event)"
  let ?e = "zero_event\<lparr>ev_h := (ev_h zero_event)\<lparr>usType := type, usSubType := stype,
     nMsgLen := 60 + int (length payload)\<rparr>, ev_Value := ?v\<rparr>"
  have "fill_value (Some payload) (int (length payload)) (ev_Value zero_event) = Inr ?v"
    using assms by (simp add: fill_value_def zero_event_def)
  moreover have "add_int32 60 (int (length payload)) = Some (60 + int (length payload))"
    using assms by (simp add: add_int32_def in_int32_def)
  moreover have "event_carries ?e type stype payload" "event_ok ?e"
    using assms by (auto simp: event_carries_def event_value_length_def event_ok_def blit_def zero_event_def in_int32_def)
  ultimately show ?thesis
    by (intro exI [of _ ?e]) (simp add: shmqt_add_event_def zero_event_def)
qed

lemma slot_carries:
  assumes ok: "event_ok e" and e: "event_carries e type stype payload" and n: "nMsgLen (ev_h e) = 60 + int (length payload)"
    and slot: "slot = take (60 + length payload) (encode_event e) @ drop (60 + length payload) old" and old: "length old = MAX_EVENTINFO_SIZE"
  shows "event_carries (decode_event slot) type stype payload"
proof -
  let ?n = "60 + length payload"
  have len: "length (encode_event e) = 4096" using length_encode_event [OF ok] by (simp add: MAX_EVENTINFO_SIZE_def)
  have fits: "?n \<le> 4096" using e by (auto simp: event_carries_def dest: arg_cong [of _ _ length])
  have pre: "take ?n slot = take ?n (encode_event e)" using slot fits len by simp
  have ls: "length slot = 4096" using slot len old fits by (simp add: MAX_EVENTINFO_SIZE_def)
  have h: "ev_h (decode_event slot) = ev_h e"
    using decode_prefix(1) [OF pre] decode_encode_event [OF ok] by simp
  have v: "take (length payload) (ev_Value (decode_event slot)) = take (length payload) (ev_Value e)"
  proof -
    have "take (length payload) (drop 60 slot) = take (length payload) (drop 60 (encode_event e))"
      using arg_cong [OF pre, of "drop 60"] by (simp add: drop_take)
    moreover have "drop 60 (encode_event e) = ev_Value e" using decode_encode_event [OF ok] by (metis decode_event_def eventinfo.select_convs(3))
    ultimately show ?thesis by (simp add: decode_event_def)
  qed
  show ?thesis using e h v ls by (simp add: event_carries_def event_value_length_def decode_event_def)
qed

text \<open>
  An event posted through shared memory arrives: with an initialised mutex, a payload of at most \<^verbatim>\<open>MAX_VALUE_SIZE\<close> bytes added to an
  empty queue with room is what the next \<^verbatim>\<open>remove\<close> finds in the slot it returns, with its type, subtype,
  length and bytes, whatever an earlier event left in that slot.
\<close>

theorem shm_event_roundtrip:
  assumes "sq_inv MAX_EVENTINFO_SIZE (sqt_queue s)" "sq_contents (sqt_queue s) = []" "length payload \<le> MAX_VALUE_SIZE"
  shows "\<exists>s1 s2 i. shmqt_add_event type stype (Some payload) (int (length payload)) s = Ret (Inr (True, s1)) \<and>
    shmqt_remove s1 = Ret (Inr (Some i, s2)) \<and>
    event_carries (decode_event (sq_slots (sqt_queue s2) ! i)) type stype payload"
proof -
  let ?q = "sqt_queue s"
  obtain e where e: "event_ok e" "event_carries e type stype payload" "nMsgLen (ev_h e) = 60 + int (length payload)"
    "shmqt_add_event type stype (Some payload) (int (length payload)) s = shmqt_add e s"
    using shmqt_add_event_packet [OF assms(3), of type stype s] by blast
  have z: "sq_sem_get ?q = 0" using assms(2) by (simp add: sq_contents_def ring_slice_def)
  have room: "sq_sem_get ?q < sq_max ?q" using assms(1) z by (simp add: sq_inv_def)
  have len: "length (encode_event e) = MAX_EVENTINFO_SIZE" by (rule length_encode_event [OF e(1)])
  have n: "0 \<le> nMsgLen (ev_h e)" "nMsgLen (ev_h e) \<le> int MAX_EVENTINFO_SIZE" "nMsgLen (ev_h e) \<noteq> 0" "nat (nMsgLen (ev_h e)) = 60 + length payload"
    using e(3) assms(3) by (simp_all add: MAX_EVENTINFO_SIZE_def)
  obtain old q1 where q1: "sq_put MAX_EVENTINFO_SIZE (encode_event e) (nMsgLen (ev_h e)) ?q = Ret (Inr (0, q1))"
    "sq_inv MAX_EVENTINFO_SIZE q1" "length old = MAX_EVENTINFO_SIZE"
    "sq_contents q1 = [take (60 + length payload) (encode_event e) @ drop (60 + length payload) old]"
    using sq_put_room [OF assms(1) room len n(1,2)] n(3,4) assms(2) by auto
  have "sq_sem_get q1 \<noteq> 0" using q1(4) by (cases "sq_sem_get q1") (auto simp: sq_contents_def ring_slice_def)
  then obtain q2 where q2: "sq_get q1 = Ret (Inr (Some (sq_next_get q1), q2))"
    "sq_contents q1 = sq_slots q1 ! sq_next_get q1 # sq_contents q2" "sq_slots q2 = sq_slots q1"
    using sq_take_room [OF q1(2)] by blast
  have "event_carries (decode_event (sq_slots q2 ! sq_next_get q1)) type stype payload"
    using slot_carries [OF e(1-3) _ q1(3)] q1(4) q2(2,3) by simp
  then show ?thesis using e(4) q1(1) q2(1) by (simp add: shmqt_add_def shmqt_remove_def)
qed

text \<open>The thread of a process that finds the queue another process has made.\<close>

definition shmqt_joined :: "nat \<Rightarrow> shm_qthread" where
  "shmqt_joined n = mk_shm_qthread (Some (mk_shm_queue MAX_EVENTINFO_SIZE None n)) n"

lemma shmqt_joined_queue: "sqt_queue (shmqt_joined n) = sq_joined MAX_EVENTINFO_SIZE n"
  by (simp add: shmqt_joined_def mk_shm_qthread_def sq_joined_def)

theorem shm_event_roundtrip_witness:
  "\<exists>s1 s2 i. shmqt_add_event 0x8002 5 (Some [1, 2, 3]) 3 (shmqt_joined 4) = Ret (Inr (True, s1)) \<and>
    shmqt_remove s1 = Ret (Inr (Some i, s2)) \<and>
    event_carries (decode_event (sq_slots (sqt_queue s2) ! i)) 0x8002 5 [1, 2, 3]"
  using shm_event_roundtrip [of "shmqt_joined 4" "[1, 2, 3]" "0x8002" 5] sq_inv_joined [of 4 MAX_EVENTINFO_SIZE]
  by (simp add: shmqt_joined_queue)


section \<open>Starting on a queue that a dead process left behind\<close>

text \<open>
  The counts of the semaphore and the length of the queue may disagree when a process died between
  the two updates. Producers, the worker and \<^verbatim>\<open>CongestThread\<close> then go on in any order, each call as a whole.
\<close>

datatype shm_event = Posted bool | Removed nat | Congested

inductive shm_step :: "shm_qthread \<Rightarrow> shm_event \<Rightarrow> shm_qthread \<Rightarrow> bool" where
  posted: "shmqt_add e s = Ret (Inr (ok, s')) \<Longrightarrow> shm_step s (Posted ok) s'"
| removed: "shmqt_remove s = Ret (Inr (Some i, s')) \<Longrightarrow> shm_step s (Removed i) s'"
| congested: "sqt_congest s \<Longrightarrow> congest_turn s = Ret (Inr s') \<Longrightarrow> shm_step s Congested s'"

inductive_cases shm_stepE: "shm_step s e s'"













end
