(* ===== verification/Msg_Queue.thy ===== *)
theory Msg_Queue
  imports Event_Thread
begin

text \<open>
  Message queues (\<^verbatim>\<open>include/msgqueue.hpp\<close>, \<^verbatim>\<open>include/mtq.hpp\<close>): \<^verbatim>\<open>MsgQueue\<close>, a thread that receives the
  messages of one type from a System V queue and hands them to a callback, and \<^verbatim>\<open>CMsgQueueThread\<close>, which
  puts what it receives into its own event queue. The kernel's queue is the list of the messages in it,
  \<open>None\<close> once it has been removed; a body is the bytes of a \<^verbatim>\<open>T\<close>. \<^verbatim>\<open>ftok\<close>, \<^verbatim>\<open>msgget\<close> and the failures of
  the other calls are arguments.
\<close>

section \<open>The kernel's queue\<close>

type_synonym message = "int \<times> bytes"
type_synonym msg_kernel = "message list option"

text \<open>\<^verbatim>\<open>msgsnd\<close> with room; \<^verbatim>\<open>msgrcv\<close> of a positive type takes the first message of that type, or blocks.\<close>

definition msgsnd :: "message \<Rightarrow> msg_kernel \<Rightarrow> int \<times> msg_kernel" where
  "msgsnd m k = (case k of None \<Rightarrow> (-1, None) | Some ms \<Rightarrow> (0, Some (ms @ [m])))"

fun take_type :: "int \<Rightarrow> message list \<Rightarrow> (bytes \<times> message list) option" where
  "take_type t [] = None"
| "take_type t ((u, b) # ms) =
     (if u = t then Some (b, ms) else map_option (\<lambda>(c, r). (c, (u, b) # r)) (take_type t ms))"

definition msgrcv :: "int \<Rightarrow> msg_kernel \<Rightarrow> (bytes option \<times> msg_kernel) outcome" where
  "msgrcv t k =
     (case k of
        None \<Rightarrow> Ret (None, None)
      | Some ms \<Rightarrow> (case take_type t ms of None \<Rightarrow> Blocked | Some (b, r) \<Rightarrow> Ret (Some b, Some r)))"

definition bodies :: "int \<Rightarrow> message list \<Rightarrow> bytes list" where
  "bodies t ms = map snd (filter (\<lambda>m. fst m = t) ms)"

lemma take_type_None: "take_type t ms = None \<longleftrightarrow> bodies t ms = []"
  by (induction ms) (auto simp: bodies_def split: if_splits)

lemma take_type_Some:
  "take_type t ms = Some (b, r) \<Longrightarrow> bodies t ms = b # bodies t r \<and> (\<forall>u. u \<noteq> t \<longrightarrow> bodies u r = bodies u ms)"
  by (induction ms arbitrary: r) (auto simp: bodies_def split: if_splits)

section \<open>MsgQueue\<close>

definition MSG_SEND_TYPE :: int where "MSG_SEND_TYPE = 1"
definition MSG_RECV_TYPE :: int where "MSG_RECV_TYPE = 2"

record msg_queue =
  mq_queue_id :: int
  mq_send_id :: int
  mq_recv_id :: int
  mq_has_callback :: bool
  mq_has_owner :: bool
  mq_thread :: thread_obj

definition mk_msg_queue :: msg_queue where
  "mk_msg_queue = \<lparr>mq_queue_id = -1, mq_send_id = MSG_SEND_TYPE, mq_recv_id = MSG_RECV_TYPE, mq_has_callback = False,
     mq_has_owner = False, mq_thread = mk_thread\<rparr>"

text \<open>\<^verbatim>\<open>start\<close> ends the process (\<open>None\<close>) when there is no queue; \<open>qid\<close> is what \<^verbatim>\<open>msgget\<close> returns.\<close>

definition mq_start :: "int \<Rightarrow> wid \<Rightarrow> bool \<Rightarrow> msg_queue \<Rightarrow> (bool \<times> msg_queue) option outcome" where
  "mq_start qid w callback m =
     (let m1 = m\<lparr>mq_has_callback := callback, mq_queue_id := qid\<rparr>
      in if qid = -1 then Ret None
         else case thread_create w (mq_thread m1) of
                Blocked \<Rightarrow> Blocked
              | Ret (r, launched, th) \<Rightarrow> Ret (Some (r \<noteq> 0, m1\<lparr>mq_thread := th\<rparr>)))"

definition mq_send :: "bytes \<Rightarrow> int \<Rightarrow> msg_queue \<Rightarrow> msg_kernel \<Rightarrow> int \<times> msg_kernel" where
  "mq_send elem type m k = msgsnd (if type = -1 then mq_send_id m else type, elem) k"

definition mq_remove :: "msg_queue \<Rightarrow> msg_kernel \<Rightarrow> msg_kernel" where
  "mq_remove m k = None"

text \<open>
  One turn of \<^verbatim>\<open>thread_proc\<close>: the message handed to the callback, if any. An interrupted or failing
  \<^verbatim>\<open>msgrcv\<close> makes the loop go round again.
\<close>

definition mq_turn :: "bool \<Rightarrow> msg_queue \<Rightarrow> msg_kernel \<Rightarrow> (bytes option \<times> msg_kernel) outcome" where
  "mq_turn interrupted m k =
     (if interrupted then Ret (None, k)
      else case msgrcv (mq_recv_id m) k of
             Blocked \<Rightarrow> Blocked
           | Ret (None, k1) \<Rightarrow> Ret (None, k1)
           | Ret (Some b, k1) \<Rightarrow> Ret (if mq_has_callback m then Some b else None, k1))"

section \<open>CMsgQueueThread\<close>

record msgq_thread =
  mt_qthread :: qthread
  mt_msgq :: msg_queue

definition mk_msgq_thread :: msgq_thread where
  "mk_msgq_thread = \<lparr>mt_qthread = mk_qthread, mt_msgq = mk_msg_queue\<rparr>"

definition mk_msgq_thread_n :: "int \<Rightarrow> msgq_thread" where
  "mk_msgq_thread_n nBufferLen = \<lparr>mt_qthread = mk_qthread_n nBufferLen, mt_msgq = mk_msg_queue\<rparr>"

text \<open>
  \<^verbatim>\<open>start\<close> in its three parts: the types are set and the receiving thread is launched; only then the owner
  is set; then the object's own thread is created.
\<close>

definition msgq_start_receiver :: "int \<Rightarrow> wid \<Rightarrow> int \<Rightarrow> msgq_thread \<Rightarrow> (bool \<times> msgq_thread) option outcome" where
  "msgq_start_receiver qid w type s =
     (case mq_start qid w True ((mt_msgq s)\<lparr>mq_send_id := MSG_RECV_TYPE, mq_recv_id := type\<rparr>) of
        Blocked \<Rightarrow> Blocked
      | Ret None \<Rightarrow> Ret None
      | Ret (Some (ok, m)) \<Rightarrow> Ret (Some (ok, s\<lparr>mt_msgq := m\<rparr>)))"

definition msgq_set_owner :: "msgq_thread \<Rightarrow> msgq_thread" where
  "msgq_set_owner s = s\<lparr>mt_msgq := (mt_msgq s)\<lparr>mq_has_owner := True\<rparr>\<rparr>"

definition msgq_create :: "wid \<Rightarrow> msgq_thread \<Rightarrow> msgq_thread outcome" where
  "msgq_create w s =
     (case qthread_start w (mt_qthread s) of
        Blocked \<Rightarrow> Blocked
      | Ret (_, _, q) \<Rightarrow> Ret (s\<lparr>mt_qthread := q\<rparr>))"

text \<open>The callback: without an owner the message is dropped.\<close>

definition msgq_recv :: "bytes \<Rightarrow> msgq_thread \<Rightarrow> fault + bool \<times> msgq_thread" where
  "msgq_recv pBuffer s =
     (if \<not> mq_has_owner (mt_msgq s) then Inr (False, s)
      else case qthread_add_event 0 0 (Some pBuffer) (int (length pBuffer)) (mt_qthread s) of
             Inl f \<Rightarrow> Inl f
           | Inr (ok, q) \<Rightarrow> Inr (ok, s\<lparr>mt_qthread := q\<rparr>))"

text \<open>
  \<^verbatim>\<open>GetQueue\<close> returns the address of the \<^verbatim>\<open>Value\<close> of the event in \<^verbatim>\<open>scratch_\<close>, or a null pointer; the bytes of the
  \<^verbatim>\<open>T\<close> there are read by the caller, later.
\<close>

definition msgq_get_queue :: "msgq_thread \<Rightarrow> queue_ptr \<times> msgq_thread" where
  "msgq_get_queue s = (let (p, q) = qthread_try_remove (mt_qthread s) in (p, s\<lparr>mt_qthread := q\<rparr>))"

definition body_at :: "nat \<Rightarrow> queue_ptr \<Rightarrow> msgq_thread \<Rightarrow> bytes option" where
  "body_at sizeof_T p s = map_option (\<lambda>e. take sizeof_T (ev_Value e)) (queue_deref p (qt_queue (mt_qthread s)))"

definition msgq_put_queue :: "bytes \<Rightarrow> msgq_thread \<Rightarrow> msg_kernel \<Rightarrow> bool \<times> msg_kernel" where
  "msgq_put_queue pMsg s k = (let (r, k1) = mq_send pMsg (-1) (mt_msgq s) k in (r \<noteq> -1, k1))"

text \<open>A turn of the receiving thread with its callback.\<close>

definition msgq_receive :: "bool \<Rightarrow> msgq_thread \<Rightarrow> msg_kernel \<Rightarrow> (fault + msgq_thread \<times> msg_kernel) outcome" where
  "msgq_receive interrupted s k =
     (case mq_turn interrupted (mt_msgq s) k of
        Blocked \<Rightarrow> Blocked
      | Ret (None, k1) \<Rightarrow> Ret (Inr (s, k1))
      | Ret (Some b, k1) \<Rightarrow> Ret (map_sum id (\<lambda>(_, s1). (s1, k1)) (msgq_recv b s)))"

section \<open>Messages arrive in order\<close>

text \<open>
  Senders with objects of their own and any type, the receiving thread and one consumer, in any order. \<open>Turn\<close> is
  a turn of the receiving thread, interrupted by a signal or not; \<open>Asked\<close> is a call of \<^verbatim>\<open>GetQueue\<close>, whose result the
  consumer keeps in \<open>ms_held\<close>; \<open>Looked\<close> is the consumer reading through that pointer, whenever it likes.
\<close>

datatype msg_event = Sent int bytes | Turn bool | Asked | Looked bytes

record msg_sys =
  ms_thread :: msgq_thread
  ms_kernel :: msg_kernel
  ms_held :: queue_ptr

inductive msg_step :: "nat \<Rightarrow> msg_sys \<Rightarrow> msg_event \<Rightarrow> msg_sys \<Rightarrow> bool" for sizeof_T where
  sent: "mq_send b t m (ms_kernel s) = (0, k) \<Longrightarrow>
    msg_step sizeof_T s (Sent (if t = -1 then mq_send_id m else t) b) (s\<lparr>ms_kernel := k\<rparr>)"
| turn: "msgq_receive i (ms_thread s) (ms_kernel s) = Ret (Inr (th, k)) \<Longrightarrow>
    msg_step sizeof_T s (Turn i) (s\<lparr>ms_thread := th, ms_kernel := k\<rparr>)"
| asked: "msgq_get_queue (ms_thread s) = (p, th) \<Longrightarrow> msg_step sizeof_T s Asked (s\<lparr>ms_thread := th, ms_held := p\<rparr>)"
| looked: "body_at sizeof_T (ms_held s) (ms_thread s) = Some b \<Longrightarrow> msg_step sizeof_T s (Looked b) s"

text \<open>
  The specification: an inbox for the messages of one type that holds at most \<open>room\<close> messages, hands them
  out from the front and loses what arrives while it is full.
\<close>

record inbox =
  in_waiting :: "bytes list"
  in_arrived :: "bytes list"
  in_taken :: "bytes list"
  in_lost :: "bytes list"

fun inbox_step :: "int \<Rightarrow> nat \<Rightarrow> msg_event \<Rightarrow> inbox \<Rightarrow> inbox" where
  "inbox_step t room (Sent u b) x = (if u = t then x\<lparr>in_waiting := in_waiting x @ [b]\<rparr> else x)"
| "inbox_step t room (Turn interrupted) x =
     (if interrupted \<or> in_waiting x = [] then x
      else if length (in_arrived x) < room
      then x\<lparr>in_waiting := tl (in_waiting x), in_arrived := in_arrived x @ [hd (in_waiting x)]\<rparr>
      else x\<lparr>in_waiting := tl (in_waiting x), in_lost := in_lost x @ [hd (in_waiting x)]\<rparr>)"
| "inbox_step t room Asked x =
     (if in_arrived x = [] then x
      else x\<lparr>in_arrived := tl (in_arrived x), in_taken := in_taken x @ [hd (in_arrived x)]\<rparr>)"
| "inbox_step t room (Looked b) x = x"

text \<open>A reader only ever finds the message that was taken last.\<close>

fun reads_taken :: "int \<Rightarrow> nat \<Rightarrow> inbox \<Rightarrow> msg_event list \<Rightarrow> bool" where
  "reads_taken t room x [] \<longleftrightarrow> True"
| "reads_taken t room x (ev # evs) \<longleftrightarrow>
     (case ev of Looked b \<Rightarrow> in_taken x \<noteq> [] \<and> b = last (in_taken x) | _ \<Rightarrow> True) \<and>
     reads_taken t room (inbox_step t room ev x) evs"

fun sent_of :: "int \<Rightarrow> msg_event list \<Rightarrow> bytes list" where
  "sent_of t [] = []"
| "sent_of t (Sent u b # evs) = (if u = t then b # sent_of t evs else sent_of t evs)"
| "sent_of t (_ # evs) = sent_of t evs"

text \<open>An inbox that has lost nothing has everything that was sent, in that order.\<close>

lemma inbox_lost_mono: "in_lost (fold (inbox_step t room) evs x) = [] \<Longrightarrow> in_lost x = []"
proof (induction evs arbitrary: x)
  case (Cons ev evs)
  then have "in_lost (inbox_step t room ev x) = []" by simp
  then show ?case by (cases ev) (auto split: if_splits)
qed simp

lemma inbox_keeps_order:
  "in_lost (fold (inbox_step t room) evs x) = [] \<Longrightarrow>
     in_taken (fold (inbox_step t room) evs x) @ in_arrived (fold (inbox_step t room) evs x) @ in_waiting (fold (inbox_step t room) evs x) =
     in_taken x @ in_arrived x @ in_waiting x @ sent_of t evs"
proof (induction evs arbitrary: x)
  case (Cons ev evs)
  have "in_lost (inbox_step t room ev x) = []" using inbox_lost_mono Cons(2) by simp
  then have "in_taken (inbox_step t room ev x) @ in_arrived (inbox_step t room ev x) @ in_waiting (inbox_step t room ev x) @ sent_of t evs
      = in_taken x @ in_arrived x @ in_waiting x @ sent_of t (ev # evs)"
    by (cases ev) (auto split: if_splits)
  then show ?case using Cons by simp
qed simp

text \<open>How the objects represent an inbox.\<close>

definition holds_body :: "nat \<Rightarrow> eventinfo \<Rightarrow> bytes \<Rightarrow> bool" where
  "holds_body sizeof_T e b \<longleftrightarrow> take sizeof_T (ev_Value e) = b"

definition is_inbox :: "nat \<Rightarrow> int \<Rightarrow> nat \<Rightarrow> inbox \<Rightarrow> msg_sys \<Rightarrow> bool" where
  "is_inbox sizeof_T t room x s \<longleftrightarrow>
     (let th = ms_thread s; q = qt_queue (mt_qthread th)
      in mq_has_owner (mt_msgq th) \<and> mq_has_callback (mt_msgq th) \<and> mq_recv_id (mt_msgq th) = t \<and>
         queue_inv q \<and> \<not> queue_closed q \<and> nat (queue_max q) = room \<and>
         (\<exists>ms. ms_kernel s = Some ms \<and> bodies t ms = in_waiting x) \<and>
         list_all2 (holds_body sizeof_T) (queue_q q) (in_arrived x) \<and>
         (ms_held s = ScratchPtr \<longrightarrow> in_taken x \<noteq> [] \<and> holds_body sizeof_T (queue_scratch q) (last (in_taken x))) \<and>
         list_all (\<lambda>b. length b = sizeof_T) (in_waiting x))"

lemma payload_held: "event_carries e u v b \<Longrightarrow> length b = n \<Longrightarrow> holds_body n e b"
  by (auto simp: event_carries_def holds_body_def)

lemma add_event_full:
  assumes "queue_inv (qt_queue s)" "\<not> int (length (queue_q (qt_queue s))) < queue_max (qt_queue s)" "length p \<le> MAX_VALUE_SIZE"
  shows "qthread_add_event t u (Some p) (int (length p)) s = Inr (False, s)"
  using assms by (simp add: qthread_add_event_def qthread_add_def queue_put_def queue_size_exact fill_value_def zero_event_def
      add_int32_def in_int32_def Let_def)

text \<open>A turn that is not interrupted takes the first message of the type and never faults.\<close>

lemma turn_takes:
  assumes "is_inbox n t room x s" "in_waiting x \<noteq> []" "n \<le> MAX_VALUE_SIZE"
  shows "\<exists>th k. msgq_receive False (ms_thread s) (ms_kernel s) = Ret (Inr (th, k)) \<and>
    is_inbox n t room (inbox_step t room (Turn False) x) (s\<lparr>ms_thread := th, ms_kernel := k\<rparr>)"
proof -
  let ?th = "ms_thread s" and ?q = "qt_queue (mt_qthread (ms_thread s))"
  obtain ms where ms: "ms_kernel s = Some ms" "bodies t ms = in_waiting x"
    using assms(1) by (auto simp: is_inbox_def Let_def)
  obtain b r where b: "take_type t ms = Some (b, r)" using ms assms(2) take_type_None [of t ms] by (cases "take_type t ms") auto
  have w: "in_waiting x = b # bodies t r" using take_type_Some [OF b] ms(2) by simp
  have len: "length b = n" using assms(1) w by (simp add: is_inbox_def Let_def)
  note inv = assms(1) [unfolded is_inbox_def Let_def]
  have arr: "length (in_arrived x) = length (queue_q ?q)" using inv by (metis list_all2_lengthD)
  show ?thesis
  proof (cases "int (length (queue_q ?q)) < queue_max ?q")
    case True
    obtain e where e: "event_carries e 0 0 b"
      "qthread_add_event 0 0 (Some b) (int (length b)) (mt_qthread ?th) =
         Inr (True, (mt_qthread ?th)\<lparr>qt_queue := ?q\<lparr>queue_q := queue_q ?q @ [e]\<rparr>\<rparr>)"
      using add_event_accept [of "mt_qthread ?th" b 0 0] inv True len assms(3) by auto
    have "msgq_receive False ?th (ms_kernel s) =
        Ret (Inr (?th\<lparr>mt_qthread := (mt_qthread ?th)\<lparr>qt_queue := ?q\<lparr>queue_q := queue_q ?q @ [e]\<rparr>\<rparr>\<rparr>, Some r))"
      using e(2) inv ms(1) b by (simp add: msgq_receive_def mq_turn_def msgrcv_def msgq_recv_def)
    moreover have "holds_body n e b" using payload_held [OF e(1) len] .
    moreover have "length (in_arrived x) < room" using inv True arr by auto
    ultimately show ?thesis
      using inv w True by (auto simp: is_inbox_def Let_def queue_inv_def intro!: list_all2_appendI)
  next
    case False
    have "qthread_add_event 0 0 (Some b) (int (length b)) (mt_qthread ?th) = Inr (False, mt_qthread ?th)"
      using add_event_full [of "mt_qthread ?th" b 0 0] inv False len assms(3) by simp
    then have "msgq_receive False ?th (ms_kernel s) = Ret (Inr (?th, Some r))"
      using inv ms(1) b by (simp add: msgq_receive_def mq_turn_def msgrcv_def msgq_recv_def)
    moreover have "\<not> length (in_arrived x) < room" using inv False arr by auto
    ultimately show ?thesis using inv w by (auto simp: is_inbox_def Let_def)
  qed
qed

lemma turn_waits:
  "is_inbox n t room x s \<Longrightarrow> in_waiting x = [] \<Longrightarrow> msgq_receive False (ms_thread s) (ms_kernel s) = Blocked"
  by (auto simp: is_inbox_def Let_def msgq_receive_def mq_turn_def msgrcv_def take_type_None [THEN iffD2])

lemma msg_step_inbox:
  assumes "msg_step n s ev s'" "is_inbox n t room x s" "n \<le> MAX_VALUE_SIZE"
    "list_all (\<lambda>b. length b = n) (sent_of t [ev])"
  shows "is_inbox n t room (inbox_step t room ev x) s' \<and>
    (case ev of Looked b \<Rightarrow> in_taken x \<noteq> [] \<and> b = last (in_taken x) | _ \<Rightarrow> True)"
  using assms(1)
proof cases
  case (sent b t m k)
  then show ?thesis using assms(2,4)
    by (auto simp: is_inbox_def Let_def mq_send_def msgsnd_def bodies_def split: if_splits)
next
  case (turn i th k)
  show ?thesis
  proof (cases i)
    case True
    then show ?thesis using turn assms(2) by (auto simp: msgq_receive_def mq_turn_def is_inbox_def Let_def)
  next
    case False
    then have "in_waiting x \<noteq> []" using turn turn_waits [OF assms(2)] by auto
    then show ?thesis using turn False turn_takes [OF assms(2) _ assms(3)] by auto
  qed
next
  case (asked p th)
  then show ?thesis using assms(2)
    by (cases "queue_q (qt_queue (mt_qthread (ms_thread s)))")
      (auto simp: is_inbox_def Let_def msgq_get_queue_def qthread_try_remove_def queue_try_get_def queue_take_def
        queue_inv_def list_all2_Cons1 split: prod.splits if_splits)
next
  case (looked b)
  then show ?thesis using assms(2)
    by (cases "ms_held s") (auto simp: is_inbox_def Let_def body_at_def queue_deref_def holds_body_def)
qed

text \<open>Once the queue has been removed the loop of the receiver neither waits nor ends.\<close>

lemma removed_queue_spins: "msgq_receive False s (mq_remove m k) = Ret (Inr (s, None))"
  by (simp add: msgq_receive_def mq_turn_def msgrcv_def mq_remove_def)

text \<open>
  The receiver is launched before the owner is set: a message that it takes in between is gone, neither
  in the kernel's queue nor in the event queue.
\<close>

lemma message_before_owner_lost:
  assumes "msgq_start_receiver qid w MSG_RECV_TYPE mk_msgq_thread = Ret (Some (ok, s))" "msgsnd (MSG_RECV_TYPE, b) (Some []) = (0, k)"
  shows "msgq_receive False s k = Ret (Inr (s, Some [])) \<and> queue_q (qt_queue (mt_qthread (msgq_set_owner s))) = []"
  using assms
  by (auto simp: msgq_start_receiver_def mq_start_def msgq_receive_def mq_turn_def msgrcv_def msgq_recv_def msgsnd_def
      msgq_set_owner_def mk_msgq_thread_def mk_msg_queue_def MSG_RECV_TYPE_def thread_create_def
      Let_def mk_qthread_def mk_qthread_n_def mk_queue_def split: outcome.splits option.splits if_splits)

text \<open>What \<^verbatim>\<open>start\<close> leaves, with the owner set.\<close>

definition msgq_ready :: "msgq_thread \<Rightarrow> msg_kernel \<Rightarrow> msg_sys" where
  "msgq_ready s k = \<lparr>ms_thread = msgq_set_owner s, ms_kernel = k, ms_held = NullPtr\<rparr>"

lemma ready_is_inbox:
  assumes "msgq_start_receiver qid w t (mk_msgq_thread_n room) = Ret (Some (ok, s))" "in_int32 room"
    "list_all (\<lambda>b. length b = n) (bodies t ms)"
  shows "is_inbox n t (nat room) \<lparr>in_waiting = bodies t ms, in_arrived = [], in_taken = [], in_lost = []\<rparr> (msgq_ready s (Some ms))"
  using assms
  by (auto simp: msgq_start_receiver_def mq_start_def is_inbox_def msgq_ready_def msgq_set_owner_def mk_msgq_thread_n_def
      mk_qthread_n_def mk_queue_def queue_inv_def Let_def split: outcome.splits option.splits if_splits)

text \<open>
  C37: A started \<^verbatim>\<open>CMsgQueueThread\<close> is an inbox. From the moment \<^verbatim>\<open>start\<close> has set the owner, with a \<^verbatim>\<open>T\<close> of at most 4036
  bytes, while the kernel's queue is not removed and the thread is not closed, and whatever senders (of any type, those
  of the receiver's type with the same \<^verbatim>\<open>T\<close>), the receiving thread and one consumer do in whatever order: the kernel's queue and
  the event queue hold exactly the messages of an inbox of the constructor's length that loses what arrives while it is
  full; every read through the last pointer \<^verbatim>\<open>GetQueue\<close> returned finds the whole message taken last; if nothing has arrived
  while it was full, the messages taken, arrived and waiting are all that were sent, in that order; and a receiver
  with a message waiting takes it.
\<close>

theorem msg_queue_delivers_in_order:
  assumes "msgq_start_receiver qid w t (mk_msgq_thread_n room) = Ret (Some (ok, s0))" "in_int32 room"
    "steps (msg_step n) (msgq_ready s0 (Some ms)) evs s" "n \<le> MAX_VALUE_SIZE"
    "list_all (\<lambda>b. length b = n) (bodies t ms @ sent_of t evs)"
  defines "x0 \<equiv> \<lparr>in_waiting = bodies t ms, in_arrived = [], in_taken = [], in_lost = []\<rparr>"
  defines "x \<equiv> fold (inbox_step t (nat room)) evs x0"
  shows "is_inbox n t (nat room) x s \<and> reads_taken t (nat room) x0 evs \<and>
    (in_lost x = [] \<longrightarrow> in_taken x @ in_arrived x @ in_waiting x = bodies t ms @ sent_of t evs) \<and>
    (in_waiting x \<noteq> [] \<longrightarrow> (\<exists>th k. msgq_receive False (ms_thread s) (ms_kernel s) = Ret (Inr (th, k))))"
proof -
  have run: "is_inbox n t (nat room) (fold (inbox_step t (nat room)) evs y) s \<and> reads_taken t (nat room) y evs"
    if "steps (msg_step n) z evs s" "is_inbox n t (nat room) y z" "list_all (\<lambda>b. length b = n) (sent_of t evs)" for y z evs
    using that
  proof (induction z evs s arbitrary: y rule: steps.induct)
    case (steps_cons z ev z1 evs s)
    have "list_all (\<lambda>b. length b = n) (sent_of t [ev])" "list_all (\<lambda>b. length b = n) (sent_of t evs)"
      using steps_cons(5) by (cases ev; auto split: if_splits)+
    then show ?case using msg_step_inbox [OF steps_cons(1,4) assms(4)] steps_cons(3) by auto
  qed simp
  have "is_inbox n t (nat room) x0 (msgq_ready s0 (Some ms))"
    unfolding x0_def using ready_is_inbox [OF assms(1,2)] assms(5) by auto
  then have 1: "is_inbox n t (nat room) x s" "reads_taken t (nat room) x0 evs"
    using run [OF assms(3)] assms(5) by (auto simp: x_def)
  have "in_lost x = [] \<longrightarrow> in_taken x @ in_arrived x @ in_waiting x = bodies t ms @ sent_of t evs"
    using inbox_keeps_order [of t "nat room" evs x0] by (simp add: x_def) (simp add: x0_def)
  then show ?thesis using 1 turn_takes [OF 1(1) _ assms(4)] by blast
qed

text \<open>A receiver of type 1 that is sent one message of its own type and one of another.\<close>

definition msgq_demo_thread :: msgq_thread where
  "msgq_demo_thread = (mk_msgq_thread_n 1)\<lparr>mt_msgq := mk_msg_queue\<lparr>mq_send_id := MSG_RECV_TYPE, mq_recv_id := 1, mq_has_callback := True,
     mq_queue_id := 5, mq_thread := mk_thread\<lparr>th_thread := Joinable 7\<rparr>\<rparr>\<rparr>"

lemma msgq_demo_started: "msgq_start_receiver 5 7 1 (mk_msgq_thread_n 1) = Ret (Some (True, msgq_demo_thread))"
  by (simp add: msgq_start_receiver_def mq_start_def msgq_demo_thread_def mk_msgq_thread_n_def mk_msg_queue_def thread_create_def
      mk_thread_def thread_joinable_def Let_def)

lemma msgq_demo_run:
  "\<exists>s. steps (msg_step 1) (msgq_ready msgq_demo_thread (Some [])) [Sent 2 [66], Sent 1 [65], Turn True] s"
proof -
  let ?s = "\<lambda>k. (msgq_ready msgq_demo_thread (Some []))\<lparr>ms_kernel := k\<rparr>"
  have "msg_step 1 (msgq_ready msgq_demo_thread (Some [])) (Sent 2 [66]) (?s (Some [(2, [66])]))"
    using sent [of "[66]" 2 mk_msg_queue "msgq_ready msgq_demo_thread (Some [])" "Some [(2, [66])]"]
    by (simp add: mq_send_def msgsnd_def msgq_ready_def)
  moreover have "msg_step 1 (?s (Some [(2, [66])])) (Sent 1 [65]) (?s (Some [(2, [66]), (1, [65])]))"
    using sent [of "[65]" 1 mk_msg_queue "?s (Some [(2, [66])])" "Some [(2, [66]), (1, [65])]"]
    by (simp add: mq_send_def msgsnd_def msgq_ready_def)
  moreover have "msg_step 1 (?s (Some [(2, [66]), (1, [65])])) (Turn True) (?s (Some [(2, [66]), (1, [65])]))"
    using turn [of True "?s (Some [(2, [66]), (1, [65])])" "ms_thread (?s None)" "Some [(2, [66]), (1, [65])]"]
    by (simp add: msgq_receive_def mq_turn_def msgq_ready_def)
  ultimately show ?thesis by (meson steps_cons steps_nil)
qed

theorem msg_queue_delivers_in_order_witness:
  "\<exists>s th k. steps (msg_step 1) (msgq_ready msgq_demo_thread (Some [])) [Sent 2 [66], Sent 1 [65], Turn True] s \<and>
    msgq_receive False (ms_thread s) (ms_kernel s) = Ret (Inr (th, k))"
proof -
  obtain s where s: "steps (msg_step 1) (msgq_ready msgq_demo_thread (Some [])) [Sent 2 [66], Sent 1 [65], Turn True] s"
    using msgq_demo_run by blast
  show ?thesis
    using msg_queue_delivers_in_order [OF msgq_demo_started _ s] s by (auto simp: bodies_def in_int32_def)
qed

section \<open>Settings and the object's own worker\<close>

definition mq_set_send_id :: "int \<Rightarrow> msg_queue \<Rightarrow> msg_queue" where
  "mq_set_send_id nId m = m\<lparr>mq_send_id := nId\<rparr>"

definition mq_set_recv_id :: "int \<Rightarrow> msg_queue \<Rightarrow> msg_queue" where
  "mq_set_recv_id nId m = m\<lparr>mq_recv_id := nId\<rparr>"

definition mq_set_owner :: "bool \<Rightarrow> msg_queue \<Rightarrow> msg_queue" where
  "mq_set_owner owner m = m\<lparr>mq_has_owner := owner\<rparr>"

definition msgq_set_send_id :: "int \<Rightarrow> msgq_thread \<Rightarrow> msgq_thread" where
  "msgq_set_send_id type s = s\<lparr>mt_msgq := mq_set_send_id type (mt_msgq s)\<rparr>"

definition msgq_set_recv_id :: "int \<Rightarrow> msgq_thread \<Rightarrow> msgq_thread" where
  "msgq_set_recv_id type s = s\<lparr>mt_msgq := mq_set_recv_id type (mt_msgq s)\<rparr>"

text \<open>
  \<^verbatim>\<open>thread_proc\<close> of \<^verbatim>\<open>CMsgQueueThread\<close> only waits to be told to exit: \<open>exits\<close> are the answers of \<^verbatim>\<open>do_exit\<close>, the result the
  number of sleeps, \<open>None\<close> when it still runs.
\<close>

fun msgq_worker :: "bool list \<Rightarrow> nat option" where
  "msgq_worker [] = None"
| "msgq_worker (x # exits) = (if x then Some 0 else map_option Suc (msgq_worker exits))"

lemma msgq_worker_ends: "msgq_worker (replicate n False @ True # later) = Some n"
  by (induction n) simp_all

text \<open>Two queues with swapped types talk to each other: what one sends is of the type the other receives.\<close>

lemma msg_types_meet:
  "mq_recv_id (mq_set_recv_id (mq_send_id a) b) = mq_send_id a"
  "mq_send (bs) (-1) (mq_set_send_id t a) k = msgsnd (t, bs) k"
  by (simp_all add: mq_set_recv_id_def mq_set_send_id_def mq_send_def)

end
