(* ===== verification/Mem_List.thy ===== *)
theory Mem_List
  imports Byte_Codec
begin

text \<open>
  \<^verbatim>\<open>MemList\<close> (\<^verbatim>\<open>include/util.hpp\<close>, \<^verbatim>\<open>src/util.cpp\<close>): the last few buffers in a hand-linked list. The nodes are
  in an explicit heap and the members \<^verbatim>\<open>head_\<close>, \<^verbatim>\<open>tail_\<close> and \<^verbatim>\<open>cur_\<close> are addresses in it, so that the order
  of the pointer updates in \<^verbatim>\<open>add\<close> and the use of a freed node are what they are in the code. A read or
  write through a null or freed pointer is the fault \<open>UB\<close>.
\<close>

section \<open>State\<close>

record memitem =
  mi_nLength :: int
  mi_pBuffer :: bytes
  mi_pNext :: "nat option"

record mem_list =
  ml_item_count :: int
  ml_cur_item_count :: int
  ml_head :: "nat option"
  ml_tail :: "nat option"
  ml_cur :: "nat option"
  ml_heap :: "nat \<rightharpoonup> memitem"
  ml_fresh :: nat

definition mk_mem_list :: "int \<Rightarrow> mem_list" where
  "mk_mem_list nItems = \<lparr>ml_item_count = nItems, ml_cur_item_count = 0, ml_head = None, ml_tail = None,
     ml_cur = None, ml_heap = Map.empty, ml_fresh = 0\<rparr>"

definition deref :: "(nat \<rightharpoonup> memitem) \<Rightarrow> nat option \<Rightarrow> fault + (nat \<times> memitem)" where
  "deref h p = (case p of
     None \<Rightarrow> Inl (UB ''null pointer'')
   | Some a \<Rightarrow> (case h a of None \<Rightarrow> Inl (UB ''freed node'') | Some it \<Rightarrow> Inr (a, it)))"

section \<open>Operations\<close>

text \<open>
  The loop of \<^verbatim>\<open>free_all_items\<close>; the fuel is the number of nodes ever allocated, each of which it frees at
  most once.
\<close>

fun free_items :: "nat \<Rightarrow> nat option \<Rightarrow> (nat \<rightharpoonup> memitem) \<Rightarrow> (fault + (nat \<rightharpoonup> memitem)) option" where
  "free_items fuel None h = Some (Inr h)"
| "free_items 0 (Some a) h = None"
| "free_items (Suc fuel) (Some a) h =
     (case h a of
        None \<Rightarrow> Some (Inl (UB ''freed node''))
      | Some it \<Rightarrow> free_items fuel (mi_pNext it) (h(a := None)))"

definition free_all_items :: "mem_list \<Rightarrow> (fault + mem_list) option" where
  "free_all_items s =
     (case free_items (ml_fresh s) (ml_head s) (ml_heap s) of
        None \<Rightarrow> None
      | Some (Inl f) \<Rightarrow> Some (Inl f)
      | Some (Inr h) \<Rightarrow> Some (Inr (s\<lparr>ml_heap := h, ml_head := None, ml_tail := None\<rparr>)))"

definition ml_set_items :: "int \<Rightarrow> mem_list \<Rightarrow> (fault + mem_list) option" where
  "ml_set_items nItems s =
     map_option (map_sum id (\<lambda>s'. s'\<lparr>ml_item_count := nItems, ml_cur_item_count := 0\<rparr>)) (free_all_items s)"

definition ml_reset :: "mem_list \<Rightarrow> (fault + mem_list) option" where
  "ml_reset s = free_all_items (s\<lparr>ml_cur_item_count := 0\<rparr>)"

text \<open>\<^verbatim>\<open>add\<close> on a full list: the oldest node moves to the end (with more than one item) and is refilled.\<close>

definition ml_rotate :: "mem_list \<Rightarrow> fault + (nat \<times> mem_list)" where
  "ml_rotate s =
     (if ml_item_count s > 1
      then (case deref (ml_heap s) (ml_head s) of
              Inl f \<Rightarrow> Inl f
            | Inr (p, it) \<Rightarrow>
                let s1 = s\<lparr>ml_head := mi_pNext it\<rparr>
                in case deref (ml_heap s1) (ml_tail s1) of
                     Inl f \<Rightarrow> Inl f
                   | Inr (t, tit) \<Rightarrow>
                       let h1 = (ml_heap s1)(t \<mapsto> tit\<lparr>mi_pNext := Some p\<rparr>)
                       in case deref h1 (Some p) of
                            Inl f \<Rightarrow> Inl f
                          | Inr (_, pit) \<Rightarrow>
                              Inr (p, s1\<lparr>ml_heap := h1(p \<mapsto> pit\<lparr>mi_pNext := None\<rparr>), ml_tail := Some p\<rparr>))
      else (case ml_tail s of None \<Rightarrow> Inl (UB ''null pointer'') | Some p \<Rightarrow> Inr (p, s)))"

definition ml_refill :: "int \<Rightarrow> bytes \<Rightarrow> nat \<Rightarrow> mem_list \<Rightarrow> fault + mem_list" where
  "ml_refill nLength src p s =
     (case deref (ml_heap s) (Some p) of
        Inl f \<Rightarrow> Inl f
      | Inr (_, it) \<Rightarrow>
          let old = (if mi_nLength it \<noteq> nLength then replicate (nat nLength) 0 else mi_pBuffer it)
          in if mi_nLength it \<noteq> nLength \<and> nLength < 0 then Inl (InvalidArgument ''bad array new length'')
             else if length src < nat nLength then Inl (UB ''memcpy beyond the source'')
             else Inr (s\<lparr>ml_heap := (ml_heap s)(p \<mapsto> it\<lparr>mi_nLength := nLength, mi_pBuffer := blit 0 (take (nat nLength) src) old\<rparr>)\<rparr>))"

definition ml_append :: "int \<Rightarrow> bytes \<Rightarrow> mem_list \<Rightarrow> fault + mem_list" where
  "ml_append nLength src s =
     (let p = ml_fresh s;
          it = \<lparr>mi_nLength = nLength, mi_pBuffer = take (nat nLength) src, mi_pNext = None\<rparr>;
          s1 = s\<lparr>ml_heap := (ml_heap s)(p \<mapsto> it), ml_fresh := Suc p\<rparr>
      in if nLength < 0 then Inl (InvalidArgument ''bad array new length'')
         else if length src < nat nLength then Inl (UB ''memcpy beyond the source'')
         else if ml_head s1 = None
         then Inr (s1\<lparr>ml_head := Some p, ml_tail := Some p, ml_cur_item_count := ml_cur_item_count s + 1\<rparr>)
         else case deref (ml_heap s1) (ml_tail s1) of
                Inl f \<Rightarrow> Inl f
              | Inr (t, tit) \<Rightarrow>
                  Inr (s1\<lparr>ml_heap := (ml_heap s1)(t \<mapsto> tit\<lparr>mi_pNext := Some p\<rparr>), ml_tail := Some p,
                         ml_cur_item_count := ml_cur_item_count s + 1\<rparr>))"

definition ml_add :: "int \<Rightarrow> bytes \<Rightarrow> mem_list \<Rightarrow> fault + mem_list" where
  "ml_add nLength pBuffer s =
     (if ml_cur_item_count s = ml_item_count s
      then (case ml_rotate s of Inl f \<Rightarrow> Inl f | Inr (p, s1) \<Rightarrow> ml_refill nLength pBuffer p s1)
      else ml_append nLength pBuffer s)"

definition ml_set_serialize :: "mem_list \<Rightarrow> mem_list" where
  "ml_set_serialize s = s\<lparr>ml_cur := ml_head s\<rparr>"

text \<open>\<^verbatim>\<open>get\<close> returns the node, here its address and contents, or null.\<close>

definition ml_get :: "mem_list \<Rightarrow> fault + (nat \<times> memitem) option \<times> mem_list" where
  "ml_get s =
     (case ml_cur s of
        None \<Rightarrow> Inr (None, s)
      | Some a \<Rightarrow>
          (case deref (ml_heap s) (Some a) of
             Inl f \<Rightarrow> Inl f
           | Inr (p, it) \<Rightarrow> Inr (Some (p, it), s\<lparr>ml_cur := mi_pNext it\<rparr>)))"

section \<open>The list in the heap\<close>

fun path :: "(nat \<rightharpoonup> memitem) \<Rightarrow> nat option \<Rightarrow> nat list \<Rightarrow> bool" where
  "path h p [] \<longleftrightarrow> p = None"
| "path h p (a # as) \<longleftrightarrow> p = Some a \<and> (\<exists>it. h a = Some it \<and> path h (mi_pNext it) as)"

definition buffer_at :: "(nat \<rightharpoonup> memitem) \<Rightarrow> nat \<Rightarrow> bytes" where
  "buffer_at h a = mi_pBuffer (the (h a))"

definition ml_inv :: "mem_list \<Rightarrow> nat list \<Rightarrow> bool" where
  "ml_inv s as \<longleftrightarrow>
     path (ml_heap s) (ml_head s) as \<and> distinct as \<and> set as = dom (ml_heap s) \<and>
     ml_tail s = (if as = [] then None else Some (last as)) \<and> ml_cur_item_count s = int (length as) \<and>
     int (length as) \<le> ml_item_count s \<and> (\<forall>a\<in>set as. a < ml_fresh s) \<and>
     (\<forall>a it. ml_heap s a = Some it \<longrightarrow> int (length (mi_pBuffer it)) = mi_nLength it)"

lemma path_frame: "(\<And>a. a \<in> set as \<Longrightarrow> h' a = h a) \<Longrightarrow> path h' p as = path h p as"
  by (induction as arbitrary: p) auto

lemma path_in_heap: "path h p as \<Longrightarrow> a \<in> set as \<Longrightarrow> \<exists>it. h a = Some it"
  by (induction as arbitrary: p) auto

text \<open>Linking a new node behind the last one.\<close>

lemma path_snoc:
  assumes "path h p as" "as \<noteq> []" "distinct as" "h (last as) = Some tit" "h b = Some nit" "mi_pNext nit = None" "b \<notin> set as"
  shows "path (h(last as \<mapsto> tit\<lparr>mi_pNext := Some b\<rparr>)) p (as @ [b])"
  using assms
proof (induction as arbitrary: p)
  case (Cons a as)
  show ?case
  proof (cases "as = []")
    case True
    then show ?thesis using Cons.prems by auto
  next
    case False
    obtain it where it: "h a = Some it" "path h (mi_pNext it) as" "p = Some a" using Cons.prems(1) by auto
    have "path (h(last as \<mapsto> tit\<lparr>mi_pNext := Some b\<rparr>)) (mi_pNext it) (as @ [b])"
      using Cons.IH [OF it(2) False] Cons.prems False by (simp del: fun_upd_apply)
    moreover have "a \<noteq> last as" using Cons.prems(3) False by auto
    ultimately show ?thesis using it False by (simp del: fun_upd_apply add: fun_upd_other)
  qed
qed simp

lemma free_items_path:
  "path h p as \<Longrightarrow> distinct as \<Longrightarrow> length as \<le> fuel \<Longrightarrow> free_items fuel p h = Some (Inr (\<lambda>a. if a \<in> set as then None else h a))"
proof (induction as arbitrary: p h fuel)
  case Nil
  then show ?case by simp
next
  case (Cons a as)
  obtain it where it: "h a = Some it" "path h (mi_pNext it) as" "p = Some a" using Cons.prems(1) by auto
  obtain k where k: "fuel = Suc k" "length as \<le> k" using Cons.prems(3) by (cases fuel) auto
  have "path (h(a := None)) (mi_pNext it) as = path h (mi_pNext it) as"
    using Cons.prems(2) by (intro path_frame) auto
  then have "path (h(a := None)) (mi_pNext it) as" using it(2) by simp
  then have "free_items k (mi_pNext it) (h(a := None)) = Some (Inr (\<lambda>b. if b \<in> set as then None else (h(a := None)) b))"
    using Cons.IH Cons.prems(2) k(2) by simp
  then show ?case using it(1,3) k(1) by (auto simp: fun_eq_iff)
qed

section \<open>What the operations do\<close>

definition ml_contents :: "mem_list \<Rightarrow> nat list \<Rightarrow> bytes list" where
  "ml_contents s as = map (buffer_at (ml_heap s)) as"

lemma ml_append_spec:
  assumes inv: "ml_inv s as" and room: "int (length as) < ml_item_count s" and n: "nat n \<le> length src" "0 \<le> n"
  shows "\<exists>s'. ml_append n src s = Inr s' \<and> ml_inv s' (as @ [ml_fresh s]) \<and>
    ml_contents s' (as @ [ml_fresh s]) = ml_contents s as @ [take (nat n) src] \<and> ml_item_count s' = ml_item_count s"
proof (cases "as = []")
  case True
  then have "ml_heap s = Map.empty" "ml_head s = None" using inv by (auto simp: ml_inv_def)
  then show ?thesis
    using inv True room n
    by (auto simp: ml_append_def ml_inv_def ml_contents_def buffer_at_def Let_def dom_def)
next
  case False
  let ?p = "ml_fresh s"
  let ?it = "\<lparr>mi_nLength = n, mi_pBuffer = take (nat n) src, mi_pNext = None\<rparr>"
  let ?h = "(ml_heap s)(?p \<mapsto> ?it)"
  have new: "?p \<notin> set as" using inv by (auto simp: ml_inv_def)
  have path0: "path (ml_heap s) (ml_head s) as" using inv by (simp add: ml_inv_def)
  obtain tit where tit: "ml_heap s (last as) = Some tit"
    using path_in_heap [OF path0 last_in_set [OF False]] by blast
  have ne: "last as \<noteq> ?p" using new last_in_set [OF False] by metis
  let ?h' = "?h(last as \<mapsto> tit\<lparr>mi_pNext := Some ?p\<rparr>)"
  have "path ?h (ml_head s) as = path (ml_heap s) (ml_head s) as" using new by (intro path_frame) auto
  then have "path ?h (ml_head s) as" using path0 by simp
  then have path: "path ?h' (ml_head s) (as @ [?p])"
    using path_snoc [of ?h "ml_head s" as tit ?p ?it] inv False tit ne new by (simp add: ml_inv_def)
  have app: "ml_append n src s = Inr (s\<lparr>ml_heap := ?h', ml_fresh := Suc ?p, ml_tail := Some ?p,
      ml_cur_item_count := ml_cur_item_count s + 1\<rparr>)"
  proof -
    have "ml_head s = Some (hd as)" using inv False by (cases as) (auto simp: ml_inv_def)
    then show ?thesis using inv False tit ne n by (simp add: ml_append_def deref_def ml_inv_def Let_def)
  qed
  have bufs: "map (buffer_at ?h') as = map (buffer_at (ml_heap s)) as"
    using new tit by (auto simp: buffer_at_def)
  have "ml_inv (s\<lparr>ml_heap := ?h', ml_fresh := Suc ?p, ml_tail := Some ?p,
      ml_cur_item_count := ml_cur_item_count s + 1\<rparr>) (as @ [?p])"
    using inv path new room False tit n by (auto simp: ml_inv_def less_Suc_eq)
  then show ?thesis using app bufs ne by (auto simp: ml_contents_def buffer_at_def)
qed

lemma ml_rotate_many:
  assumes inv: "ml_inv s as" and many: "1 < ml_item_count s" and full: "int (length as) = ml_item_count s"
  shows "\<exists>s'. ml_rotate s = Inr (hd as, s') \<and> ml_inv s' (tl as @ [hd as]) \<and>
    (\<forall>a. buffer_at (ml_heap s') a = buffer_at (ml_heap s) a) \<and> ml_item_count s' = ml_item_count s"
proof -
  obtain a bs where as: "as = a # bs" "bs \<noteq> []" using many full
    by (cases as; cases "tl as") auto
  have path0: "path (ml_heap s) (ml_head s) as" and dist: "distinct as" and dom: "set as = dom (ml_heap s)"
    and tail: "ml_tail s = Some (last bs)" using inv as by (auto simp: ml_inv_def)
  obtain it where it: "ml_heap s a = Some it" "path (ml_heap s) (mi_pNext it) bs" "ml_head s = Some a"
    using path0 as by auto
  obtain tit where tit: "ml_heap s (last bs) = Some tit"
    using path_in_heap [OF it(2) last_in_set [OF as(2)]] by blast
  have ne: "last bs \<noteq> a" using dist as by auto
  let ?g = "(ml_heap s)(a \<mapsto> it\<lparr>mi_pNext := None\<rparr>)"
  let ?h = "(ml_heap s)(last bs \<mapsto> tit\<lparr>mi_pNext := Some a\<rparr>, a \<mapsto> it\<lparr>mi_pNext := None\<rparr>)"
  have "path ?g (mi_pNext it) bs = path (ml_heap s) (mi_pNext it) bs"
    using dist unfolding as(1) by (intro path_frame) auto
  then have "path (?g(last bs \<mapsto> tit\<lparr>mi_pNext := Some a\<rparr>)) (mi_pNext it) (bs @ [a])"
    using path_snoc [of ?g "mi_pNext it" bs tit a "it\<lparr>mi_pNext := None\<rparr>"] it(2) tit ne dist as by simp
  then have path: "path ?h (mi_pNext it) (bs @ [a])" using ne by (simp add: fun_upd_twist)
  let ?s = "s\<lparr>ml_head := mi_pNext it, ml_heap := ?h, ml_tail := Some a\<rparr>"
  have rot: "ml_rotate s = Inr (a, ?s)"
    using many it tail tit ne by (simp add: ml_rotate_def deref_def Let_def)
  have "ml_inv ?s (bs @ [a])"
    using inv path as it(1) tit ne by (auto simp: ml_inv_def)
  moreover have "buffer_at ?h c = buffer_at (ml_heap s) c" for c
    using it(1) tit by (auto simp: buffer_at_def)
  ultimately show ?thesis using rot as by simp
qed

lemma ml_rotate_one:
  assumes "ml_inv s as" "ml_item_count s = 1" "length as = 1"
  shows "ml_rotate s = Inr (hd as, s)" "tl as @ [hd as] = as"
  using assms by (auto simp: ml_rotate_def ml_inv_def length_Suc_conv)

lemma ml_refill_spec:
  assumes inv: "ml_inv s as" and as: "as \<noteq> []" and n: "nat n \<le> length src" "0 \<le> n"
  shows "\<exists>s'. ml_refill n src (last as) s = Inr s' \<and> ml_inv s' as \<and> ml_item_count s' = ml_item_count s \<and>
    ml_contents s' as = map (buffer_at (ml_heap s)) (butlast as) @ [take (nat n) src]"
proof -
  let ?p = "last as"
  have path0: "path (ml_heap s) (ml_head s) as" and dist: "distinct as" using inv by (auto simp: ml_inv_def)
  obtain it where it: "ml_heap s ?p = Some it" using path_in_heap [OF path0 last_in_set [OF as]] by blast
  let ?b = "blit 0 (take (nat n) src) (if mi_nLength it \<noteq> n then replicate (nat n) 0 else mi_pBuffer it)"
  let ?it = "it\<lparr>mi_nLength := n, mi_pBuffer := ?b\<rparr>"
  have len: "int (length (mi_pBuffer it)) = mi_nLength it" using inv it unfolding ml_inv_def by blast
  then have b: "?b = take (nat n) src"
    using n by (auto simp: blit_def)
  let ?s = "s\<lparr>ml_heap := (ml_heap s)(?p \<mapsto> ?it)\<rparr>"
  have re: "ml_refill n src ?p s = Inr ?s" using it n by (simp add: ml_refill_def deref_def Let_def)
  have path: "path ((ml_heap s)(?p \<mapsto> ?it)) q xs = path (ml_heap s) q xs" for q xs
  proof (induction xs arbitrary: q)
    case (Cons x xs)
    then show ?case using it by (cases "x = ?p") auto
  qed simp
  have "ml_inv ?s as" using inv path it b n as by (auto simp: ml_inv_def dom_def)
  moreover have "ml_contents ?s as = map (buffer_at (ml_heap s)) (butlast as) @ [take (nat n) src]"
  proof -
    have "as = butlast as @ [?p]" "?p \<notin> set (butlast as)"
      using as dist by (simp_all, metis append_butlast_last_id distinct_butlast not_distinct_conv_prefix)
    moreover have "map (buffer_at ((ml_heap s)(?p \<mapsto> ?it))) (bs @ [?p]) = map (buffer_at (ml_heap s)) bs @ [take (nat n) src]"
      if "?p \<notin> set bs" for bs using b that by (auto simp: buffer_at_def)
    ultimately have "map (buffer_at ((ml_heap s)(?p \<mapsto> ?it))) as = map (buffer_at (ml_heap s)) (butlast as) @ [take (nat n) src]"
      by metis
    then show ?thesis by (simp add: ml_contents_def)
  qed
  ultimately show ?thesis using re by auto
qed

lemma ml_contents_split: "ml_contents s (as @ bs) = ml_contents s as @ ml_contents s bs"
  by (simp add: ml_contents_def)

text \<open>\<^verbatim>\<open>add\<close> keeps the invariant, never faults on a list for at least one item, and forgets only the oldest buffer.\<close>

lemma ml_add_spec:
  assumes inv: "ml_inv s as" and pos: "1 \<le> ml_item_count s" and n: "nat n \<le> length src" "0 \<le> n"
  shows "\<exists>s' as'. ml_add n src s = Inr s' \<and> ml_inv s' as' \<and> ml_item_count s' = ml_item_count s \<and>
    ml_contents s' as' = (if int (length as) = ml_item_count s then tl (ml_contents s as) else ml_contents s as) @ [take (nat n) src]"
proof (cases "int (length as) = ml_item_count s")
  case False
  have "int (length as) \<le> ml_item_count s" "ml_cur_item_count s = int (length as)" using inv by (simp_all add: ml_inv_def)
  then have "ml_add n src s = ml_append n src s" "int (length as) < ml_item_count s" using False by (simp_all add: ml_add_def)
  then show ?thesis using ml_append_spec [OF inv _ n] False by auto
next
  case True
  let ?as = "tl as @ [hd as]"
  have "\<exists>s1. ml_rotate s = Inr (hd as, s1) \<and> ml_inv s1 ?as \<and>
    (\<forall>a. buffer_at (ml_heap s1) a = buffer_at (ml_heap s) a) \<and> ml_item_count s1 = ml_item_count s"
  proof (cases "1 < ml_item_count s")
    case True
    then show ?thesis using ml_rotate_many [OF inv] \<open>int (length as) = ml_item_count s\<close> by blast
  next
    case False
    then have "ml_item_count s = 1" "length as = 1" using True pos by auto
    then show ?thesis using ml_rotate_one [OF inv] inv by simp
  qed
  then obtain s1 where s1: "ml_rotate s = Inr (hd as, s1)" "ml_inv s1 ?as"
    "\<And>a. buffer_at (ml_heap s1) a = buffer_at (ml_heap s) a" "ml_item_count s1 = ml_item_count s" by blast
  have "ml_cur_item_count s = ml_item_count s" using inv True by (simp add: ml_inv_def)
  then have "ml_add n src s = ml_refill n src (last ?as) s1" using s1(1) by (simp add: ml_add_def)
  moreover have "map (buffer_at (ml_heap s1)) (butlast ?as) = tl (ml_contents s as)"
    using s1(3) by (simp add: ml_contents_def flip: map_tl)
  ultimately show ?thesis using ml_refill_spec [OF s1(2) _ n] s1(4) True by auto
qed

section \<open>The last buffers, in order\<close>

fun ml_adds :: "(int \<times> bytes) list \<Rightarrow> mem_list \<Rightarrow> fault + mem_list" where
  "ml_adds [] s = Inr s"
| "ml_adds ((n, b) # xs) s = (case ml_add n b s of Inl f \<Rightarrow> Inl f | Inr s' \<Rightarrow> ml_adds xs s')"

text \<open>The loop of a caller: \<^verbatim>\<open>get\<close> until it returns null, at most as many times as given.\<close>

fun ml_get_all :: "nat \<Rightarrow> mem_list \<Rightarrow> fault + bytes list" where
  "ml_get_all 0 s = Inr []"
| "ml_get_all (Suc k) s =
     (case ml_get s of
        Inl f \<Rightarrow> Inl f
      | Inr (None, s') \<Rightarrow> Inr []
      | Inr (Some (p, it), s') \<Rightarrow> map_sum id (Cons (mi_pBuffer it)) (ml_get_all k s'))"

definition last_n :: "nat \<Rightarrow> 'a list \<Rightarrow> 'a list" where
  "last_n n xs = drop (length xs - n) xs"

definition add_ok :: "int \<times> bytes \<Rightarrow> bool" where
  "add_ok x \<longleftrightarrow> 0 \<le> fst x \<and> nat (fst x) \<le> length (snd x)"

lemma last_n_snoc:
  "1 \<le> n \<Longrightarrow> last_n n (xs @ [x]) = (if length (last_n n xs) = n then tl (last_n n xs) else last_n n xs) @ [x]"
  by (auto simp: last_n_def drop_Suc tl_drop Suc_diff_le simp flip: drop_Suc)

lemma ml_adds_snoc: "ml_adds (xs @ [(n, b)]) s = (case ml_adds xs s of Inl f \<Rightarrow> Inl f | Inr s' \<Rightarrow> ml_add n b s')"
  by (induction xs s rule: ml_adds.induct) (auto split: sum.splits)

lemma ml_adds_spec:
  assumes "1 \<le> n" "list_all add_ok xs"
  shows "\<exists>s as. ml_adds xs (mk_mem_list n) = Inr s \<and> ml_inv s as \<and> ml_item_count s = n \<and>
    ml_contents s as = last_n (nat n) (map (\<lambda>(k, b). take (nat k) b) xs)"
  using assms(2)
proof (induction xs rule: rev_induct)
  case Nil
  have "ml_inv (mk_mem_list n) []" using assms(1) by (simp add: ml_inv_def mk_mem_list_def)
  then show ?case by (force simp: mk_mem_list_def ml_contents_def last_n_def)
next
  case (snoc x xs)
  obtain k b where x: "x = (k, b)" by (cases x)
  obtain s as where s: "ml_adds xs (mk_mem_list n) = Inr s" "ml_inv s as" "ml_item_count s = n"
    "ml_contents s as = last_n (nat n) (map (\<lambda>(k, b). take (nat k) b) xs)" using snoc by auto
  have len: "length (last_n (nat n) (map (\<lambda>(k, b). take (nat k) b) xs)) = length as"
    using s(4) [symmetric] by (simp add: ml_contents_def)
  have ok: "nat k \<le> length b" "0 \<le> k" using snoc.prems x by (simp_all add: add_ok_def)
  obtain s' as' where s': "ml_add k b s = Inr s'" "ml_inv s' as'" "ml_item_count s' = n"
    "ml_contents s' as' = (if int (length as) = n then tl (ml_contents s as) else ml_contents s as) @ [take (nat k) b]"
    using ml_add_spec [OF s(2) _ ok] s(3) assms(1) by auto
  have "(length as = nat n) = (int (length as) = n)" using assms(1) by auto
  then have "ml_contents s' as' = last_n (nat n) (map (\<lambda>(k, b). take (nat k) b) (xs @ [x]))"
    using s'(4) s(4) len assms(1) x by (simp add: last_n_snoc)
  then show ?case using s(1) s'(1-3) x by (auto simp: ml_adds_snoc)
qed

lemma ml_get_all_path:
  "path (ml_heap s) (ml_cur s) as \<Longrightarrow> length as < k \<Longrightarrow> ml_get_all k s = Inr (ml_contents s as)"
proof (induction as arbitrary: s k)
  case Nil
  then show ?case by (cases k) (simp_all add: ml_get_def ml_contents_def)
next
  case (Cons a as)
  obtain it where it: "ml_heap s a = Some it" "path (ml_heap s) (mi_pNext it) as" "ml_cur s = Some a" using Cons.prems(1) by auto
  obtain j where j: "k = Suc j" "length as < j" using Cons.prems(2) by (cases k) auto
  have "ml_get_all j (s\<lparr>ml_cur := mi_pNext it\<rparr>) = Inr (ml_contents (s\<lparr>ml_cur := mi_pNext it\<rparr>) as)"
    using Cons.IH [of "s\<lparr>ml_cur := mi_pNext it\<rparr>" j] it(2) j(2) by simp
  then show ?case using it j(1) by (simp add: ml_get_def deref_def ml_contents_def buffer_at_def)
qed

lemma ml_inv_length: "ml_inv s as \<Longrightarrow> length as \<le> ml_fresh s"
proof -
  assume inv: "ml_inv s as"
  then have "card (set as) \<le> card {..<ml_fresh s}" by (intro card_mono) (auto simp: ml_inv_def)
  moreover have "card (set as) = length as" using inv distinct_card [of as] by (simp only: ml_inv_def)
  ultimately show ?thesis by simp
qed

lemma free_all_items_spec:
  assumes "ml_inv s as"
  shows "free_all_items s = Some (Inr (s\<lparr>ml_heap := Map.empty, ml_head := None, ml_tail := None\<rparr>))"
proof -
  have "(\<lambda>a. if a \<in> set as then None else ml_heap s a) = Map.empty"
    using assms by (auto simp: ml_inv_def fun_eq_iff domIff)
  then show ?thesis
    using assms free_items_path [of "ml_heap s" "ml_head s" as "ml_fresh s"] ml_inv_length [OF assms]
    by (simp add: free_all_items_def ml_inv_def)
qed

lemma ml_reset_spec:
  assumes "ml_inv s as"
  shows "ml_reset s = Some (Inr (s\<lparr>ml_cur_item_count := 0, ml_heap := Map.empty, ml_head := None, ml_tail := None\<rparr>))"
proof -
  have "free_all_items (s\<lparr>ml_cur_item_count := n\<rparr>) = map_option (map_sum id (\<lambda>s. s\<lparr>ml_cur_item_count := n\<rparr>)) (free_all_items s)" for n
    by (auto simp: free_all_items_def split: option.splits sum.splits)
  then show ?thesis using free_all_items_spec [OF assms] by (simp add: ml_reset_def)
qed

text \<open>
  C33: A \<^verbatim>\<open>MemList\<close> for \<open>n \<ge> 1\<close> items holds the last \<open>n\<close> buffers that were added, whatever was added before:
  no call of \<^verbatim>\<open>add\<close> follows a null or freed pointer, after \<^verbatim>\<open>set_serialize\<close> the calls of \<^verbatim>\<open>get\<close> return the
  buffers oldest first and then null, and \<^verbatim>\<open>reset\<close> terminates, frees every node and leaves an empty list.
\<close>

theorem mem_list_keeps_last:
  assumes "1 \<le> n" "list_all add_ok xs"
  shows "\<exists>s s'. ml_adds xs (mk_mem_list n) = Inr s \<and>
    ml_get_all (Suc (nat n)) (ml_set_serialize s) = Inr (last_n (nat n) (map (\<lambda>(k, b). take (nat k) b) xs)) \<and>
    ml_reset s = Some (Inr s') \<and> ml_heap s' = Map.empty \<and> ml_inv s' []"
proof -
  obtain s as where s: "ml_adds xs (mk_mem_list n) = Inr s" "ml_inv s as" "ml_item_count s = n"
    "ml_contents s as = last_n (nat n) (map (\<lambda>(k, b). take (nat k) b) xs)" using ml_adds_spec [OF assms] by blast
  let ?s = "ml_set_serialize s"
  have "path (ml_heap ?s) (ml_cur ?s) as" "length as < Suc (nat n)" "ml_contents ?s as = ml_contents s as"
    using s(2,3) by (auto simp: ml_inv_def ml_set_serialize_def ml_contents_def)
  then have "ml_get_all (Suc (nat n)) ?s = Inr (ml_contents s as)" using ml_get_all_path [of ?s as "Suc (nat n)"] by simp
  moreover have "ml_inv (s\<lparr>ml_cur_item_count := 0, ml_heap := Map.empty, ml_head := None, ml_tail := None\<rparr>) []"
    using assms(1) s(3) by (simp add: ml_inv_def)
  ultimately show ?thesis using s(1,4) ml_reset_spec [OF s(2)] by auto
qed

theorem mem_list_keeps_last_witness:
  "\<exists>s s'. ml_adds [(1, [10]), (2, [20, 21]), (1, [30])] (mk_mem_list 2) = Inr s \<and>
    ml_get_all 3 (ml_set_serialize s) = Inr [[20, 21], [30]] \<and>
    ml_reset s = Some (Inr s') \<and> ml_heap s' = Map.empty \<and> ml_inv s' []"
  using mem_list_keeps_last [of 2 "[(1, [10]), (2, [20, 21]), (1, [30])]"]
  by (simp add: add_ok_def last_n_def numeral_3_eq_3 del: ml_adds.simps)

text \<open>With room for no item the first \<^verbatim>\<open>add\<close> takes the branch of a full list and follows the null \<^verbatim>\<open>tail_\<close>.\<close>

lemma mem_list_zero_items_faults: "ml_add n buf (mk_mem_list 0) = Inl (UB ''null pointer'')"
  by (simp add: ml_add_def mk_mem_list_def ml_rotate_def)

text \<open>\<^verbatim>\<open>reset\<close> leaves \<^verbatim>\<open>cur_\<close> as it is: a \<^verbatim>\<open>get\<close> during a traversal then reads a freed node.\<close>

lemma mem_list_reset_leaves_cursor:
  assumes "ml_inv s as" "as \<noteq> []" "ml_reset (ml_set_serialize s) = Some (Inr s')"
  shows "ml_get s' = Inl (UB ''freed node'')"
proof -
  have "ml_inv (ml_set_serialize s) as" "\<exists>a. ml_head s = Some a"
    using assms(1,2) by (cases as; simp add: ml_inv_def ml_set_serialize_def)+
  then show ?thesis using ml_reset_spec [of "ml_set_serialize s" as] assms(3)
    by (auto simp: ml_get_def deref_def ml_set_serialize_def)
qed

text \<open>The destructor frees every node and does not fault.\<close>

definition destroy_mem_list :: "mem_list \<Rightarrow> (fault + mem_list) option" where
  "destroy_mem_list s = free_all_items s"

lemma destroy_mem_list_frees:
  "ml_inv s as \<Longrightarrow> \<exists>s'. destroy_mem_list s = Some (Inr s') \<and> ml_heap s' = Map.empty"
  by (simp add: destroy_mem_list_def free_all_items_spec)

end
