(* ===== verification/Tcp_Events.thy ===== *)
theory Tcp_Events
  imports Event_Bytes
begin

text \<open>
  Events over TCP: a peer sends packets with \<^verbatim>\<open>TcpChannel::send\<close>, the network cuts the stream, and the
  receive loop of the other end (\<^verbatim>\<open>TcpChannel::thread_proc\<close>) hands packets to \<^verbatim>\<open>OnAfterReceive\<close>. The first part says
  exactly for which cuts the loop has defined behaviour; the second composes the loop with the byte
  representation of \<^verbatim>\<open>EVENTINFO\<close>.
\<close>

section \<open>When the loop is defined\<close>

text \<open>
  The bytes in the stream when the inner loop starts: at each turn there is nothing, or a whole header,
  and after a packet no more than its own length.
\<close>

function turns_ok :: "bytes \<Rightarrow> bool" where
  "turns_ok b =
     (if b = [] then True
      else if length b < 8 then False
      else if packet_length b < 1 \<or> length b < nat (packet_length b) then True
      else if length b - nat (packet_length b) > nat (packet_length b) then False
      else turns_ok (drop (nat (packet_length b)) b))"
  by pat_completeness auto
termination by (relation "measure length") auto

declare turns_ok.simps [simp del]

text \<open>The pieces as they arrive, with the bytes kept from before.\<close>

fun cuts_ok :: "bytes \<Rightarrow> bytes list \<Rightarrow> bool" where
  "cuts_ok b [] \<longleftrightarrow> True"
| "cuts_ok b (c # cs) \<longleftrightarrow>
     turns_ok (b @ c) \<and> (let (ps, r, d) = frames (b @ c) in d \<or> cuts_ok r cs)"

lemma turns_ok_Nil [simp]: "turns_ok []"
  by (subst turns_ok.simps) simp

lemma packet_loop_defined:
  "length b < 2 ^ 31 \<Longrightarrow> length b \<le> n \<Longrightarrow> (\<exists>r. packet_loop n (at_end b) = Inr r) \<longleftrightarrow> turns_ok b"
proof (induction n arbitrary: b)
  case (Suc n)
  let ?k = "nat (packet_length b)"
  show ?case
  proof (cases "b \<noteq> [] \<and> 8 \<le> length b \<and> 1 \<le> packet_length b \<and> ?k \<le> length b \<and> length b - ?k \<le> ?k")
    case True
    have l: "length (drop ?k b) < 2 ^ 31" "length (drop ?k b) \<le> n" using Suc.prems True by auto
    have "(\<exists>r. packet_loop (Suc n) (at_end b) = Inr r) \<longleftrightarrow> (\<exists>r. packet_loop n (at_end (drop ?k b)) = Inr r)"
      using True Suc.prems(1) by (auto simp: packet_turn_at_end split: sum.splits)
    moreover have "turns_ok b = turns_ok (drop ?k b)" using True by (subst turns_ok.simps) auto
    ultimately show ?thesis using Suc.IH [OF l] by simp
  next
    case False
    then show ?thesis
      using Suc.prems(1) by (subst turns_ok.simps) (auto simp: packet_turn_at_end not_le not_less)
  qed
qed auto

lemma packet_loop_fault: "length b < 2 ^ 31 \<Longrightarrow> packet_loop n (at_end b) = Inl f \<Longrightarrow> \<exists>t. f = UB t"
proof (induction n arbitrary: b)
  case (Suc n)
  let ?b = "drop (nat (packet_length b)) b"
  have "length ?b < 2 ^ 31" using Suc.prems(1) by simp
  then show ?case
    using Suc.IH [of ?b] Suc.prems by (auto simp: packet_turn_at_end split: if_splits sum.splits)
qed simp

lemma channel_loop_step:
  assumes "c \<noteq> []" "length b + length c < 2 ^ 31"
  shows "channel_loop (at_end b) (c # cs) =
    (case packet_loop (length (b @ c)) (at_end (b @ c)) of
       Inl f \<Rightarrow> Inl f
     | Inr (ps, m2, d) \<Rightarrow>
         if d then Inr (ps, m2, True)
         else (case channel_loop m2 cs of Inl f \<Rightarrow> Inl f | Inr (ps', m3, d') \<Rightarrow> Inr (ps @ ps', m3, d')))"
proof -
  have "ms_write c (int (length c)) (at_end b) = Inr (int (length c), at_end (b @ c))"
    using ms_append [of "at_end b" c] assms at_end_inv [of b] by (simp add: at_end_def)
  then show ?thesis using assms(1) by simp
qed

lemma channel_loop_defined:
  "[] \<notin> set cs \<Longrightarrow> length b + length (concat cs) < 2 ^ 31 \<Longrightarrow> (\<exists>r. channel_loop (at_end b) cs = Inr r) \<longleftrightarrow> cuts_ok b cs"
proof (induction cs arbitrary: b)
  case (Cons c cs)
  have c: "c \<noteq> []" "length b + length c < 2 ^ 31" "length (b @ c) < 2 ^ 31" using Cons.prems by auto
  show ?case
  proof (cases "turns_ok (b @ c)")
    case False
    then have "\<nexists>r. packet_loop (length (b @ c)) (at_end (b @ c)) = Inr r" using packet_loop_defined [OF c(3) order_refl] by simp
    then obtain f where "packet_loop (length (b @ c)) (at_end (b @ c)) = Inl f" by (cases "packet_loop (length (b @ c)) (at_end (b @ c))") auto
    then show ?thesis using False unfolding channel_loop_step [OF c(1,2)] by simp
  next
    case True
    then obtain ps m d where l: "packet_loop (length (b @ c)) (at_end (b @ c)) = Inr (ps, m, d)"
      using packet_loop_defined [OF c(3) order_refl] by auto
    then obtain r where r: "frames (b @ c) = (ps, r, d)" "m = at_end r" "length r \<le> length (b @ c)"
      using packet_loop_frames [OF c(3) order_refl] by blast
    have "(\<exists>x. channel_loop (at_end r) cs = Inr x) \<longleftrightarrow> cuts_ok r cs" using Cons.prems r(3) by (intro Cons.IH) auto
    then show ?thesis using True l r unfolding channel_loop_step [OF c(1,2)] by (auto split: sum.splits)
  qed
qed auto

lemma channel_loop_fault:
  "[] \<notin> set cs \<Longrightarrow> length b + length (concat cs) < 2 ^ 31 \<Longrightarrow> channel_loop (at_end b) cs = Inl f \<Longrightarrow> \<exists>t. f = UB t"
proof (induction cs arbitrary: b)
  case (Cons c cs)
  have c: "c \<noteq> []" "length b + length c < 2 ^ 31" "length (b @ c) < 2 ^ 31" using Cons.prems by auto
  show ?case
  proof (cases "packet_loop (length (b @ c)) (at_end (b @ c))")
    case (Inl g)
    then show ?thesis using packet_loop_fault [OF c(3) Inl] Cons.prems(3) unfolding channel_loop_step [OF c(1,2)] by simp
  next
    case (Inr x)
    obtain ps m d where x: "x = (ps, m, d)" by (cases x)
    obtain r where r: "m = at_end r" "length r \<le> length (b @ c)" using packet_loop_frames [OF c(3) order_refl] Inr x by blast
    have "channel_loop (at_end r) cs = Inl f"
      using Cons.prems(3) Inr x r unfolding channel_loop_step [OF c(1,2)] by (auto split: if_splits sum.splits)
    then show ?thesis using Cons.prems r(2) by (intro Cons.IH [of r]) auto
  qed
qed simp

section \<open>Properties\<close>

lemma tcp_stream_reassembled_defined:
  assumes "[] \<notin> set cs" "length (concat cs) < 2 ^ 31" "cuts_ok [] cs"
  shows "\<exists>ps m d r. channel_loop mk_mem_stream cs = Inr (ps, m, d) \<and> frames (concat cs) = (ps, r, d) \<and>
      concat ps @ r = concat cs \<and> (\<not> d \<longrightarrow> m = at_end r)"
proof -
  obtain ps m d where l: "channel_loop (at_end []) cs = Inr (ps, m, d)"
    using channel_loop_defined [of cs "[]"] assms by auto
  have "frames [] = ([], [], False)" by (simp add: frames.simps)
  then obtain r where "frames (concat cs) = (ps, r, d)" "\<not> d \<longrightarrow> m = at_end r"
    using channel_loop_frames [OF l] assms by auto
  then show ?thesis using l frames_concat by (auto simp: at_end_Nil)
qed

text \<open>
  C6: reassembly, for every way of cutting the stream. If no piece leaves a part of a header alone in the
  stream, or more than a packet's length behind a packet (\<open>cuts_ok\<close>), the receive loop gets through:
  the packets it hands on are the frames of all the bytes put together, it drops the connection exactly
  when those contain an illegal length, and packets and rest are the bytes received, none lost and none
  added. For every other cut its behaviour is undefined.
\<close>

theorem tcp_stream_reassembled:
  assumes "[] \<notin> set cs" "length (concat cs) < 2 ^ 31"
  shows "if cuts_ok [] cs
    then \<exists>ps m d r. channel_loop mk_mem_stream cs = Inr (ps, m, d) \<and> frames (concat cs) = (ps, r, d) \<and>
      concat ps @ r = concat cs \<and> (\<not> d \<longrightarrow> m = at_end r)
    else \<exists>t. channel_loop mk_mem_stream cs = Inl (UB t)"
proof (cases "cuts_ok [] cs")
  case True
  then show ?thesis using tcp_stream_reassembled_defined [OF assms] by simp
next
  case False
  then obtain f where "channel_loop (at_end []) cs = Inl f"
    using channel_loop_defined [of cs "[]"] assms by (cases "channel_loop (at_end []) cs") auto
  then show ?thesis using False channel_loop_fault [of cs "[]"] assms by (auto simp: at_end_Nil)
qed

text \<open>What a peer sends for an event: as many bytes of the packet as its length field says.\<close>

definition event_packet :: "eventinfo \<Rightarrow> bytes" where
  "event_packet e = take (nat (nMsgLen (ev_h e))) (encode_event e)"

definition sendable :: "eventinfo \<Rightarrow> bool" where
  "sendable e \<longleftrightarrow> event_ok e \<and> 60 \<le> nMsgLen (ev_h e) \<and> nMsgLen (ev_h e) \<le> int MAX_EVENTINFO_SIZE"

definition carries_event :: "eventinfo \<Rightarrow> bytes \<Rightarrow> bool" where
  "carries_event e p \<longleftrightarrow> ev_h (decode_event p) = ev_h e \<and> ev_line (decode_event p) = ev_line e \<and>
     ev_Value (decode_event p) = take (nat (event_value_length e)) (ev_Value e)"

lemma event_packet_facts:
  assumes "sendable e"
  shows "well_formed_packet (event_packet e)" "carries_event e (event_packet e)"
proof -
  let ?n = "nat (nMsgLen (ev_h e))"
  have ok: "event_ok e" "60 \<le> ?n" "?n \<le> 4096" "int ?n = nMsgLen (ev_h e)"
    using assms by (auto simp: sendable_def MAX_EVENTINFO_SIZE_def)
  have len: "length (encode_event e) = 4096" using length_encode_event [OF ok(1)] by (simp add: MAX_EVENTINFO_SIZE_def)
  have pl: "packet_length (event_packet e) = nMsgLen (ev_h e)"
    using packet_length_encode [OF ok(1)] slice_take [of 4 4 ?n "encode_event e"] ok(2) by (simp add: packet_length_def event_packet_def)
  then show "well_formed_packet (event_packet e)" using len ok by (simp add: well_formed_packet_def event_packet_def)
  have "ev_h (decode_event (event_packet e)) = ev_h e" "ev_line (decode_event (event_packet e)) = ev_line e"
    using decode_prefix [of ?n "event_packet e" "encode_event e"] ok(2) decode_encode_event [OF ok(1)] by (simp_all add: event_packet_def)
  moreover have "drop 60 (encode_event e) = ev_Value e"
    using arg_cong [OF decode_encode_event [OF ok(1)], of ev_Value] by (simp add: decode_event_def)
  then have "ev_Value (decode_event (event_packet e)) = take (nat (event_value_length e)) (ev_Value e)"
    using ok by (simp add: decode_event_def event_packet_def drop_take event_value_length_def nat_diff_distrib)
  ultimately show "carries_event e (event_packet e)" by (simp add: carries_event_def)
qed

lemma frames_of_packets: "list_all well_formed_packet ps \<Longrightarrow> frames (concat ps) = (ps, [], False)"
proof (induction ps)
  case (Cons p ps)
  then have p: "8 \<le> length p" "packet_length p = int (length p)" by (auto simp: well_formed_packet_def)
  have "packet_length (p @ concat ps) = int (length p)" using p packet_length_append [of p "concat ps"] by simp
  then show ?case using Cons p by (subst frames.simps) auto
qed (simp add: frames.simps)

text \<open>
  C7: events cross a TCP connection. For any sequence of events whose length fields cover the header and
  fit the structure, sent one after the other, and any way of cutting the stream for which the loop is
  defined, the receiver's callback gets exactly one packet for each event, in order, with the same header, line and
  payload; nothing is left in the stream and the connection stays.
\<close>

theorem tcp_events_delivered:
  assumes "list_all sendable es" "concat cs = concat (map event_packet es)" "[] \<notin> set cs" "cuts_ok [] cs"
    "length (concat cs) < 2 ^ 31"
  shows "\<exists>ps. channel_loop mk_mem_stream cs = Inr (ps, mk_mem_stream, False) \<and> list_all2 carries_event es ps"
proof -
  have "list_all well_formed_packet (map event_packet es)" using assms(1) event_packet_facts(1) by (auto simp: list_all_iff)
  then have f: "frames (concat cs) = (map event_packet es, [], False)" using frames_of_packets assms(2) by simp
  obtain ps m d r where l: "channel_loop mk_mem_stream cs = Inr (ps, m, d)" "frames (concat cs) = (ps, r, d)" "\<not> d \<longrightarrow> m = at_end r"
    using tcp_stream_reassembled_defined [OF assms(3,5,4)] by auto
  have "list_all2 carries_event es (map event_packet es)"
    using assms(1) event_packet_facts(2) by (auto simp: list_all2_conv_all_nth list_all_length)
  then show ?thesis using l f by (simp add: at_end_Nil)
qed

text \<open>
  A cut that is always fine: every packet is cut by itself, its first piece holding at least the first
  eight bytes.
\<close>

definition cut_of :: "bytes \<Rightarrow> bytes list \<Rightarrow> bool" where
  "cut_of p cs \<longleftrightarrow> concat cs = p \<and> [] \<notin> set cs \<and> cs \<noteq> [] \<and> 8 \<le> length (hd cs)"

lemma cuts_ok_prefix:
  assumes "well_formed_packet p" "p = b @ concat cs" "[] \<notin> set cs" "cs \<noteq> []" "8 \<le> length (b @ hd cs)" "cuts_ok [] rest"
  shows "cuts_ok b (cs @ rest)"
  using assms(2-5)
proof (induction cs arbitrary: b)
  case (Cons c cs)
  have p: "8 \<le> length p" "packet_length p = int (length p)" using assms(1) by (auto simp: well_formed_packet_def)
  have len: "packet_length (b @ c) = int (length p)"
    using packet_length_append [of "b @ c" "concat cs"] Cons.prems p by simp
  show ?case
  proof (cases "cs = []")
    case True
    then have "b @ c = p" using Cons.prems(1) by simp
    then show ?thesis
      using True p assms(6) frames_of_packets [of "[p]"] assms(1) by (simp add: turns_ok.simps [of p])
  next
    case False
    then have short: "length (b @ c) < length p" using Cons.prems(1,2) by (cases cs) auto
    have "turns_ok (b @ c)" using short len Cons.prems(4) by (subst turns_ok.simps) auto
    moreover have "frames (b @ c) = ([], b @ c, False)" using short len Cons.prems(4) by (subst frames.simps) auto
    moreover have "cuts_ok (b @ c) (cs @ rest)" using Cons.prems False by (intro Cons.IH) auto
    ultimately show ?thesis by simp
  qed
qed simp

lemma separate_cuts_ok: "list_all2 (\<lambda>p cs. well_formed_packet p \<and> cut_of p cs) ps css \<Longrightarrow> cuts_ok [] (concat css)"
proof (induction ps css rule: list_all2_induct)
  case (Cons p ps cs css)
  have c: "well_formed_packet p" "p = [] @ concat cs" "[] \<notin> set cs" "cs \<noteq> []" "8 \<le> length ([] @ hd cs)"
    using Cons.hyps(1) unfolding cut_of_def by auto
  show ?case using cuts_ok_prefix [OF c Cons.IH] by (simp only: concat.simps)
qed simp

theorem tcp_stream_reassembled_witness:
  "(\<exists>ps m d r. channel_loop mk_mem_stream [packet8] = Inr (ps, m, d) \<and> frames packet8 = (ps, r, d)) \<and>
   (\<exists>t. channel_loop mk_mem_stream [take 3 packet8, drop 3 packet8] = Inl (UB t))"
proof
  have "cuts_ok [] [packet8]" using separate_cuts_ok [of "[packet8]" "[[packet8]]"] packet8_ok
    by (simp add: cut_of_def del: cuts_ok.simps)
  then show "\<exists>ps m d r. channel_loop mk_mem_stream [packet8] = Inr (ps, m, d) \<and> frames packet8 = (ps, r, d)"
    using tcp_stream_reassembled [of "[packet8]"] packet8_ok(2,3) packet8_ok(3) [symmetric]
    by (simp del: cuts_ok.simps channel_loop.simps) blast
  have "take 3 packet8 = [1, 2, 3]" "drop 3 packet8 = [4, 8, 0, 0, 0]" by (simp_all add: packet8_def)
  moreover have "\<not> turns_ok [1, 2, 3]" by (subst turns_ok.simps) simp
  ultimately show "\<exists>t. channel_loop mk_mem_stream [take 3 packet8, drop 3 packet8] = Inl (UB t)"
    using tcp_stream_reassembled [of "[take 3 packet8, drop 3 packet8]"] by (simp del: channel_loop.simps)
qed

theorem tcp_events_delivered_witness:
  "\<exists>e ps. usType (ev_h e) = 7 \<and> channel_loop mk_mem_stream [take 20 (event_packet e), drop 20 (event_packet e)] = Inr (ps, mk_mem_stream, False) \<and>
     list_all2 carries_event [e] ps"
proof -
  define e where "e = zero_event\<lparr>ev_h := (ev_h zero_event)\<lparr>nMsgLen := 60, usType := 7\<rparr>\<rparr>"
  have e: "sendable e" "usType (ev_h e) = 7" "nMsgLen (ev_h e) = 60"
    by (simp_all add: e_def sendable_def event_ok_def zero_event_def in_int32_def MAX_EVENTINFO_SIZE_def)
  have len: "length (event_packet e) = 60" using event_packet_facts(1) [OF e(1)] e(3) length_encode_event [of e] e(1)
    by (simp add: event_packet_def sendable_def MAX_EVENTINFO_SIZE_def)
  let ?cs = "[take 20 (event_packet e), drop 20 (event_packet e)]"
  have ne: "take 20 (event_packet e) \<noteq> []" "drop 20 (event_packet e) \<noteq> []" using len by (auto simp flip: length_0_conv)
  have "cuts_ok [] ?cs"
    using separate_cuts_ok [of "[event_packet e]" "[?cs]"] event_packet_facts(1) [OF e(1)] len ne by (simp add: cut_of_def del: cuts_ok.simps)
  then show ?thesis
    using tcp_events_delivered [of "[e]" ?cs] e len ne by (auto simp del: cuts_ok.simps channel_loop.simps)
qed

end
