(* ===== verification/Ini_Persist.thy ===== *)
theory Ini_Persist
  imports Ini_Text Ini_Typed
begin

text \<open>
  Configuration across restarts: the store, the file format and the typed accessors of \<^verbatim>\<open>IniFile\<close> put together.
  A session is what a program does with its configuration from start to end: \<^verbatim>\<open>read_file\<close> into a new \<^verbatim>\<open>IniFile\<close>,
  any sequence of \<^verbatim>\<open>set_value\<close>, \<^verbatim>\<open>delete_value\<close> and \<^verbatim>\<open>delete_key\<close>, and \<^verbatim>\<open>write_file\<close>. The file is its
  content, or nothing as long as it was never written.
\<close>

definition ini_session :: "string \<Rightarrow> config_op list \<Rightarrow> string option \<Rightarrow> string option" where
  "ini_session path cs f = fst (ini_write_file True (fold ini_apply cs (snd (ini_read_file f (mk_ini_file path)))))"

text \<open>What the next start finds.\<close>

definition ini_restart :: "string \<Rightarrow> string option \<Rightarrow> ini_file" where
  "ini_restart path f = snd (ini_read_file f (mk_ini_file path))"

text \<open>A setting the file format can carry: clean names, and a value \<open>ini_normal\<close> does not change.\<close>

definition clean_setting :: "string \<Rightarrow> string \<Rightarrow> string \<Rightarrow> bool" where
  "clean_setting k n v \<longleftrightarrow> clean_section k \<and> clean_entry (n, v) \<and> plain v \<and> CHR ''#'' \<notin> set v"

fun clean_op :: "config_op \<Rightarrow> bool" where
  "clean_op (SetOp k n v) = clean_setting k n v"
| "clean_op (DelValueOp k n) = True"
| "clean_op (DelKeyOp k) = True"

definition clean_map :: "config_map \<Rightarrow> bool" where
  "clean_map m \<longleftrightarrow> (\<forall>k n v. m k n = Some v \<longrightarrow> clean_setting k n v)"

section \<open>Cleanliness is a matter of the settings\<close>

lemma clean_map_apply: "clean_op c \<Longrightarrow> clean_map m \<Longrightarrow> clean_map (spec_config c m)"
  by (cases c) (auto simp: clean_map_def)

lemma clean_map_fold: "list_all clean_op cs \<Longrightarrow> clean_map m \<Longrightarrow> clean_map (fold spec_config cs m)"
  by (induction cs arbitrary: m) (auto simp: clean_map_apply)

lemma ini_clean_of_map:
  assumes "ini_inv s" "clean_map (ini_lookup s)"
  shows "ini_clean s"
proof -
  let ?ks = "zip (ini_names s) (ini_keys s)"
  have "clean_section k \<and> clean_entry (n, v)"
    if e: "(k, key) \<in> set ?ks" "(n, v) \<in> set (zip (ik_names key) (ik_values key))" for k key n v
  proof -
    have "ini_key_inv key" using ini_zip_keys(2) [OF assms(1), of key] e(1) by force
    then have "key_lookup key n = Some v"
      using e(2) by (simp add: key_lookup_def ini_key_inv_def)
    moreover have "map_of ?ks k = Some key" using ini_zip_keys(1) [OF assms(1)] e(1) by simp
    ultimately have "ini_lookup s k n = Some v" using assms(1) by (simp add: ini_lookup_fun)
    then show ?thesis using assms(2) by (auto simp: clean_map_def clean_setting_def)
  qed
  moreover have "zip (ik_names key) (ik_values key) \<noteq> []" if "(k, key) \<in> set ?ks" "ik_names key \<noteq> []" for k key
    using ini_zip_keys(2) [OF assms(1), of key] that by (force simp: ini_key_inv_def zip_eq_Nil_iff)
  ultimately show ?thesis
    unfolding ini_clean_def list_all_iff by (fastforce simp: neq_Nil_conv)
qed

section \<open>Sessions\<close>

lemma ini_restart_new: "ini_inv (ini_restart p None)" "ini_lookup (ini_restart p None) = (\<lambda>k n. None)"
  by (auto simp: ini_restart_def ini_read_file_def mk_ini_file_def ini_inv_def ini_lookup_def
      ini_try_get_string_def find_key_def intro!: ext)

lemma ini_read_line_inv: "ini_inv (snd st) \<Longrightarrow> ini_inv (snd (ini_read_line l st))"
  by (auto simp: ini_read_line_def Let_def ini_set_value_spec split: prod.splits)

lemma ini_read_text_inv: "ini_inv s \<Longrightarrow> ini_inv (ini_read_text f s)"
proof -
  have "ini_inv (snd st) \<Longrightarrow> ini_inv (snd (fold ini_read_line ls st))" for ls st
    by (induction ls arbitrary: st) (simp_all add: ini_read_line_inv)
  then show "ini_inv s \<Longrightarrow> ini_inv (ini_read_text f s)" by (simp add: ini_read_text_def)
qed

lemma ini_restart_inv: "ini_inv (ini_restart p f)"
  by (cases f) (auto simp: ini_restart_new ini_restart_def ini_read_file_def ini_read_text_inv ini_restart_new(1) [unfolded ini_restart_def ini_read_file_def, simplified])

text \<open>One session, seen from the next start.\<close>

lemma ini_session_lookup:
  assumes "list_all clean_op cs" "clean_map (ini_lookup (ini_restart p f))"
  shows "ini_lookup (ini_restart q (ini_session p cs f)) = fold spec_config cs (ini_lookup (ini_restart p f))"
proof -
  let ?s = "fold ini_apply cs (ini_restart p f)"
  have inv: "ini_inv ?s" using ini.fold_invar ini_restart_inv by blast
  have l: "ini_lookup ?s = fold spec_config cs (ini_lookup (ini_restart p f))"
    using ini.fold_lookup ini_restart_inv by blast
  then have c: "clean_map (ini_lookup ?s)" using clean_map_fold assms by simp
  have "ini_lookup (ini_restart q (ini_session p cs f)) k n = ini_lookup ?s k n" for k n
  proof -
    have "ini_lookup (ini_restart q (ini_session p cs f)) k n = map_option ini_normal (ini_lookup ?s k n)"
      using ini_read_written [OF inv ini_clean_of_map [OF inv c], of q k n]
      by (simp add: ini_restart_def ini_session_def ini_write_file_def ini_read_file_def)
    then show ?thesis
      using c by (cases "ini_lookup ?s k n") (auto simp: clean_map_def clean_setting_def ini_normal_id)
  qed
  then show ?thesis using l by (auto intro!: ext)
qed

lemma ini_sessions_lookup:
  "list_all (list_all clean_op) css \<Longrightarrow> clean_map (ini_lookup (ini_restart p f)) \<Longrightarrow>
   ini_lookup (ini_restart p (fold (ini_session p) css f)) = fold spec_config (concat css) (ini_lookup (ini_restart p f))"
  by (induction css arbitrary: f) (simp_all add: ini_session_lookup clean_map_fold)

lemma clean_map_empty: "clean_map (\<lambda>k n. None)"
  by (simp add: clean_map_def)

section \<open>Properties\<close>

text \<open>
  C9: Restarts do not matter. For any number of sessions of one program on one configuration file,
  starting from no file, in which every setting has names and a value the format can carry, the store
  the next start reads is the one a single map has after all the operations of all the sessions in
  order: what was set last is found, what was deleted is not, and nothing else appears.
\<close>

theorem ini_sessions_refine_map:
  assumes "list_all (list_all clean_op) css"
  shows "ini_lookup (ini_restart p (fold (ini_session p) css None)) = fold spec_config (concat css) (\<lambda>k n. None)"
  using ini_sessions_lookup [OF assms, of p None] clean_map_empty by (simp add: ini_restart_new)


theorem ini_sessions_refine_map_witness:
  "ini_lookup (ini_restart ''x.ini'' (fold (ini_session ''x.ini'')
     [[SetOp ''srv'' ''port'' ''9100'', SetOp ''srv'' ''host'' ''a''], [DelValueOp ''srv'' ''host'', SetOp ''srv'' ''port'' ''80'']] None))
     ''srv'' ''port'' = Some ''80''"
  using ini_sessions_refine_map
    [of "[[SetOp ''srv'' ''port'' ''9100'', SetOp ''srv'' ''host'' ''a''], [DelValueOp ''srv'' ''host'', SetOp ''srv'' ''port'' ''80'']]" "''x.ini''"]
  by (simp add: clean_setting_def clean_section_def clean_entry_def plain_def INI_BUF_def Trim_def TrimLeft_def TrimRight_def del: fold_simps)

lemma show_int_chars: "c \<in> set (show_int v) \<Longrightarrow> is_digit_char c \<or> c = CHR ''-''"
  using show_nat_digits by (auto simp: show_int_def list_all_iff split: if_splits)

lemma Trim_no_space: "space \<notin> set s \<Longrightarrow> Trim space s = s"
proof -
  assume s: "space \<notin> set s"
  then have "dropWhile (\<lambda>x. x = space) s = s" by (cases s) auto
  moreover have "s = [] \<or> last s \<noteq> space" using s last_in_set by fastforce
  ultimately show ?thesis by (simp add: Trim_def TrimLeft_def TrimRight_id)
qed

lemma clean_show:
  assumes "in_int32 v" "clean_section k" "clean_entry (n, [])" "length n < 2000"
  shows "clean_setting k n (show_int v)"
proof -
  have c: "newline \<notin> set (show_int v)" "nul \<notin> set (show_int v)" "CHR ''#'' \<notin> set (show_int v)" "cr \<notin> set (show_int v)" "space \<notin> set (show_int v)"
    using show_int_chars [of _ v] by (force simp: is_digit_char_def)+
  then have "last (show_int v) \<noteq> cr" using trim_show(2) last_in_set by metis
  then show ?thesis
    using assms c length_show_int [OF assms(1)]
    by (auto simp: clean_setting_def clean_entry_def plain_def INI_BUF_def Trim_no_space)
qed

fun touches :: "string \<Rightarrow> string \<Rightarrow> config_op \<Rightarrow> bool" where
  "touches k n (SetOp k' n' v) \<longleftrightarrow> k' = k \<and> n' = n"
| "touches k n (DelValueOp k' n') \<longleftrightarrow> k' = k \<and> n' = n"
| "touches k n (DelKeyOp k') \<longleftrightarrow> k' = k"

lemma untouched: "\<not> list_ex (touches k n) cs \<Longrightarrow> fold spec_config cs m k n = m k n"
proof (induction cs arbitrary: m)
  case (Cons c cs)
  then show ?case by (cases c) auto
qed simp

text \<open>
  C40: An integer survives restarts. A number set with \<^verbatim>\<open>set_value_i\<close> in some session, over any earlier
  sessions, and not touched afterwards in that session or in later ones, is what \<^verbatim>\<open>try_get_int\<close>,
  \<^verbatim>\<open>get_int_or\<close> and \<^verbatim>\<open>get_value_i\<close> return after the next start: the number went through
  decimal text, a padded line of the file, \<^verbatim>\<open>fgets\<close> and the trimming of the parser, once for every session.
\<close>

theorem ini_int_survives_restarts:
  assumes "list_all (list_all clean_op) before" "list_all clean_op cs" "list_all clean_op cs'" "list_all (list_all clean_op) after"
    "in_int32 v" "clean_section k" "clean_entry (n, [])" "length n < 2000"
    "\<not> list_ex (touches k n) (cs' @ concat after)"
  shows "let s = ini_restart p (fold (ini_session p) before None);
      s1 = snd (ini_set_value_i k n v True (fold ini_apply cs s));
      f = fst (ini_write_file True (fold ini_apply cs' s1));
      s2 = ini_restart p (fold (ini_session p) after f)
    in ini_try_get_int k n s2 = Some v \<and> ini_get_int_or k n d s2 = v \<and> ini_get_value_i k n s2 = Inr v"
proof -
  let ?set = "SetOp k n (show_int v)" and ?f = "fold (ini_session p) before None"
  let ?m = "fold spec_config cs (fold spec_config (concat before) (\<lambda>k n. None))"
  have "clean_op ?set" using clean_show assms(5-8) by simp
  then have clean: "list_all (list_all clean_op) (before @ [cs @ ?set # cs'] @ after)" using assms(1-4) by simp
  have "ini_lookup (ini_restart p (fold (ini_session p) (before @ [cs @ ?set # cs'] @ after) None)) k n =
      fold spec_config (cs' @ concat after) (spec_config ?set ?m) k n"
    using ini_sessions_lookup [OF clean, of p None] clean_map_empty by (simp add: ini_restart_new)
  also have "\<dots> = Some (show_int v)" using untouched [OF assms(9)] by simp
  finally have "ini_lookup (ini_restart p (fold (ini_session p) after (ini_session p (cs @ ?set # cs') ?f))) k n = Some (show_int v)"
    by simp
  then show ?thesis
    using ini_int_of_text [OF assms(5)]
    by (simp add: Let_def ini_session_def ini_restart_def ini_set_value_i_def)
qed

theorem ini_int_survives_restarts_witness:
  "ini_try_get_int ''srv'' ''port'' (ini_restart ''x'' (ini_session ''x'' [SetOp ''srv'' ''host'' ''a'']
     (fst (ini_write_file True (snd (ini_set_value_i ''srv'' ''port'' (- 12) True (ini_restart ''x'' None))))))) = Some (- 12)"
  using ini_int_survives_restarts [of "[]" "[]" "[]" "[[SetOp ''srv'' ''host'' ''a'']]" "- 12" "''srv''" "''port''" "''x''"]
  by (simp add: Let_def in_int32_def clean_setting_def clean_section_def clean_entry_def plain_def INI_BUF_def Trim_def TrimLeft_def TrimRight_def)

end
