(* ===== verification/Vxml_Objects.thy ===== *)
theory Vxml_Objects
  imports Prelude
begin

text \<open>
  The class hierarchy of VoiceXML elements in \<^verbatim>\<open>include/objects.hpp\<close>: the data members of the classes, their
  inline methods, and the dispatch of the virtual ones on the dynamic class of the object. The header
  includes files that are not in the repository, and many methods have no body anywhere in it. What it
  leaves open is a parameter here: \<^verbatim>\<open>VXMLOBJTYPE\<close> and \<^verbatim>\<open>AUDIOTYPE\<close> are the type variables \<open>'t\<close> and
  \<open>'a\<close>, and a virtual method whose final overrider has no body is the argument \<open>ext\<close> of a call. A
  pointer is an address or null, a pointer to an array of objects is the array it points to or null, and a
  \<^verbatim>\<open>CString\<close> is a string, assigned from C strings that are not null.
\<close>

type_synonym ptr = "nat option"
type_synonym ptr_array = "ptr list option"
type_synonym id_list = "int list option"

text \<open>A member that no constructor initialises holds no value until it is assigned.\<close>

datatype 'v member = Indeterminate | Value 'v

section \<open>Data members\<close>

record 't cobj_base =
  m_nVersion :: int
  m_type :: 't
  m_name :: string
  m_nId :: int
  m_nParentId :: int
  m_pParent :: ptr
  m_pVxmlObjects :: ptr
  m_pPyInterp :: ptr
  m_pliDialogId :: id_list
  m_pliPlayId :: id_list
  m_pliChoiceId :: id_list
  m_pliEventId :: id_list
  m_pliPropId :: id_list
  m_pliVarId :: id_list
  m_pliAssignId :: id_list
  m_pliIfId :: id_list
  m_pliTransferId :: id_list

record vxml_data =
  m_strVxmlVersion :: string
  vx_nNumOfDialogs :: int
  vx_pDialogs :: ptr_array
  vx_nNumOfProps :: int
  vx_pProps :: ptr_array
  vx_nNumOfVars :: int
  vx_pVars :: ptr_array
  vx_nNumOfAssigns :: int
  vx_pAssigns :: ptr_array
  vx_nNumOfIfs :: int
  vx_pIfs :: ptr_array
  vx_nNumOfTransfers :: int
  vx_pTransfers :: ptr_array

record property_data =
  m_strPropName :: string
  m_strPropValue :: string

record var_data =
  m_strVarName :: string
  m_strVarValue :: string

record assign_data =
  m_strAssignName :: string
  m_strAssignValue :: string

record play_data =
  pl_nCount :: int

record audio_data =
  au_strSource :: string
  m_bExist :: bool
  au_strExpr :: string
  m_strExprResult :: string

record prompt_data =
  pr_strCond :: string
  m_nTimeout :: int
  pr_nNumOfPlays :: int
  m_nIndexOfPlays :: int
  pr_pPlays :: ptr_array

record choice_data =
  ch_strDtmf :: string
  ch_strNextDoc :: string
  ch_strNext :: string
  ch_strEvent :: string
  ch_nNextId :: int
  ch_pNextDialog :: ptr
  ch_strExpr :: string

text \<open>\<^verbatim>\<open>CObjRecord\<close> and \<^verbatim>\<open>CObjTransfer\<close> declare a \<^verbatim>\<open>name_\<close> of their own beside the inherited one.\<close>

record 'a record_data =
  rec_name :: string
  m_nMaxTime :: int
  m_nAudioType :: 'a
  m_bBeep :: bool
  m_bDtmfTerm :: bool
  rec_nNumOfPlays :: int
  rec_pPlays :: ptr_array

record dialog_data =
  m_strDialogName :: string
  m_nPromptCount :: int
  m_mapEventCount :: "string \<Rightarrow> ptr option"

record menu_data =
  m_bDtmf :: bool
  m_bWait :: bool
  m_nNumOfDtmfInput :: int
  m_strValidDtmfs :: string
  m_nRecordId :: int
  me_nNumOfChoices :: int
  me_pChoices :: ptr_array
  me_nNumOfEvents :: int
  me_pEvents :: ptr_array
  me_nNumOfPlays :: int
  me_pPlays :: ptr_array
  m_pRecord :: ptr
  me_nNumOfAssigns :: int
  me_pAssigns :: ptr_array
  me_pNextDialog :: ptr
  me_nNumOfIfs :: int
  me_pIfs :: ptr_array
  me_nNumOfTransfers :: int
  me_pTransfers :: ptr_array

record event_data =
  ev_nCount :: int
  m_strEventName :: string
  ev_strCond :: string
  ev_nNumOfPlays :: int
  ev_pPlays :: ptr_array

record goto_data =
  go_strNextDoc :: string
  go_strNext :: string
  m_strNextItem :: string
  go_nNextId :: int
  m_nNextItemId :: int
  go_pNextDialog :: ptr
  go_strExpr :: string
  m_strExprItem :: string

record script_data =
  sc_strSource :: string
  m_strCharset :: string
  m_strBlock :: string

record if_data =
  if_strCond :: string
  if_nNumOfAssigns :: int
  if_pAssigns :: ptr_array
  if_nNumOfIfs :: int
  if_pIfs :: ptr_array
  if_pNextDialog :: ptr

record transfer_data =
  m_strDestExpr :: string
  tr_name :: string
  m_nConnectTimeout :: int
  tr_pIfs :: ptr_array
  tr_nNumOfIfs :: int

text \<open>
  The dynamic class of an object, with the members the classes below \<^verbatim>\<open>CObjBase\<close> add: the classes derived
  from \<^verbatim>\<open>CObjPlay\<close>, \<^verbatim>\<open>CObjDialog\<close>, \<^verbatim>\<open>CObjEvent\<close> and \<^verbatim>\<open>CObjIf\<close> are alternatives inside the part of their
  base.
\<close>

datatype play_class = PlainPlay | Audio audio_data | Prompt prompt_data

datatype dialog_class = PlainDialog | Menu menu_data | Form

datatype event_class =
  PlainEvent | Noinput "ptr member" | Nomatch "ptr member" | Exit | Error | Catch "ptr member"

datatype if_class = PlainIf | Elseif | Else

datatype 'a obj_class =
    PlainBase
  | Vxml vxml_data
  | Property property_data
  | Var var_data
  | Assign assign_data
  | Play play_data play_class
  | Choice choice_data
  | Record "'a record_data"
  | Dialog dialog_data dialog_class
  | Event event_data event_class
  | Goto goto_data
  | Script script_data
  | If if_data if_class
  | Transfer transfer_data

record ('t, 'a) vobj = "'t cobj_base" + m_class :: "'a obj_class"

section \<open>The hierarchy\<close>

datatype cls =
    CObjBase | CObjVxml | CObjProperty | CObjVar | CObjAssign | CObjPlay | CObjAudio | CObjPrompt | CObjChoice
  | CObjRecord | CObjDialog | CObjMenu | CObjForm | CObjEvent | CObjNoinput | CObjNomatch | CObjExit | CObjError
  | CObjCatch | CObjTransfer | CObjGoto | CObjScript | CObjIf | CObjElseif | CObjElse

fun play_cls :: "play_class \<Rightarrow> cls" where
  "play_cls PlainPlay = CObjPlay"
| "play_cls (Audio d) = CObjAudio"
| "play_cls (Prompt d) = CObjPrompt"

fun dialog_cls :: "dialog_class \<Rightarrow> cls" where
  "dialog_cls PlainDialog = CObjDialog"
| "dialog_cls (Menu d) = CObjMenu"
| "dialog_cls Form = CObjForm"

fun event_cls :: "event_class \<Rightarrow> cls" where
  "event_cls PlainEvent = CObjEvent"
| "event_cls (Noinput p) = CObjNoinput"
| "event_cls (Nomatch p) = CObjNomatch"
| "event_cls Exit = CObjExit"
| "event_cls Error = CObjError"
| "event_cls (Catch p) = CObjCatch"

fun if_cls :: "if_class \<Rightarrow> cls" where
  "if_cls PlainIf = CObjIf"
| "if_cls Elseif = CObjElseif"
| "if_cls Else = CObjElse"

fun cls_of :: "'a obj_class \<Rightarrow> cls" where
  "cls_of PlainBase = CObjBase"
| "cls_of (Vxml d) = CObjVxml"
| "cls_of (Property d) = CObjProperty"
| "cls_of (Var d) = CObjVar"
| "cls_of (Assign d) = CObjAssign"
| "cls_of (Play d c) = play_cls c"
| "cls_of (Choice d) = CObjChoice"
| "cls_of (Record d) = CObjRecord"
| "cls_of (Dialog d c) = dialog_cls c"
| "cls_of (Event d c) = event_cls c"
| "cls_of (Goto d) = CObjGoto"
| "cls_of (Script d) = CObjScript"
| "cls_of (If d c) = if_cls c"
| "cls_of (Transfer d) = CObjTransfer"

text \<open>The direct base class; \<^verbatim>\<open>CObjBase\<close> has none among these.\<close>

fun super :: "cls \<Rightarrow> cls option" where
  "super CObjBase = None"
| "super CObjAudio = Some CObjPlay"
| "super CObjPrompt = Some CObjPlay"
| "super CObjMenu = Some CObjDialog"
| "super CObjForm = Some CObjDialog"
| "super CObjNoinput = Some CObjEvent"
| "super CObjNomatch = Some CObjEvent"
| "super CObjExit = Some CObjEvent"
| "super CObjError = Some CObjEvent"
| "super CObjCatch = Some CObjEvent"
| "super CObjElseif = Some CObjIf"
| "super CObjElse = Some CObjIf"
| "super _ = Some CObjBase"

text \<open>Every chain of base classes has at most three members, so three steps reach its end.\<close>

fun derives_in :: "nat \<Rightarrow> cls \<Rightarrow> cls \<Rightarrow> bool" where
  "derives_in 0 c d = False"
| "derives_in (Suc n) c d = (c = d \<or> (case super c of None \<Rightarrow> False | Some b \<Rightarrow> derives_in n b d))"

definition derives :: "cls \<Rightarrow> cls \<Rightarrow> bool" where
  "derives = derives_in 3"

lemma derives_base [simp]: "derives c CObjBase"
  by (cases c) (simp_all add: derives_def numeral_3_eq_3)

lemma derives_refl [simp]: "derives c c"
  by (simp add: derives_def numeral_3_eq_3)

lemma derives_step: "derives c d \<longleftrightarrow> c = d \<or> (\<exists>b. super c = Some b \<and> derives b d)"
  by (cases c) (auto simp: derives_def numeral_3_eq_3)

text \<open>Derivation is an order: a class below another can stand for it.\<close>

lemma derives_trans: "derives c d \<Longrightarrow> derives d e \<Longrightarrow> derives c e"
  by (cases c) (auto simp: derives_def numeral_3_eq_3)

lemma derives_antisym: "derives c d \<Longrightarrow> derives d c \<Longrightarrow> c = d"
  by (cases c) (auto simp: derives_def numeral_3_eq_3)

instantiation cls :: order
begin

definition less_eq_cls :: "cls \<Rightarrow> cls \<Rightarrow> bool" where
  "less_eq_cls = derives"

definition less_cls :: "cls \<Rightarrow> cls \<Rightarrow> bool" where
  "less_cls c d \<longleftrightarrow> derives c d \<and> c \<noteq> d"

instance
  by standard (auto simp: less_eq_cls_def less_cls_def intro: derives_trans derives_antisym dest: derives_antisym)

end

section \<open>Virtual methods\<close>

text \<open>What a method returns; \<^verbatim>\<open>GetDtmfs\<close> and \<^verbatim>\<open>GetValidDtmfs\<close> return through their argument.\<close>

datatype ('t, 'a) rv =
    RVoid | RInt int | RBool bool | RStr "string option" | RPtr ptr | RArr ptr_array | RIds id_list | RType 't | RAudio 'a

datatype rty = TVoid | TInt | TBool | TStr | TPtr | TArr | TIds | TType | TAudio

fun rv_type :: "('t, 'a) rv \<Rightarrow> rty" where
  "rv_type RVoid = TVoid"
| "rv_type (RInt n) = TInt"
| "rv_type (RBool b) = TBool"
| "rv_type (RStr s) = TStr"
| "rv_type (RPtr p) = TPtr"
| "rv_type (RArr a) = TArr"
| "rv_type (RIds l) = TIds"
| "rv_type (RType t) = TType"
| "rv_type (RAudio a) = TAudio"

text \<open>
  The virtual methods that only read, those of \<^verbatim>\<open>CObjBase\<close> first, then those \<^verbatim>\<open>CObjPlay\<close>, \<^verbatim>\<open>CObjDialog\<close>
  and \<^verbatim>\<open>CObjMenu\<close> introduce, and the two that write.
\<close>

datatype vget =
    GetPropertyCount | GetVarCount | GetAssignCount | GetIfCount | GetProperties | GetVars | GetAssigns | GetIfs
  | GetTransfers | GetTransferCount | GetNumberOfPrompts | GetPrompts | GetDtmfs | GetNextDialog | GetNextDialogOn char
  | GetNumOfDtmfInput | GetValidDtmfs | PrepareToRun
  | GetPlayItem bool
  | GetWait | GetEvent ptr int | GetRecord | GetNumberOfEvents | GetEvents
  | GetChoiceCount | GetChoices

datatype vset = IncrPromptCount | SetNextDialog ptr

definition no_method :: fault where
  "no_method = UB ''call of a method the class does not have''"

fun base_get :: "('t, 'z) cobj_base_scheme \<Rightarrow> vget \<Rightarrow> fault + ('t, 'a) rv" where
  "base_get b GetPropertyCount = Inr (RInt 0)"
| "base_get b GetVarCount = Inr (RInt 0)"
| "base_get b GetAssignCount = Inr (RInt 0)"
| "base_get b GetIfCount = Inr (RInt 0)"
| "base_get b GetProperties = Inr (RArr None)"
| "base_get b GetVars = Inr (RArr None)"
| "base_get b GetAssigns = Inr (RArr None)"
| "base_get b GetIfs = Inr (RArr None)"
| "base_get b GetTransfers = Inr (RArr None)"
| "base_get b GetTransferCount = Inr (RInt 0)"
| "base_get b GetNumberOfPrompts = Inr (RInt 0)"
| "base_get b GetPrompts = Inr (RArr None)"
| "base_get b GetDtmfs = Inr (RStr (Some []))"
| "base_get b GetNextDialog = Inr (RPtr None)"
| "base_get b (GetNextDialogOn dtmf) = Inr (RPtr None)"
| "base_get b GetNumOfDtmfInput = Inr (RInt 1)"
| "base_get b GetValidDtmfs = Inr (RStr (Some []))"
| "base_get b PrepareToRun = Inr (RBool (m_pVxmlObjects b \<noteq> None))"
| "base_get b _ = Inl no_method"

fun base_set :: "vset \<Rightarrow> ('t, 'z) cobj_base_scheme \<Rightarrow> ('t, 'z) cobj_base_scheme" where
  "base_set IncrPromptCount b = b"
| "base_set (SetNextDialog p) b = b"

text \<open>Each class overrides some of them and passes the others to its base.\<close>

fun vxml_get :: "('t, 'z) cobj_base_scheme \<Rightarrow> vxml_data \<Rightarrow> vget \<Rightarrow> fault + ('t, 'a) rv" where
  "vxml_get b d GetPropertyCount = Inr (RInt (vx_nNumOfProps d))"
| "vxml_get b d GetVarCount = Inr (RInt (vx_nNumOfVars d))"
| "vxml_get b d GetAssignCount = Inr (RInt (vx_nNumOfAssigns d))"
| "vxml_get b d GetProperties = Inr (RArr (vx_pProps d))"
| "vxml_get b d GetVars = Inr (RArr (vx_pVars d))"
| "vxml_get b d GetAssigns = Inr (RArr (vx_pAssigns d))"
| "vxml_get b d GetIfCount = Inr (RInt (vx_nNumOfIfs d))"
| "vxml_get b d GetIfs = Inr (RArr (vx_pIfs d))"
| "vxml_get b d GetTransfers = Inr (RArr (vx_pTransfers d))"
| "vxml_get b d GetTransferCount = Inr (RInt (vx_nNumOfTransfers d))"
| "vxml_get b d v = base_get b v"

fun play_get :: "('t, 'z) cobj_base_scheme \<Rightarrow> play_data \<Rightarrow> vget \<Rightarrow> fault + ('t, 'a) rv" where
  "play_get b d (GetPlayItem bFirst) = Inr (RStr None)"
| "play_get b d v = base_get b v"

fun record_get :: "('t, 'z) cobj_base_scheme \<Rightarrow> 'a record_data \<Rightarrow> vget \<Rightarrow> fault + ('t, 'a) rv" where
  "record_get b d GetNumberOfPrompts = Inr (RInt (rec_nNumOfPlays d))"
| "record_get b d GetPrompts = Inr (RArr (rec_pPlays d))"
| "record_get b d v = base_get b v"

fun dialog_get :: "('t, 'z) cobj_base_scheme \<Rightarrow> dialog_data \<Rightarrow> vget \<Rightarrow> fault + ('t, 'a) rv" where
  "dialog_get b d GetWait = Inr (RBool True)"
| "dialog_get b d GetNumberOfPrompts = Inr (RInt 0)"
| "dialog_get b d GetPrompts = Inr (RArr None)"
| "dialog_get b d GetDtmfs = Inr (RStr (Some []))"
| "dialog_get b d (GetEvent pClass n) = Inr (RPtr None)"
| "dialog_get b d GetNumOfDtmfInput = Inr (RInt 1)"
| "dialog_get b d GetValidDtmfs = Inr (RStr (Some []))"
| "dialog_get b d GetRecord = Inr (RPtr None)"
| "dialog_get b d GetNextDialog = Inr (RPtr None)"
| "dialog_get b d (GetNextDialogOn dtmf) = Inr (RPtr None)"
| "dialog_get b d GetNumberOfEvents = Inr (RInt 0)"
| "dialog_get b d GetEvents = Inr (RArr None)"
| "dialog_get b d GetAssignCount = Inr (RInt 0)"
| "dialog_get b d GetAssigns = Inr (RArr None)"
| "dialog_get b d PrepareToRun = Inr (RBool (m_pVxmlObjects b \<noteq> None))"
| "dialog_get b d v = base_get b v"

fun dialog_set :: "vset \<Rightarrow> dialog_data \<Rightarrow> fault + dialog_data" where
  "dialog_set IncrPromptCount d =
     (case add_int32 (m_nPromptCount d) 1 of
        None \<Rightarrow> Inl (UB ''m_nPromptCount overflows'')
      | Some n \<Rightarrow> Inr (d\<lparr>m_nPromptCount := n\<rparr>))"
| "dialog_set (SetNextDialog p) d = Inr d"

fun menu_get :: "('t, 'z) cobj_base_scheme \<Rightarrow> dialog_data \<Rightarrow> menu_data \<Rightarrow> vget \<Rightarrow> fault + ('t, 'a) rv" where
  "menu_get b d m GetWait = Inr (RBool (m_bWait m))"
| "menu_get b d m GetNumOfDtmfInput = Inr (RInt (m_nNumOfDtmfInput m))"
| "menu_get b d m GetValidDtmfs = Inr (RStr (Some (m_strValidDtmfs m)))"
| "menu_get b d m GetNumberOfPrompts = Inr (RInt (me_nNumOfPlays m))"
| "menu_get b d m GetPrompts = Inr (RArr (me_pPlays m))"
| "menu_get b d m GetAssignCount = Inr (RInt (me_nNumOfAssigns m))"
| "menu_get b d m GetAssigns = Inr (RArr (me_pAssigns m))"
| "menu_get b d m GetNumberOfEvents = Inr (RInt (me_nNumOfEvents m))"
| "menu_get b d m GetEvents = Inr (RArr (me_pEvents m))"
| "menu_get b d m GetNextDialog = Inr (RPtr (me_pNextDialog m))"
| "menu_get b d m GetRecord = Inr (RPtr (m_pRecord m))"
| "menu_get b d m GetIfCount = Inr (RInt (me_nNumOfIfs m))"
| "menu_get b d m GetIfs = Inr (RArr (me_pIfs m))"
| "menu_get b d m GetChoiceCount = Inr (RInt (me_nNumOfChoices m))"
| "menu_get b d m GetChoices = Inr (RArr (me_pChoices m))"
| "menu_get b d m GetTransfers = Inr (RArr (me_pTransfers m))"
| "menu_get b d m GetTransferCount = Inr (RInt (me_nNumOfTransfers m))"
| "menu_get b d m v = dialog_get b d v"

fun menu_set :: "vset \<Rightarrow> dialog_data \<times> menu_data \<Rightarrow> fault + dialog_data \<times> menu_data" where
  "menu_set (SetNextDialog p) (d, m) = Inr (d, m\<lparr>me_pNextDialog := p\<rparr>)"
| "menu_set v (d, m) = (case dialog_set v d of Inl f \<Rightarrow> Inl f | Inr d1 \<Rightarrow> Inr (d1, m))"

fun event_get :: "('t, 'z) cobj_base_scheme \<Rightarrow> event_data \<Rightarrow> vget \<Rightarrow> fault + ('t, 'a) rv" where
  "event_get b d GetNumberOfPrompts = Inr (RInt (ev_nNumOfPlays d))"
| "event_get b d GetPrompts = Inr (RArr (ev_pPlays d))"
| "event_get b d GetNextDialog = Inr (RPtr None)"
| "event_get b d v = base_get b v"

text \<open>
  \<^verbatim>\<open>CObjNoinput\<close>, \<^verbatim>\<open>CObjNomatch\<close> and \<^verbatim>\<open>CObjCatch\<close> have the same pair of overriders on a member of their own;
  \<^verbatim>\<open>CObjExit\<close> and \<^verbatim>\<open>CObjError\<close> have none.
\<close>

fun next_get :: "('t, 'z) cobj_base_scheme \<Rightarrow> event_data \<Rightarrow> ptr member \<Rightarrow> vget \<Rightarrow> fault + ('t, 'a) rv" where
  "next_get b d m GetNextDialog =
     (case m of Indeterminate \<Rightarrow> Inl (UB ''read of an uninitialised m_pNextDialog'') | Value p \<Rightarrow> Inr (RPtr p))"
| "next_get b d m v = event_get b d v"

fun noinput_set :: "vset \<Rightarrow> ptr member \<Rightarrow> ptr member" where
  "noinput_set (SetNextDialog p) m = Value p"
| "noinput_set IncrPromptCount m = m"

fun nomatch_set :: "vset \<Rightarrow> ptr member \<Rightarrow> ptr member" where
  "nomatch_set (SetNextDialog p) m = Value p"
| "nomatch_set IncrPromptCount m = m"

fun catch_set :: "vset \<Rightarrow> ptr member \<Rightarrow> ptr member" where
  "catch_set (SetNextDialog p) m = Value p"
| "catch_set IncrPromptCount m = m"

fun if_get :: "('t, 'z) cobj_base_scheme \<Rightarrow> if_data \<Rightarrow> vget \<Rightarrow> fault + ('t, 'a) rv" where
  "if_get b d GetAssignCount = Inr (RInt (if_nNumOfAssigns d))"
| "if_get b d GetAssigns = Inr (RArr (if_pAssigns d))"
| "if_get b d GetIfCount = Inr (RInt (if_nNumOfIfs d))"
| "if_get b d GetIfs = Inr (RArr (if_pIfs d))"
| "if_get b d v = base_get b v"

fun transfer_get :: "('t, 'z) cobj_base_scheme \<Rightarrow> transfer_data \<Rightarrow> vget \<Rightarrow> fault + ('t, 'a) rv" where
  "transfer_get b d GetIfCount = Inr (RInt (tr_nNumOfIfs d))"
| "transfer_get b d GetIfs = Inr (RArr (tr_pIfs d))"
| "transfer_get b d v = base_get b v"

text \<open>Dispatch: the dynamic class of the object chooses the overrider.\<close>

fun event_dispatch :: "('t, 'z) cobj_base_scheme \<Rightarrow> event_data \<Rightarrow> event_class \<Rightarrow> vget \<Rightarrow> fault + ('t, 'a) rv" where
  "event_dispatch b d (Noinput m) v = next_get b d m v"
| "event_dispatch b d (Nomatch m) v = next_get b d m v"
| "event_dispatch b d (Catch m) v = next_get b d m v"
| "event_dispatch b d _ v = event_get b d v"

fun dispatch_get :: "('t, 'z) cobj_base_scheme \<Rightarrow> 'a obj_class \<Rightarrow> vget \<Rightarrow> fault + ('t, 'a) rv" where
  "dispatch_get b (Vxml d) v = vxml_get b d v"
| "dispatch_get b (Play d c) v = play_get b d v"
| "dispatch_get b (Record d) v = record_get b d v"
| "dispatch_get b (Dialog d (Menu m)) v = menu_get b d m v"
| "dispatch_get b (Dialog d c) v = dialog_get b d v"
| "dispatch_get b (Event d c) v = event_dispatch b d c v"
| "dispatch_get b (If d c) v = if_get b d v"
| "dispatch_get b (Transfer d) v = transfer_get b d v"
| "dispatch_get b _ v = base_get b v"

fun dispatch_set :: "vset \<Rightarrow> 'a obj_class \<Rightarrow> fault + 'a obj_class" where
  "dispatch_set v (Dialog d (Menu m)) = (case menu_set v (d, m) of Inl f \<Rightarrow> Inl f | Inr (d1, m1) \<Rightarrow> Inr (Dialog d1 (Menu m1)))"
| "dispatch_set v (Dialog d c) = (case dialog_set v d of Inl f \<Rightarrow> Inl f | Inr d1 \<Rightarrow> Inr (Dialog d1 c))"
| "dispatch_set v (Event d (Noinput m)) = Inr (Event d (Noinput (noinput_set v m)))"
| "dispatch_set v (Event d (Nomatch m)) = Inr (Event d (Nomatch (nomatch_set v m)))"
| "dispatch_set v (Event d (Catch m)) = Inr (Event d (Catch (catch_set v m)))"
| "dispatch_set v c = Inr c"

text \<open>
  The overriders declared without a body: a call that ends there is a call of \<open>ext\<close>, which may return
  and change anything.
\<close>

fun no_body :: "'a obj_class \<Rightarrow> vget \<Rightarrow> bool" where
  "no_body c PrepareToRun \<longleftrightarrow> cls_of c \<notin> {CObjBase, CObjProperty, CObjVar, CObjAssign, CObjPlay, CObjDialog}"
| "no_body c GetNextDialog \<longleftrightarrow> cls_of c \<in> {CObjChoice, CObjGoto, CObjIf, CObjElseif, CObjElse}"
| "no_body c (GetNextDialogOn d) \<longleftrightarrow> cls_of c = CObjMenu"
| "no_body c GetDtmfs \<longleftrightarrow> cls_of c = CObjMenu"
| "no_body c (GetEvent p n) \<longleftrightarrow> cls_of c = CObjMenu"
| "no_body c (GetPlayItem f) \<longleftrightarrow> cls_of c \<in> {CObjAudio, CObjPrompt}"
| "no_body c v \<longleftrightarrow> False"

type_synonym ('t, 'a) extern = "vget \<Rightarrow> ('t, 'a) vobj \<Rightarrow> ('t, 'a) rv \<times> ('t, 'a) vobj"

definition call_get :: "('t, 'a) extern \<Rightarrow> vget \<Rightarrow> ('t, 'a) vobj \<Rightarrow> fault + ('t, 'a) rv \<times> ('t, 'a) vobj" where
  "call_get ext v ob =
     (if no_body (m_class ob) v then Inr (ext v ob)
      else (case dispatch_get ob (m_class ob) v of Inl f \<Rightarrow> Inl f | Inr r \<Rightarrow> Inr (r, ob)))"

definition call_set :: "vset \<Rightarrow> ('t, 'a) vobj \<Rightarrow> fault + ('t, 'a) vobj" where
  "call_set v ob =
     (case dispatch_set v (m_class ob) of Inl f \<Rightarrow> Inl f | Inr c \<Rightarrow> Inr ((base_set v ob)\<lparr>m_class := c\<rparr>))"

section \<open>Typing of virtual calls\<close>

fun declared_in :: "vget \<Rightarrow> cls" where
  "declared_in (GetPlayItem f) = CObjPlay"
| "declared_in GetWait = CObjDialog"
| "declared_in (GetEvent p n) = CObjDialog"
| "declared_in GetRecord = CObjDialog"
| "declared_in GetNumberOfEvents = CObjDialog"
| "declared_in GetEvents = CObjDialog"
| "declared_in GetChoiceCount = CObjMenu"
| "declared_in GetChoices = CObjMenu"
| "declared_in _ = CObjBase"

fun ret_type :: "vget \<Rightarrow> rty" where
  "ret_type GetProperties = TArr"
| "ret_type GetVars = TArr"
| "ret_type GetAssigns = TArr"
| "ret_type GetIfs = TArr"
| "ret_type GetTransfers = TArr"
| "ret_type GetPrompts = TArr"
| "ret_type GetEvents = TArr"
| "ret_type GetChoices = TArr"
| "ret_type GetDtmfs = TStr"
| "ret_type GetValidDtmfs = TStr"
| "ret_type (GetPlayItem f) = TStr"
| "ret_type GetNextDialog = TPtr"
| "ret_type (GetNextDialogOn d) = TPtr"
| "ret_type (GetEvent p n) = TPtr"
| "ret_type GetRecord = TPtr"
| "ret_type PrepareToRun = TBool"
| "ret_type GetWait = TBool"
| "ret_type _ = TInt"

definition answers :: "vget \<Rightarrow> bool \<Rightarrow> fault + ('t, 'a) rv \<Rightarrow> bool" where
  "answers v d x \<longleftrightarrow> (if d then \<exists>r. x = Inr r \<and> rv_type r = ret_type v else x = Inl no_method)"

text \<open>The overriders of each class, over the static class a call needs.\<close>

lemma base_get_answers: "answers v (declared_in v = CObjBase) (base_get b v)"
  by (cases v) (simp_all add: answers_def)

lemma vxml_get_answers: "answers v (declared_in v = CObjBase) (vxml_get b d v)"
  by (cases v) (simp_all add: answers_def)

lemma play_get_answers: "answers v (declared_in v \<in> {CObjBase, CObjPlay}) (play_get b d v)"
  by (cases v) (simp_all add: answers_def)

lemma record_get_answers: "answers v (declared_in v = CObjBase) (record_get b d v)"
  by (cases v) (simp_all add: answers_def)

lemma dialog_get_answers: "answers v (declared_in v \<in> {CObjBase, CObjDialog}) (dialog_get b d v)"
  by (cases v) (simp_all add: answers_def)

lemma menu_get_answers: "answers v (declared_in v \<in> {CObjBase, CObjDialog, CObjMenu}) (menu_get b d m v)"
  by (cases v) (simp_all add: answers_def)

lemma event_get_answers: "answers v (declared_in v = CObjBase) (event_get b d v)"
  by (cases v) (simp_all add: answers_def)

lemma next_get_answers:
  "v \<noteq> GetNextDialog \<or> m \<noteq> Indeterminate \<Longrightarrow> answers v (declared_in v = CObjBase) (next_get b d m v)"
  by (cases v; cases m) (simp_all add: answers_def)

lemma if_get_answers: "answers v (declared_in v = CObjBase) (if_get b d v)"
  by (cases v) (simp_all add: answers_def)

lemma transfer_get_answers: "answers v (declared_in v = CObjBase) (transfer_get b d v)"
  by (cases v) (simp_all add: answers_def)

text \<open>The three constructors that leave \<^verbatim>\<open>m_pNextDialog\<close> alone are the one way to read an indeterminate value.\<close>

fun next_unset :: "'a obj_class \<Rightarrow> bool" where
  "next_unset (Event d (Noinput m)) \<longleftrightarrow> m = Indeterminate"
| "next_unset (Event d (Nomatch m)) \<longleftrightarrow> m = Indeterminate"
| "next_unset (Event d (Catch m)) \<longleftrightarrow> m = Indeterminate"
| "next_unset c \<longleftrightarrow> False"

lemma declared_in_cases: "declared_in v \<in> {CObjBase, CObjPlay, CObjDialog, CObjMenu}"
  by (cases v) simp_all

lemma derives_declaring:
  "derives c CObjPlay \<longleftrightarrow> c \<in> {CObjPlay, CObjAudio, CObjPrompt}"
  "derives c CObjDialog \<longleftrightarrow> c \<in> {CObjDialog, CObjMenu, CObjForm}"
  "derives c CObjMenu \<longleftrightarrow> c = CObjMenu"
  by (cases c; simp add: derives_def numeral_3_eq_3)+

lemma derives_declared:
  "derives c (declared_in v) \<longleftrightarrow>
   declared_in v \<in> {CObjBase} \<union> (if c \<in> {CObjPlay, CObjAudio, CObjPrompt} then {CObjPlay} else {}) \<union>
     (if c \<in> {CObjDialog, CObjMenu, CObjForm} then {CObjDialog} else {}) \<union> (if c = CObjMenu then {CObjMenu} else {})"
  using declared_in_cases [of v] by (auto simp: derives_declaring)

lemma event_dispatch_answers:
  "\<not> (v = GetNextDialog \<and> next_unset (Event d c)) \<Longrightarrow> answers v (declared_in v = CObjBase) (event_dispatch b d c v)"
  by (cases c) (auto intro: event_get_answers next_get_answers)

lemma dispatch_get_answers:
  assumes "\<not> (v = GetNextDialog \<and> next_unset c)"
  shows "answers v (derives (cls_of c) (declared_in v)) (dispatch_get b c v)"
proof (cases c)
  case (Play d p)
  then show ?thesis using play_get_answers [of v b d] by (cases p) (simp_all add: derives_declared disj_ac)
next
  case (Dialog d k)
  then show ?thesis using dialog_get_answers [of v b d] menu_get_answers [of v b d] by (cases k) (simp_all add: derives_declared disj_ac)
next
  case (Event d k)
  then show ?thesis using event_dispatch_answers [of v d k b] assms by (cases k) (simp_all add: derives_declared)
next
  case (If d k)
  then show ?thesis using if_get_answers [of v b d] by (cases k) (simp_all add: derives_declared)
qed (simp_all add: derives_declared base_get_answers vxml_get_answers record_get_answers transfer_get_answers)

lemma next_unset_UB: "next_unset c \<Longrightarrow> \<exists>t. dispatch_get b c GetNextDialog = Inl (UB t)"
  by (cases c rule: next_unset.cases) simp_all

lemma no_body_next_unset: "next_unset c \<Longrightarrow> \<not> no_body c GetNextDialog"
  by (cases c rule: next_unset.cases) simp_all

lemma no_body_derives: "no_body c v \<Longrightarrow> derives (cls_of c) (declared_in v)"
  by (cases v) (auto simp: derives_declaring)

text \<open>What the code behind a declaration without body has to keep: C++ itself keeps it.\<close>

definition extern_typed :: "('t, 'a) extern \<Rightarrow> bool" where
  "extern_typed ext \<longleftrightarrow> (\<forall>v ob. no_body (m_class ob) v \<longrightarrow>
     rv_type (fst (ext v ob)) = ret_type v \<and> cls_of (m_class (snd (ext v ob))) = cls_of (m_class ob))"

text \<open>A virtual call that reads is defined exactly when the class has the method and the member it reads has a value.\<close>

lemma call_get_typed:
  assumes "extern_typed ext"
  shows "if derives (cls_of (m_class ob)) (declared_in v) \<and> \<not> (v = GetNextDialog \<and> next_unset (m_class ob))
    then \<exists>r ob1. call_get ext v ob = Inr (r, ob1) \<and> rv_type r = ret_type v \<and> cls_of (m_class ob1) = cls_of (m_class ob)
    else \<exists>t. call_get ext v ob = Inl (UB t)"
proof (cases "no_body (m_class ob) v")
  case True
  then have "\<not> (v = GetNextDialog \<and> next_unset (m_class ob))" using no_body_next_unset by blast
  moreover obtain r ob1 where e: "ext v ob = (r, ob1)" by (cases "ext v ob")
  moreover have "rv_type (fst (ext v ob)) = ret_type v \<and> cls_of (m_class (snd (ext v ob))) = cls_of (m_class ob)"
    using assms True unfolding extern_typed_def by blast
  ultimately show ?thesis using True no_body_derives [OF True] by (simp add: call_get_def)
next
  case False
  show ?thesis
  proof (cases "v = GetNextDialog \<and> next_unset (m_class ob)")
    case True
    then show ?thesis using False next_unset_UB [of "m_class ob" ob] by (auto simp: call_get_def)
  next
    case set: False
    show ?thesis
      using False set dispatch_get_answers [OF set, of ob]
      by (cases "derives (cls_of (m_class ob)) (declared_in v)") (auto simp: call_get_def answers_def no_method_def)
  qed
qed

section \<open>Counts and arrays\<close>

text \<open>
  The classes keep a count beside each array of pointers. A class is well formed when every count is the
  length of its array, and 0 where there is none.
\<close>

definition counted :: "int \<Rightarrow> ptr_array \<Rightarrow> bool" where
  "counted n a \<longleftrightarrow> n = (case a of None \<Rightarrow> 0 | Some xs \<Rightarrow> int (length xs))"

fun vxml_ok :: "vxml_data \<Rightarrow> bool" where
  "vxml_ok d \<longleftrightarrow> counted (vx_nNumOfDialogs d) (vx_pDialogs d) \<and> counted (vx_nNumOfProps d) (vx_pProps d) \<and>
     counted (vx_nNumOfVars d) (vx_pVars d) \<and> counted (vx_nNumOfAssigns d) (vx_pAssigns d) \<and>
     counted (vx_nNumOfIfs d) (vx_pIfs d) \<and> counted (vx_nNumOfTransfers d) (vx_pTransfers d)"

fun menu_ok :: "menu_data \<Rightarrow> bool" where
  "menu_ok m \<longleftrightarrow> counted (me_nNumOfChoices m) (me_pChoices m) \<and> counted (me_nNumOfEvents m) (me_pEvents m) \<and>
     counted (me_nNumOfPlays m) (me_pPlays m) \<and> counted (me_nNumOfAssigns m) (me_pAssigns m) \<and>
     counted (me_nNumOfIfs m) (me_pIfs m) \<and> counted (me_nNumOfTransfers m) (me_pTransfers m)"

fun class_ok :: "'a obj_class \<Rightarrow> bool" where
  "class_ok (Vxml d) \<longleftrightarrow> vxml_ok d"
| "class_ok (Play d (Prompt p)) \<longleftrightarrow> counted (pr_nNumOfPlays p) (pr_pPlays p)"
| "class_ok (Record d) \<longleftrightarrow> counted (rec_nNumOfPlays d) (rec_pPlays d)"
| "class_ok (Dialog d (Menu m)) \<longleftrightarrow> menu_ok m"
| "class_ok (Event d c) \<longleftrightarrow> counted (ev_nNumOfPlays d) (ev_pPlays d)"
| "class_ok (If d c) \<longleftrightarrow> counted (if_nNumOfAssigns d) (if_pAssigns d) \<and> counted (if_nNumOfIfs d) (if_pIfs d)"
| "class_ok (Transfer d) \<longleftrightarrow> counted (tr_nNumOfIfs d) (tr_pIfs d)"
| "class_ok _ \<longleftrightarrow> True"

text \<open>The counting method of each method that returns an array.\<close>

fun count_of :: "vget \<Rightarrow> vget option" where
  "count_of GetProperties = Some GetPropertyCount"
| "count_of GetVars = Some GetVarCount"
| "count_of GetAssigns = Some GetAssignCount"
| "count_of GetIfs = Some GetIfCount"
| "count_of GetTransfers = Some GetTransferCount"
| "count_of GetPrompts = Some GetNumberOfPrompts"
| "count_of GetEvents = Some GetNumberOfEvents"
| "count_of GetChoices = Some GetChoiceCount"
| "count_of _ = None"

definition counts :: "(vget \<Rightarrow> fault + ('t, 'a) rv) \<Rightarrow> vget \<Rightarrow> bool" where
  "counts f v \<longleftrightarrow> (case count_of v of
     None \<Rightarrow> True
   | Some w \<Rightarrow> (f v = Inl no_method \<and> f w = Inl no_method) \<or> (\<exists>n a. f w = Inr (RInt n) \<and> f v = Inr (RArr a) \<and> counted n a))"

lemma base_get_counts: "counts (base_get b) v"
  by (cases v) (simp_all add: counts_def counted_def)

lemma dialog_get_counts: "counts (dialog_get b d) v"
  by (cases v) (simp_all add: counts_def counted_def)

lemma menu_get_counts: "menu_ok m \<Longrightarrow> counts (menu_get b d m) v"
  by (cases v) (simp_all add: counts_def counted_def)

lemma vxml_get_counts: "vxml_ok d \<Longrightarrow> counts (vxml_get b d) v"
  by (cases v) (simp_all add: counts_def counted_def)

lemma play_get_counts: "counts (play_get b d) v"
  by (cases v) (simp_all add: counts_def counted_def)

lemma record_get_counts: "class_ok (Record d) \<Longrightarrow> counts (record_get b d) v"
  by (cases v) (simp_all add: counts_def counted_def)

lemma event_get_counts: "counted (ev_nNumOfPlays d) (ev_pPlays d) \<Longrightarrow> counts (event_dispatch b d c) v"
  by (cases v; cases c) (simp_all add: counts_def counted_def)

lemma if_get_counts: "class_ok (If d c) \<Longrightarrow> counts (if_get b d) v"
  by (cases v) (simp_all add: counts_def counted_def)

lemma transfer_get_counts: "class_ok (Transfer d) \<Longrightarrow> counts (transfer_get b d) v"
  by (cases v) (simp_all add: counts_def counted_def)

lemma dispatch_get_counts:
  assumes "class_ok c"
  shows "counts (dispatch_get b c) v"
proof -
  have "dispatch_get b c = (case c of
      Vxml d \<Rightarrow> vxml_get b d | Play d p \<Rightarrow> play_get b d | Record d \<Rightarrow> record_get b d
    | Dialog d k \<Rightarrow> (case k of Menu m \<Rightarrow> menu_get b d m | _ \<Rightarrow> dialog_get b d)
    | Event d k \<Rightarrow> event_dispatch b d k | If d k \<Rightarrow> if_get b d | Transfer d \<Rightarrow> transfer_get b d | _ \<Rightarrow> base_get b)"
    by (auto split: obj_class.split dialog_class.split intro!: ext)
  then show ?thesis
    using assms
    by (auto split: obj_class.split dialog_class.split
        intro: base_get_counts dialog_get_counts menu_get_counts vxml_get_counts play_get_counts
          record_get_counts event_get_counts if_get_counts transfer_get_counts)
qed

lemma dispatch_set_ok: "dispatch_set v c = Inr c1 \<Longrightarrow> cls_of c1 = cls_of c \<and> (class_ok c \<longrightarrow> class_ok c1)"
proof (cases c)
  case (Dialog d k)
  then show "dispatch_set v c = Inr c1 \<Longrightarrow> cls_of c1 = cls_of c \<and> (class_ok c \<longrightarrow> class_ok c1)"
    by (cases k; cases v) (auto split: option.splits)
next
  case (Event d k)
  then show "dispatch_set v c = Inr c1 \<Longrightarrow> cls_of c1 = cls_of c \<and> (class_ok c \<longrightarrow> class_ok c1)"
    by (cases k) auto
qed auto

end
