(* ===== verification/Vxml_Calls.thy ===== *)
theory Vxml_Calls
  imports Vxml_Objects
begin

text \<open>
  Method calls on VoiceXML objects: the inline methods of \<^verbatim>\<open>include/objects.hpp\<close> that are not virtual,
  sequences of calls on one object, assignment and construction, and the properties of the hierarchy.
\<close>

section \<open>The other methods\<close>

text \<open>
  The inline methods that are not virtual, class by class. Which one a call means is decided by the static
  type of the pointer, so a \<^verbatim>\<open>CObjTransfer\<close> has the \<^verbatim>\<open>SetName\<close> of its base and its own.
\<close>

datatype 't base_method =
    SetVersion int | set_type 't | SetName string | SetId int | SetParentId int | SetParentObject ptr | SetPyInterp ptr
  | GetVersion | get_type | get_name | GetId | GetParentId
  | GetDialogIdList | GetPropIdList | GetPlayIdList | GetChoiceIdList | GetEventIdList | GetVarIdList | GetAssignIdList
  | GetIfIdList | GetTransferIdList | SetVxmlObjects ptr | GetVxmlObjects

fun base_invoke :: "'t base_method \<Rightarrow> ('t, 'z) cobj_base_scheme \<Rightarrow> ('t, 'a) rv \<times> ('t, 'z) cobj_base_scheme" where
  "base_invoke (SetVersion v) b = (RVoid, b\<lparr>m_nVersion := v\<rparr>)"
| "base_invoke (set_type t) b = (RVoid, b\<lparr>m_type := t\<rparr>)"
| "base_invoke (SetName s) b = (RVoid, b\<lparr>m_name := s\<rparr>)"
| "base_invoke (SetId i) b = (RVoid, b\<lparr>m_nId := i\<rparr>)"
| "base_invoke (SetParentId i) b = (RVoid, b\<lparr>m_nParentId := i\<rparr>)"
| "base_invoke (SetParentObject p) b = (RVoid, b\<lparr>m_pParent := p\<rparr>)"
| "base_invoke (SetPyInterp p) b = (RVoid, b\<lparr>m_pPyInterp := p\<rparr>)"
| "base_invoke GetVersion b = (RInt (m_nVersion b), b)"
| "base_invoke get_type b = (RType (m_type b), b)"
| "base_invoke get_name b = (RStr (Some (m_name b)), b)"
| "base_invoke GetId b = (RInt (m_nId b), b)"
| "base_invoke GetParentId b = (RInt (m_nParentId b), b)"
| "base_invoke GetDialogIdList b = (RIds (m_pliDialogId b), b)"
| "base_invoke GetPropIdList b = (RIds (m_pliPropId b), b)"
| "base_invoke GetPlayIdList b = (RIds (m_pliPlayId b), b)"
| "base_invoke GetChoiceIdList b = (RIds (m_pliChoiceId b), b)"
| "base_invoke GetEventIdList b = (RIds (m_pliEventId b), b)"
| "base_invoke GetVarIdList b = (RIds (m_pliVarId b), b)"
| "base_invoke GetAssignIdList b = (RIds (m_pliAssignId b), b)"
| "base_invoke GetIfIdList b = (RIds (m_pliIfId b), b)"
| "base_invoke GetTransferIdList b = (RIds (m_pliTransferId b), b)"
| "base_invoke (SetVxmlObjects p) b = (RVoid, b\<lparr>m_pVxmlObjects := p\<rparr>)"
| "base_invoke GetVxmlObjects b = (RPtr (m_pVxmlObjects b), b)"

datatype vxml_method = SetVxmlVersion string | GetVxmlVersion

fun vxml_invoke :: "vxml_method \<Rightarrow> vxml_data \<Rightarrow> ('t, 'a) rv \<times> vxml_data" where
  "vxml_invoke (SetVxmlVersion s) d = (RVoid, d\<lparr>m_strVxmlVersion := s\<rparr>)"
| "vxml_invoke GetVxmlVersion d = (RStr (Some (m_strVxmlVersion d)), d)"

datatype property_method = SetPropName string | SetPropValue string | GetPropName | GetPropValue

fun property_invoke :: "property_method \<Rightarrow> property_data \<Rightarrow> ('t, 'a) rv \<times> property_data" where
  "property_invoke (SetPropName s) d = (RVoid, d\<lparr>m_strPropName := s\<rparr>)"
| "property_invoke (SetPropValue s) d = (RVoid, d\<lparr>m_strPropValue := s\<rparr>)"
| "property_invoke GetPropName d = (RStr (Some (m_strPropName d)), d)"
| "property_invoke GetPropValue d = (RStr (Some (m_strPropValue d)), d)"

datatype var_method = SetVarName string | SetVarValue string | GetVarName | GetVarValue

fun var_invoke :: "var_method \<Rightarrow> var_data \<Rightarrow> ('t, 'a) rv \<times> var_data" where
  "var_invoke (SetVarName s) d = (RVoid, d\<lparr>m_strVarName := s\<rparr>)"
| "var_invoke (SetVarValue s) d = (RVoid, d\<lparr>m_strVarValue := s\<rparr>)"
| "var_invoke GetVarName d = (RStr (Some (m_strVarName d)), d)"
| "var_invoke GetVarValue d = (RStr (Some (m_strVarValue d)), d)"

datatype assign_method = SetAssignName string | SetAssignValue string | GetAssignName | GetAssignValue

fun assign_invoke :: "assign_method \<Rightarrow> assign_data \<Rightarrow> ('t, 'a) rv \<times> assign_data" where
  "assign_invoke (SetAssignName s) d = (RVoid, d\<lparr>m_strAssignName := s\<rparr>)"
| "assign_invoke (SetAssignValue s) d = (RVoid, d\<lparr>m_strAssignValue := s\<rparr>)"
| "assign_invoke GetAssignName d = (RStr (Some (m_strAssignName d)), d)"
| "assign_invoke GetAssignValue d = (RStr (Some (m_strAssignValue d)), d)"

datatype play_method = Play_set_limit int | Play_count

fun play_invoke :: "play_method \<Rightarrow> play_data \<Rightarrow> ('t, 'a) rv \<times> play_data" where
  "play_invoke (Play_set_limit n) d = (RVoid, d\<lparr>pl_nCount := n\<rparr>)"
| "play_invoke Play_count d = (RInt (pl_nCount d), d)"

datatype audio_method = Audio_SetSource string | Audio_GetSource | Audio_SetExpr string | Audio_GetExpr

fun audio_invoke :: "audio_method \<Rightarrow> audio_data \<Rightarrow> ('t, 'a) rv \<times> audio_data" where
  "audio_invoke (Audio_SetSource s) d = (RVoid, d\<lparr>au_strSource := s\<rparr>)"
| "audio_invoke Audio_GetSource d = (RStr (Some (au_strSource d)), d)"
| "audio_invoke (Audio_SetExpr s) d = (RVoid, d\<lparr>au_strExpr := s\<rparr>)"
| "audio_invoke Audio_GetExpr d = (RStr (Some (au_strExpr d)), d)"

datatype prompt_method = Prompt_SetCondition string | SetTimeout int | Prompt_GetCondition | GetTimeout

fun prompt_invoke :: "prompt_method \<Rightarrow> prompt_data \<Rightarrow> ('t, 'a) rv \<times> prompt_data" where
  "prompt_invoke (Prompt_SetCondition s) d = (RVoid, d\<lparr>pr_strCond := s\<rparr>)"
| "prompt_invoke (SetTimeout t) d = (RVoid, d\<lparr>m_nTimeout := t\<rparr>)"
| "prompt_invoke Prompt_GetCondition d = (RStr (Some (pr_strCond d)), d)"
| "prompt_invoke GetTimeout d = (RInt (m_nTimeout d), d)"

datatype choice_method =
    Choice_SetEvent string | Choice_SetDtmf string | Choice_SetNextId int | Choice_GetNextDoc | Choice_GetNext
  | Choice_GetEvent | Choice_GetDtmf | Choice_GetNextId | Choice_SetExpr string | Choice_GetExpr

fun choice_invoke :: "choice_method \<Rightarrow> choice_data \<Rightarrow> ('t, 'a) rv \<times> choice_data" where
  "choice_invoke (Choice_SetEvent s) d = (RVoid, d\<lparr>ch_strEvent := s\<rparr>)"
| "choice_invoke (Choice_SetDtmf s) d = (RVoid, d\<lparr>ch_strDtmf := s\<rparr>)"
| "choice_invoke (Choice_SetNextId n) d = (RVoid, d\<lparr>ch_nNextId := n\<rparr>)"
| "choice_invoke Choice_GetNextDoc d = (RStr (Some (ch_strNextDoc d)), d)"
| "choice_invoke Choice_GetNext d = (RStr (Some (ch_strNext d)), d)"
| "choice_invoke Choice_GetEvent d = (RStr (Some (ch_strEvent d)), d)"
| "choice_invoke Choice_GetDtmf d = (RStr (Some (ch_strDtmf d)), d)"
| "choice_invoke Choice_GetNextId d = (RInt (ch_nNextId d), d)"
| "choice_invoke (Choice_SetExpr s) d = (RVoid, d\<lparr>ch_strExpr := s\<rparr>)"
| "choice_invoke Choice_GetExpr d = (RStr (Some (ch_strExpr d)), d)"

datatype 'a record_method =
    SetRecName string | SetMaxTime int | SetAudioType 'a | SetBeep bool | SetDtmfTerm bool
  | GetRecName | GetMaxTime | GetAudioType | GetBeep | GetDtmfTerm

fun record_invoke :: "'a record_method \<Rightarrow> 'a record_data \<Rightarrow> ('t, 'a) rv \<times> 'a record_data" where
  "record_invoke (SetRecName s) d = (RVoid, d\<lparr>rec_name := s\<rparr>)"
| "record_invoke (SetMaxTime t) d = (RVoid, d\<lparr>m_nMaxTime := t\<rparr>)"
| "record_invoke (SetAudioType a) d = (RVoid, d\<lparr>m_nAudioType := a\<rparr>)"
| "record_invoke (SetBeep b) d = (RVoid, d\<lparr>m_bBeep := b\<rparr>)"
| "record_invoke (SetDtmfTerm b) d = (RVoid, d\<lparr>m_bDtmfTerm := b\<rparr>)"
| "record_invoke GetRecName d = (RStr (Some (rec_name d)), d)"
| "record_invoke GetMaxTime d = (RInt (m_nMaxTime d), d)"
| "record_invoke GetAudioType d = (RAudio (m_nAudioType d), d)"
| "record_invoke GetBeep d = (RBool (m_bBeep d), d)"
| "record_invoke GetDtmfTerm d = (RBool (m_bDtmfTerm d), d)"

datatype dialog_method = SetDialogName string | GetDialogName

fun dialog_invoke :: "dialog_method \<Rightarrow> dialog_data \<Rightarrow> ('t, 'a) rv \<times> dialog_data" where
  "dialog_invoke (SetDialogName s) d = (RVoid, d\<lparr>m_strDialogName := s\<rparr>)"
| "dialog_invoke GetDialogName d = (RStr (Some (m_strDialogName d)), d)"

datatype menu_method =
    Menu_SetDtmf bool | SetWait bool | SetNumOfDtmfInput int | SetValidDtmfs string | SetRecordId int | Menu_GetDtmf | GetRecordId

fun menu_invoke :: "menu_method \<Rightarrow> menu_data \<Rightarrow> ('t, 'a) rv \<times> menu_data" where
  "menu_invoke (Menu_SetDtmf b) m = (RVoid, m\<lparr>m_bDtmf := b\<rparr>)"
| "menu_invoke (SetWait w) m = (RVoid, m\<lparr>m_bWait := w\<rparr>)"
| "menu_invoke (SetNumOfDtmfInput n) m = (RVoid, m\<lparr>m_nNumOfDtmfInput := n\<rparr>)"
| "menu_invoke (SetValidDtmfs s) m = (RVoid, m\<lparr>m_strValidDtmfs := s\<rparr>)"
| "menu_invoke (SetRecordId i) m = (RVoid, m\<lparr>m_nRecordId := i\<rparr>)"
| "menu_invoke Menu_GetDtmf m = (RBool (m_bDtmf m), m)"
| "menu_invoke GetRecordId m = (RInt (m_nRecordId m), m)"

datatype event_method =
  Event_set_limit int | SetEventName string | Event_SetCondition string | Event_count | GetEventName | Event_GetCondition

fun event_invoke :: "event_method \<Rightarrow> event_data \<Rightarrow> ('t, 'a) rv \<times> event_data" where
  "event_invoke (Event_set_limit n) d = (RVoid, d\<lparr>ev_nCount := n\<rparr>)"
| "event_invoke (SetEventName s) d = (RVoid, d\<lparr>m_strEventName := s\<rparr>)"
| "event_invoke (Event_SetCondition s) d = (RVoid, d\<lparr>ev_strCond := s\<rparr>)"
| "event_invoke Event_count d = (RInt (ev_nCount d), d)"
| "event_invoke GetEventName d = (RStr (Some (m_strEventName d)), d)"
| "event_invoke Event_GetCondition d = (RStr (Some (ev_strCond d)), d)"

datatype goto_method =
    SetNextItem string | Goto_SetNextId int | SetNextItemId int | Goto_GetNextDoc | Goto_GetNext | GetNextItem | Goto_GetNextId
  | GetNextItemId | Goto_SetExpr string | Goto_GetExpr | SetExprItem string | GetExprItem

fun goto_invoke :: "goto_method \<Rightarrow> goto_data \<Rightarrow> ('t, 'a) rv \<times> goto_data" where
  "goto_invoke (SetNextItem s) d = (RVoid, d\<lparr>m_strNextItem := s\<rparr>)"
| "goto_invoke (Goto_SetNextId n) d = (RVoid, d\<lparr>go_nNextId := n\<rparr>)"
| "goto_invoke (SetNextItemId n) d = (RVoid, d\<lparr>m_nNextItemId := n\<rparr>)"
| "goto_invoke Goto_GetNextDoc d = (RStr (Some (go_strNextDoc d)), d)"
| "goto_invoke Goto_GetNext d = (RStr (Some (go_strNext d)), d)"
| "goto_invoke GetNextItem d = (RStr (Some (m_strNextItem d)), d)"
| "goto_invoke Goto_GetNextId d = (RInt (go_nNextId d), d)"
| "goto_invoke GetNextItemId d = (RInt (m_nNextItemId d), d)"
| "goto_invoke (Goto_SetExpr s) d = (RVoid, d\<lparr>go_strExpr := s\<rparr>)"
| "goto_invoke Goto_GetExpr d = (RStr (Some (go_strExpr d)), d)"
| "goto_invoke (SetExprItem s) d = (RVoid, d\<lparr>m_strExprItem := s\<rparr>)"
| "goto_invoke GetExprItem d = (RStr (Some (m_strExprItem d)), d)"

datatype script_method =
  Script_SetSource string | Script_GetSource | SetCharSet string | GetCharSet | SetBlock string | GetBlock

fun script_invoke :: "script_method \<Rightarrow> script_data \<Rightarrow> ('t, 'a) rv \<times> script_data" where
  "script_invoke (Script_SetSource s) d = (RVoid, d\<lparr>sc_strSource := s\<rparr>)"
| "script_invoke Script_GetSource d = (RStr (Some (sc_strSource d)), d)"
| "script_invoke (SetCharSet s) d = (RVoid, d\<lparr>m_strCharset := s\<rparr>)"
| "script_invoke GetCharSet d = (RStr (Some (m_strCharset d)), d)"
| "script_invoke (SetBlock s) d = (RVoid, d\<lparr>m_strBlock := s\<rparr>)"
| "script_invoke GetBlock d = (RStr (Some (m_strBlock d)), d)"

datatype if_method = If_SetCondition string | If_GetCondition

fun if_invoke :: "if_method \<Rightarrow> if_data \<Rightarrow> ('t, 'a) rv \<times> if_data" where
  "if_invoke (If_SetCondition s) d = (RVoid, d\<lparr>if_strCond := s\<rparr>)"
| "if_invoke If_GetCondition d = (RStr (Some (if_strCond d)), d)"

datatype transfer_method =
  SetDest string | GetDest | SetConnectTimeout int | GetConnectTimeout | Transfer_SetName string | Transfer_name

fun transfer_invoke :: "transfer_method \<Rightarrow> transfer_data \<Rightarrow> ('t, 'a) rv \<times> transfer_data" where
  "transfer_invoke (SetDest s) d = (RVoid, d\<lparr>m_strDestExpr := s\<rparr>)"
| "transfer_invoke GetDest d = (RStr (Some (m_strDestExpr d)), d)"
| "transfer_invoke (SetConnectTimeout t) d = (RVoid, d\<lparr>m_nConnectTimeout := t\<rparr>)"
| "transfer_invoke GetConnectTimeout d = (RInt (m_nConnectTimeout d), d)"
| "transfer_invoke (Transfer_SetName s) d = (RVoid, d\<lparr>tr_name := s\<rparr>)"
| "transfer_invoke Transfer_name d = (RStr (Some (tr_name d)), d)"

section \<open>Calls\<close>

datatype ('t, 'a) call =
    Base "'t base_method" | Get vget | Set vset
  | OnVxml vxml_method | OnProperty property_method | OnVar var_method | OnAssign assign_method | OnPlay play_method
  | OnAudio audio_method | OnPrompt prompt_method | OnChoice choice_method | OnRecord "'a record_method"
  | OnDialog dialog_method | OnMenu menu_method | OnEvent event_method | OnGoto goto_method | OnScript script_method
  | OnIf if_method | OnTransfer transfer_method

text \<open>The class of the pointer a call is made through.\<close>

fun static_class :: "('t, 'a) call \<Rightarrow> cls" where
  "static_class (Base m) = CObjBase"
| "static_class (Get v) = declared_in v"
| "static_class (Set v) = CObjBase"
| "static_class (OnVxml m) = CObjVxml"
| "static_class (OnProperty m) = CObjProperty"
| "static_class (OnVar m) = CObjVar"
| "static_class (OnAssign m) = CObjAssign"
| "static_class (OnPlay m) = CObjPlay"
| "static_class (OnAudio m) = CObjAudio"
| "static_class (OnPrompt m) = CObjPrompt"
| "static_class (OnChoice m) = CObjChoice"
| "static_class (OnRecord m) = CObjRecord"
| "static_class (OnDialog m) = CObjDialog"
| "static_class (OnMenu m) = CObjMenu"
| "static_class (OnEvent m) = CObjEvent"
| "static_class (OnGoto m) = CObjGoto"
| "static_class (OnScript m) = CObjScript"
| "static_class (OnIf m) = CObjIf"
| "static_class (OnTransfer m) = CObjTransfer"

text \<open>A method that is not virtual works on the part of the object its class declares, whatever the object adds to it.\<close>

fun class_invoke :: "('t, 'a) call \<Rightarrow> 'a obj_class \<Rightarrow> (('t, 'a) rv \<times> 'a obj_class) option" where
  "class_invoke (OnVxml m) c = (case c of Vxml d \<Rightarrow> Some (map_prod id Vxml (vxml_invoke m d)) | _ \<Rightarrow> None)"
| "class_invoke (OnProperty m) c = (case c of Property d \<Rightarrow> Some (map_prod id Property (property_invoke m d)) | _ \<Rightarrow> None)"
| "class_invoke (OnVar m) c = (case c of Var d \<Rightarrow> Some (map_prod id Var (var_invoke m d)) | _ \<Rightarrow> None)"
| "class_invoke (OnAssign m) c = (case c of Assign d \<Rightarrow> Some (map_prod id Assign (assign_invoke m d)) | _ \<Rightarrow> None)"
| "class_invoke (OnPlay m) c = (case c of Play d k \<Rightarrow> Some (map_prod id (\<lambda>d. Play d k) (play_invoke m d)) | _ \<Rightarrow> None)"
| "class_invoke (OnAudio m) c = (case c of Play d (Audio a) \<Rightarrow> Some (map_prod id (\<lambda>a. Play d (Audio a)) (audio_invoke m a)) | _ \<Rightarrow> None)"
| "class_invoke (OnPrompt m) c = (case c of Play d (Prompt p) \<Rightarrow> Some (map_prod id (\<lambda>p. Play d (Prompt p)) (prompt_invoke m p)) | _ \<Rightarrow> None)"
| "class_invoke (OnChoice m) c = (case c of Choice d \<Rightarrow> Some (map_prod id Choice (choice_invoke m d)) | _ \<Rightarrow> None)"
| "class_invoke (OnRecord m) c = (case c of Record d \<Rightarrow> Some (map_prod id Record (record_invoke m d)) | _ \<Rightarrow> None)"
| "class_invoke (OnDialog m) c = (case c of Dialog d k \<Rightarrow> Some (map_prod id (\<lambda>d. Dialog d k) (dialog_invoke m d)) | _ \<Rightarrow> None)"
| "class_invoke (OnMenu m) c = (case c of Dialog d (Menu n) \<Rightarrow> Some (map_prod id (\<lambda>n. Dialog d (Menu n)) (menu_invoke m n)) | _ \<Rightarrow> None)"
| "class_invoke (OnEvent m) c = (case c of Event d k \<Rightarrow> Some (map_prod id (\<lambda>d. Event d k) (event_invoke m d)) | _ \<Rightarrow> None)"
| "class_invoke (OnGoto m) c = (case c of Goto d \<Rightarrow> Some (map_prod id Goto (goto_invoke m d)) | _ \<Rightarrow> None)"
| "class_invoke (OnScript m) c = (case c of Script d \<Rightarrow> Some (map_prod id Script (script_invoke m d)) | _ \<Rightarrow> None)"
| "class_invoke (OnIf m) c = (case c of If d k \<Rightarrow> Some (map_prod id (\<lambda>d. If d k) (if_invoke m d)) | _ \<Rightarrow> None)"
| "class_invoke (OnTransfer m) c = (case c of Transfer d \<Rightarrow> Some (map_prod id Transfer (transfer_invoke m d)) | _ \<Rightarrow> None)"
| "class_invoke _ c = None"

fun invoke :: "('t, 'a) extern \<Rightarrow> ('t, 'a) call \<Rightarrow> ('t, 'a) vobj \<Rightarrow> fault + ('t, 'a) rv \<times> ('t, 'a) vobj" where
  "invoke ext (Base m) ob = Inr (base_invoke m ob)"
| "invoke ext (Get v) ob = call_get ext v ob"
| "invoke ext (Set v) ob = (case call_set v ob of Inl f \<Rightarrow> Inl f | Inr ob1 \<Rightarrow> Inr (RVoid, ob1))"
| "invoke ext m ob =
     (case class_invoke m (m_class ob) of
        None \<Rightarrow> Inl no_method
      | Some (r, c) \<Rightarrow> Inr (r, ob\<lparr>m_class := c\<rparr>))"

fun run :: "('t, 'a) extern \<Rightarrow> ('t, 'a) call list \<Rightarrow> ('t, 'a) vobj \<Rightarrow> fault + ('t, 'a) vobj" where
  "run ext [] ob = Inr ob"
| "run ext (m # ms) ob = (case invoke ext m ob of Inl f \<Rightarrow> Inl f | Inr (r, ob1) \<Rightarrow> run ext ms ob1)"

lemma base_invoke_class: "base_invoke m (ob :: ('t, 'a) vobj) = (r, ob1) \<Longrightarrow> m_class ob1 = m_class ob"
  by (cases m) auto

text \<open>The \<^verbatim>\<open>int\<close> counter of the prompts is the only arithmetic in these methods.\<close>

fun prompts_full :: "'a obj_class \<Rightarrow> bool" where
  "prompts_full (Dialog d k) \<longleftrightarrow> \<not> in_int32 (m_nPromptCount d + 1)"
| "prompts_full c \<longleftrightarrow> False"

lemma dispatch_set_defined:
  "(\<exists>c1. dispatch_set v c = Inr c1) \<longleftrightarrow> \<not> (v = IncrPromptCount \<and> prompts_full c)"
  "dispatch_set v c = Inl f \<Longrightarrow> \<exists>t. f = UB t"
proof -
  have "dispatch_set v c = Inl f \<Longrightarrow> \<exists>t. f = UB t"
    "(\<exists>c1. dispatch_set v c = Inr c1) \<longleftrightarrow> \<not> (v = IncrPromptCount \<and> prompts_full c)" for f
    by (cases "(v, c)" rule: dispatch_set.cases; cases v; auto simp: add_int32_def split: if_splits)+
  then show "(\<exists>c1. dispatch_set v c = Inr c1) \<longleftrightarrow> \<not> (v = IncrPromptCount \<and> prompts_full c)"
    "dispatch_set v c = Inl f \<Longrightarrow> \<exists>t. f = UB t" by blast+
qed

lemma cls_derives:
  "derives (cls_of c) CObjVxml \<longleftrightarrow> (\<exists>d. c = Vxml d)"
  "derives (cls_of c) CObjProperty \<longleftrightarrow> (\<exists>d. c = Property d)"
  "derives (cls_of c) CObjVar \<longleftrightarrow> (\<exists>d. c = Var d)"
  "derives (cls_of c) CObjAssign \<longleftrightarrow> (\<exists>d. c = Assign d)"
  "derives (cls_of c) CObjPlay \<longleftrightarrow> (\<exists>d k. c = Play d k)"
  "derives (cls_of c) CObjAudio \<longleftrightarrow> (\<exists>d a. c = Play d (Audio a))"
  "derives (cls_of c) CObjPrompt \<longleftrightarrow> (\<exists>d p. c = Play d (Prompt p))"
  "derives (cls_of c) CObjChoice \<longleftrightarrow> (\<exists>d. c = Choice d)"
  "derives (cls_of c) CObjRecord \<longleftrightarrow> (\<exists>d. c = Record d)"
  "derives (cls_of c) CObjDialog \<longleftrightarrow> (\<exists>d k. c = Dialog d k)"
  "derives (cls_of c) CObjMenu \<longleftrightarrow> (\<exists>d m. c = Dialog d (Menu m))"
  "derives (cls_of c) CObjEvent \<longleftrightarrow> (\<exists>d k. c = Event d k)"
  "derives (cls_of c) CObjGoto \<longleftrightarrow> (\<exists>d. c = Goto d)"
  "derives (cls_of c) CObjScript \<longleftrightarrow> (\<exists>d. c = Script d)"
  "derives (cls_of c) CObjIf \<longleftrightarrow> (\<exists>d k. c = If d k)"
  "derives (cls_of c) CObjTransfer \<longleftrightarrow> (\<exists>d. c = Transfer d)"
  by (cases c; (simp add: derives_def numeral_3_eq_3; fail)?;
      (rename_tac k, case_tac k; simp add: derives_def numeral_3_eq_3)?)+

definition nonvirtual :: "('t, 'a) call \<Rightarrow> bool" where
  "nonvirtual m \<longleftrightarrow> \<not> (\<exists>x. m = Base x) \<and> \<not> (\<exists>v. m = Get v) \<and> \<not> (\<exists>v. m = Set v)"

lemma class_invoke_defined:
  "nonvirtual m \<Longrightarrow> class_invoke m c \<noteq> None \<longleftrightarrow> derives (cls_of c) (static_class m)"
  by (cases m) (auto simp: cls_derives nonvirtual_def split: obj_class.splits play_class.splits dialog_class.splits)

text \<open>The methods change no count, no array and no next dialog.\<close>

lemma vxml_invoke_ok: "vxml_ok d \<Longrightarrow> vxml_ok (snd (vxml_invoke m d))"
  by (cases m) simp_all

lemma menu_invoke_ok: "menu_ok d \<Longrightarrow> menu_ok (snd (menu_invoke m d))"
  by (cases m) simp_all

lemma record_invoke_keeps: "rec_nNumOfPlays (snd (record_invoke m d)) = rec_nNumOfPlays d" "rec_pPlays (snd (record_invoke m d)) = rec_pPlays d"
  by (cases m; simp)+

lemma event_invoke_keeps: "ev_nNumOfPlays (snd (event_invoke m d)) = ev_nNumOfPlays d" "ev_pPlays (snd (event_invoke m d)) = ev_pPlays d"
  by (cases m; simp)+

lemma if_invoke_keeps:
  "if_nNumOfAssigns (snd (if_invoke m d)) = if_nNumOfAssigns d" "if_pAssigns (snd (if_invoke m d)) = if_pAssigns d"
  "if_nNumOfIfs (snd (if_invoke m d)) = if_nNumOfIfs d" "if_pIfs (snd (if_invoke m d)) = if_pIfs d"
  by (cases m; simp)+

lemma transfer_invoke_keeps: "tr_nNumOfIfs (snd (transfer_invoke m d)) = tr_nNumOfIfs d" "tr_pIfs (snd (transfer_invoke m d)) = tr_pIfs d"
  by (cases m; simp)+

lemma prompt_invoke_keeps: "pr_nNumOfPlays (snd (prompt_invoke m d)) = pr_nNumOfPlays d" "pr_pPlays (snd (prompt_invoke m d)) = pr_pPlays d"
  by (cases m; simp)+

lemmas invoke_keeps =
  vxml_invoke_ok menu_invoke_ok record_invoke_keeps event_invoke_keeps if_invoke_keeps transfer_invoke_keeps prompt_invoke_keeps

lemma map_prod_Pair: "map_prod id f p = (r, c) \<longleftrightarrow> r = fst p \<and> c = f (snd p)"
  by (cases p) auto

lemma next_unset_event: "next_unset (Event d k) \<longleftrightarrow> next_unset (Event d1 k)"
  by (cases k) simp_all

lemma class_invoke_ok:
  assumes "class_invoke m c = Some (r, c1)"
  shows "cls_of c1 = cls_of c \<and> (class_ok c \<longrightarrow> class_ok c1) \<and> next_unset c1 = next_unset c"
proof (cases c)
  case (Play d k)
  then show ?thesis
    using assms by (cases m; cases k) (auto simp: map_prod_Pair invoke_keeps simp del: play_invoke.simps)
next
  case (Dialog d k)
  then show ?thesis
    using assms by (cases m; cases k) (auto simp: map_prod_Pair invoke_keeps simp del: menu_ok.simps)
next
  case (Event d k)
  then show ?thesis using assms next_unset_event by (cases m) (auto simp: map_prod_Pair invoke_keeps)
qed (use assms in \<open>cases m; auto simp: map_prod_Pair invoke_keeps simp del: vxml_ok.simps\<close>)+

lemma invoke_nonvirtual:
  "nonvirtual m \<Longrightarrow> invoke ext m ob = (case class_invoke m (m_class ob) of None \<Rightarrow> Inl no_method | Some (r, c) \<Rightarrow> Inr (r, ob\<lparr>m_class := c\<rparr>))"
  by (cases m) (simp_all add: nonvirtual_def)

lemma call_cases:
  obtains (base) x where "m = Base x" | (get) v where "m = Get v" | (set) v where "m = Set v" | (other) "nonvirtual m"
  unfolding nonvirtual_def by blast

section \<open>Properties\<close>

text \<open>The two ways a well-typed call can still be undefined.\<close>

fun stuck :: "('t, 'a) call \<Rightarrow> 'a obj_class \<Rightarrow> bool" where
  "stuck (Get v) c \<longleftrightarrow> v = GetNextDialog \<and> next_unset c"
| "stuck (Set v) c \<longleftrightarrow> v = IncrPromptCount \<and> prompts_full c"
| "stuck m c \<longleftrightarrow> False"

lemma call_set_typed:
  "if stuck (Set v) (m_class ob) then \<exists>t. call_set v ob = Inl (UB t)
   else \<exists>ob1. call_set v ob = Inr ob1 \<and> cls_of (m_class ob1) = cls_of (m_class ob) \<and> (class_ok (m_class ob) \<longrightarrow> class_ok (m_class ob1))"
proof (cases "dispatch_set v (m_class ob)")
  case (Inl f)
  moreover obtain t where "f = UB t" using dispatch_set_defined(2) [OF Inl] by blast
  ultimately show ?thesis using dispatch_set_defined(1) [of v "m_class ob"] by (auto simp: call_set_def)
next
  case (Inr c1)
  then show ?thesis using dispatch_set_ok [OF Inr] dispatch_set_defined(1) [of v "m_class ob"] by (auto simp: call_set_def)
qed

text \<open>
  type safety of method calls, and its only holes. A call through a pointer is defined exactly when
  the object's class derives from the class the method is called for (so not after a wrong downcast), it
  is not \<^verbatim>\<open>GetNextDialog\<close> on a \<^verbatim>\<open>CObjNoinput\<close>, \<^verbatim>\<open>CObjNomatch\<close> or \<^verbatim>\<open>CObjCatch\<close> that was never given a next
  dialog, and it does not count a prompt beyond the largest \<^verbatim>\<open>int\<close>. Then a virtual method returns
  a value of its declared type and the object keeps its class.
\<close>

theorem vxml_calls_typed:
  assumes "extern_typed ext"
  shows "if derives (cls_of (m_class ob)) (static_class m) \<and> \<not> stuck m (m_class ob)
    then \<exists>r ob1. invoke ext m ob = Inr (r, ob1) \<and> cls_of (m_class ob1) = cls_of (m_class ob) \<and>
      (\<forall>v. m = Get v \<longrightarrow> rv_type r = ret_type v)
    else \<exists>t. invoke ext m ob = Inl (UB t)"
proof (cases m rule: call_cases)
  case (base x)
  obtain r ob1 where i: "invoke ext m ob = Inr (r, ob1)" "m_class ob1 = m_class ob"
    using base base_invoke_class by (metis invoke.simps(1) surj_pair)
  then show ?thesis using base by simp
next
  case (get v)
  then show ?thesis using call_get_typed [OF assms, of ob v] by (auto split: if_splits)
next
  case (set v)
  then show ?thesis using call_set_typed [of v ob] by (auto split: if_splits)
next
  case other
  then have "\<not> stuck m (m_class ob)" "\<not> (\<exists>v. m = Get v)" by (cases m; simp add: nonvirtual_def)+
  then show ?thesis
    using class_invoke_defined [OF other, of "m_class ob"] class_invoke_ok [of m "m_class ob"]
    by (cases "class_invoke m (m_class ob)") (auto simp: invoke_nonvirtual [OF other] no_method_def split: prod.splits)
qed

text \<open>What is asked of the code without body so that counts stay true.\<close>

definition extern_counts :: "('t, 'a) extern \<Rightarrow> bool" where
  "extern_counts ext \<longleftrightarrow> (\<forall>v ob. class_ok (m_class ob) \<longrightarrow> class_ok (m_class (snd (ext v ob))))"

lemma invoke_ok:
  assumes "extern_counts ext" "class_ok (m_class ob)" "invoke ext m ob = Inr (r, ob1)"
  shows "class_ok (m_class ob1)"
proof (cases m rule: call_cases)
  case (base x)
  then show ?thesis using assms(2,3) base_invoke_class by fastforce
next
  case (get v)
  then have "call_get ext v ob = Inr (r, ob1)" using assms(3) by simp
  then show ?thesis
    using assms(1,2) by (auto simp: call_get_def extern_counts_def split: if_splits sum.splits) (metis snd_conv)
next
  case (set v)
  then show ?thesis using call_set_typed [of v ob] assms(2,3) by (auto split: if_splits sum.splits)
next
  case other
  then show ?thesis
    using class_invoke_ok [of m "m_class ob"] assms(2,3)
    by (cases "class_invoke m (m_class ob)") (auto simp: invoke_nonvirtual [OF other] split: prod.splits)
qed

lemma run_ok:
  assumes "extern_counts ext"
  shows "class_ok (m_class ob) \<Longrightarrow> run ext ms ob = Inr ob1 \<Longrightarrow> class_ok (m_class ob1)"
proof (induction ms arbitrary: ob)
  case (Cons m ms)
  obtain r ob2 where i: "invoke ext m ob = Inr (r, ob2)" "run ext ms ob2 = Inr ob1"
    using Cons.prems(2) by (auto split: sum.splits)
  show ?case using Cons.IH [OF invoke_ok [OF assms Cons.prems(1) i(1)] i(2)] .
qed simp

lemma count_has_body: "count_of v = Some w \<Longrightarrow> \<not> no_body c v \<and> \<not> no_body c w"
  by (cases v) auto

text \<open>
  loops over an object's parts stay inside its arrays. After any sequence of method calls on a well-formed
  object, whatever its class, the value of each counting method (\<^verbatim>\<open>GetIfCount\<close>, \<^verbatim>\<open>GetNumberOfPrompts\<close> and the
  others) is not larger than the array its partner returns, so that an index below the count is an index of
  the array; where a class does not override the pair, the count is 0.
\<close>

theorem vxml_arrays_in_bounds:
  assumes "extern_counts ext" "class_ok (m_class ob)" "run ext ms ob = Inr ob1"
    "count_of v = Some w" "derives (cls_of (m_class ob1)) (declared_in v)"
  shows "\<exists>n a. call_get ext w ob1 = Inr (RInt n, ob1) \<and> call_get ext v ob1 = Inr (RArr a, ob1) \<and> 0 \<le> n \<and>
    (\<forall>i. 0 \<le> i \<and> i < n \<longrightarrow> (\<exists>xs. a = Some xs \<and> nat i < length xs))"
proof -
  have ok: "class_ok (m_class ob1)" using run_ok [OF assms(1-3)] .
  have ng: "v \<noteq> GetNextDialog" using assms(4) by auto
  have "dispatch_get ob1 (m_class ob1) v \<noteq> Inl no_method"
    using dispatch_get_answers [of v "m_class ob1" ob1] ng assms(5) by (auto simp: answers_def)
  then obtain n a where "dispatch_get ob1 (m_class ob1) w = Inr (RInt n)" "dispatch_get ob1 (m_class ob1) v = Inr (RArr a)" "counted n a"
    using dispatch_get_counts [OF ok, of ob1 v] assms(4) by (auto simp: counts_def)
  moreover have "0 \<le> n \<and> (\<forall>i. 0 \<le> i \<and> i < n \<longrightarrow> (\<exists>xs. a = Some xs \<and> nat i < length xs))"
    using \<open>counted n a\<close> by (auto simp: counted_def split: option.splits)
  ultimately show ?thesis using count_has_body [OF assms(4)] by (auto simp: call_get_def)
qed


lemma same_class [simp]: "ob\<lparr>m_class := m_class ob\<rparr> = ob"
  by (cases ob) simp

lemma base_get_update [simp]: "base_get (ob\<lparr>m_class := c\<rparr>) v = base_get ob v"
  by (cases v) simp_all




text \<open>
  an object has two names. \<^verbatim>\<open>CObjTransfer\<close> declares \<^verbatim>\<open>name_\<close>, \<^verbatim>\<open>SetName\<close> and \<^verbatim>\<open>name\<close> again without
  \<^verbatim>\<open>virtual\<close>: the name given through a \<^verbatim>\<open>CObjTransfer*\<close> is not the one code that holds a \<^verbatim>\<open>CObjBase*\<close>
  (a search by name, say) sees, and the other way round. \<^verbatim>\<open>SetRecName\<close> of \<^verbatim>\<open>CObjRecord\<close> is the same.
\<close>

theorem vxml_hidden_names:
  "invoke ext (OnTransfer (Transfer_SetName s)) ob = Inr (r, ob1) \<Longrightarrow>
     invoke ext (OnTransfer Transfer_name) ob1 = Inr (RStr (Some s), ob1) \<and>
     invoke ext (Base get_name) ob1 = Inr (RStr (Some (m_name ob)), ob1)"
  by (cases "m_class ob") auto

section \<open>Construction and assignment\<close>

text \<open>
  The inline constructors. The constructors of \<^verbatim>\<open>CObjBase\<close> and \<^verbatim>\<open>CObjEvent\<close> have no body in the header: what
  they build is the argument \<open>mk_base\<close> or \<open>mk_event\<close>, and the type codes are arguments too.
\<close>

definition make_obj :: "'t cobj_base \<Rightarrow> 'a obj_class \<Rightarrow> ('t, 'a) vobj" where
  "make_obj b c = cobj_base.extend b \<lparr>m_class = c\<rparr>"

definition new_play :: "('t \<Rightarrow> int \<Rightarrow> string option \<Rightarrow> 't cobj_base) \<Rightarrow> 't \<Rightarrow> int \<Rightarrow> string option \<Rightarrow> ('t, 'a) vobj" where
  "new_play mk_base nType nId pszName = make_obj (mk_base nType nId pszName) (Play \<lparr>pl_nCount = 1\<rparr> PlainPlay)"

definition new_noinput :: "('t \<Rightarrow> int \<Rightarrow> 't cobj_base \<times> event_data) \<Rightarrow> 't \<Rightarrow> int \<Rightarrow> ('t, 'a) vobj" where
  "new_noinput mk_event vxmlobj_noinput nId =
     (let (b, d) = mk_event vxmlobj_noinput nId in make_obj b (Event d (Noinput Indeterminate)))"

definition new_nomatch :: "('t \<Rightarrow> int \<Rightarrow> 't cobj_base \<times> event_data) \<Rightarrow> 't \<Rightarrow> int \<Rightarrow> ('t, 'a) vobj" where
  "new_nomatch mk_event vxmlobj_nomatch nId =
     (let (b, d) = mk_event vxmlobj_nomatch nId in make_obj b (Event d (Nomatch Indeterminate)))"

definition new_exit :: "('t \<Rightarrow> int \<Rightarrow> 't cobj_base \<times> event_data) \<Rightarrow> 't \<Rightarrow> int \<Rightarrow> ('t, 'a) vobj" where
  "new_exit mk_event vxmlobj_exit nId = (let (b, d) = mk_event vxmlobj_exit nId in make_obj b (Event d Exit))"

definition new_error :: "('t \<Rightarrow> int \<Rightarrow> 't cobj_base \<times> event_data) \<Rightarrow> 't \<Rightarrow> int \<Rightarrow> ('t, 'a) vobj" where
  "new_error mk_event vxmlobj_error nId = (let (b, d) = mk_event vxmlobj_error nId in make_obj b (Event d Error))"

definition new_catch :: "('t \<Rightarrow> int \<Rightarrow> 't cobj_base \<times> event_data) \<Rightarrow> 't \<Rightarrow> int \<Rightarrow> ('t, 'a) vobj" where
  "new_catch mk_event vxmlobj_catch nId =
     (let (b, d) = mk_event vxmlobj_catch nId in make_obj b (Event d (Catch Indeterminate)))"

text \<open>
  Assignment: \<^verbatim>\<open>CObjDialog\<close> assigns its base and the dialog name; the event classes assign their base and
  nothing of their own. The assignments of \<^verbatim>\<open>CObjBase\<close> and \<^verbatim>\<open>CObjEvent\<close> have no body: \<open>base_asg\<close> and
  \<open>event_asg\<close> say what they make of the target's part, given the source's.
\<close>

definition base_part :: "('t, 'a) vobj \<Rightarrow> 't cobj_base" where
  "base_part ob = cobj_base.truncate ob"

definition dialog_assign ::
  "('t cobj_base \<Rightarrow> 't cobj_base \<Rightarrow> 't cobj_base) \<Rightarrow> ('t, 'a) vobj \<Rightarrow> ('t, 'a) vobj \<Rightarrow> fault + ('t, 'a) vobj" where
  "dialog_assign base_asg ob src =
     (case (m_class ob, m_class src) of
        (Dialog d k, Dialog e _) \<Rightarrow>
          Inr (make_obj (base_asg (base_part ob) (base_part src)) (Dialog (d\<lparr>m_strDialogName := m_strDialogName e\<rparr>) k))
      | _ \<Rightarrow> Inl no_method)"

definition event_assign ::
  "('t cobj_base \<times> event_data \<Rightarrow> 't cobj_base \<times> event_data \<Rightarrow> 't cobj_base \<times> event_data) \<Rightarrow>
   ('t, 'a) vobj \<Rightarrow> ('t, 'a) vobj \<Rightarrow> fault + ('t, 'a) vobj" where
  "event_assign event_asg ob src =
     (case (m_class ob, m_class src) of
        (Event d k, Event e _) \<Rightarrow>
          (let (b1, d1) = event_asg (base_part ob, d) (base_part src, e) in Inr (make_obj b1 (Event d1 k)))
      | _ \<Rightarrow> Inl no_method)"

lemma m_class_make_obj [simp]: "m_class (make_obj b c) = c"
  by (simp add: make_obj_def cobj_base.defs)

text \<open>
  a copied handler has no next dialog. Whatever the base classes do, a new handler for no input, no match or
  caught events reads an uninitialised pointer when it is asked for its next dialog, and still does
  after it was assigned from a handler that has one: \<^verbatim>\<open>operator=\<close> copies the base part only. One call of
  \<^verbatim>\<open>SetNextDialog\<close> makes it well defined.
\<close>

theorem vxml_handler_copy_unset:
  fixes ob :: "('t, 'a) vobj"
  assumes "ob \<in> {new_noinput mk_event ty i, new_nomatch mk_event ty i, new_catch mk_event ty i}"
    "m_class src = Event e k"
  shows "(\<exists>t. call_get ext GetNextDialog ob = Inl (UB t)) \<and>
    (\<exists>ob1. event_assign asg ob src = Inr ob1 \<and> (\<exists>t. call_get ext GetNextDialog ob1 = Inl (UB t)) \<and>
      (\<exists>ob2. call_set (SetNextDialog p) ob1 = Inr ob2 \<and> call_get ext GetNextDialog ob2 = Inr (RPtr p, ob2)))"
proof -
  obtain d m where m: "m_class ob = Event d m" "m \<in> {Noinput Indeterminate, Nomatch Indeterminate, Catch Indeterminate}"
    using assms(1) by (cases "mk_event ty i") (auto simp: new_noinput_def new_nomatch_def new_catch_def)
  obtain b1 d1 where a: "asg (base_part ob, d) (base_part src, e) = (b1, d1)" by fastforce
  then have "event_assign asg ob src = Inr (make_obj b1 (Event d1 m))" using m(1) assms(2) by (simp add: event_assign_def)
  moreover have unset: "\<exists>t. call_get ext GetNextDialog x = Inl (UB t)" if "m_class x = Event y m" for x :: "('t, 'a) vobj" and y
    using m(2) that by (auto simp: call_get_def)
  moreover have "\<exists>x2. call_set (SetNextDialog p) x = Inr x2 \<and> call_get ext GetNextDialog x2 = Inr (RPtr p, x2)"
    if "m_class x = Event y m" for x :: "('t, 'a) vobj" and y
    using m(2) that by (elim insertE) (simp_all add: call_get_def call_set_def)
  ultimately show ?thesis using m(1) m_class_make_obj by blast
qed

section \<open>The collection of objects\<close>

text \<open>
  Members and inline methods of \<^verbatim>\<open>CVxmlObjects\<close>; the lists of objects are lists of addresses. The members whose
  types the repository does not declare, the logger and the static members are left out.
\<close>

record vxml_objects =
  m_liObjects :: "ptr list"
  m_liDialogObjects :: "ptr list"
  m_pObjVxml :: ptr
  m_pLastObj :: ptr
  m_pChannel :: ptr
  m_pCurDialog :: ptr
  m_bDoEvent :: bool
  m_pCurEvent :: ptr
  m_pCurObject :: ptr
  m_strTranName :: string
  m_nRefCount :: u32
  vo_pPyInterp :: ptr

definition SetChannel :: "ptr \<Rightarrow> vxml_objects \<Rightarrow> vxml_objects" where
  "SetChannel p s = s\<lparr>m_pChannel := p\<rparr>"

definition SetObjVxml :: "ptr \<Rightarrow> vxml_objects \<Rightarrow> vxml_objects" where
  "SetObjVxml p s = s\<lparr>m_pObjVxml := p\<rparr>"

definition IncRefCount :: "vxml_objects \<Rightarrow> u32 \<times> vxml_objects" where
  "IncRefCount s = (m_nRefCount s + 1, s\<lparr>m_nRefCount := m_nRefCount s + 1\<rparr>)"

definition GetTheFirstDialog :: "vxml_objects \<Rightarrow> fault + ptr" where
  "GetTheFirstDialog s =
     (case m_liDialogObjects s of [] \<Rightarrow> Inl (UB ''head of an empty list'') | p # _ \<Rightarrow> Inr p)"

section \<open>Witnesses\<close>

definition zero_base :: "unit cobj_base" where
  "zero_base = \<lparr>m_nVersion = 0, m_type = (), m_name = ''b'', m_nId = 0, m_nParentId = 0, m_pParent = None,
     m_pVxmlObjects = None, m_pPyInterp = None, m_pliDialogId = None, m_pliPlayId = None, m_pliChoiceId = None,
     m_pliEventId = None, m_pliPropId = None, m_pliVarId = None, m_pliAssignId = None, m_pliIfId = None, m_pliTransferId = None\<rparr>"

definition one_play :: event_data where
  "one_play = \<lparr>ev_nCount = 1, m_strEventName = [], ev_strCond = [], ev_nNumOfPlays = 1, ev_pPlays = Some [Some 7]\<rparr>"

text \<open>Code for the missing bodies: each returns a neutral value of its type.\<close>

fun quiet :: "(unit, unit) extern" where
  "quiet v ob = (case ret_type v of TStr \<Rightarrow> RStr None | TPtr \<Rightarrow> RPtr None | TBool \<Rightarrow> RBool True | _ \<Rightarrow> RVoid, ob)"

lemma quiet_ok: "extern_typed quiet" "extern_counts quiet"
proof -
  have "no_body c v \<Longrightarrow> rv_type (fst (quiet v ob)) = ret_type v" for c :: "unit obj_class" and v ob
    by (cases v) simp_all
  then show "extern_typed quiet" by (simp add: extern_typed_def)
  show "extern_counts quiet" by (simp add: extern_counts_def)
qed

definition noinput1 :: "(unit, unit) vobj" where
  "noinput1 = new_noinput (\<lambda>t i. (zero_base, one_play)) () 3"

lemma noinput1_class: "m_class noinput1 = Event one_play (Noinput Indeterminate)"
  by (simp add: noinput1_def new_noinput_def)

theorem vxml_calls_typed_witness:
  "(\<exists>t. invoke quiet (Get GetWait) noinput1 = Inl (UB t)) \<and>
   (\<exists>r ob1. invoke quiet (Get PrepareToRun) noinput1 = Inr (r, ob1) \<and> rv_type r = TBool)"
  using vxml_calls_typed [OF quiet_ok(1), of noinput1 "Get GetWait"] vxml_calls_typed [OF quiet_ok(1), of noinput1 "Get PrepareToRun"]
  by (auto simp: noinput1_class derives_def numeral_3_eq_3)

theorem vxml_arrays_in_bounds_witness:
  "\<exists>ob1 n a. run quiet [Base (SetId 4), Set (SetNextDialog (Some 2))] noinput1 = Inr ob1 \<and>
     call_get quiet GetNumberOfPrompts ob1 = Inr (RInt n, ob1) \<and> call_get quiet GetPrompts ob1 = Inr (RArr a, ob1)"
proof -
  obtain ob1 where r: "run quiet [Base (SetId 4), Set (SetNextDialog (Some 2))] noinput1 = Inr ob1"
    by (simp add: call_set_def noinput1_class)
  moreover have "class_ok (m_class noinput1)" by (simp add: noinput1_class one_play_def counted_def)
  ultimately show ?thesis
    using vxml_arrays_in_bounds [OF quiet_ok(2) _ r, of GetPrompts GetNumberOfPrompts] by auto
qed


theorem vxml_handler_copy_unset_witness:
  "\<exists>t. call_get quiet GetNextDialog noinput1 = Inl (UB t)"
  using vxml_handler_copy_unset [of noinput1 "\<lambda>t i. (zero_base, one_play)" "()" 3 noinput1 one_play "Noinput Indeterminate" quiet "\<lambda>x y. y"]
  by (simp add: noinput1_class) (simp add: noinput1_def)

definition transfer1 :: "(unit, unit) vobj" where
  "transfer1 = make_obj zero_base (Transfer \<lparr>m_strDestExpr = [], tr_name = ''t'', m_nConnectTimeout = 0, tr_pIfs = None, tr_nNumOfIfs = 0\<rparr>)"

theorem vxml_hidden_names_witness:
  "\<exists>r ob1. invoke quiet (OnTransfer (Transfer_SetName ''x'')) transfer1 = Inr (r, ob1) \<and>
     invoke quiet (Base get_name) ob1 = Inr (RStr (Some ''b''), ob1)"
proof -
  obtain r ob1 where i: "invoke quiet (OnTransfer (Transfer_SetName ''x'')) transfer1 = Inr (r, ob1)"
    by (simp add: transfer1_def)
  moreover have "m_name transfer1 = ''b''" by (simp add: transfer1_def make_obj_def cobj_base.defs zero_base_def)
  ultimately show ?thesis using vxml_hidden_names [OF i] by auto
qed

end
