(* ===== verification/Vxml_Props.thy ===== *)
theory Vxml_Props
  imports Prelude
begin

text \<open>
  The typed properties of \<^verbatim>\<open>include/props.hpp\<close>: \<^verbatim>\<open>PropBase\<close> and the five classes derived from it, with the inline
  constructors, setters and virtual accessors. The parsing of values (\<^verbatim>\<open>set_value\<close>), the stack of earlier values
  and the table \<^verbatim>\<open>Properties\<close> are declared there without bodies.
\<close>

datatype PROPTYPE = PT_NONE | PT_TIME | PT_CHAR | PT_BOOL | PT_INT | PT_STRING | PT_USER

text \<open>The enumerators' values.\<close>

fun proptype_code :: "PROPTYPE \<Rightarrow> int" where
  "proptype_code PT_NONE = 0"
| "proptype_code PT_TIME = 1"
| "proptype_code PT_CHAR = 2"
| "proptype_code PT_BOOL = 3"
| "proptype_code PT_INT = 4"
| "proptype_code PT_STRING = 5"
| "proptype_code PT_USER = 6"

text \<open>The member each derived class adds.\<close>

datatype prop_kind = PropTime int | PropChar char | PropBool bool | PropInt int | PropString string

record prop_obj =
  prop_type :: PROPTYPE
  prop_key :: string
  prop_values :: "string list"
  prop_cls :: prop_kind

text \<open>The base constructor, with a key that may be null.\<close>

definition PropBase :: "PROPTYPE \<Rightarrow> string option \<Rightarrow> prop_kind \<Rightarrow> prop_obj" where
  "PropBase nType key c = \<lparr>prop_type = nType, prop_key = (case key of None \<Rightarrow> [] | Some k \<Rightarrow> k), prop_values = [], prop_cls = c\<rparr>"

definition new_PropTime :: "string option \<Rightarrow> prop_obj" where
  "new_PropTime key = PropBase PT_TIME key (PropTime 0)"

definition new_PropChar :: "string option \<Rightarrow> prop_obj" where
  "new_PropChar key = PropBase PT_CHAR key (PropChar (char_of (0 :: nat)))"

definition new_PropBool :: "string option \<Rightarrow> prop_obj" where
  "new_PropBool key = PropBase PT_BOOL key (PropBool False)"

definition new_PropInt :: "string option \<Rightarrow> prop_obj" where
  "new_PropInt key = PropBase PT_INT key (PropInt 0)"

definition new_PropString :: "string option \<Rightarrow> prop_obj" where
  "new_PropString key = PropBase PT_STRING key (PropString [])"

definition prop_set_type :: "PROPTYPE \<Rightarrow> prop_obj \<Rightarrow> prop_obj" where
  "prop_set_type t p = p\<lparr>prop_type := t\<rparr>"

definition SetKey :: "string option \<Rightarrow> prop_obj \<Rightarrow> prop_obj" where
  "SetKey key p = p\<lparr>prop_key := (case key of None \<Rightarrow> [] | Some k \<Rightarrow> k)\<rparr>"

text \<open>The virtual accessors: the base's default, and the one class that overrides each.\<close>

fun time_value :: "prop_kind \<Rightarrow> int" where
  "time_value (PropTime t) = t"
| "time_value _ = 0"

fun char_value :: "prop_kind \<Rightarrow> char" where
  "char_value (PropChar c) = c"
| "char_value _ = char_of (0 :: nat)"

fun bool_value :: "prop_kind \<Rightarrow> bool" where
  "bool_value (PropBool b) = b"
| "bool_value _ = False"

fun int_value :: "prop_kind \<Rightarrow> int" where
  "int_value (PropInt n) = n"
| "int_value _ = 0"

fun string_value :: "prop_kind \<Rightarrow> string" where
  "string_value (PropString s) = s"
| "string_value _ = []"

text \<open>The setters of the derived classes, through a pointer of their own class.\<close>

fun set_time_value :: "int \<Rightarrow> prop_kind \<Rightarrow> prop_kind option" where
  "set_time_value t (PropTime _) = Some (PropTime t)"
| "set_time_value t _ = None"

fun set_char_value :: "char \<Rightarrow> prop_kind \<Rightarrow> prop_kind option" where
  "set_char_value c (PropChar _) = Some (PropChar c)"
| "set_char_value c _ = None"

fun set_bool_value :: "bool \<Rightarrow> prop_kind \<Rightarrow> prop_kind option" where
  "set_bool_value b (PropBool _) = Some (PropBool b)"
| "set_bool_value b _ = None"

fun set_int_value :: "int \<Rightarrow> prop_kind \<Rightarrow> prop_kind option" where
  "set_int_value n (PropInt _) = Some (PropInt n)"
| "set_int_value n _ = None"

text \<open>The tag a constructor writes is the tag of the class.\<close>

fun cls_tag :: "prop_kind \<Rightarrow> PROPTYPE" where
  "cls_tag (PropTime _) = PT_TIME"
| "cls_tag (PropChar _) = PT_CHAR"
| "cls_tag (PropBool _) = PT_BOOL"
| "cls_tag (PropInt _) = PT_INT"
| "cls_tag (PropString _) = PT_STRING"

definition tagged :: "prop_obj \<Rightarrow> bool" where
  "tagged p \<longleftrightarrow> prop_type p = cls_tag (prop_cls p)"

lemma new_props_tagged:
  "tagged (new_PropTime k)" "tagged (new_PropChar k)" "tagged (new_PropBool k)" "tagged (new_PropInt k)" "tagged (new_PropString k)"
  by (simp_all add: tagged_def PropBase_def new_PropTime_def new_PropChar_def new_PropBool_def new_PropInt_def new_PropString_def)

lemma proptype_code_inject: "proptype_code a = proptype_code b \<longleftrightarrow> a = b"
  by (cases a; cases b) simp_all

text \<open>
  Reading by the tag. A property that carries the tag of its class answers with a value only to the accessor
  of that tag and with the default to the four others, so that code that switches on \<^verbatim>\<open>type\<close> never
  reads a value of another type; a property whose tag was changed with \<^verbatim>\<open>set_type\<close> answers such code with a default.
\<close>

lemma prop_value_by_tag:
  assumes "tagged p"
  shows "prop_type p \<noteq> PT_TIME \<Longrightarrow> time_value (prop_cls p) = 0"
    "prop_type p \<noteq> PT_BOOL \<Longrightarrow> \<not> bool_value (prop_cls p)"
    "prop_type p \<noteq> PT_INT \<Longrightarrow> int_value (prop_cls p) = 0"
    "prop_type p \<noteq> PT_STRING \<Longrightarrow> string_value (prop_cls p) = []"
    "prop_type p \<noteq> PT_CHAR \<Longrightarrow> char_value (prop_cls p) = char_of (0 :: nat)"
  using assms by (cases "prop_cls p"; simp add: tagged_def)+

end
