(* ===== verification/Sys_Util.thy ===== *)
theory Sys_Util
  imports C_Text
begin

unbundle bit_operations_syntax

text \<open>
  The helpers of \<^verbatim>\<open>src/util.cpp\<close> around one call of the operating system: the clock in milliseconds and seconds,
  the command of \<^verbatim>\<open>ping_check\<close>, the text of \<^verbatim>\<open>host_ip_addr\<close> and the keyboard test. What the system answers is an
  argument.
\<close>

section \<open>The clock\<close>

text \<open>\<^verbatim>\<open>gettimeofday\<close> gives seconds and microseconds.\<close>

definition current_time_ms :: "int \<times> int \<Rightarrow> int" where
  "current_time_ms tv = fst tv * 1000 + snd tv div 1000"

definition current_time_sec :: "int \<times> int \<Rightarrow> int" where
  "current_time_sec tv = to_int32 (fst tv)"

lemma current_time_ms_mono:
  assumes "s1 < s2 \<or> s1 = s2 \<and> u1 \<le> u2" "0 \<le> u1" "u1 < 1000000" "0 \<le> u2"
  shows "current_time_ms (s1, u1) \<le> current_time_ms (s2, u2)"
proof (cases "s1 = s2")
  case True
  then show ?thesis using assms(1) by (auto simp: current_time_ms_def intro: zdiv_mono1)
next
  case False
  then have "s1 + 1 \<le> s2" using assms(1) by auto
  moreover have "u1 div 1000 < 1000" "0 \<le> u2 div 1000" using assms(2-4) by auto
  ultimately show ?thesis by (simp add: current_time_ms_def)
qed

text \<open>The seconds are right until the \<^verbatim>\<open>int\<close> they are cast to ends, in January 2038, and negative after it.\<close>

lemma current_time_sec_range:
  "0 \<le> s \<Longrightarrow> s < 2 ^ 31 \<Longrightarrow> current_time_sec (s, u) = s"
  "2 ^ 31 \<le> s \<Longrightarrow> s < 2 ^ 32 \<Longrightarrow> current_time_sec (s, u) = s - 2 ^ 32"
proof -
  show "0 \<le> s \<Longrightarrow> s < 2 ^ 31 \<Longrightarrow> current_time_sec (s, u) = s" by (simp add: current_time_sec_def in_int32_def)
  assume s: "2 ^ 31 \<le> s" "s < 2 ^ 32"
  have "(s + 2 ^ 31) mod 2 ^ 32 = s + 2 ^ 31 - 2 ^ 32"
    by (rule int_mod_pos_eq [of _ _ 1]) (use s in auto)
  then show "current_time_sec (s, u) = s - 2 ^ 32" by (simp add: current_time_sec_def to_int32_def)
qed

section \<open>Addresses as text\<close>

definition dotted_quad :: "nat \<Rightarrow> nat \<Rightarrow> nat \<Rightarrow> nat \<Rightarrow> string" where
  "dotted_quad a b c d = show_nat a @ ''.'' @ show_nat b @ ''.'' @ show_nat c @ ''.'' @ show_nat d"

definition addr_octet :: "nat \<Rightarrow> u64 \<Rightarrow> nat" where
  "addr_octet i nAddr = unat (drop_bit i nAddr AND 0xff)"

definition ping_command :: "u64 \<Rightarrow> string" where
  "ping_command nAddr =
     (let szAddr = snprintf 64 (dotted_quad (addr_octet 24 nAddr) (addr_octet 16 nAddr) (addr_octet 8 nAddr) (addr_octet 0 nAddr))
      in snprintf 128 (''/usr/local/bin/ping_another -f -q '' @ szAddr @ '' > /dev/null''))"

definition ping_check :: "(string \<Rightarrow> int) \<Rightarrow> u64 \<Rightarrow> int" where
  "ping_check sys nAddr = (if sys (ping_command nAddr) = 0 then 1 else -1)"

text \<open>The buffer of \<^verbatim>\<open>host_ip_addr\<close> is static: when the name is not found, the caller gets the text of the last time.\<close>

definition host_ip_addr :: "(nat \<times> nat \<times> nat \<times> nat) option \<Rightarrow> string \<Rightarrow> string" where
  "host_ip_addr lphost buf =
     (case lphost of None \<Rightarrow> buf | Some (a, b, c, d) \<Rightarrow> snprintf 64 (dotted_quad a b c d))"

text \<open>
  \<^verbatim>\<open>kbhit\<close>: \<^verbatim>\<open>select\<close> reports the descriptors that are ready, and on an error (here \<open>None\<close>) leaves the set as it
  was, with the standard input in it.
\<close>

definition kbhit :: "bool option \<Rightarrow> bool" where
  "kbhit answer = (case answer of None \<Rightarrow> True | Some ready \<Rightarrow> ready)"

lemma addr_octet_less: "addr_octet i a < 256"
proof -
  have "drop_bit i a AND 0xff = take_bit 8 (drop_bit i a)" by (simp add: take_bit_eq_mask mask_eq_decr_exp)
  then have "addr_octet i a = take_bit 8 (unat (drop_bit i a))" by (simp add: addr_octet_def unsigned_take_bit_eq)
  then show ?thesis using take_bit_nat_less_exp [of 8 "unat (drop_bit i a)"] by simp
qed

lemma length_octet: "n < 256 \<Longrightarrow> length (show_nat n) \<le> 3"
  using length_show_nat [of n 2] by simp

lemma length_dotted_quad: "a < 256 \<Longrightarrow> b < 256 \<Longrightarrow> c < 256 \<Longrightarrow> d < 256 \<Longrightarrow> length (dotted_quad a b c d) \<le> 15"
  using length_octet [of a] length_octet [of b] length_octet [of c] length_octet [of d] by (simp add: dotted_quad_def)

lemma show_nat_no_dot: "CHR ''.'' \<notin> set (show_nat n)"
  using show_nat_digits [of n] by (auto simp: list_all_iff is_digit_char_def)

lemma dot_split: "show_nat a @ ''.'' @ s = show_nat b @ ''.'' @ t \<longleftrightarrow> a = b \<and> s = t"
proof
  assume e: "show_nat a @ ''.'' @ s = show_nat b @ ''.'' @ t"
  have "takeWhile (\<lambda>c. c \<noteq> CHR ''.'') (show_nat n @ ''.'' @ u) = show_nat n" for n u
    using show_nat_no_dot [of n] by (subst takeWhile_append2) auto
  from this [of a s] this [of b t] e have "show_nat a = show_nat b" by simp
  then show "a = b \<and> s = t" using e by simp
qed simp

lemma dotted_quad_inject: "dotted_quad a b c d = dotted_quad a' b' c' d' \<longleftrightarrow> a = a' \<and> b = b' \<and> c = c' \<and> d = d'"
  unfolding dotted_quad_def dot_split by simp

lemma octet_bits: "addr_octet i a = addr_octet i b \<longleftrightarrow> (\<forall>n < 8. bit a (i + n) = bit b (i + n))"
proof -
  have o: "drop_bit i x AND 0xff = take_bit 8 (drop_bit i x)" for x :: u64
    by (simp add: take_bit_eq_mask mask_eq_decr_exp)
  have "addr_octet i a = addr_octet i b \<longleftrightarrow> take_bit 8 (drop_bit i a) = take_bit 8 (drop_bit i b)"
    by (simp add: addr_octet_def o word_unat_eq_iff)
  also have "\<dots> \<longleftrightarrow> (\<forall>n < 64. (n < 8 \<and> bit a (i + n)) = (n < 8 \<and> bit b (i + n)))"
    by (auto simp: bit_eq_iff bit_take_bit_iff bit_drop_bit_eq)
  also have "\<dots> \<longleftrightarrow> (\<forall>n < 8. bit a (i + n) = bit b (i + n))"
  proof (rule iffI; intro allI impI)
    fix n :: nat
    assume "\<forall>n < 64. (n < 8 \<and> bit a (i + n)) = (n < 8 \<and> bit b (i + n))" "n < 8"
    then show "bit a (i + n) = bit b (i + n)" by (elim allE [of _ n]) simp
  qed auto
  finally show ?thesis .
qed

lemma low_bits: "take_bit 32 a = take_bit 32 b \<longleftrightarrow> (\<forall>i \<in> {0, 8, 16, 24}. addr_octet i a = addr_octet i b)" for a b :: u64
proof
  assume "take_bit 32 a = take_bit 32 b"
  then have "n < 32 \<Longrightarrow> bit a n = bit b n" for n by (metis bit_take_bit_iff)
  then show "\<forall>i \<in> {0, 8, 16, 24}. addr_octet i a = addr_octet i b" by (auto simp: octet_bits)
next
  assume o: "\<forall>i \<in> {0, 8, 16, 24}. addr_octet i a = addr_octet i b"
  have "bit a n = bit b n" if "n < 32" for n
  proof -
    have "8 * (n div 8) \<in> {0, 8, 16, 24}" "n mod 8 < 8" using that by auto
    then have "bit a (8 * (n div 8) + n mod 8) = bit b (8 * (n div 8) + n mod 8)" using o octet_bits by blast
    then show ?thesis by simp
  qed
  then show "take_bit 32 a = take_bit 32 b" by (auto simp: bit_eq_iff bit_take_bit_iff)
qed

text \<open>
  C34: The command of \<^verbatim>\<open>ping_check\<close> is never cut. For every address the dotted text fits its 64 bytes and the command its
  128, so the shell is given the whole command, with the address in it; and two addresses have the same
  command only when their low 32 bits agree.
\<close>

theorem ping_command_exact:
  "ping_command a = ''/usr/local/bin/ping_another -f -q ''
     @ dotted_quad (addr_octet 24 a) (addr_octet 16 a) (addr_octet 8 a) (addr_octet 0 a) @ '' > /dev/null'' \<and>
   length (ping_command a) < 128 \<and> (ping_command a = ping_command b \<longleftrightarrow> take_bit 32 a = take_bit 32 b)"
proof -
  let ?q = "\<lambda>x. dotted_quad (addr_octet 24 x) (addr_octet 16 x) (addr_octet 8 x) (addr_octet 0 x)"
  have len: "length (?q x) \<le> 15" for x using length_dotted_quad addr_octet_less by blast
  have e: "ping_command x = ''/usr/local/bin/ping_another -f -q '' @ ?q x @ '' > /dev/null''" for x
    using len [of x] by (simp add: ping_command_def Let_def)
  have "ping_command a = ping_command b \<longleftrightarrow> take_bit 32 a = take_bit 32 b"
    unfolding e low_bits by (auto simp: dotted_quad_inject)
  moreover have "length (ping_command a) < 128" using len [of a] by (simp add: e)
  ultimately show ?thesis using e by blast
qed

section \<open>Sleeping\<close>

text \<open>
  The earliest time, in microseconds, at which a sleep that starts at \<open>now\<close> is over; a duration that is not positive
  does not wait.
\<close>

definition micro_sleep :: "int \<Rightarrow> int \<Rightarrow> int" where
  "micro_sleep usec now = (if usec > 0 then now + usec else now)"

definition milli_sleep :: "int \<Rightarrow> int \<Rightarrow> int" where
  "milli_sleep msec now = (if msec > 0 then now + 1000 * msec else now)"

definition Sleep :: "int \<Rightarrow> int \<Rightarrow> int" where
  "Sleep sec now = (if sec > 0 then now + 1000000 * sec else now)"

lemma sleeps_agree: "milli_sleep ms now = micro_sleep (1000 * ms) now" "Sleep s now = milli_sleep (1000 * s) now"
  by (simp_all add: micro_sleep_def milli_sleep_def Sleep_def)

lemma sleep_not_back: "now \<le> micro_sleep usec now"
  by (simp add: micro_sleep_def)

end
