(* ===== verification/Log_File.thy ===== *)
theory Log_File
  imports Posix_File Event_Queue
begin

unbundle bit_operations_syntax

text \<open>
  The rotating file logger (\<^verbatim>\<open>src/logger.cpp\<close>, \<^verbatim>\<open>include/logger.hpp\<close>): the message queue and its consumer
  \<^verbatim>\<open>thread_proc\<close>, the quota check with its cascade of renames, the reopening of the dated file, and the
  formatting of lines by the \<^verbatim>\<open>log\<close> calls. What \<^verbatim>\<open>make_date\<close> returns when a message is processed comes
  with the message; \<open>perm\<close> says which paths can be opened once \<^verbatim>\<open>create_directories\<close> has run; what
  \<^verbatim>\<open>vsnprintf\<close> makes of the caller's format and what \<^verbatim>\<open>strftime\<close> makes of the time are arguments of the
  \<^verbatim>\<open>log\<close> calls. The comparison of the file size in floating point is the exact one for the sizes a
  \<^verbatim>\<open>double\<close> represents.
\<close>

section \<open>State and messages\<close>

datatype log_msg = LogText string | Reopen string string int | StopMsg

record logger =
  lg_prefix :: string
  lg_root :: string
  lg_path :: string
  lg_quota :: int
  lg_file :: file_obj
  lg_date :: int
  lg_fs :: fsys

definition LOG_ROOT_PATH :: string where
  "LOG_ROOT_PATH = ''../bin/log/''"

definition mk_logger :: "int \<Rightarrow> fsys \<Rightarrow> logger" where
  "mk_logger date fs =
     \<lparr>lg_prefix = ''log'', lg_root = LOG_ROOT_PATH, lg_path = [], lg_quota = 0, lg_file = mk_file,
      lg_date = date, lg_fs = fs\<rparr>"

definition make_date :: "int \<Rightarrow> int \<Rightarrow> int \<Rightarrow> int" where
  "make_date year month day = year * 10000 + month * 100 + day"

section \<open>Rotation\<close>

definition MAX_QUATA_INDEX :: nat where
  "MAX_QUATA_INDEX = 7"

definition slot_name :: "string \<Rightarrow> string \<Rightarrow> nat \<Rightarrow> string" where
  "slot_name root pfx i = snprintf 512 (root @ pfx @ ''.'' @ show_nat i)"

definition dated_name :: "string \<Rightarrow> string \<Rightarrow> int \<Rightarrow> string" where
  "dated_name root pfx date = snprintf 512 (root @ pfx @ ''.'' @ zero_pad 4 (nat (date mod 10000)))"

text \<open>The loop over the slots, from \<open>i\<close> down to 1.\<close>

fun cascade :: "string \<Rightarrow> string \<Rightarrow> nat \<Rightarrow> fsys \<Rightarrow> fsys" where
  "cascade root pfx 0 fs = fs"
| "cascade root pfx (Suc i) fs =
     cascade root pfx i
       (if fs_names fs (slot_name root pfx (Suc i)) = None then fs
        else posix_rename (slot_name root pfx (Suc i)) (slot_name root pfx (Suc i + 1)) fs)"

definition check_quota :: "logger \<Rightarrow> bool \<times> logger" where
  "check_quota lg =
     (if lg_quota lg < 1 then (False, lg)
      else if lg_path lg = [] then (False, lg)
      else case fs_content (lg_fs lg) (lg_path lg) of
             None \<Rightarrow> (False, lg)
           | Some data \<Rightarrow>
               if int (length data) \<le> lg_quota lg * 1048576 then (False, lg)
               else
                 let (f, fs1) = (if f_fd (lg_file lg) \<noteq> hFileNull then file_close (lg_file lg) (lg_fs lg)
                                 else (lg_file lg, lg_fs lg));
                     fs2 = cascade (lg_root lg) (lg_prefix lg) (MAX_QUATA_INDEX - 1) fs1;
                     fs3 = posix_rename (lg_path lg) (slot_name (lg_root lg) (lg_prefix lg) 1) fs2
                 in (True, lg\<lparr>lg_file := f, lg_fs := fs3\<rparr>))"

definition do_open :: "(string \<Rightarrow> bool) \<Rightarrow> logger \<Rightarrow> bool \<times> logger" where
  "do_open perm lg =
     (let (rotated, lg1) = check_quota lg;
          lg2 = (if rotated then lg1
                 else lg1\<lparr>lg_path := dated_name (lg_root lg1) (lg_prefix lg1) (lg_date lg1)\<rparr>);
          (f, fs) = (if f_fd (lg_file lg2) \<noteq> hFileNull then file_close (lg_file lg2) (lg_fs lg2)
                     else (lg_file lg2, lg_fs lg2));
          (ok, f', fs') = file_open perm (lg_path lg2) (modeWrite OR modeNoTruncate OR modeCreate) f fs
      in (ok, lg2\<lparr>lg_file := f', lg_fs := fs'\<rparr>))"

section \<open>The consumer\<close>

definition lg_reopen :: "(string \<Rightarrow> bool) \<Rightarrow> string \<Rightarrow> string \<Rightarrow> int \<Rightarrow> logger \<Rightarrow> logger" where
  "lg_reopen perm pfx path quota lg =
     (let lg1 = (if pfx \<noteq> [] then lg\<lparr>lg_prefix := pfx\<rparr> else lg);
          lg2 = (if path \<noteq> [] then lg1\<lparr>lg_root := path\<rparr> else lg1);
          lg3 = (if quota \<noteq> 0 then lg2\<lparr>lg_quota := quota\<rparr> else lg2)
      in snd (do_open perm (lg3\<lparr>lg_path := []\<rparr>)))"

definition lg_log :: "(string \<Rightarrow> bool) \<Rightarrow> int \<Rightarrow> string \<Rightarrow> logger \<Rightarrow> logger" where
  "lg_log perm nDate txt lg =
     (let (rotated, lg1) = check_quota lg;
          lg2 = (if rotated then snd (do_open perm lg1)
                 else if lg_date lg1 < nDate then snd (do_open perm (lg1\<lparr>lg_date := nDate\<rparr>))
                 else lg1)
      in lg2\<lparr>lg_fs := snd (file_put txt (lg_file lg2) (lg_fs lg2))\<rparr>)"

fun lg_process :: "(string \<Rightarrow> bool) \<Rightarrow> int \<times> log_msg \<Rightarrow> logger \<Rightarrow> logger" where
  "lg_process perm (nDate, LogText txt) lg = lg_log perm nDate txt lg"
| "lg_process perm (nDate, Reopen pfx path quota) lg = lg_reopen perm pfx path quota lg"
| "lg_process perm (nDate, StopMsg) lg = lg"

definition lg_close :: "logger \<Rightarrow> logger" where
  "lg_close lg = (let (f, fs) = file_close (lg_file lg) (lg_fs lg) in lg\<lparr>lg_file := f, lg_fs := fs\<rparr>)"

function lg_drain :: "(string \<Rightarrow> bool) \<Rightarrow> (int \<times> log_msg) queue_1to1 \<Rightarrow> int \<times> log_msg \<Rightarrow> logger \<Rightarrow> logger" where
  "lg_drain perm q rem lg =
     (case q11_try_get rem q of
        (r, m, q') \<Rightarrow> if r = 0 then lg else lg_drain perm q' m (lg_process perm m lg))"
  by pat_completeness auto
termination
  by (relation "measure (\<lambda>(_, q, _, _). length (q11_q q))") (auto simp: q11_try_get_def split: if_splits)

function lg_thread :: "(string \<Rightarrow> bool) \<Rightarrow> (int \<times> log_msg) queue_1to1 \<Rightarrow> logger \<Rightarrow> logger outcome" where
  "lg_thread perm q lg =
     (case q11_get q of
        Blocked \<Rightarrow> Blocked
      | Ret (m, q') \<Rightarrow>
          if snd m = StopMsg then Ret (lg_close (lg_drain perm q' m lg))
          else lg_thread perm q' (lg_process perm m lg))"
  by pat_completeness auto
termination
  by (relation "measure (\<lambda>(_, q, _). length (q11_q q))") (auto simp: q11_get_def split: if_splits)

declare lg_drain.simps [simp del] lg_thread.simps [simp del]

section \<open>The producers\<close>

datatype loglevel = Critical | Error | Warn | Info | Boardapi | Api | EventLevel | MaxLevel

definition level_num :: "loglevel \<Rightarrow> nat" where
  "level_num l = (case l of Critical \<Rightarrow> 0 | Error \<Rightarrow> 1 | Warn \<Rightarrow> 2 | Info \<Rightarrow> 3 | Boardapi \<Rightarrow> 4 | Api \<Rightarrow> 5
     | EventLevel \<Rightarrow> 6 | MaxLevel \<Rightarrow> 7)"

text \<open>The levels compare as the integers they are.\<close>

instantiation loglevel :: linorder
begin

definition less_eq_loglevel :: "loglevel \<Rightarrow> loglevel \<Rightarrow> bool" where
  "less_eq_loglevel a b \<longleftrightarrow> level_num a \<le> level_num b"

definition less_loglevel :: "loglevel \<Rightarrow> loglevel \<Rightarrow> bool" where
  "less_loglevel a b \<longleftrightarrow> level_num a < level_num b"

instance
proof
  fix a b :: loglevel
  show "a \<le> b \<Longrightarrow> b \<le> a \<Longrightarrow> a = b" by (cases a; cases b; simp add: less_eq_loglevel_def level_num_def)
qed (auto simp: less_eq_loglevel_def less_loglevel_def)

end

lemmas loglevel_order = less_eq_loglevel_def less_loglevel_def level_num_def

type_synonym log_queue = "(int \<times> log_msg) queue_1to1"

definition create_file :: "int \<Rightarrow> string option \<Rightarrow> int \<Rightarrow> log_queue \<Rightarrow> bool \<times> log_queue" where
  "create_file nDate pPrefix nQuata q =
     (True, q11_put (nDate, Reopen (case pPrefix of Some p \<Rightarrow> p | None \<Rightarrow> []) [] nQuata) q)"

definition create_file_path :: "int \<Rightarrow> string option \<Rightarrow> string option \<Rightarrow> int \<Rightarrow> log_queue \<Rightarrow> bool \<times> log_queue" where
  "create_file_path nDate pPrefix pPath nQuata q =
     (True, q11_put (nDate, Reopen (case pPrefix of Some p \<Rightarrow> p | None \<Rightarrow> [])
                               (case pPath of Some p \<Rightarrow> p | None \<Rightarrow> LOG_ROOT_PATH) nQuata) q)"

definition push_log :: "int \<Rightarrow> string \<Rightarrow> log_queue \<Rightarrow> log_queue" where
  "push_log nDate txt q = q11_put (nDate, LogText txt) q"

definition log_plain :: "int \<Rightarrow> nat \<Rightarrow> string \<Rightarrow> log_queue \<Rightarrow> int \<times> log_queue" where
  "log_plain nDate pid body q =
     (let line = c_str (snprintf (20480 + 64)
             (''[p'' @ zero_pad 5 pid @ ''] '' @ c_str (snprintf 20480 body) @ [newline]))
      in (int (length line), push_log nDate line q))"

definition log_level :: "loglevel \<Rightarrow> int \<Rightarrow> nat \<Rightarrow> string \<Rightarrow> loglevel \<Rightarrow> string \<Rightarrow> log_queue \<Rightarrow> int \<times> log_queue" where
  "log_level level nDate pid tStr l body q =
     (if l > level then (0, q)
      else let line = c_str (snprintf (20480 + 64)
                 (''[p'' @ zero_pad 5 pid @ ''] '' @ tStr @ ''> '' @ c_str (snprintf 20480 body) @ [newline]))
           in (int (length line), push_log nDate line q))"

definition log_file_line ::
  "loglevel \<Rightarrow> loglevel \<Rightarrow> int \<Rightarrow> nat \<Rightarrow> string \<Rightarrow> string \<Rightarrow> int \<Rightarrow> loglevel \<Rightarrow> string \<Rightarrow> log_queue \<Rightarrow> int \<times> log_queue" where
  "log_file_line level file_line_level nDate pid tStr fname line_no l body q =
     (if l > level then (0, q)
      else let txt = c_str (snprintf 20480 body);
               line = c_str (snprintf (20480 + 128)
                 (if l \<le> file_line_level
                  then ''[p'' @ zero_pad 5 pid @ ''] '' @ tStr @ ''> ['' @ fname @ '':'' @ show_int line_no @ ''] ''
                         @ txt @ [newline]
                  else ''[p'' @ zero_pad 5 pid @ ''] '' @ tStr @ ''> '' @ txt @ [newline]))
           in (int (length line), push_log nDate line q))"

definition destroy_logger :: "int \<Rightarrow> log_queue \<Rightarrow> log_queue" where
  "destroy_logger nDate q = q11_put (nDate, StopMsg) q"

section \<open>What the consumer does\<close>

lemma lg_drain_fold: "lg_drain perm q rem lg = fold (lg_process perm) (q11_q q) lg"
proof (induction "q11_q q" arbitrary: q rem lg)
  case Nil
  then show ?case by (subst lg_drain.simps) (simp add: q11_try_get_def)
next
  case (Cons m ms)
  then have "lg_drain perm q rem lg = lg_drain perm (q\<lparr>q11_q := ms\<rparr>) m (lg_process perm m lg)"
    by (subst lg_drain.simps) (simp add: q11_try_get_def flip: Cons.hyps(2))
  then show ?case using Cons.hyps(1) [of "q\<lparr>q11_q := ms\<rparr>"] by (simp flip: Cons.hyps(2))
qed

lemma fold_process_no_stop:
  "fold (lg_process perm) (filter (\<lambda>m. snd m \<noteq> StopMsg) ms) lg = fold (lg_process perm) ms lg"
  by (induction ms arbitrary: lg) auto

lemma lg_thread_fold:
  assumes "StopMsg \<in> snd ` set (q11_q q)"
  shows "lg_thread perm q lg = Ret (lg_close (fold (lg_process perm) (q11_q q) lg))"
  using assms
proof (induction "q11_q q" arbitrary: q lg)
  case (Cons m ms)
  have step: "lg_thread perm q lg =
      (if snd m = StopMsg then Ret (lg_close (lg_drain perm (q\<lparr>q11_q := ms\<rparr>) m lg))
       else lg_thread perm (q\<lparr>q11_q := ms\<rparr>) (lg_process perm m lg))"
    by (subst lg_thread.simps) (simp add: q11_get_def flip: Cons.hyps(2))
  show ?case
  proof (cases "snd m = StopMsg")
    case True
    then have "lg_process perm m lg = lg" by (cases m) auto
    then show ?thesis using step True by (simp add: lg_drain_fold flip: Cons.hyps(2))
  next
    case False
    then have "StopMsg \<in> snd ` set ms" using Cons.prems by (auto simp flip: Cons.hyps(2))
    then show ?thesis
      using step False Cons.hyps(1) [of "q\<lparr>q11_q := ms\<rparr>"] by (simp flip: Cons.hyps(2))
  qed
qed simp

section \<open>Rotation\<close>

lemma slot_name_inject:
  assumes "length root + length pfx \<le> 500" "i < 10" "j < 10"
  shows "slot_name root pfx i = slot_name root pfx j \<longleftrightarrow> i = j"
  using assms by (auto simp: slot_name_def)

lemma length_slot_name:
  "length root + length pfx \<le> 500 \<Longrightarrow> i < 10 \<Longrightarrow> length (slot_name root pfx i) = length root + length pfx + 2"
  by (simp add: slot_name_def)

lemma dated_not_slot:
  assumes "length root + length pfx \<le> 500" "i < 10"
  shows "dated_name root pfx d \<noteq> slot_name root pfx i"
proof
  assume eq: "dated_name root pfx d = slot_name root pfx i"
  have "length root + length pfx + 5 \<le> length (dated_name root pfx d)"
    using assms(1) length_zero_pad [of 4 "nat (d mod 10000)"] by (simp add: dated_name_def snprintf_def)
  then show False using eq length_slot_name [OF assms] by simp
qed

lemma posix_rename_other [simp]:
  "p \<noteq> old \<Longrightarrow> p \<noteq> new \<Longrightarrow> fs_names (posix_rename old new fs) p = fs_names fs p"
  by (simp add: posix_rename_def split: option.split)

lemma posix_rename_names:
  "old \<noteq> new \<Longrightarrow> fs_names fs old = Some ino \<Longrightarrow> fs_names (posix_rename old new fs) old = None"
  "old \<noteq> new \<Longrightarrow> fs_names fs old = Some ino \<Longrightarrow> fs_names (posix_rename old new fs) new = Some ino"
  by (simp_all add: posix_rename_def)

lemma posix_rename_frame [simp]:
  "fs_data (posix_rename old new fs) = fs_data fs" "fs_fds (posix_rename old new fs) = fs_fds fs"
  by (simp_all add: posix_rename_def split: option.split)

lemma cascade_frame [simp]:
  "fs_data (cascade root pfx n fs) = fs_data fs" "fs_fds (cascade root pfx n fs) = fs_fds fs"
  by (induction n arbitrary: fs) auto

lemma cascade_inv: "fs_inv fs \<Longrightarrow> fs_inv (cascade root pfx n fs)"
  by (induction n arbitrary: fs) (auto intro: fs_inv_rename)

lemma cascade_other:
  "(\<And>i. 1 \<le> i \<Longrightarrow> i \<le> Suc n \<Longrightarrow> p \<noteq> slot_name root pfx i) \<Longrightarrow>
   fs_names (cascade root pfx n fs) p = fs_names fs p"
proof (induction n arbitrary: fs)
  case (Suc n)
  have "p \<noteq> slot_name root pfx (Suc n)" "p \<noteq> slot_name root pfx (Suc (Suc n))" using Suc.prems by auto
  then show ?case using Suc by simp
qed simp

text \<open>The state the loop leaves: each slot holds what the slot below it held, slot 1 is free, and the
  last slot is kept only if nothing moved onto it.\<close>

lemma cascade_slots:
  assumes "length root + length pfx \<le> 500"
  shows "0 < n \<Longrightarrow> n < 9 \<Longrightarrow>
    fs_names (cascade root pfx n fs) (slot_name root pfx 1) = None \<and>
    (\<forall>i. 1 \<le> i \<and> i < n \<longrightarrow>
       fs_names (cascade root pfx n fs) (slot_name root pfx (Suc i)) = fs_names fs (slot_name root pfx i)) \<and>
    fs_names (cascade root pfx n fs) (slot_name root pfx (Suc n)) =
      (case fs_names fs (slot_name root pfx n) of Some ino \<Rightarrow> Some ino
       | None \<Rightarrow> fs_names fs (slot_name root pfx (Suc n)))"
proof (induction n arbitrary: fs)
  case (Suc n)
  let ?s = "slot_name root pfx"
  define fs1 where
    "fs1 = (if fs_names fs (?s (Suc n)) = None then fs else posix_rename (?s (Suc n)) (?s (Suc n + 1)) fs)"
  have casc: "cascade root pfx (Suc n) fs = cascade root pfx n fs1" by (simp add: fs1_def)
  have inj: "?s a = ?s b \<longleftrightarrow> a = b" if "a < 10" "b < 10" for a b
    using slot_name_inject [OF assms that] .
  have gone: "fs_names fs1 (?s (Suc n)) = None"
    using Suc.prems inj [of "Suc n" "Suc (Suc n)"] posix_rename_names(1) [of "?s (Suc n)" "?s (Suc n + 1)" fs]
    by (auto simp: fs1_def)
  have top: "fs_names fs1 (?s (Suc (Suc n))) =
      (case fs_names fs (?s (Suc n)) of Some ino \<Rightarrow> Some ino | None \<Rightarrow> fs_names fs (?s (Suc (Suc n))))"
    using Suc.prems inj [of "Suc n" "Suc (Suc n)"] posix_rename_names(2) [of "?s (Suc n)" "?s (Suc n + 1)" fs]
    by (auto simp: fs1_def split: option.split)
  have below: "fs_names fs1 (?s j) = fs_names fs (?s j)" if "j < Suc n" for j
    using that Suc.prems inj [of j "Suc n"] inj [of j "Suc (Suc n)"] by (simp add: fs1_def)
  have last: "fs_names (cascade root pfx n fs1) (?s (Suc (Suc n))) = fs_names fs1 (?s (Suc (Suc n)))"
    using Suc.prems inj by (intro cascade_other) auto
  show ?case
  proof (cases "n = 0")
    case True
    then show ?thesis unfolding casc using gone top by simp
  next
    case False
    then have n: "0 < n" "n < 9" using Suc.prems by auto
    note IH = Suc.IH [OF n, of fs1]
    have "fs_names (cascade root pfx n fs1) (?s (Suc i)) = fs_names fs (?s i)" if "1 \<le> i" "i < Suc n" for i
    proof (cases "i < n")
      case True
      then show ?thesis using IH that below [of i] by simp
    next
      case False
      then have "i = n" using that by simp
      then show ?thesis using IH below [of n] gone by (auto split: option.splits)
    qed
    then show ?thesis unfolding casc using IH last top by simp
  qed
qed simp

definition content_or :: "fsys \<Rightarrow> string \<Rightarrow> string" where
  "content_or fs p = (case fs_content fs p of Some c \<Rightarrow> c | None \<Rightarrow> [])"

text \<open>The log is ready when the dated file is open for appending under its name.\<close>

definition lg_ready :: "logger \<Rightarrow> bool" where
  "lg_ready lg \<longleftrightarrow>
     fs_inv (lg_fs lg) \<and> length (lg_root lg) + length (lg_prefix lg) \<le> 500 \<and>
     lg_path lg = dated_name (lg_root lg) (lg_prefix lg) (lg_date lg) \<and> f_close_on_delete (lg_file lg) \<and>
     (\<exists>d. fs_fds (lg_fs lg) (f_fd (lg_file lg)) = Some d \<and> of_access (od_flags d) \<noteq> O_RDONLY \<and>
          of_append (od_flags d) \<and> fs_names (lg_fs lg) (lg_path lg) = Some (od_inode d))"

definition over_quota :: "logger \<Rightarrow> bool" where
  "over_quota lg \<longleftrightarrow>
     1 \<le> lg_quota lg \<and> lg_quota lg * 1048576 < int (length (content_or (lg_fs lg) (lg_path lg)))"

lemma dated_name_not_Nil [simp]: "dated_name root pfx d \<noteq> []"
  by (simp add: dated_name_def snprintf_def)

lemma ready_fd:
  assumes "lg_ready lg" shows "f_fd (lg_file lg) \<noteq> hFileNull"
proof -
  obtain d where "fs_fds (lg_fs lg) (f_fd (lg_file lg)) = Some d" "fs_inv (lg_fs lg)"
    using assms by (auto simp: lg_ready_def)
  then have "0 \<le> f_fd (lg_file lg)" unfolding fs_inv_def by blast
  then show ?thesis by (simp add: hFileNull_def)
qed

lemma fs_content_frame:
  "fs_content (posix_close fd fs) = fs_content fs"
  by (simp add: fs_content_def posix_close_def fun_eq_iff)

lemma check_quota_under: "lg_ready lg \<Longrightarrow> \<not> over_quota lg \<Longrightarrow> check_quota lg = (False, lg)"
  by (auto simp: check_quota_def over_quota_def content_or_def lg_ready_def split: option.split)

lemma check_quota_over:
  assumes "lg_ready lg" "over_quota lg"
  shows "check_quota lg = (True, lg\<lparr>lg_file := (lg_file lg)\<lparr>f_fd := hFileNull\<rparr>,
    lg_fs := posix_rename (lg_path lg) (slot_name (lg_root lg) (lg_prefix lg) 1)
      (cascade (lg_root lg) (lg_prefix lg) 6 (posix_close (f_fd (lg_file lg)) (lg_fs lg)))\<rparr>)"
proof -
  have "lg_path lg \<noteq> []" "f_close_on_delete (lg_file lg)" using assms(1) by (simp_all add: lg_ready_def)
  moreover obtain c where "fs_content (lg_fs lg) (lg_path lg) = Some c"
    using assms(1) by (auto simp: lg_ready_def fs_content_def)
  ultimately show ?thesis
    using assms(2) ready_fd [OF assms(1)]
    by (simp add: check_quota_def over_quota_def content_or_def file_close_def MAX_QUATA_INDEX_def)
qed

lemma rotated_names:
  assumes "length root + length pfx \<le> 500" "path = dated_name root pfx d" "fs_names fs path = Some ino"
    "fs' = posix_rename path (slot_name root pfx 1) (cascade root pfx 6 fs)"
  shows "fs_names fs' (slot_name root pfx 1) = Some ino" "fs_names fs' path = None"
    "1 \<le> i \<Longrightarrow> i < 6 \<Longrightarrow> fs_names fs' (slot_name root pfx (Suc i)) = fs_names fs (slot_name root pfx i)"
    "fs_names fs' (slot_name root pfx 7) = (case fs_names fs (slot_name root pfx 6) of
       Some k \<Rightarrow> Some k | None \<Rightarrow> fs_names fs (slot_name root pfx 7))"
    "p \<noteq> path \<Longrightarrow> (\<And>i. 1 \<le> i \<Longrightarrow> i \<le> 7 \<Longrightarrow> p \<noteq> slot_name root pfx i) \<Longrightarrow> fs_names fs' p = fs_names fs p"
    "fs_data fs' = fs_data fs"
proof -
  let ?s = "slot_name root pfx"
  let ?c = "cascade root pfx 6 fs"
  have ps: "path \<noteq> ?s i" if "i < 10" for i using assms(1,2) that dated_not_slot by simp
  have s1: "?s 1 = ?s (Suc i) \<longleftrightarrow> i = 0" if "i < 9" for i
    using slot_name_inject [OF assms(1), of 1 "Suc i"] that by simp
  have cp: "fs_names ?c path = Some ino" using assms(3) ps by (subst cascade_other) auto
  have slots: "(\<forall>i. 1 \<le> i \<and> i < 6 \<longrightarrow> fs_names ?c (?s (Suc i)) = fs_names fs (?s i))"
      "fs_names ?c (?s (Suc 6)) = (case fs_names fs (?s 6) of Some k \<Rightarrow> Some k | None \<Rightarrow> fs_names fs (?s (Suc 6)))"
    using cascade_slots [OF assms(1), of 6 fs] by simp_all
  show "fs_names fs' (?s 1) = Some ino" "fs_names fs' path = None"
    using posix_rename_names [OF ps [of 1] cp] by (simp_all add: assms(4))
  show "1 \<le> i \<Longrightarrow> i < 6 \<Longrightarrow> fs_names fs' (?s (Suc i)) = fs_names fs (?s i)"
    using slots(1) ps [of "Suc i"] s1 [of i] by (simp add: assms(4))
  show "fs_names fs' (?s 7) = (case fs_names fs (?s 6) of Some k \<Rightarrow> Some k | None \<Rightarrow> fs_names fs (?s 7))"
    using slots(2) ps [of 7] s1 [of 6] by (simp add: assms(4) split: option.split)
  show "p \<noteq> path \<Longrightarrow> (\<And>i. 1 \<le> i \<Longrightarrow> i \<le> 7 \<Longrightarrow> p \<noteq> ?s i) \<Longrightarrow> fs_names fs' p = fs_names fs p"
    using cascade_other [of 6 p root pfx fs] by (simp add: assms(4))
  show "fs_data fs' = fs_data fs" by (simp add: assms(4))
qed

section \<open>Logging\<close>

definition same_setting :: "logger \<Rightarrow> logger \<Rightarrow> bool" where
  "same_setting lg lg' \<longleftrightarrow> lg_root lg' = lg_root lg \<and> lg_prefix lg' = lg_prefix lg \<and>
     lg_date lg' = lg_date lg \<and> lg_path lg' = lg_path lg \<and> lg_quota lg' = lg_quota lg"

lemma ready_write:
  assumes r: "lg_ready lg" and lg': "lg' = lg\<lparr>lg_fs := snd (file_put txt (lg_file lg) (lg_fs lg))\<rparr>"
  shows "lg_ready lg'" "content_or (lg_fs lg') (lg_path lg) = content_or (lg_fs lg) (lg_path lg) @ txt"
    "p \<noteq> lg_path lg \<Longrightarrow> fs_content (lg_fs lg') p = fs_content (lg_fs lg) p"
    "p \<noteq> lg_path lg \<Longrightarrow> content_or (lg_fs lg') p = content_or (lg_fs lg) p"
proof -
  obtain d where d: "fs_fds (lg_fs lg) (f_fd (lg_file lg)) = Some d" "of_access (od_flags d) \<noteq> O_RDONLY"
      "of_append (od_flags d)" "fs_names (lg_fs lg) (lg_path lg) = Some (od_inode d)"
    using r by (auto simp: lg_ready_def)
  have fs': "lg_fs lg' = (lg_fs lg)\<lparr>
      fs_data := (fs_data (lg_fs lg))(od_inode d := fs_data (lg_fs lg) (od_inode d) @ txt),
      fs_fds := (fs_fds (lg_fs lg))(f_fd (lg_file lg) \<mapsto>
        d\<lparr>od_pos := length (fs_data (lg_fs lg) (od_inode d)) + length txt\<rparr>)\<rparr>"
    using d by (simp add: lg' file_put_def posix_write_def Let_def)
  have "fs_inv (lg_fs lg')"
    using r fs_inv_write [of "lg_fs lg" "f_fd (lg_file lg)" "txt"]
    by (simp add: lg' lg_ready_def file_put_def split_beta)
  then show "lg_ready lg'" using r d by (simp add: lg_ready_def fs') (simp add: lg')
  show "content_or (lg_fs lg') (lg_path lg) = content_or (lg_fs lg) (lg_path lg) @ txt"
    using d by (simp add: content_or_def fs_content_def fs')
  show other: "fs_content (lg_fs lg') p = fs_content (lg_fs lg) p" if "p \<noteq> lg_path lg"
  proof -
    have "fs_names (lg_fs lg) p \<noteq> Some (od_inode d)"
      using r d(4) that unfolding lg_ready_def fs_inv_def inj_on_def dom_def by (metis (mono_tags) domI domIff mem_Collect_eq option.simps(3))
    then show ?thesis by (cases "fs_names (lg_fs lg) p") (auto simp: fs_content_def fs')
  qed
  then show "p \<noteq> lg_path lg \<Longrightarrow> content_or (lg_fs lg') p = content_or (lg_fs lg) p"
    by (simp add: content_or_def)
qed

lemma ready_slot: "lg_ready lg \<Longrightarrow> i < 10 \<Longrightarrow> slot_name (lg_root lg) (lg_prefix lg) i \<noteq> lg_path lg"
  using dated_not_slot by (auto simp: lg_ready_def) (metis dated_not_slot)

text \<open>After a rotation \<^verbatim>\<open>do_open\<close> creates the dated file afresh.\<close>

lemma do_open_fresh:
  assumes "fs_inv (lg_fs lg)" "length (lg_root lg) + length (lg_prefix lg) \<le> 500"
    "lg_path lg = dated_name (lg_root lg) (lg_prefix lg) (lg_date lg)"
    "fs_names (lg_fs lg) (lg_path lg) = None" "f_fd (lg_file lg) = hFileNull" "perm (lg_path lg)"
    "lg' = snd (do_open perm lg)"
  shows "lg_ready lg'" "same_setting lg lg'" "content_or (lg_fs lg') (lg_path lg) = []"
    "p \<noteq> lg_path lg \<Longrightarrow> fs_content (lg_fs lg') p = fs_content (lg_fs lg) p"
proof -
  have cq: "check_quota lg = (False, lg)"
    using assms(4) by (simp add: check_quota_def fs_content_def)
  let ?fl = "open_flags (modeWrite OR modeNoTruncate OR modeCreate)"
  have fl: "of_access ?fl = O_WRONLY" "of_append ?fl" "of_creat ?fl" "\<not> of_trunc ?fl"
    by (simp_all add: open_flags_def modeWrite_def modeNoTruncate_def modeCreate_def modeReadWrite_def Let_def)
  let ?fs = "(lg_fs lg)\<lparr>fs_names := (fs_names (lg_fs lg))(lg_path lg \<mapsto> fs_next_inode (lg_fs lg)),
      fs_data := (fs_data (lg_fs lg))(fs_next_inode (lg_fs lg) := []),
      fs_next_inode := Suc (fs_next_inode (lg_fs lg))\<rparr>"
  have po: "posix_open perm (lg_path lg) ?fl (lg_fs lg) = fs_install (fs_next_inode (lg_fs lg)) ?fl ?fs"
    using assms(4,6) fl by (simp add: posix_open_def)
  have lg': "lg' = lg\<lparr>lg_file := \<lparr>f_fd = int (fs_next_fd (lg_fs lg)), f_close_on_delete = True,
        f_filename = lg_path lg\<rparr>, lg_fs := snd (fs_install (fs_next_inode (lg_fs lg)) ?fl ?fs)\<rparr>"
    using assms(3,5,7) cq po by (simp add: do_open_def file_open_def fs_install_def split_beta)
  have "fs_inv (lg_fs lg')"
    using fs_inv_open [OF assms(1), of perm "lg_path lg" ?fl] po by (simp add: lg')
  then show "lg_ready lg'" using assms(2,3) fl by (simp add: lg_ready_def lg' fs_install_def)
  show "same_setting lg lg'" by (simp add: same_setting_def lg')
  show "content_or (lg_fs lg') (lg_path lg) = []"
    by (simp add: content_or_def fs_content_def lg' fs_install_def)
  show "fs_content (lg_fs lg') p = fs_content (lg_fs lg) p" if "p \<noteq> lg_path lg"
  proof -
    have "fs_names (lg_fs lg) p \<noteq> Some (fs_next_inode (lg_fs lg))"
      using assms(1) unfolding fs_inv_def by blast
    then show ?thesis using that
      by (cases "fs_names (lg_fs lg) p") (auto simp: fs_content_def lg' fs_install_def)
  qed
qed

text \<open>
  A rotation shifts the slots by one. When \<^verbatim>\<open>check_quota\<close> reports a rotation of the dated file, the
  file is now slot 1 and its name is free, slots 1 to 5 are now slots 2 to 6, slot 6 has replaced
  slot 7 if there was one, and no other file is touched.
\<close>

theorem log_rotation_shifts:
  assumes "lg_ready lg" "check_quota lg = (True, lg')"
  defines "s \<equiv> slot_name (lg_root lg) (lg_prefix lg)"
  shows "fs_content (lg_fs lg') (s 1) = fs_content (lg_fs lg) (lg_path lg) \<and>
    fs_content (lg_fs lg') (lg_path lg) = None \<and>
    (\<forall>i\<in>{1..5}. fs_content (lg_fs lg') (s (Suc i)) = fs_content (lg_fs lg) (s i)) \<and>
    fs_content (lg_fs lg') (s 7) =
      (case fs_content (lg_fs lg) (s 6) of None \<Rightarrow> fs_content (lg_fs lg) (s 7) | Some c \<Rightarrow> Some c) \<and>
    (\<forall>p. p \<noteq> lg_path lg \<and> p \<notin> s ` {1..7} \<longrightarrow> fs_content (lg_fs lg') p = fs_content (lg_fs lg) p)"
proof -
  have over: "over_quota lg" using check_quota_under [OF assms(1)] assms(2) by (cases "over_quota lg") auto
  let ?fs = "posix_close (f_fd (lg_file lg)) (lg_fs lg)"
  obtain ino where ino: "fs_names ?fs (lg_path lg) = Some ino"
    using assms(1) by (auto simp: lg_ready_def posix_close_def)
  have fs': "lg_fs lg' = posix_rename (lg_path lg) (s 1) (cascade (lg_root lg) (lg_prefix lg) 6 ?fs)"
    using check_quota_over [OF assms(1) over] assms(2) by (simp add: s_def)
  have len: "length (lg_root lg) + length (lg_prefix lg) \<le> 500"
    and path: "lg_path lg = dated_name (lg_root lg) (lg_prefix lg) (lg_date lg)"
    using assms(1) by (simp_all add: lg_ready_def)
  note n = rotated_names [OF len path ino fs' [unfolded s_def], folded s_def]
  have same: "fs_names ?fs = fs_names (lg_fs lg)" "fs_data (lg_fs lg') = fs_data (lg_fs lg)"
    using n(6) by (simp_all add: posix_close_def)
  show ?thesis
    using n(1-5) ino same by (auto simp: fs_content_def image_iff split: option.split)
qed

lemma rotate_and_reopen:
  assumes r: "lg_ready lg" and over: "over_quota lg" and perm: "perm (lg_path lg)"
    and cq: "check_quota lg = (True, lg1)" and lg2: "lg2 = snd (do_open perm lg1)"
  shows "lg_ready lg2" "same_setting lg lg2" "content_or (lg_fs lg2) (lg_path lg2) = []"
    "p \<noteq> lg_path lg \<Longrightarrow> fs_content (lg_fs lg2) p = fs_content (lg_fs lg1) p"
proof -
  let ?s = "slot_name (lg_root lg) (lg_prefix lg)"
  let ?fs = "posix_close (f_fd (lg_file lg)) (lg_fs lg)"
  obtain ino where ino: "fs_names ?fs (lg_path lg) = Some ino"
    using r by (auto simp: lg_ready_def posix_close_def)
  have l1: "lg1 = lg\<lparr>lg_file := (lg_file lg)\<lparr>f_fd := hFileNull\<rparr>,
      lg_fs := posix_rename (lg_path lg) (?s 1) (cascade (lg_root lg) (lg_prefix lg) 6 ?fs)\<rparr>"
    using check_quota_over [OF r over] cq by simp
  have len: "length (lg_root lg) + length (lg_prefix lg) \<le> 500"
    and path: "lg_path lg = dated_name (lg_root lg) (lg_prefix lg) (lg_date lg)"
    using r by (simp_all add: lg_ready_def)
  have inv: "fs_inv (lg_fs lg1)"
    using r by (simp add: l1 lg_ready_def fs_inv_rename cascade_inv fs_inv_close)
  have gone: "fs_names (lg_fs lg1) (lg_path lg) = None"
    using rotated_names(2) [OF len path ino refl] by (simp add: l1)
  have sets: "lg_root lg1 = lg_root lg" "lg_prefix lg1 = lg_prefix lg" "lg_path lg1 = lg_path lg"
      "lg_date lg1 = lg_date lg" "lg_quota lg1 = lg_quota lg" "f_fd (lg_file lg1) = hFileNull"
    by (simp_all add: l1)
  note fresh = do_open_fresh [OF inv, of perm lg2, unfolded sets, OF len path gone refl perm lg2]
  show "lg_ready lg2" by (rule fresh(1))
  show set2: "same_setting lg lg2" using fresh(2) sets by (simp add: same_setting_def)
  show "content_or (lg_fs lg2) (lg_path lg2) = []" using fresh(3) set2 by (simp add: same_setting_def)
  show "p \<noteq> lg_path lg \<Longrightarrow> fs_content (lg_fs lg2) p = fs_content (lg_fs lg1) p" by (rule fresh(4))
qed

text \<open>
  What the log is meant to be: the rotated texts, newest first and at most seven of them, and the
  text being written. A message that finds the text above the quota starts a new one.
\<close>

type_synonym log_book = "string list \<times> string"

definition book_write :: "int \<Rightarrow> string \<Rightarrow> log_book \<Rightarrow> log_book" where
  "book_write quota msg book =
     (case book of (rotated, active) \<Rightarrow>
        if 1 \<le> quota \<and> quota * 1048576 < int (length active)
        then (take 7 (active # rotated), msg) else (rotated, active @ msg))"

text \<open>The files hold that book: slot \<open>i\<close> is the \<open>i\<close>th rotated text, no other slot exists, and the dated
  file is the active text.\<close>

definition book_on_disk :: "logger \<Rightarrow> log_book \<Rightarrow> bool" where
  "book_on_disk lg book \<longleftrightarrow>
     length (fst book) \<le> 7 \<and>
     (\<forall>i\<in>{1..7}. fs_content (lg_fs lg) (slot_name (lg_root lg) (lg_prefix lg) i) =
        (if i \<le> length (fst book) then Some (fst book ! (i - 1)) else None)) \<and>
     fs_content (lg_fs lg) (lg_path lg) = Some (snd book)"

lemma ready_content:
  "lg_ready lg \<Longrightarrow> fs_content (lg_fs lg) (lg_path lg) = Some (content_or (lg_fs lg) (lg_path lg))"
  by (auto simp: lg_ready_def content_or_def fs_content_def)

lemma book_over: "lg_ready lg \<Longrightarrow> book_on_disk lg (rs, a) \<Longrightarrow>
  over_quota lg \<longleftrightarrow> 1 \<le> lg_quota lg \<and> lg_quota lg * 1048576 < int (length a)"
  by (simp add: over_quota_def book_on_disk_def content_or_def)

lemma book_append:
  assumes r: "lg_ready lg" and b: "book_on_disk lg (rs, a)"
    and lg': "lg' = lg\<lparr>lg_fs := snd (file_put msg (lg_file lg) (lg_fs lg))\<rparr>"
  shows "book_on_disk lg' (rs, a @ msg)"
proof -
  note w = ready_write [OF r lg']
  have set: "lg_root lg' = lg_root lg" "lg_prefix lg' = lg_prefix lg" "lg_path lg' = lg_path lg"
    by (simp_all add: lg')
  have "fs_content (lg_fs lg') (lg_path lg) = Some (a @ msg)"
    using ready_content [OF w(1)] w(2) b by (simp add: set book_on_disk_def content_or_def)
  then show ?thesis using b w(3) ready_slot [OF r] by (simp add: book_on_disk_def set)
qed

lemma book_rotate:
  assumes r: "lg_ready lg" and b: "book_on_disk lg (rs, a)" and cq: "check_quota lg = (True, lg')"
    and i: "1 \<le> i" "i \<le> 7"
  shows "fs_content (lg_fs lg') (slot_name (lg_root lg) (lg_prefix lg) i) =
    (if i \<le> length (take 7 (a # rs)) then Some (take 7 (a # rs) ! (i - 1)) else None)"
proof -
  let ?s = "slot_name (lg_root lg) (lg_prefix lg)"
  note sh = log_rotation_shifts [OF r cq]
  have old: "fs_content (lg_fs lg) (?s k) = (if k \<le> length rs then Some (rs ! (k - 1)) else None)"
    if "1 \<le> k" "k \<le> 7" for k
    using b that by (simp add: book_on_disk_def)
  have len: "length rs \<le> 7" using b by (simp add: book_on_disk_def)
  consider "i = 1" | k where "i = Suc k" "1 \<le> k" "k \<le> 5" | "i = 7"
    using i by (cases i) (fastforce, case_tac nat, fastforce, force)
  then show ?thesis
  proof cases
    case 1
    then show ?thesis using sh b by (simp add: book_on_disk_def)
  next
    case 2
    then show ?thesis using sh old [of k] by (auto simp: nth_Cons')
  next
    case 3
    then show ?thesis using sh old [of 6] old [of 7] len by (auto simp: nth_Cons')
  qed
qed

lemma lg_log_step:
  assumes r: "lg_ready lg" and perm: "perm (lg_path lg)" and date: "nDate \<le> lg_date lg"
    and b: "book_on_disk lg book" and lg': "lg' = lg_log perm nDate msg lg"
  shows "lg_ready lg' \<and> same_setting lg lg' \<and> book_on_disk lg' (book_write (lg_quota lg) msg book)"
proof (cases "over_quota lg")
  case False
  obtain rs a where book: "book = (rs, a)" by (cases book)
  have l: "lg' = lg\<lparr>lg_fs := snd (file_put msg (lg_file lg) (lg_fs lg))\<rparr>"
    using date False by (simp add: lg' lg_log_def check_quota_under [OF r])
  then show ?thesis
    using ready_write(1) [OF r l] book_append [OF r b [unfolded book] l] book_over [OF r b [unfolded book]] False
    by (auto simp: book book_write_def same_setting_def)
next
  case True
  obtain rs a where book: "book = (rs, a)" by (cases book)
  obtain lg1 where cq: "check_quota lg = (True, lg1)" using check_quota_over [OF r True] by blast
  define lg2 where "lg2 = snd (do_open perm lg1)"
  note ro = rotate_and_reopen [OF r True perm cq lg2_def]
  have set: "lg_root lg2 = lg_root lg" "lg_prefix lg2 = lg_prefix lg" "lg_path lg2 = lg_path lg"
    using ro(2) by (simp_all add: same_setting_def)
  have "fs_content (lg_fs lg2) (lg_path lg) = Some []" using ready_content [OF ro(1)] ro(3) by (simp add: set)
  then have b2: "book_on_disk lg2 (take 7 (a # rs), [])"
    using book_rotate [OF r b [unfolded book] cq] ro(4) ready_slot [OF r] by (simp add: book_on_disk_def set)
  have l: "lg' = lg2\<lparr>lg_fs := snd (file_put msg (lg_file lg2) (lg_fs lg2))\<rparr>"
    using cq by (simp add: lg' lg_log_def lg2_def Let_def)
  then show ?thesis
    using ready_write(1) [OF ro(1) l] book_append [OF ro(1) b2 l] book_over [OF r b [unfolded book]] True ro(2)
    by (simp add: book book_write_def same_setting_def l)
qed

definition log_all :: "(string \<Rightarrow> bool) \<Rightarrow> (int \<times> string) list \<Rightarrow> logger \<Rightarrow> logger" where
  "log_all perm msgs lg = fold (\<lambda>(nDate, msg). lg_process perm (nDate, LogText msg)) msgs lg"

lemma log_all_run:
  assumes "lg_ready lg" "perm (lg_path lg)" "\<forall>m\<in>set msgs. fst m \<le> lg_date lg" "book_on_disk lg book"
  shows "lg_ready (log_all perm msgs lg) \<and> same_setting lg (log_all perm msgs lg) \<and>
    book_on_disk (log_all perm msgs lg) (fold (book_write (lg_quota lg)) (map snd msgs) book)"
  using assms
proof (induction msgs arbitrary: lg book)
  case Nil
  then show ?case by (simp add: log_all_def same_setting_def)
next
  case (Cons m msgs)
  obtain d t where m: "m = (d, t)" by (cases m)
  let ?lg = "lg_log perm d t lg"
  have d: "d \<le> lg_date lg" using Cons.prems(3) m by simp
  note step = lg_log_step [of lg perm d book ?lg t, OF Cons.prems(1,2) d Cons.prems(4) refl]
  have l: "log_all perm (m # msgs) lg = log_all perm msgs ?lg" by (simp add: log_all_def m)
  show ?case
    using Cons.IH [of ?lg "book_write (lg_quota lg) t book"] step Cons.prems(2,3) unfolding l
    by (simp add: same_setting_def m)
qed

lemma book_write_bound:
  "1 \<le> quota \<Longrightarrow> int (length (snd (book_write quota msg book))) \<le> quota * 1048576 + int (length msg)"
  by (auto simp: book_write_def split: prod.split)

section \<open>Properties\<close>

text \<open>
  C11: through every rotation the log keeps the newest texts, whole and in order. Take a log whose
  dated file is open, whose slots are filled from 1 up without gaps (as its own rotations leave
  them), that may create its dated file again, and messages that do not start a new day. After them
  the files hold exactly what the abstract log holds: the rotated texts, newest first, in slots 1
  to at most 7 and nothing in the other slots, and the active text in the dated file. A message
  that finds the active text above the quota makes it the newest rotated text, of which only the
  oldest beyond seven is lost, and starts a new one; every other message is appended. With a
  quota of \<open>n\<close> megabytes the active file exceeds it by at most the last message.
\<close>

theorem log_retains_newest:
  assumes "lg_ready lg" "perm (lg_path lg)" "\<forall>k\<in>set (msgs @ [m]). fst k \<le> lg_date lg"
    "book_on_disk lg book" "lg' = log_all perm (msgs @ [m]) lg"
  defines "book' \<equiv> fold (book_write (lg_quota lg)) (map snd (msgs @ [m])) book"
  shows "lg_ready lg' \<and> book_on_disk lg' book' \<and>
    (1 \<le> lg_quota lg \<longrightarrow> int (length (snd book')) \<le> lg_quota lg * 1048576 + int (length (snd m)))"
  using log_all_run [of lg perm "msgs @ [m]" book, OF assms(1-4)] book_write_bound by (simp add: assms(5) book'_def)

definition demo_log :: logger where
  "demo_log = snd (do_open (\<lambda>_. True) (mk_logger 20240501
     \<lparr>fs_names = Map.empty, fs_data = (\<lambda>_. []), fs_next_inode = 0, fs_fds = Map.empty, fs_next_fd = 3\<rparr>))"

lemma demo_log_ready: "lg_ready demo_log" "lg_date demo_log = 20240501"
  and demo_log_only: "p \<noteq> lg_path demo_log \<Longrightarrow> fs_names (lg_fs demo_log) p = None"
proof -
  let ?fs = "\<lparr>fs_names = Map.empty, fs_data = (\<lambda>_. []), fs_next_inode = 0, fs_fds = Map.empty, fs_next_fd = 3\<rparr>"
  let ?lg = "(mk_logger 20240501 ?fs)\<lparr>lg_path := dated_name LOG_ROOT_PATH ''log'' 20240501\<rparr>"
  have "do_open (\<lambda>_. True) (mk_logger 20240501 ?fs) = do_open (\<lambda>_. True) ?lg"
    by (simp add: do_open_def check_quota_def mk_logger_def)
  then have d: "demo_log = snd (do_open (\<lambda>_. True) ?lg)" by (simp add: demo_log_def)
  have "fs_inv ?fs" by (simp add: fs_inv_def)
  then show "lg_ready demo_log" "lg_date demo_log = 20240501"
    using do_open_fresh(1,2) [of ?lg "\<lambda>_. True" demo_log]
    by (simp_all add: d mk_logger_def mk_file_def same_setting_def LOG_ROOT_PATH_def)
  show "fs_names (lg_fs demo_log) p = None" if "p \<noteq> lg_path demo_log"
    using that do_open_fresh(2) [of ?lg "\<lambda>_. True" demo_log]
      do_open_fresh(4) [of ?lg "\<lambda>_. True" demo_log p] \<open>fs_inv ?fs\<close>
    by (simp add: d mk_logger_def mk_file_def same_setting_def LOG_ROOT_PATH_def fs_content_def)
qed

definition demo_full :: logger where
  "demo_full = demo_log\<lparr>lg_quota := 1,
     lg_fs := (lg_fs demo_log)\<lparr>fs_data := (\<lambda>_. replicate 1048577 (CHR ''x''))\<rparr>\<rparr>"

lemma demo_full_ready: "lg_ready demo_full" "lg_date demo_full = 20240501"
  using demo_log_ready by (auto simp: demo_full_def lg_ready_def fs_inv_def)

lemma demo_full_book: "book_on_disk demo_full ([], replicate 1048577 (CHR ''x''))"
proof -
  have "fs_names (lg_fs demo_log) (slot_name (lg_root demo_log) (lg_prefix demo_log) i) = None" if "i < 10" for i
    using that demo_log_only ready_slot [OF demo_log_ready(1)] by auto
  then show ?thesis
    using demo_log_ready(1) by (auto simp: book_on_disk_def demo_full_def lg_ready_def fs_content_def)
qed

theorem log_retains_newest_witness:
  "book_on_disk (log_all (\<lambda>_. True) [(20240501, ''a''), (20240430, ''b'')] demo_full)
     ([replicate 1048577 (CHR ''x'')], ''ab'')"
  using log_retains_newest [OF demo_full_ready(1), of "\<lambda>_. True" "[(20240501, ''a'')]" "(20240430, ''b'')",
      OF _ _ demo_full_book refl] demo_full_ready(2)
  by (simp add: book_write_def demo_full_def)

theorem log_rotation_shifts_witness:
  "\<exists>lg'. check_quota demo_full = (True, lg') \<and> fs_content (lg_fs lg') (lg_path demo_full) = None"
proof -
  have "over_quota demo_full"
    using book_over [OF demo_full_ready(1) demo_full_book] by (simp add: demo_full_def)
  then obtain lg' where "check_quota demo_full = (True, lg')"
    using check_quota_over [OF demo_full_ready(1)] by blast
  then show ?thesis using log_rotation_shifts [OF demo_full_ready(1)] by blast
qed

text \<open>
  shutting the logger down loses no message. With the stop message of the destructor anywhere in
  the queue the consumer terminates, and has then processed every message of the queue, those behind
  the stop message too, in the order they were put, and closed the file.
\<close>

theorem log_shutdown_drains:
  assumes "StopMsg \<in> snd ` set (q11_q q)"
  shows "lg_thread perm q lg =
    Ret (lg_close (fold (lg_process perm) (filter (\<lambda>m. snd m \<noteq> StopMsg) (q11_q q)) lg))"
  using lg_thread_fold [OF assms] by (simp add: fold_process_no_stop)

theorem log_shutdown_drains_witness:
  "lg_thread (\<lambda>_. True) (push_log 1 ''b'' (destroy_logger 1 (push_log 1 ''a'' (mk_queue_1to1 0)))) demo_log =
     Ret (lg_close (lg_log (\<lambda>_. True) 1 ''b'' (lg_log (\<lambda>_. True) 1 ''a'' demo_log)))"
  using log_shutdown_drains [of "push_log 1 ''b'' (destroy_logger 1 (push_log 1 ''a'' (mk_queue_1to1 0)))"]
  by (simp add: push_log_def destroy_logger_def q11_put_def mk_queue_1to1_def)

text \<open>
  What is logged before the first \<^verbatim>\<open>create_file\<close> is dropped: no file is open, the write to the null
  descriptor fails, and its result is ignored.
\<close>

theorem log_before_open_dropped:
  assumes "fs_fds fs hFileNull = None" "nDate \<le> date"
  shows "lg_log perm nDate txt (mk_logger date fs) = mk_logger date fs"
  using assms
  by (simp add: lg_log_def check_quota_def mk_logger_def mk_file_def file_put_def posix_write_def)

end
