(* ===== verification/Log_Front.thy ===== *)
theory Log_Front
  imports Log_File
begin

text \<open>
  The inline front ends of \<^verbatim>\<open>include/logger.hpp\<close>: \<^verbatim>\<open>log_fmt\<close>, which formats with \<^verbatim>\<open>std::format\<close> and promises not
  to throw, and the wrappers for one level each. \<^verbatim>\<open>std::format\<close> is an argument, \<open>None\<close> when it throws; \<open>throws\<close>
  says whether \<^verbatim>\<open>log\<close> does, before it queues the line. The file name is that of \<^verbatim>\<open>__FILE__\<close>.
\<close>

definition log_failed_text :: "string \<Rightarrow> int \<Rightarrow> loglevel \<Rightarrow> string" where
  "log_failed_text fname line_no l =
     ''[Logger] log_fmt failed at '' @ fname @ '':'' @ show_int line_no @ '' (level='' @ show_nat (level_num l) @ '')'' @ [newline]"

definition log_fmt ::
  "loglevel \<Rightarrow> loglevel \<Rightarrow> int \<Rightarrow> nat \<Rightarrow> string \<Rightarrow> loglevel \<Rightarrow> string \<Rightarrow> int \<Rightarrow> string option \<Rightarrow> bool \<Rightarrow> log_queue
    \<Rightarrow> int \<times> log_queue \<times> string list" where
  "log_fmt level file_line_level nDate pid tStr l fname line_no formatted throws q =
     (if l > level then (0, q, [])
      else (case formatted of
              None \<Rightarrow> (0, q, [log_failed_text fname line_no l])
            | Some body \<Rightarrow>
                if throws then (0, q, [log_failed_text fname line_no l])
                else (let (n, q1) = log_file_line level file_line_level nDate pid tStr fname line_no l (c_str body) q
                      in (n, q1, []))))"

definition infof :: "loglevel \<Rightarrow> loglevel \<Rightarrow> int \<Rightarrow> nat \<Rightarrow> string \<Rightarrow> string \<Rightarrow> int \<Rightarrow> string \<Rightarrow> log_queue \<Rightarrow> int \<times> log_queue" where
  "infof level fl nDate pid tStr fname line_no body q = log_file_line level fl nDate pid tStr fname line_no Info body q"

definition warnf :: "loglevel \<Rightarrow> loglevel \<Rightarrow> int \<Rightarrow> nat \<Rightarrow> string \<Rightarrow> string \<Rightarrow> int \<Rightarrow> string \<Rightarrow> log_queue \<Rightarrow> int \<times> log_queue" where
  "warnf level fl nDate pid tStr fname line_no body q = log_file_line level fl nDate pid tStr fname line_no Warn body q"

definition errorf :: "loglevel \<Rightarrow> loglevel \<Rightarrow> int \<Rightarrow> nat \<Rightarrow> string \<Rightarrow> string \<Rightarrow> int \<Rightarrow> string \<Rightarrow> log_queue \<Rightarrow> int \<times> log_queue" where
  "errorf level fl nDate pid tStr fname line_no body q = log_file_line level fl nDate pid tStr fname line_no Error body q"

definition eventf :: "loglevel \<Rightarrow> loglevel \<Rightarrow> int \<Rightarrow> nat \<Rightarrow> string \<Rightarrow> string \<Rightarrow> int \<Rightarrow> string \<Rightarrow> log_queue \<Rightarrow> int \<times> log_queue" where
  "eventf level fl nDate pid tStr fname line_no body q = log_file_line level fl nDate pid tStr fname line_no EventLevel body q"

definition criticalf :: "loglevel \<Rightarrow> loglevel \<Rightarrow> int \<Rightarrow> nat \<Rightarrow> string \<Rightarrow> string \<Rightarrow> int \<Rightarrow> string \<Rightarrow> log_queue \<Rightarrow> int \<times> log_queue" where
  "criticalf level fl nDate pid tStr fname line_no body q = log_file_line level fl nDate pid tStr fname line_no Critical body q"

text \<open>The levels of a logger and the macros, which call the one logger of the process with the place they stand at.\<close>

record log_levels =
  ll_level :: loglevel
  ll_file_line_level :: loglevel

definition mk_log_levels :: log_levels where
  "mk_log_levels = \<lparr>ll_level = MaxLevel, ll_file_line_level = Warn\<rparr>"

definition set_level :: "loglevel \<Rightarrow> log_levels \<Rightarrow> log_levels" where
  "set_level l ls = ls\<lparr>ll_level := l\<rparr>"

definition get_level :: "log_levels \<Rightarrow> loglevel" where
  "get_level ls = ll_level ls"

definition set_file_line_level :: "loglevel \<Rightarrow> log_levels \<Rightarrow> log_levels" where
  "set_file_line_level l ls = ls\<lparr>ll_file_line_level := l\<rparr>"

definition PDK_LOG_CRIT :: "log_levels \<Rightarrow> int \<Rightarrow> nat \<Rightarrow> string \<Rightarrow> string \<Rightarrow> int \<Rightarrow> string \<Rightarrow> log_queue \<Rightarrow> int \<times> log_queue" where
  "PDK_LOG_CRIT ls nDate pid tStr fname line_no body q =
     log_file_line (ll_level ls) (ll_file_line_level ls) nDate pid tStr fname line_no Critical body q"

definition PDK_LOG_ERR :: "log_levels \<Rightarrow> int \<Rightarrow> nat \<Rightarrow> string \<Rightarrow> string \<Rightarrow> int \<Rightarrow> string \<Rightarrow> log_queue \<Rightarrow> int \<times> log_queue" where
  "PDK_LOG_ERR ls nDate pid tStr fname line_no body q =
     log_file_line (ll_level ls) (ll_file_line_level ls) nDate pid tStr fname line_no Error body q"

definition PDK_LOG_WARN :: "log_levels \<Rightarrow> int \<Rightarrow> nat \<Rightarrow> string \<Rightarrow> string \<Rightarrow> int \<Rightarrow> string \<Rightarrow> log_queue \<Rightarrow> int \<times> log_queue" where
  "PDK_LOG_WARN ls nDate pid tStr fname line_no body q =
     log_file_line (ll_level ls) (ll_file_line_level ls) nDate pid tStr fname line_no Warn body q"

definition PDK_LOG_INFO :: "log_levels \<Rightarrow> int \<Rightarrow> nat \<Rightarrow> string \<Rightarrow> string \<Rightarrow> int \<Rightarrow> string \<Rightarrow> log_queue \<Rightarrow> int \<times> log_queue" where
  "PDK_LOG_INFO ls nDate pid tStr fname line_no body q =
     log_file_line (ll_level ls) (ll_file_line_level ls) nDate pid tStr fname line_no Info body q"

definition PDK_LOG_EVENT :: "log_levels \<Rightarrow> int \<Rightarrow> nat \<Rightarrow> string \<Rightarrow> string \<Rightarrow> int \<Rightarrow> string \<Rightarrow> log_queue \<Rightarrow> int \<times> log_queue" where
  "PDK_LOG_EVENT ls nDate pid tStr fname line_no body q =
     log_file_line (ll_level ls) (ll_file_line_level ls) nDate pid tStr fname line_no EventLevel body q"

definition PDK_LOG_CRIT_FMT ::
  "log_levels \<Rightarrow> int \<Rightarrow> nat \<Rightarrow> string \<Rightarrow> string \<Rightarrow> int \<Rightarrow> string option \<Rightarrow> bool \<Rightarrow> log_queue \<Rightarrow> int \<times> log_queue \<times> string list" where
  "PDK_LOG_CRIT_FMT ls nDate pid tStr fname line_no formatted throws q =
     log_fmt (ll_level ls) (ll_file_line_level ls) nDate pid tStr Critical fname line_no formatted throws q"

definition PDK_LOG_ERR_FMT ::
  "log_levels \<Rightarrow> int \<Rightarrow> nat \<Rightarrow> string \<Rightarrow> string \<Rightarrow> int \<Rightarrow> string option \<Rightarrow> bool \<Rightarrow> log_queue \<Rightarrow> int \<times> log_queue \<times> string list" where
  "PDK_LOG_ERR_FMT ls nDate pid tStr fname line_no formatted throws q =
     log_fmt (ll_level ls) (ll_file_line_level ls) nDate pid tStr Error fname line_no formatted throws q"

definition PDK_LOG_WARN_FMT ::
  "log_levels \<Rightarrow> int \<Rightarrow> nat \<Rightarrow> string \<Rightarrow> string \<Rightarrow> int \<Rightarrow> string option \<Rightarrow> bool \<Rightarrow> log_queue \<Rightarrow> int \<times> log_queue \<times> string list" where
  "PDK_LOG_WARN_FMT ls nDate pid tStr fname line_no formatted throws q =
     log_fmt (ll_level ls) (ll_file_line_level ls) nDate pid tStr Warn fname line_no formatted throws q"

definition PDK_LOG_INFO_FMT ::
  "log_levels \<Rightarrow> int \<Rightarrow> nat \<Rightarrow> string \<Rightarrow> string \<Rightarrow> int \<Rightarrow> string option \<Rightarrow> bool \<Rightarrow> log_queue \<Rightarrow> int \<times> log_queue \<times> string list" where
  "PDK_LOG_INFO_FMT ls nDate pid tStr fname line_no formatted throws q =
     log_fmt (ll_level ls) (ll_file_line_level ls) nDate pid tStr Info fname line_no formatted throws q"

definition PDK_LOG_EVENT_FMT ::
  "log_levels \<Rightarrow> int \<Rightarrow> nat \<Rightarrow> string \<Rightarrow> string \<Rightarrow> int \<Rightarrow> string option \<Rightarrow> bool \<Rightarrow> log_queue \<Rightarrow> int \<times> log_queue \<times> string list" where
  "PDK_LOG_EVENT_FMT ls nDate pid tStr fname line_no formatted throws q =
     log_fmt (ll_level ls) (ll_file_line_level ls) nDate pid tStr EventLevel fname line_no formatted throws q"

section \<open>Properties\<close>

lemma log_file_line_queues:
  assumes "l \<le> level"
  shows "\<exists>txt. log_file_line level fl nDate pid tStr fname line_no l body q = (int (length txt), push_log nDate txt q)"
  using assms unfolding log_file_line_def Let_def by (metis linorder_not_less)

text \<open>A critical message passes every level.\<close>

lemma criticalf_always_queued: "\<exists>txt. criticalf level fl nDate pid tStr fname line_no body q = (int (length txt), push_log nDate txt q)"
  unfolding criticalf_def by (rule log_file_line_queues) (cases level; simp add: loglevel_order)

lemma numbers_no_nul: "nul \<notin> set (show_nat n)" "nul \<notin> set (show_int i)" "nul \<notin> set (zero_pad k n)"
proof -
  have "\<not> is_digit_char nul" by (simp add: is_digit_char_def)
  then have n: "nul \<notin> set (show_nat m)" for m using show_nat_digits [of m] by (auto simp: list_all_iff)
  then show "nul \<notin> set (show_nat n)" .
  show "nul \<notin> set (show_int i)" "nul \<notin> set (zero_pad k n)" using n by (auto simp: show_int_def zero_pad_def Let_def)
qed

lemma length_zero_pad5: "n < 10 ^ 5 \<Longrightarrow> length (zero_pad 5 n) = 5"
  using length_show_nat [of n 4] by (simp add: zero_pad_def Let_def)

text \<open>
  The text of a line for any call: the head, the first 20479 characters of the body and a newline, all cut to 20607
  characters, the buffers ending at a null character. When no buffer is too small the body is in it as it is, whatever
  characters it has.
\<close>

definition line_head :: "loglevel \<Rightarrow> nat \<Rightarrow> string \<Rightarrow> string \<Rightarrow> int \<Rightarrow> loglevel \<Rightarrow> string" where
  "line_head fl pid tStr fname line_no l =
     (if l \<le> fl then ''[p'' @ zero_pad 5 pid @ ''] '' @ tStr @ ''> ['' @ fname @ '':'' @ show_int line_no @ ''] ''
      else ''[p'' @ zero_pad 5 pid @ ''] '' @ tStr @ ''> '')"

definition line_text :: "loglevel \<Rightarrow> nat \<Rightarrow> string \<Rightarrow> string \<Rightarrow> int \<Rightarrow> loglevel \<Rightarrow> string \<Rightarrow> string" where
  "line_text fl pid tStr fname line_no l body =
     takeWhile (\<lambda>c. c \<noteq> nul) (take 20607
       (line_head fl pid tStr fname line_no l @ takeWhile (\<lambda>c. c \<noteq> nul) (take 20479 body) @ [newline]))"

lemma log_line_exact:
  "log_file_line level fl nDate pid tStr fname line_no l body q =
     (if l > level then (0, q)
      else (int (length (line_text fl pid tStr fname line_no l body)),
            push_log nDate (line_text fl pid tStr fname line_no l body) q))"
proof -
  have "(if l \<le> fl
      then ''[p'' @ zero_pad 5 pid @ ''] '' @ tStr @ ''> ['' @ fname @ '':'' @ show_int line_no @ ''] '' @ t @ [newline]
      else ''[p'' @ zero_pad 5 pid @ ''] '' @ tStr @ ''> '' @ t @ [newline]) =
    line_head fl pid tStr fname line_no l @ t @ [newline]" for t
    by (simp add: line_head_def)
  moreover have "c_str (snprintf (20480 + 128) t) = takeWhile (\<lambda>c. c \<noteq> nul) (take 20607 t)"
      "c_str (snprintf 20480 t) = takeWhile (\<lambda>c. c \<noteq> nul) (take 20479 t)" for t
    by (simp_all add: c_str_def snprintf_def)
  ultimately show ?thesis unfolding log_file_line_def line_text_def Let_def by (simp only:)
qed

lemma line_text_fits:
  assumes "length body < 20480" "length tStr + length fname < 60" "pid < 10 ^ 5"
    "nul \<notin> set body \<union> set tStr \<union> set fname" "in_int32 line_no"
  shows "line_text fl pid tStr fname line_no l body = line_head fl pid tStr fname line_no l @ body @ [newline]"
proof -
  let ?t = "line_head fl pid tStr fname line_no l @ body @ [newline]"
  have len: "length ?t \<le> 20607"
    using assms(1,2) length_zero_pad5 [OF assms(3)] length_show_int [OF assms(5)] by (simp add: line_head_def)
  have nn: "nul \<notin> set ?t" using assms(4) numbers_no_nul by (auto simp: line_head_def)
  have "takeWhile (\<lambda>c. c \<noteq> nul) body = body" using assms(4) by (auto simp: takeWhile_eq_all_conv)
  moreover have "takeWhile (\<lambda>c. c \<noteq> nul) ?t = ?t"
    unfolding takeWhile_eq_all_conv using nn by blast
  moreover have "take 20479 body = body" by (rule take_all) (use assms(1) in simp)
  moreover have "take 20607 ?t = ?t" by (rule take_all) (rule len)
  ultimately show ?thesis by (simp only: line_text_def)
qed

text \<open>A new logger filters nothing; after \<^verbatim>\<open>set_level\<close> a call queues a line exactly when its level passes.\<close>

lemma default_level_passes: "l \<le> get_level mk_log_levels"
  by (cases l) (simp_all add: get_level_def mk_log_levels_def loglevel_order)

lemma set_level_filters:
  "(snd (log_file_line (ll_level (set_level lv ls)) fl nDate pid tStr fname line_no l body q) = q) = (l > lv)"
proof (cases "l > lv")
  case False
  then obtain line where "snd (log_file_line lv fl nDate pid tStr fname line_no l body q) = push_log nDate line q"
    using log_file_line_queues [of l lv fl nDate pid tStr fname line_no body q] by (auto simp: not_less)
  moreover have "push_log nDate line q \<noteq> q" by (cases q) (simp add: push_log_def q11_put_def)
  ultimately show ?thesis using False by (simp add: set_level_def)
qed (simp add: log_file_line_def set_level_def)

text \<open>The two families of macros queue the same line when the formatting succeeds.\<close>

lemma macros_agree:
  assumes "nul \<notin> set body"
  shows "fst (snd (PDK_LOG_INFO_FMT ls nDate pid tStr fname line_no (Some body) False q)) = snd (PDK_LOG_INFO ls nDate pid tStr fname line_no body q)"
    "fst (snd (PDK_LOG_CRIT_FMT ls nDate pid tStr fname line_no (Some body) False q)) = snd (PDK_LOG_CRIT ls nDate pid tStr fname line_no body q)"
    "fst (snd (PDK_LOG_ERR_FMT ls nDate pid tStr fname line_no (Some body) False q)) = snd (PDK_LOG_ERR ls nDate pid tStr fname line_no body q)"
    "fst (snd (PDK_LOG_WARN_FMT ls nDate pid tStr fname line_no (Some body) False q)) = snd (PDK_LOG_WARN ls nDate pid tStr fname line_no body q)"
    "fst (snd (PDK_LOG_EVENT_FMT ls nDate pid tStr fname line_no (Some body) False q)) = snd (PDK_LOG_EVENT ls nDate pid tStr fname line_no body q)"
  using c_str_id [OF assms]
  by (simp_all add: PDK_LOG_INFO_FMT_def PDK_LOG_INFO_def PDK_LOG_CRIT_FMT_def PDK_LOG_CRIT_def PDK_LOG_ERR_FMT_def PDK_LOG_ERR_def
    PDK_LOG_WARN_FMT_def PDK_LOG_WARN_def PDK_LOG_EVENT_FMT_def PDK_LOG_EVENT_def log_fmt_def log_file_line_def split_beta)

end
