(* ===== verification/Log_Delivery.thy ===== *)
theory Log_Delivery
  imports Log_Front
begin

text \<open>
  The logger from end to end: a process that names its log file, logs through the front ends and destroys the logger,
  and the file of each day when the consumer thread has ended. There is no quota here; the rotation is the subject of
  \<open>Log_File\<close>. The date of a message is the one the consumer reads from the clock when it takes it from the queue.
\<close>

section \<open>Opening and writing without a quota\<close>

lemma log_open_flags:
  defines "fl \<equiv> open_flags (modeWrite OR modeNoTruncate OR modeCreate)"
  shows "of_access fl = O_WRONLY" "of_append fl" "of_creat fl" "\<not> of_trunc fl"
  by (simp_all add: fl_def open_flags_def modeWrite_def modeNoTruncate_def modeCreate_def modeReadWrite_def Let_def)

lemma posix_open_append:
  assumes "fs_inv fs" "perm p" "of_creat fl" "\<not> of_trunc fl" "posix_open perm p fl fs = (fd, fs')"
  shows "fs_inv fs' \<and> 0 \<le> fd \<and> (\<exists>d. fs_fds fs' fd = Some d \<and> od_flags d = fl \<and> fs_names fs' p = Some (od_inode d)) \<and>
    content_or fs' r = content_or fs r"
proof -
  have "fs_inv fs'" using fs_inv_open [OF assms(1), of perm p fl] assms(5) by simp
  moreover have "fs_names fs r \<noteq> Some (fs_next_inode fs)" using assms(1) unfolding fs_inv_def by blast
  ultimately show ?thesis
    using assms(2-5) by (cases "r = p") (auto simp: posix_open_def fs_install_def content_or_def fs_content_def split: option.splits)
qed

text \<open>The settings of a log without a quota, and what an open or a write of it keeps.\<close>

definition unlimited :: "string \<Rightarrow> string \<Rightarrow> logger \<Rightarrow> bool" where
  "unlimited root pfx lg \<longleftrightarrow> lg_root lg = root \<and> lg_prefix lg = pfx \<and> lg_quota lg < 1"

lemma do_open_append:
  assumes "fs_inv (lg_fs lg)" "unlimited root pfx lg" "length root + length pfx \<le> 500" "perm (dated_name root pfx (lg_date lg))"
    "f_close_on_delete (lg_file lg)" "lg' = snd (do_open perm lg)"
  shows "lg_ready lg' \<and> unlimited root pfx lg' \<and> lg_date lg' = lg_date lg \<and> content_or (lg_fs lg') p = content_or (lg_fs lg) p"
proof -
  let ?p = "dated_name root pfx (lg_date lg)" and ?m = "modeWrite OR modeNoTruncate OR modeCreate"
  have cq: "check_quota lg = (False, lg)" using assms(2) by (simp add: check_quota_def unlimited_def)
  define ff where "ff = (if f_fd (lg_file lg) \<noteq> hFileNull then file_close (lg_file lg) (lg_fs lg) else (lg_file lg, lg_fs lg))"
  have ff: "f_fd (fst ff) = hFileNull" "fs_inv (snd ff)" "content_or (snd ff) r = content_or (lg_fs lg) r" for r
    using assms(1,5) by (simp_all add: ff_def file_close_def fs_inv_close content_or_def fs_content_frame)
  obtain fd fs' where po: "posix_open perm ?p (open_flags ?m) (snd ff) = (fd, fs')"
    by (cases "posix_open perm ?p (open_flags ?m) (snd ff)")
  note app = posix_open_append [OF ff(2) assms(4) log_open_flags(3,4) po]
  have fo: "file_open perm ?p ?m (fst ff) (snd ff) = (True, \<lparr>f_fd = fd, f_close_on_delete = True, f_filename = ?p\<rparr>, fs')"
    using po app [of p] ff(1) by (simp add: file_open_def)
  have "do_open perm lg = (True, lg\<lparr>lg_path := ?p, lg_file := \<lparr>f_fd = fd, f_close_on_delete = True, f_filename = ?p\<rparr>, lg_fs := fs'\<rparr>)"
    using assms(2) fo by (cases "f_fd (lg_file lg) = hFileNull") (simp_all add: do_open_def cq unlimited_def ff_def split_beta Let_def)
  then have lg': "lg' = lg\<lparr>lg_path := ?p, lg_file := \<lparr>f_fd = fd, f_close_on_delete = True, f_filename = ?p\<rparr>, lg_fs := fs'\<rparr>"
    by (simp add: assms(6))
  show ?thesis
    using app [of p] ff(3) assms(2,3) log_open_flags by (auto simp: lg' lg_ready_def unlimited_def)
qed

lemma lg_log_day:
  assumes "lg_ready lg" "unlimited root pfx lg" "perm (dated_name root pfx (max (lg_date lg) n))" "lg' = lg_log perm n t lg"
  shows "lg_ready lg' \<and> unlimited root pfx lg' \<and> lg_date lg' = max (lg_date lg) n \<and>
    content_or (lg_fs lg') p = content_or (lg_fs lg) p @ (if dated_name root pfx (max (lg_date lg) n) = p then t else [])"
proof -
  let ?d = "max (lg_date lg) n"
  define lg1 where "lg1 = (if lg_date lg < n then snd (do_open perm (lg\<lparr>lg_date := n\<rparr>)) else lg)"
  have r: "fs_inv (lg_fs lg)" "length root + length pfx \<le> 500" "f_close_on_delete (lg_file lg)"
    using assms(1,2) by (simp_all add: lg_ready_def unlimited_def)
  have u: "unlimited root pfx (lg\<lparr>lg_date := n\<rparr>)" using assms(2) by (simp add: unlimited_def)
  have 1: "lg_ready lg1 \<and> unlimited root pfx lg1 \<and> lg_date lg1 = ?d \<and> content_or (lg_fs lg1) q = content_or (lg_fs lg) q" for q
    using do_open_append [of "lg\<lparr>lg_date := n\<rparr>" root pfx perm lg1 q] r u assms(1-3) by (auto simp: lg1_def max_def)
  have path: "lg_path lg1 = dated_name root pfx ?d" using 1 [of p] by (auto simp: lg_ready_def unlimited_def)
  have "check_quota lg = (False, lg)" using assms(2) by (simp add: check_quota_def unlimited_def)
  then have lg': "lg' = lg1\<lparr>lg_fs := snd (file_put t (lg_file lg1) (lg_fs lg1))\<rparr>"
    by (simp add: assms(4) lg_log_def lg1_def Let_def)
  have w: "lg_ready lg1" "unlimited root pfx lg1" "lg_date lg1 = ?d" using 1 [of p] by simp_all
  then show ?thesis
    using ready_write [OF w(1) lg'] 1 path by (auto simp: lg' unlimited_def)
qed

text \<open>The day a line belongs to: the latest date seen so far.\<close>

fun day_lines :: "int \<Rightarrow> (int \<times> string) list \<Rightarrow> (int \<times> string) list" where
  "day_lines d [] = []"
| "day_lines d ((n, t) # ms) = (max d n, t) # day_lines (max d n) ms"

definition of_day :: "string \<Rightarrow> string \<Rightarrow> string \<Rightarrow> (int \<times> string) list \<Rightarrow> string" where
  "of_day root pfx p ms = concat (map snd (filter (\<lambda>(d, t). dated_name root pfx d = p) ms))"

lemma lg_log_days:
  assumes "lg_ready lg" "unlimited root pfx lg" "\<forall>d. perm (dated_name root pfx d)"
  shows "lg_ready (log_all perm ms lg) \<and>
    content_or (lg_fs (log_all perm ms lg)) p = content_or (lg_fs lg) p @ of_day root pfx p (day_lines (lg_date lg) ms)"
  using assms
proof (induction ms arbitrary: lg)
  case (Cons m ms)
  obtain n t where m: "m = (n, t)" by (cases m)
  let ?lg = "lg_log perm n t lg"
  have step: "lg_ready ?lg \<and> unlimited root pfx ?lg \<and> lg_date ?lg = max (lg_date lg) n \<and>
      content_or (lg_fs ?lg) p = content_or (lg_fs lg) p @ (if dated_name root pfx (max (lg_date lg) n) = p then t else [])"
    using Cons.prems by (intro lg_log_day) auto
  then show ?case using Cons.IH [of ?lg] Cons.prems(3) by (simp add: m log_all_def of_day_def)
qed (simp add: log_all_def of_day_def)

section \<open>A session\<close>

text \<open>A call of the front end: date, time text, file, line, level and body.\<close>

type_synonym log_call = "int \<times> string \<times> string \<times> int \<times> loglevel \<times> string"

definition call_date :: "log_call \<Rightarrow> int" where "call_date = (\<lambda>(nDate, tStr, fname, line_no, l, body). nDate)"
definition call_level :: "log_call \<Rightarrow> loglevel" where "call_level = (\<lambda>(nDate, tStr, fname, line_no, l, body). l)"
definition call_body :: "log_call \<Rightarrow> string" where "call_body = (\<lambda>(nDate, tStr, fname, line_no, l, body). body)"

definition call_fits :: "log_call \<Rightarrow> bool" where
  "call_fits = (\<lambda>(nDate, tStr, fname, line_no, l, body). length body < 20480 \<and> length tStr + length fname < 60 \<and>
     nul \<notin> set body \<union> set tStr \<union> set fname \<and> in_int32 line_no)"

definition call_text :: "loglevel \<Rightarrow> nat \<Rightarrow> log_call \<Rightarrow> string" where
  "call_text fl pid = (\<lambda>(nDate, tStr, fname, line_no, l, body). line_text fl pid tStr fname line_no l body)"

lemma call_text_fits:
  "call_fits c \<Longrightarrow> pid < 10 ^ 5 \<Longrightarrow> \<exists>pre. call_text fl pid c = pre @ call_body c @ [newline]"
  using line_text_fits by (cases c) (auto simp: call_text_def call_fits_def call_body_def)

fun log_calls :: "loglevel \<Rightarrow> loglevel \<Rightarrow> nat \<Rightarrow> log_call list \<Rightarrow> log_queue \<Rightarrow> log_queue" where
  "log_calls level fl pid [] q = q"
| "log_calls level fl pid ((nDate, tStr, fname, line_no, l, body) # cs) q =
     log_calls level fl pid cs (snd (log_file_line level fl nDate pid tStr fname line_no l body q))"

text \<open>The producer's side of a whole run of a process.\<close>

definition log_session ::
  "loglevel \<Rightarrow> loglevel \<Rightarrow> nat \<Rightarrow> string \<Rightarrow> string \<Rightarrow> int \<Rightarrow> log_call list \<Rightarrow> log_queue \<Rightarrow> log_queue" where
  "log_session level fl pid root pfx nQuata cs q =
     destroy_logger 0 (log_calls level fl pid cs (snd (create_file_path 0 (Some pfx) (Some root) nQuata q)))"

definition accepted :: "loglevel \<Rightarrow> log_call list \<Rightarrow> log_call list" where
  "accepted level cs = filter (\<lambda>c. call_level c \<le> level) cs"

lemma log_calls_queue:
  "q11_q (log_calls level fl pid cs q) =
     q11_q q @ map (\<lambda>c. (call_date c, LogText (call_text fl pid c))) (accepted level cs)"
proof (induction cs arbitrary: q)
  case (Cons c cs)
  then show ?case
    by (cases c) (simp add: accepted_def log_line_exact push_log_def q11_put_def call_level_def call_date_def
      call_text_def not_le)
qed (simp add: accepted_def)

lemma fold_texts: "fold (lg_process perm) (map (\<lambda>(d, t). (d, LogText t)) ms) lg = log_all perm ms lg"
  by (induction ms arbitrary: lg) (auto simp: log_all_def)

lemma reopen_unlimited:
  assumes "fs_inv fs" "pfx \<noteq> []" "root \<noteq> []" "length root + length pfx \<le> 500" "perm (dated_name root pfx date)"
    "lg = lg_process perm (d, Reopen pfx root quota) (mk_logger date fs)" "quota < 1"
  shows "lg_ready lg \<and> unlimited root pfx lg \<and> lg_date lg = date \<and> content_or (lg_fs lg) p = content_or fs p"
proof -
  let ?lg = "(mk_logger date fs)\<lparr>lg_prefix := pfx, lg_root := root, lg_quota := quota, lg_path := []\<rparr>"
  have "lg = snd (do_open perm ?lg)" using assms(2,3) by (simp add: assms(6) lg_reopen_def mk_logger_def Let_def)
  then show ?thesis
    using do_open_append [of ?lg root pfx perm lg p] assms(1,4,5,7) by (simp add: mk_logger_def mk_file_def unlimited_def)
qed

section \<open>Properties\<close>

text \<open>
  What a process logs is in its log files when it ends. A process names its log without a quota, makes any calls of the
  front end and destroys the logger; the consumer then ends, with the file closed, and every file holds what it held
  before followed by the lines of its day, in the order of the calls, one line per call that the level lets through; a
  file that is no day's log is unchanged. The day of a line is the latest date the consumer has read so far, so the log
  goes over to the next file at midnight and never goes back.
\<close>

lemma log_session_delivered:
  assumes "fs_inv fs" "\<forall>d. perm (dated_name root pfx d)" "pfx \<noteq> []" "root \<noteq> []" "length root + length pfx \<le> 500"
    "quota < 1"
  shows "\<exists>lg. lg_thread perm (log_session level fl pid root pfx quota cs (mk_queue_1to1 n)) (mk_logger date fs) = Ret lg \<and>
    f_fd (lg_file lg) = hFileNull \<and>
    (\<forall>p. content_or (lg_fs lg) p = content_or fs p @
       of_day root pfx p (day_lines date (map (\<lambda>c. (call_date c, call_text fl pid c)) (accepted level cs))))"
proof -
  let ?ms = "map (\<lambda>c. (call_date c, call_text fl pid c)) (accepted level cs)"
  define lg0 where "lg0 = lg_process perm (0, Reopen pfx root quota) (mk_logger date fs)"
  define lg1 where "lg1 = log_all perm ?ms lg0"
  have 0: "lg_ready lg0 \<and> unlimited root pfx lg0 \<and> lg_date lg0 = date \<and> content_or (lg_fs lg0) p = content_or fs p" for p
    using assms by (intro reopen_unlimited) (auto simp: lg0_def)
  then have r0: "lg_ready lg0" "unlimited root pfx lg0" "lg_date lg0 = date" by simp_all
  have 1: "lg_ready lg1" "content_or (lg_fs lg1) p = content_or fs p @ of_day root pfx p (day_lines date ?ms)" for p
    using lg_log_days [OF r0(1,2) assms(2), of ?ms p] r0(3) 0 by (simp_all add: lg1_def)
  have q: "q11_q (log_session level fl pid root pfx quota cs (mk_queue_1to1 n)) =
      (0, Reopen pfx root quota) # map (\<lambda>(d, t). (d, LogText t)) ?ms @ [(0, StopMsg)]"
    by (simp add: log_session_def destroy_logger_def create_file_path_def q11_put_def mk_queue_1to1_def log_calls_queue)
  have "lg_thread perm (log_session level fl pid root pfx quota cs (mk_queue_1to1 n)) (mk_logger date fs) = Ret (lg_close lg1)"
    by (subst lg_thread_fold) (simp_all add: q fold_texts lg1_def lg0_def del: map_map)
  moreover have "f_fd (lg_file (lg_close lg1)) = hFileNull" "content_or (lg_fs (lg_close lg1)) p = content_or (lg_fs lg1) p" for p
    using 1(1) ready_fd [OF 1(1)] by (simp_all add: lg_close_def file_close_def lg_ready_def content_or_def fs_content_frame)
  ultimately show ?thesis using 1(2) by auto
qed

definition demo_calls :: "log_call list" where
  "demo_calls = [(20240501, ''23:59:59'', ''f'', 1, Info, ''a''), (20240502, ''00:00:00'', ''f'', 2, EventLevel, ''x''),
     (20240502, ''00:00:01'', ''f'', 3, Warn, ''100%'')]"

definition demo_fs :: fsys where
  "demo_fs = \<lparr>fs_names = Map.empty, fs_data = (\<lambda>_. []), fs_next_inode = 0, fs_fds = Map.empty, fs_next_fd = 3\<rparr>"

lemma demo_names: "dated_name ''l/'' ''p'' 20240501 = ''l/p.0501''" "dated_name ''l/'' ''p'' 20240502 = ''l/p.0502''"
  by (simp_all add: dated_name_def zero_pad_def show_nat.simps snprintf_def Let_def char_of_def bit_0)

lemma demo_ok: "fs_inv demo_fs" "\<forall>c\<in>set demo_calls. call_fits c"
  by (simp_all add: demo_fs_def fs_inv_def demo_calls_def call_fits_def in_int32_def)

lemma demo_accepted:
  "accepted Info demo_calls = [(20240501, ''23:59:59'', ''f'', 1, Info, ''a''), (20240502, ''00:00:01'', ''f'', 3, Warn, ''100%'')]"
  by (simp add: demo_calls_def accepted_def call_level_def loglevel_order)

lemma demo_empty: "content_or demo_fs p = []"
  by (simp add: demo_fs_def content_or_def fs_content_def)

end
