(* ===== verification/Calendar.thy ===== *)
theory Calendar
  imports C_Text
begin

text \<open>
  \<^verbatim>\<open>Time\<close> and \<^verbatim>\<open>TimeMs\<close> of \<^verbatim>\<open>include/base.hpp\<close> and \<^verbatim>\<open>src/base.cpp\<close>. The C library's \<^verbatim>\<open>mktime\<close> and \<^verbatim>\<open>localtime_r\<close>
  are written out for the proleptic Gregorian calendar and a time zone with one offset from UTC, in
  seconds, which is an argument: zones that change their offset during the year are not covered.
\<close>

section \<open>The C library\<close>

record tm =
  tm_sec :: int
  tm_min :: int
  tm_hour :: int
  tm_mday :: int
  tm_mon :: int
  tm_year :: int
  tm_wday :: int
  tm_isdst :: int

definition zero_tm :: tm where
  "zero_tm = \<lparr>tm_sec = 0, tm_min = 0, tm_hour = 0, tm_mday = 0, tm_mon = 0, tm_year = 0, tm_wday = 0, tm_isdst = 0\<rparr>"

definition leap :: "int \<Rightarrow> bool" where
  "leap y \<longleftrightarrow> y mod 4 = 0 \<and> (y mod 100 \<noteq> 0 \<or> y mod 400 = 0)"

definition year_days :: "int \<Rightarrow> int" where
  "year_days y = (if leap y then 366 else 365)"

definition month_days :: "int \<Rightarrow> int \<Rightarrow> int" where
  "month_days y m = (if m = 1 then (if leap y then 29 else 28) else if m \<in> {3, 5, 8, 10} then 30 else 31)"

definition leaps_through :: "int \<Rightarrow> int" where
  "leaps_through y = y div 4 - y div 100 + y div 400"

text \<open>Days from 1970-01-01 to the first of January; days before a month of the year.\<close>

definition days_before_year :: "int \<Rightarrow> int" where
  "days_before_year y = 365 * (y - 1970) + leaps_through (y - 1) - leaps_through 1969"

definition days_before_month :: "int \<Rightarrow> int \<Rightarrow> int" where
  "days_before_month y m = sum_list (map (\<lambda>i. month_days y (int i)) [0..<nat m])"

text \<open>
  \<^verbatim>\<open>mktime\<close> brings the month into range; days, hours, minutes and seconds count as they are. A zone with one offset
  has no daylight saving time for \<^verbatim>\<open>tm_isdst\<close> to choose.
\<close>

definition mktime :: "int \<Rightarrow> tm \<Rightarrow> int" where
  "mktime off t =
     (let y = tm_year t + 1900 + tm_mon t div 12; m = tm_mon t mod 12;
          days = days_before_year y + days_before_month y m + tm_mday t - 1
      in 86400 * days + 3600 * tm_hour t + 60 * tm_min t + tm_sec t - off)"

function year_walk :: "int \<Rightarrow> int \<Rightarrow> int \<times> int" where
  "year_walk y d =
     (if d < 0 then year_walk (y - 1) (d + year_days (y - 1))
      else if year_days y \<le> d then year_walk (y + 1) (d - year_days y)
      else (y, d))"
  by pat_completeness auto
termination
  by (relation "measure (\<lambda>(y, d). if d < 0 then nat (- d) + 366 else nat d)") (auto simp: year_days_def split: if_splits)

function month_walk :: "int \<Rightarrow> int \<Rightarrow> int \<Rightarrow> int \<times> int" where
  "month_walk y m d = (if 11 \<le> m \<or> d < month_days y m then (m, d) else month_walk y (m + 1) (d - month_days y m))"
  by pat_completeness auto
termination
  by (relation "measure (\<lambda>(y, m, d). nat (11 - m))") auto

declare year_walk.simps [simp del] month_walk.simps [simp del]

text \<open>\<^verbatim>\<open>localtime_r\<close> fails when the year does not fit its \<^verbatim>\<open>int\<close>.\<close>

definition localtime_r :: "int \<Rightarrow> int \<Rightarrow> tm option" where
  "localtime_r off t =
     (let days = (t + off) div 86400; r = (t + off) mod 86400;
          (y, yd) = year_walk 1970 days; (m, md) = month_walk y 0 yd
      in if in_int32 (y - 1900)
         then Some \<lparr>tm_sec = r mod 60, tm_min = r div 60 mod 60, tm_hour = r div 3600, tm_mday = md + 1, tm_mon = m,
                    tm_year = y - 1900, tm_wday = (days + 4) mod 7, tm_isdst = 0\<rparr>
         else None)"

section \<open>Time\<close>

text \<open>
  The constructor from fields: the differences are of type \<^verbatim>\<open>int\<close>, whose overflow is undefined. The first
  argument is the \<^verbatim>\<open>mktime\<close> of the process's time zone; the last has the default \<^verbatim>\<open>-1\<close>.
\<close>

definition mk_time :: "(tm \<Rightarrow> int) \<Rightarrow> int \<Rightarrow> int \<Rightarrow> int \<Rightarrow> int \<Rightarrow> int \<Rightarrow> int \<Rightarrow> int \<Rightarrow> fault + int" where
  "mk_time mktm nYear nMonth nDay nHour nMin nSec nDST =
     (case (add_int32 nYear (-1900), add_int32 nMonth (-1)) of
        (Some y, Some m) \<Rightarrow>
          Inr (mktm (zero_tm\<lparr>tm_year := y, tm_mon := m, tm_mday := nDay, tm_hour := nHour, tm_min := nMin, tm_sec := nSec,
                 tm_isdst := nDST\<rparr>))
      | _ \<Rightarrow> Inl (UB ''int overflow''))"

text \<open>Each getter clears a \<^verbatim>\<open>tm\<close>, which stays so when \<^verbatim>\<open>localtime_r\<close> fails.\<close>

definition get_local_tm :: "int \<Rightarrow> int \<Rightarrow> tm" where
  "get_local_tm off t = (case localtime_r off t of None \<Rightarrow> zero_tm | Some m \<Rightarrow> m)"

definition get_year :: "int \<Rightarrow> int \<Rightarrow> int" where
  "get_year off t = tm_year (get_local_tm off t) + 1900"

definition get_month :: "int \<Rightarrow> int \<Rightarrow> int" where
  "get_month off t = tm_mon (get_local_tm off t) + 1"

definition get_day :: "int \<Rightarrow> int \<Rightarrow> int" where
  "get_day off t = tm_mday (get_local_tm off t)"

definition get_hour :: "int \<Rightarrow> int \<Rightarrow> int" where
  "get_hour off t = tm_hour (get_local_tm off t)"

definition get_minute :: "int \<Rightarrow> int \<Rightarrow> int" where
  "get_minute off t = tm_min (get_local_tm off t)"

definition get_second :: "int \<Rightarrow> int \<Rightarrow> int" where
  "get_second off t = tm_sec (get_local_tm off t)"

definition get_day_of_week :: "int \<Rightarrow> int \<Rightarrow> int" where
  "get_day_of_week off t = tm_wday (get_local_tm off t) + 1"

text \<open>
  \<^verbatim>\<open>Format\<close>: what \<^verbatim>\<open>strftime\<close> expands the format to is an argument. A text that does not fit the 256 bytes
  leaves them undetermined, and the result of \<^verbatim>\<open>strftime\<close> is not looked at.
\<close>

definition time_format :: "int \<Rightarrow> (string \<Rightarrow> tm \<Rightarrow> string) \<Rightarrow> string \<Rightarrow> int \<Rightarrow> fault + string" where
  "time_format off strftime pFormat t =
     (let text = strftime pFormat (get_local_tm off t)
      in if length text < 256 then Inr (c_str text) else Inl (UB ''indeterminate buffer''))"

section \<open>TimeMs\<close>

record time_ms =
  tms_time :: int
  tms_usec :: int
  tms_msec :: int

text \<open>The constructor initialises \<^verbatim>\<open>msec_\<close> from \<^verbatim>\<open>usec_\<close> before the clock is read.\<close>

definition mk_time_ms :: "int \<times> int \<Rightarrow> time_ms" where
  "mk_time_ms tv =
     (let s0 = \<lparr>tms_time = 0, tms_usec = 0, tms_msec = 0\<rparr>;
          s1 = s0\<lparr>tms_msec := tms_usec s0 div 1000\<rparr>
      in s1\<lparr>tms_time := fst tv, tms_usec := snd tv\<rparr>)"

definition time_ms_format :: "int \<Rightarrow> (string \<Rightarrow> tm \<Rightarrow> string) \<Rightarrow> string \<Rightarrow> time_ms \<Rightarrow> fault + string" where
  "time_ms_format off strftime pFormat s = time_format off strftime pFormat (tms_time s)"

lemma time_ms_without_milliseconds: "tms_msec (mk_time_ms tv) = 0"
  by (simp add: mk_time_ms_def Let_def)

section \<open>Years and months\<close>

lemma div_pred:
  assumes "(k::int) > 0"
  shows "y div k = (y - 1) div k + (if y mod k = 0 then 1 else 0)"
proof (cases "y mod k = 0")
  case True
  have "y - 1 = k * (y div k - 1) + (k - 1)" using True mult_div_mod_eq [of k y] by (simp add: algebra_simps)
  then have "(y - 1) div k = y div k - 1" by (rule int_div_pos_eq) (use assms in auto)
  then show ?thesis using True by simp
next
  case False
  then have "1 \<le> y mod k" "y mod k < k" using assms pos_mod_sign [of k y] pos_mod_bound [of k y] by linarith+
  moreover have "y - 1 = k * (y div k) + (y mod k - 1)" using mult_div_mod_eq [of k y] by linarith
  ultimately have "(y - 1) div k = y div k" using int_div_pos_eq [of "y - 1" k "y div k" "y mod k - 1"] by linarith
  then show ?thesis using False by simp
qed

lemma mod_multiple: "(a::int) dvd b \<Longrightarrow> y mod b = 0 \<Longrightarrow> y mod a = 0"
  by (meson dvd_trans mod_eq_0_iff_dvd)

lemma leaps_step: "leaps_through y = leaps_through (y - 1) + (if leap y then 1 else 0)"
proof -
  have m: "y mod 400 = 0 \<longrightarrow> y mod 100 = 0" "y mod 100 = 0 \<longrightarrow> y mod 4 = 0"
    by (intro impI, rule mod_multiple [of 100 400], simp, assumption) (intro impI, rule mod_multiple [of 4 100], simp, assumption)
  have count: "a = a1 + (if P then 1 else 0) \<Longrightarrow> b = b1 + (if Q then 1 else 0) \<Longrightarrow> c = c1 + (if R then 1 else 0) \<Longrightarrow>
      (R \<longrightarrow> Q) \<Longrightarrow> (Q \<longrightarrow> P) \<Longrightarrow> a - b + c = a1 - b1 + c1 + (if P \<and> (\<not> Q \<or> R) then 1 else 0)"
    for a a1 b b1 c c1 :: int and P Q R by (cases P; cases Q; cases R) simp_all
  show ?thesis
    unfolding leaps_through_def leap_def by (rule count [OF div_pred div_pred div_pred m]) simp_all
qed

lemma days_before_next: "days_before_year (y + 1) = days_before_year y + year_days y"
  using leaps_step [of y] by (simp add: days_before_year_def year_days_def)

lemma year_days_pos: "365 \<le> year_days y" by (simp add: year_days_def)

lemma days_before_mono: "y < y' \<Longrightarrow> days_before_year y + year_days y \<le> days_before_year y'"
proof (induction "nat (y' - y)" arbitrary: y')
  case (Suc n)
  show ?case
  proof (cases "y' = y + 1")
    case True
    then show ?thesis by (simp add: days_before_next)
  next
    case False
    then have "days_before_year y + year_days y \<le> days_before_year (y' - 1)" using Suc by (intro Suc(1)) auto
    then show ?thesis using days_before_next [of "y' - 1"] year_days_pos [of "y' - 1"] by simp
  qed
qed simp

lemma year_unique:
  assumes "days_before_year y + d = days_before_year y' + d'" "0 \<le> d" "d < year_days y" "0 \<le> d'" "d' < year_days y'"
  shows "y = y' \<and> d = d'"
  using assms days_before_mono [of y y'] days_before_mono [of y' y] by (cases y y' rule: linorder_cases) auto

lemma year_walk_correct:
  "year_walk y d = (y', d') \<Longrightarrow> days_before_year y' + d' = days_before_year y + d \<and> 0 \<le> d' \<and> d' < year_days y'"
proof (induction y d rule: year_walk.induct)
  case (1 y d)
  show ?case
  proof (cases "d < 0")
    case True
    then show ?thesis using 1(1) 1(3) days_before_next [of "y - 1"] by (simp add: year_walk.simps [of y d])
  next
    case False
    then show ?thesis using 1(2) 1(3) days_before_next [of y]
      by (cases "year_days y \<le> d") (auto simp: year_walk.simps [of y d])
  qed
qed

lemma month_days_pos: "28 \<le> month_days y m" by (simp add: month_days_def)

lemma days_before_month_next: "0 \<le> m \<Longrightarrow> days_before_month y (m + 1) = days_before_month y m + month_days y m"
  by (simp add: days_before_month_def nat_add_distrib)

lemma days_before_month_0: "days_before_month y 0 = 0"
  by (simp add: days_before_month_def)

lemma days_before_month_12: "days_before_month y 12 = year_days y"
proof -
  have "[0..<nat 12] = [0, 1, 2, 3, 4, 5, 6, 7, 8, 9, 10, 11]" by (simp add: upt_rec)
  then show ?thesis by (simp add: days_before_month_def month_days_def year_days_def)
qed

lemma days_before_month_mono: "0 \<le> m \<Longrightarrow> m < m' \<Longrightarrow> days_before_month y m + month_days y m \<le> days_before_month y m'"
proof (induction "nat (m' - m)" arbitrary: m')
  case (Suc n)
  show ?case
  proof (cases "m' = m + 1")
    case True
    then show ?thesis using Suc by (simp add: days_before_month_next)
  next
    case False
    then have "days_before_month y m + month_days y m \<le> days_before_month y (m' - 1)" using Suc by (intro Suc(1)) auto
    then show ?thesis using days_before_month_next [of "m' - 1" y] month_days_pos [of y "m' - 1"] Suc by simp
  qed
qed simp

lemma month_unique:
  assumes "days_before_month y m + d = days_before_month y m' + d'" "0 \<le> m" "0 \<le> m'"
    "0 \<le> d" "d < month_days y m" "0 \<le> d'" "d' < month_days y m'"
  shows "m = m' \<and> d = d'"
  using assms days_before_month_mono [of m m' y] days_before_month_mono [of m' m y] by (cases m m' rule: linorder_cases) auto

lemma month_walk_correct:
  assumes "0 \<le> m" "m \<le> 11" "0 \<le> d" "days_before_month y m + d < year_days y" "month_walk y m d = (m', d')"
  shows "days_before_month y m' + d' = days_before_month y m + d \<and> 0 \<le> m' \<and> m' \<le> 11 \<and> 0 \<le> d' \<and> d' < month_days y m'"
  using assms
proof (induction y m d rule: month_walk.induct)
  case (1 y m d)
  show ?case
  proof (cases "11 \<le> m \<or> d < month_days y m")
    case True
    have "d < month_days y m" using True 1(2-5) days_before_month_next [of 11 y] days_before_month_12 [of y] by auto
    then show ?thesis using True 1(2-6) by (simp add: month_walk.simps [of y m d])
  next
    case False
    then show ?thesis using 1 days_before_month_next [of m y] by (simp add: month_walk.simps [of y m d])
  qed
qed


section \<open>Fields and seconds\<close>

definition valid_fields :: "int \<Rightarrow> int \<Rightarrow> int \<Rightarrow> int \<Rightarrow> int \<Rightarrow> int \<Rightarrow> bool" where
  "valid_fields y mo d h mi s \<longleftrightarrow> 1 \<le> mo \<and> mo \<le> 12 \<and> 1 \<le> d \<and> d \<le> month_days y (mo - 1) \<and>
     0 \<le> h \<and> h < 24 \<and> 0 \<le> mi \<and> mi < 60 \<and> 0 \<le> s \<and> s < 60"

definition day_number :: "int \<Rightarrow> int \<Rightarrow> int \<Rightarrow> int" where
  "day_number y mo d = days_before_year y + days_before_month y (mo - 1) + d - 1"

lemma day_in_year:
  assumes "1 \<le> mo" "mo \<le> 12" "1 \<le> d" "d \<le> month_days y (mo - 1)"
  shows "0 \<le> days_before_month y (mo - 1) + d - 1" "days_before_month y (mo - 1) + d - 1 < year_days y"
proof -
  have "mo - 1 = 0 \<or> 0 < mo - 1" using assms(1) by linarith
  then have "0 \<le> days_before_month y (mo - 1)"
    using days_before_month_mono [of 0 "mo - 1" y] days_before_month_0 [of y] month_days_pos [of y 0] by auto
  then show "0 \<le> days_before_month y (mo - 1) + d - 1" using assms(3) by simp
  show "days_before_month y (mo - 1) + d - 1 < year_days y"
    using days_before_month_mono [of "mo - 1" 12 y] days_before_month_12 [of y] assms by simp
qed

lemma walks_of_day:
  assumes "1 \<le> mo" "mo \<le> 12" "1 \<le> d" "d \<le> month_days y (mo - 1)"
  shows "year_walk 1970 (day_number y mo d) = (y, days_before_month y (mo - 1) + d - 1)"
    "month_walk y 0 (days_before_month y (mo - 1) + d - 1) = (mo - 1, d - 1)"
proof -
  note r = day_in_year [OF assms]
  obtain y' d' where w: "year_walk 1970 (day_number y mo d) = (y', d')" by force
  have "days_before_year 1970 = 0" by (simp add: days_before_year_def)
  then have "days_before_year y' + d' = days_before_year y + (days_before_month y (mo - 1) + d - 1)" "0 \<le> d'" "d' < year_days y'"
    using year_walk_correct [OF w] by (auto simp: day_number_def)
  then show "year_walk 1970 (day_number y mo d) = (y, days_before_month y (mo - 1) + d - 1)"
    using w year_unique [of y' d' y] r by auto
  obtain m' e' where m: "month_walk y 0 (days_before_month y (mo - 1) + d - 1) = (m', e')" by force
  have "days_before_month y m' + e' = days_before_month y (mo - 1) + (d - 1)" "0 \<le> m'" "0 \<le> e'" "e' < month_days y m'"
    using month_walk_correct [OF _ _ r(1) _ m] r(2) days_before_month_0 [of y] by auto
  then show "month_walk y 0 (days_before_month y (mo - 1) + d - 1) = (mo - 1, d - 1)"
    using m month_unique [of y m' e' "mo - 1" "d - 1"] assms by auto
qed

lemma clock_parts:
  assumes "0 \<le> (h::int)" "h < 24" "0 \<le> mi" "mi < 60" "0 \<le> s" "s < 60" "r = 3600 * h + 60 * mi + s"
  shows "(86400 * n + r) div 86400 = n" "(86400 * n + r) mod 86400 = r" "r mod 60 = s" "r div 60 mod 60 = mi" "r div 3600 = h"
proof -
  have r: "0 \<le> r" "r < 86400" using assms by linarith+
  show "(86400 * n + r) div 86400 = n" using r by (intro int_div_pos_eq [of _ _ _ r]) auto
  show "(86400 * n + r) mod 86400 = r" using r by (intro int_mod_pos_eq [of _ _ n]) auto
  show "r mod 60 = s" using assms by (intro int_mod_pos_eq [of _ _ "60 * h + mi"]) auto
  have "r div 60 = 60 * h + mi" using assms by (intro int_div_pos_eq [of _ _ _ s]) auto
  then show "r div 60 mod 60 = mi" using assms by (simp only:) (intro int_mod_pos_eq [of _ _ h], auto)
  show "r div 3600 = h" using assms by (intro int_div_pos_eq [of _ _ _ "60 * mi + s"]) auto
qed

lemma mk_time_seconds:
  assumes "valid_fields y mo d h mi s" "in_int32 y" "in_int32 (y - 1900)"
  shows "mk_time (mktime off) y mo d h mi s (-1) = Inr (86400 * day_number y mo d + (3600 * h + 60 * mi + s) - off)"
proof -
  have m: "(mo - 1) div 12 = 0" "(mo - 1) mod 12 = mo - 1" using assms(1) by (auto simp: valid_fields_def)
  have "add_int32 y (-1900) = Some (y - 1900)" "add_int32 mo (-1) = Some (mo - 1)"
    using assms by (auto simp: add_int32_def in_int32_def valid_fields_def)
  then show ?thesis by (simp add: mk_time_def mktime_def zero_tm_def m day_number_def Let_def)
qed

lemma local_of_fields:
  assumes "valid_fields y mo d h mi s" "in_int32 (y - 1900)" "t = 86400 * day_number y mo d + (3600 * h + 60 * mi + s) - off"
  shows "get_local_tm off t = \<lparr>tm_sec = s, tm_min = mi, tm_hour = h, tm_mday = d, tm_mon = mo - 1, tm_year = y - 1900,
    tm_wday = (day_number y mo d + 4) mod 7, tm_isdst = 0\<rparr>"
proof -
  let ?r = "3600 * h + 60 * mi + s"
  have f: "1 \<le> mo" "mo \<le> 12" "1 \<le> d" "d \<le> month_days y (mo - 1)" "0 \<le> h" "h < 24" "0 \<le> mi" "mi < 60" "0 \<le> s" "s < 60"
    using assms(1) by (auto simp: valid_fields_def)
  have t: "t + off = 86400 * day_number y mo d + ?r" using assms(3) by simp
  note c = clock_parts [OF f(5-10) refl]
  show ?thesis
    unfolding get_local_tm_def localtime_r_def t c Let_def walks_of_day [OF f(1-4)] using assms(2) by (simp add: c walks_of_day [OF f(1-4)])
qed

text \<open>
  A date makes the trip through \<^verbatim>\<open>Time\<close>. For every valid date and time of day (leap years included) whose
  year fits, in a zone with any fixed offset, the constructor gives a time whose getters return the
  fields it was made from, and whose day of the week follows from the number of days since 1970-01-01,
  a Thursday.
\<close>

theorem time_fields_roundtrip:
  assumes "valid_fields y mo d h mi s" "in_int32 y" "in_int32 (y - 1900)"
  shows "\<exists>t. mk_time (mktime off) y mo d h mi s (-1) = Inr t \<and> get_year off t = y \<and> get_month off t = mo \<and> get_day off t = d \<and>
    get_hour off t = h \<and> get_minute off t = mi \<and> get_second off t = s \<and>
    get_day_of_week off t = (day_number y mo d + 4) mod 7 + 1"
  using mk_time_seconds [OF assms] local_of_fields [OF assms(1,3) refl]
  by (simp add: get_year_def get_month_def get_day_def get_hour_def get_minute_def get_second_def get_day_of_week_def)

theorem time_fields_roundtrip_witness:
  "\<exists>t. mk_time (mktime 32400) 2024 2 29 23 59 58 (-1) = Inr t \<and> get_year 32400 t = 2024 \<and> get_month 32400 t = 2 \<and> get_day 32400 t = 29 \<and>
    get_hour 32400 t = 23 \<and> get_minute 32400 t = 59 \<and> get_second 32400 t = 58 \<and> get_day_of_week 32400 t = 5"
proof -
  have "day_number 2024 2 29 = 19782"
    by (simp add: day_number_def days_before_year_def leaps_through_def days_before_month_def month_days_def)
  then show ?thesis
    using time_fields_roundtrip [of 2024 2 29 23 59 58 32400]
    by (simp add: valid_fields_def month_days_def leap_def in_int32_def)
qed


text \<open>The comparison operators compare the seconds.\<close>

definition time_less :: "int \<Rightarrow> int \<Rightarrow> bool" where
  "time_less a b \<longleftrightarrow> a < b"

lemma day_number_less:
  assumes "1 \<le> mo" "mo \<le> 12" "1 \<le> d" "d \<le> month_days y (mo - 1)" "1 \<le> mo'" "mo' \<le> 12" "1 \<le> d'" "d' \<le> month_days y' (mo' - 1)"
    "y < y' \<or> y = y' \<and> (mo < mo' \<or> mo = mo' \<and> d < d')"
  shows "day_number y mo d < day_number y' mo' d'"
  using assms(9)
proof (elim disjE conjE)
  assume "y < y'"
  then show ?thesis
    using days_before_mono [of y y'] day_in_year [OF assms(1-4)] day_in_year [OF assms(5-8)] by (simp add: day_number_def)
next
  assume "y = y'" "mo < mo'"
  then show ?thesis using days_before_month_mono [of "mo - 1" "mo' - 1" y] assms by (simp add: day_number_def)
qed (simp add: day_number_def)

text \<open>
  The order of \<^verbatim>\<open>Time\<close> is the order of the calendar. Of two valid dates with times of day, the one that
  comes first when compared by year, month, day, hour, minute and second is less.
\<close>

theorem time_order_is_calendar_order:
  assumes "valid_fields y mo d h mi s" "valid_fields y' mo' d' h' mi' s'" "in_int32 y" "in_int32 (y - 1900)" "in_int32 y'" "in_int32 (y' - 1900)"
    "y < y' \<or> y = y' \<and> (mo < mo' \<or> mo = mo' \<and> (d < d' \<or> d = d' \<and> (h < h' \<or> h = h' \<and> (mi < mi' \<or> mi = mi' \<and> s < s'))))"
  shows "\<exists>t t'. mk_time (mktime off) y mo d h mi s (-1) = Inr t \<and> mk_time (mktime off) y' mo' d' h' mi' s' (-1) = Inr t' \<and> time_less t t'"
proof -
  let ?c = "3600 * h + 60 * mi + s" and ?e = "3600 * h' + 60 * mi' + s'"
  note f = assms(1,2) [unfolded valid_fields_def]
  have r: "0 \<le> ?c" "?c < 86400" "0 \<le> ?e" "?e < 86400" using f by linarith+
  have "86400 * day_number y mo d + ?c < 86400 * day_number y' mo' d' + ?e"
  proof (cases "y < y' \<or> y = y' \<and> (mo < mo' \<or> mo = mo' \<and> d < d')")
    case True
    then have "day_number y mo d < day_number y' mo' d'" using day_number_less f by blast
    then show ?thesis using r by linarith
  next
    case False
    then have "y = y'" "mo = mo'" "d = d'" "h < h' \<or> h = h' \<and> (mi < mi' \<or> mi = mi' \<and> s < s')" using assms(7) by auto
    then show ?thesis using f by auto
  qed
  then show ?thesis
    using mk_time_seconds [OF assms(1,3,4)] mk_time_seconds [OF assms(2,5,6)] by (simp add: time_less_def)
qed

theorem time_order_is_calendar_order_witness:
  "\<exists>t t'. mk_time (mktime 0) 1999 12 31 23 59 59 (-1) = Inr t \<and> mk_time (mktime 0) 2000 1 1 0 0 0 (-1) = Inr t' \<and> time_less t t'"
  using time_order_is_calendar_order [of 1999 12 31 23 59 59 2000 1 1 0 0 0 0]
  by (simp add: valid_fields_def month_days_def in_int32_def)

text \<open>A time whose year does not fit an \<^verbatim>\<open>int\<close> reads as January of 1900, day 0.\<close>

lemma unrepresentable_time: "localtime_r off t = None \<Longrightarrow> get_year off t = 1900 \<and> get_month off t = 1 \<and> get_day off t = 0"
  by (simp add: get_year_def get_month_def get_day_def get_local_tm_def zero_tm_def)

text \<open>A month beyond December belongs to the following year.\<close>

lemma month_carries:
  "1 \<le> mo \<Longrightarrow> mo \<le> 12 \<Longrightarrow> in_int32 y \<Longrightarrow> in_int32 (y - 1900) \<Longrightarrow> in_int32 (y - 1899) \<Longrightarrow> in_int32 (y + 1) \<Longrightarrow>
    mk_time (mktime off) y (mo + 12) d h mi s (-1) = mk_time (mktime off) (y + 1) mo d h mi s (-1)"
proof -
  assume a: "1 \<le> mo" "mo \<le> 12" "in_int32 y" "in_int32 (y - 1900)" "in_int32 (y - 1899)" "in_int32 (y + 1)"
  have m: "(mo - 1) div 12 = 0" "(mo - 1) mod 12 = mo - 1" "(mo + 11) div 12 = 1" "(mo + 11) mod 12 = mo - 1"
    using a(1,2) int_div_pos_eq [of "mo + 11" 12 1 "mo - 1"] int_mod_pos_eq [of "mo + 11" 12 1 "mo - 1"] by auto
  have "add_int32 y (-1900) = Some (y - 1900)" "add_int32 (mo + 12) (-1) = Some (mo + 11)"
    "add_int32 (y + 1) (-1900) = Some (y - 1899)" "add_int32 mo (-1) = Some (mo - 1)"
    using a by (auto simp: add_int32_def in_int32_def)
  then show ?thesis by (simp add: mk_time_def mktime_def zero_tm_def m Let_def add.commute [of 1 y])
qed

end
