(* ===== verification/Log_Clock.thy ===== *)
theory Log_Clock
  imports Log_Delivery Calendar
begin

text \<open>
  The clock of the logger: \<^verbatim>\<open>make_date\<close> reads the current \<^verbatim>\<open>Time\<close> and packs its year, month and day into one number. The
  theory joins the calendar with the delivery of the lines: while the clock does not go back, neither do the dates, so
  each line is in the file of the day on which the consumer wrote it.
\<close>

definition log_date :: "int \<Rightarrow> int \<Rightarrow> int" where
  "log_date off t = make_date (get_year off t) (get_month off t) (get_day off t)"

definition representable :: "int \<Rightarrow> int \<Rightarrow> bool" where
  "representable off t \<longleftrightarrow> localtime_r off t \<noteq> None"

text \<open>The fields of a time are those of its day.\<close>

lemma local_fields:
  assumes "representable off t"
  shows "1 \<le> get_month off t" "get_month off t \<le> 12" "1 \<le> get_day off t"
    "get_day off t \<le> month_days (get_year off t) (get_month off t - 1)"
    "day_number (get_year off t) (get_month off t) (get_day off t) = (t + off) div 86400"
proof -
  let ?n = "(t + off) div 86400"
  obtain y yd where y: "year_walk 1970 ?n = (y, yd)" by force
  obtain m md where m: "month_walk y 0 yd = (m, md)" by force
  have "in_int32 (y - 1900)" using assms by (simp add: representable_def localtime_r_def y m Let_def split: if_splits)
  then have f: "get_year off t = y" "get_month off t = m + 1" "get_day off t = md + 1"
    by (simp_all add: get_year_def get_month_def get_day_def get_local_tm_def localtime_r_def y m Let_def)
  have "days_before_year 1970 = 0" by (simp add: days_before_year_def)
  then have w: "days_before_year y + yd = ?n" "0 \<le> yd" "yd < year_days y" using year_walk_correct [OF y] by auto
  have "days_before_month y m + md = yd" "0 \<le> m" "m \<le> 11" "0 \<le> md" "md < month_days y m"
    using month_walk_correct [OF _ _ w(2) _ m] w(3) days_before_month_0 [of y] by auto
  then show "1 \<le> get_month off t" "get_month off t \<le> 12" "1 \<le> get_day off t"
    "get_day off t \<le> month_days (get_year off t) (get_month off t - 1)"
    "day_number (get_year off t) (get_month off t) (get_day off t) = ?n"
    using f w(1) by (simp_all add: day_number_def)
qed

lemma month_days_31: "month_days y m \<le> 31"
  by (simp add: month_days_def)

lemma make_date_less:
  assumes "1 \<le> m" "m \<le> 12" "1 \<le> d" "d \<le> 31" "1 \<le> m'" "m' \<le> 12" "1 \<le> d'" "d' \<le> 31" "make_date y m d < make_date y' m' d'"
  shows "y < y' \<or> y = y' \<and> (m < m' \<or> m = m' \<and> d < d')"
proof (rule ccontr)
  assume "\<not> ?thesis"
  then have "y' + 1 \<le> y \<or> y = y' \<and> (m' + 1 \<le> m \<or> m = m' \<and> d' \<le> d)" by auto
  then have "make_date y' m' d' \<le> make_date y m d"
  proof (elim disjE conjE)
    assume "y' + 1 \<le> y"
    then show ?thesis using assms(1-8) unfolding make_date_def by linarith
  next
    assume "y = y'" "m' + 1 \<le> m"
    then show ?thesis using assms(1-8) unfolding make_date_def by linarith
  qed (simp add: make_date_def)
  then show False using assms(9) by simp
qed

text \<open>The dates follow the clock.\<close>

lemma log_date_mono:
  assumes "representable off t" "representable off t'" "t \<le> t'"
  shows "log_date off t \<le> log_date off t'"
proof (rule ccontr)
  assume "\<not> log_date off t \<le> log_date off t'"
  note f = local_fields [OF assms(1)] and f' = local_fields [OF assms(2)]
  have "(t' + off) div 86400 < (t + off) div 86400"
    using day_number_less [OF f'(1-4) f(1-4)] make_date_less [OF f'(1-3) _ f(1-3)]
      order_trans [OF f(4) month_days_31] order_trans [OF f'(4) month_days_31] f(5) f'(5) \<open>\<not> log_date off t \<le> log_date off t'\<close>
    by (simp add: log_date_def not_le)
  then have "t' + off < t + off" using zdiv_mono1 [of "t + off" "t' + off" 86400] by linarith
  then show False using assms(3) by simp
qed

lemma day_lines_of_clock:
  assumes "sorted (t0 # ts)" "\<forall>t\<in>set (t0 # ts). representable off t"
  shows "day_lines (log_date off t0) (zip (map (log_date off) ts) ls) = zip (map (log_date off) ts) ls"
  using assms
proof (induction ts arbitrary: t0 ls)
  case (Cons t ts)
  have "log_date off t0 \<le> log_date off t" using Cons.prems by (intro log_date_mono) auto
  then have "max (log_date off t0) (log_date off t) = log_date off t" by simp
  then show ?case using Cons.IH [of t] Cons.prems by (cases ls) simp_all
qed simp

section \<open>Properties\<close>

text \<open>
  C13: every line a process logs is in the log file of the day on which it was written. A process names its log with a
  non-empty path and prefix (500 characters at most) and no quota, makes any calls of \<^verbatim>\<open>log\<close> and destroys the logger; the
  files of the log may be created. If the clock the consumer reads does not go back and its time zone keeps one offset,
  the consumer ends, with the file closed, and every file holds what it held before followed by the lines written on its
  day, in the order of the calls: exactly one line per call that the level lets through, the head, the body cut at 20479
  characters and a newline, cut at 20607. A body under 20480 characters without a null character, with a time and
  file name of fewer than 60 characters together and a process number of five digits, is in its line unchanged. A file
  that is no day's log is unchanged.
\<close>

theorem log_lines_in_their_day:
  assumes "fs_inv fs" "\<forall>d. perm (dated_name root pfx d)" "pfx \<noteq> []" "root \<noteq> []" "length root + length pfx \<le> 500"
    "quota < 1" "sorted (start # clock)" "\<forall>t\<in>set (start # clock). representable off t"
    "map call_date (accepted level cs) = map (log_date off) clock"
  shows "(\<exists>lg. lg_thread perm (log_session level fl pid root pfx quota cs (mk_queue_1to1 n)) (mk_logger (log_date off start) fs) = Ret lg \<and>
      f_fd (lg_file lg) = hFileNull \<and>
      (\<forall>p. content_or (lg_fs lg) p = content_or fs p @
         concat (map snd (filter (\<lambda>(t, l). dated_name root pfx (log_date off t) = p)
           (zip clock (map (call_text fl pid) (accepted level cs))))))) \<and>
    (\<forall>c\<in>set cs. call_fits c \<and> pid < 10 ^ 5 \<longrightarrow> (\<exists>pre. call_text fl pid c = pre @ call_body c @ [newline]))"
proof -
  have "map (\<lambda>c. (call_date c, call_text fl pid c)) (accepted level cs) =
      zip (map (log_date off) clock) (map (call_text fl pid) (accepted level cs))"
    by (simp add: assms(9) [symmetric] zip_map_map zip_same_conv_map)
  moreover have "of_day root pfx p (zip (map (log_date off) clock) ts) =
      concat (map snd (filter (\<lambda>(t, l). dated_name root pfx (log_date off t) = p) (zip clock ts)))" for p ts
    by (simp add: of_day_def zip_map1 filter_map comp_def case_prod_unfold)
  ultimately show ?thesis
    using log_session_delivered [OF assms(1-6), of level fl pid cs n "log_date off start"] day_lines_of_clock [OF assms(7,8)]
      call_text_fits by simp
qed

text \<open>Two lines, one second before and one second after midnight.\<close>

lemma demo_dates:
  "localtime_r 0 1714607999 = Some \<lparr>tm_sec = 59, tm_min = 59, tm_hour = 23, tm_mday = 1, tm_mon = 4, tm_year = 124, tm_wday = 3, tm_isdst = 0\<rparr>"
  "localtime_r 0 1714608001 = Some \<lparr>tm_sec = 1, tm_min = 0, tm_hour = 0, tm_mday = 2, tm_mon = 4, tm_year = 124, tm_wday = 4, tm_isdst = 0\<rparr>"
  by code_simp+

lemma demo_clock:
  "representable 0 1714607999" "representable 0 1714608001" "log_date 0 1714607999 = 20240501" "log_date 0 1714608001 = 20240502"
  by (simp_all add: representable_def demo_dates log_date_def make_date_def get_year_def get_month_def get_day_def get_local_tm_def)

theorem log_lines_in_their_day_witness:
  "\<exists>lg pre1 pre2. lg_thread (\<lambda>_. True) (log_session Info Error 7 ''l/'' ''p'' 0 demo_calls (mk_queue_1to1 0)) (mk_logger (log_date 0 1714607999) demo_fs) = Ret lg \<and>
     content_or (lg_fs lg) ''l/p.0501'' = pre1 @ ''a'' @ [newline] \<and> content_or (lg_fs lg) ''l/p.0502'' = pre2 @ ''100%'' @ [newline]"
proof -
  let ?ts = "[1714607999, 1714608001] :: int list"
  let ?c = "call_text Error 7"
  have cl: "sorted (1714607999 # ?ts)" "\<forall>t\<in>set (1714607999 # ?ts). representable 0 t"
    "map call_date (accepted Info demo_calls) = map (log_date 0) ?ts"
    by (simp_all add: demo_clock demo_accepted call_date_def)
  obtain lg where l: "lg_thread (\<lambda>_. True) (log_session Info Error 7 ''l/'' ''p'' 0 demo_calls (mk_queue_1to1 0))
        (mk_logger (log_date 0 1714607999) demo_fs) = Ret lg"
      "\<And>p. content_or (lg_fs lg) p = content_or demo_fs p @
         concat (map snd (filter (\<lambda>(t, l). dated_name ''l/'' ''p'' (log_date 0 t) = p) (zip ?ts (map ?c (accepted Info demo_calls)))))"
    and fit: "\<forall>c\<in>set demo_calls. call_fits c \<longrightarrow> (\<exists>pre. ?c c = pre @ call_body c @ [newline])"
    using log_lines_in_their_day [OF demo_ok(1) _ _ _ _ _ cl, of "\<lambda>_. True" "''l/''" "''p''" 0 Error 7 0] by auto
  have "set (accepted Info demo_calls) \<subseteq> set demo_calls" by (auto simp: accepted_def)
  then obtain pre1 pre2 where ts: "map ?c (accepted Info demo_calls) = [pre1 @ ''a'' @ [newline], pre2 @ ''100%'' @ [newline]]"
    using fit demo_ok(2) unfolding demo_accepted by (fastforce simp: call_body_def)
  show ?thesis
    using l(1) l(2) [unfolded ts]
    by (intro exI [of _ lg] exI [of _ pre1] exI [of _ pre2]) (simp add: demo_clock demo_empty demo_names)
qed

end
