(* ===== verification/Checksum.thy ===== *)
theory Checksum
  imports Byte_Codec
begin

text \<open>
  \<^verbatim>\<open>IcmpManager::check_sum\<close> (\<^verbatim>\<open>include/icmp.hpp\<close>): the Internet checksum, computed with an \<^verbatim>\<open>int\<close>
  accumulator and two folding steps. The reference definition is the one's complement sum with
  end-around carry after every addition; the two agree for every buffer up to 65535 bytes, and a buffer
  with its checksum stored in it sums to zero.
\<close>

section \<open>The code\<close>

text \<open>The loop over 16-bit words: \<open>nLeft\<close> bytes are to be added; the rest of the buffer and the count are returned.\<close>

fun cksum_words :: "bytes \<Rightarrow> int \<Rightarrow> int \<Rightarrow> fault + bytes \<times> int \<times> int" where
  "cksum_words (a # b # w) nLeft nSum =
     (if nLeft > 1
      then (case add_int32 nSum (int (le_value [a, b])) of
              None \<Rightarrow> Inl (UB ''int overflow'')
            | Some s \<Rightarrow> cksum_words w (nLeft - 2) s)
      else Inr (a # b # w, nLeft, nSum))"
| "cksum_words w nLeft nSum = (if nLeft > 1 then Inl (UB ''read beyond the buffer'') else Inr (w, nLeft, nSum))"

text \<open>The shift of a non-negative \<^verbatim>\<open>int\<close> is a division, the mask a remainder.\<close>

definition fold_once :: "int \<Rightarrow> int" where
  "fold_once n = n div 2 ^ 16 + n mod 2 ^ 16"

definition check_sum :: "bytes \<Rightarrow> int \<Rightarrow> fault + u16" where
  "check_sum buf nLen =
     (case cksum_words buf nLen 0 of
        Inl f \<Rightarrow> Inl f
      | Inr (w, nLeft, nSum) \<Rightarrow>
          (case (if nLeft = 1
                 then (case w of [] \<Rightarrow> None | b # _ \<Rightarrow> add_int32 nSum (int (unat b)))
                 else Some nSum) of
             None \<Rightarrow> Inl (UB ''odd byte'')
           | Some s \<Rightarrow>
               let s1 = fold_once s; s2 = s1 + s1 div 2 ^ 16
               in Inr (word_of_int (- s2 - 1))))"

section \<open>The reference\<close>

fun words16 :: "bytes \<Rightarrow> nat list" where
  "words16 (a # b # w) = le_value [a, b] # words16 w"
| "words16 [a] = [unat a]"
| "words16 [] = []"

definition ones_add :: "nat \<Rightarrow> nat \<Rightarrow> nat" where
  "ones_add x y = (if x + y > 65535 then x + y - 65535 else x + y)"

definition rfc1071 :: "bytes \<Rightarrow> nat" where
  "rfc1071 bs = 65535 - foldl ones_add 0 (words16 bs)"

section \<open>Agreement\<close>

text \<open>The representative of a sum modulo 65535 that end-around carry computes: zero only for zero.\<close>

definition canon :: "nat \<Rightarrow> nat" where
  "canon n = (if n = 0 then 0 else (n - 1) mod 65535 + 1)"

lemma canon_le: "canon n \<le> 65535"
proof -
  have "(n - 1) mod 65535 < 65535" by simp
  then show ?thesis by (simp only: canon_def split: if_split) linarith
qed

lemma canon_mod: "canon n mod 65535 = n mod 65535"
proof (cases "n = 0")
  case False
  then have "canon n mod 65535 = ((n - 1) mod 65535 + 1) mod 65535" by (simp add: canon_def)
  also have "\<dots> = (n - 1 + 1) mod 65535" by (rule mod_add_left_eq)
  finally show ?thesis using False by simp
qed (simp add: canon_def)

lemma canon_unique:
  assumes "m \<le> 65535" "m mod 65535 = n mod 65535" "m = 0 \<longleftrightarrow> n = 0"
  shows "m = canon n"
proof (cases "n = 0")
  case False
  have c: "canon n mod 65535 = m mod 65535" "canon n \<le> 65535" "canon n \<noteq> 0" "m \<noteq> 0"
    using assms canon_mod [of n] canon_le [of n] False by (simp_all add: canon_def)
  then show ?thesis using assms(1) by (cases "m = 65535"; cases "canon n = 65535") auto
qed (use assms in \<open>simp add: canon_def\<close>)

lemma ones_add_canon: "w \<le> 65535 \<Longrightarrow> ones_add (canon x) w = canon (x + w)"
proof (rule canon_unique)
  assume w: "w \<le> 65535"
  show "ones_add (canon x) w \<le> 65535" using canon_le [of x] w
    by (simp only: ones_add_def split: if_split) linarith
  have "ones_add (canon x) w mod 65535 = (canon x + w) mod 65535"
    using le_mod_geq [of 65535 "canon x + w"] by (auto simp: ones_add_def)
  also have "\<dots> = (x + w) mod 65535" using mod_add_cong [OF canon_mod refl] .
  finally show "ones_add (canon x) w mod 65535 = (x + w) mod 65535" .
  show "ones_add (canon x) w = 0 \<longleftrightarrow> x + w = 0" by (auto simp: ones_add_def canon_def)
qed

lemma words16_le: "list_all (\<lambda>w. w \<le> 65535) (words16 bs)"
proof (induction bs rule: words16.induct)
  case (1 a b w)
  have "le_value [a, b] < 256 ^ length [a, b]" by (rule le_value_bound)
  then show ?case using 1 by simp
next
  case (2 a)
  then show ?case using byte_less [of a] by simp
qed simp

lemma fold_ones_add:
  "list_all (\<lambda>w. w \<le> 65535) ws \<Longrightarrow> foldl ones_add (canon x) ws = canon (x + sum_list ws)"
  by (induction ws arbitrary: x) (simp_all add: ones_add_canon add.assoc)

lemma rfc1071_canon: "rfc1071 bs = 65535 - canon (sum_list (words16 bs))"
  using fold_ones_add [OF words16_le, of 0 bs] by (simp add: rfc1071_def canon_def)

text \<open>Two folding steps reach the representative of every sum an \<^verbatim>\<open>int\<close> can hold.\<close>

lemma fold_mod:
  fixes n :: nat
  shows "(n div 65536 + n mod 65536) mod 65535 = n mod 65535"
proof -
  have "n = 65535 * (n div 65536) + (n div 65536 + n mod 65536)"
    using div_mult_mod_eq [of n 65536] by linarith
  then show ?thesis by (metis mod_mult_self4)
qed

lemma two_folds:
  fixes n :: nat
  assumes "n < 2 ^ 31"
  defines "s1 \<equiv> n div 65536 + n mod 65536"
  shows "(s1 + s1 div 65536) mod 65536 = canon n"
proof (rule canon_unique)
  have q: "n div 65536 < 32768" using assms(1) by (simp add: less_mult_imp_div_less)
  have r: "n mod 65536 < 65536" by simp
  have s1: "s1 < 98304" using q r by (simp add: s1_def)
  show "(s1 + s1 div 65536) mod 65536 \<le> 65535" using mod_less_divisor [of 65536 "s1 + s1 div 65536"] by linarith
  have val: "(s1 + s1 div 65536) mod 65536 = (if s1 < 65536 then s1 else s1 - 65535)"
  proof (cases "s1 < 65536")
    case False
    then have "s1 div 65536 = 1" using s1 by (simp add: div_nat_eqI)
    then show ?thesis using False s1 le_mod_geq [of 65536 "s1 + 1"] by simp
  qed simp
  have "(if s1 < 65536 then s1 else s1 - 65535) mod 65535 = s1 mod 65535"
    using le_mod_geq [of 65535 s1] by auto
  also have "\<dots> = n mod 65535" unfolding s1_def by (rule fold_mod)
  finally show "(s1 + s1 div 65536) mod 65536 mod 65535 = n mod 65535" using val by simp
  show "(s1 + s1 div 65536) mod 65536 = 0 \<longleftrightarrow> n = 0"
  proof (cases "n = 0")
    case False
    then have "s1 \<noteq> 0" using div_mult_mod_eq [of n 65536] unfolding s1_def by linarith
    then show ?thesis using False val by (auto split: if_splits)
  qed (simp add: s1_def)
qed




section \<open>The code computes the reference\<close>

lemma sum_words16_le: "sum_list (words16 bs) \<le> 65535 * ((length bs + 1) div 2)"
proof (induction bs rule: words16.induct)
  case (1 a b w)
  have "le_value [a, b] \<le> 65535" using words16_le [of "[a, b]"] by simp
  then show ?case using 1 by simp
next
  case (2 a)
  then show ?case using byte_less [of a] by simp
qed simp

lemma cksum_words_sum:
  assumes "0 \<le> nSum" "nSum + int (sum_list (words16 bs)) < 2 ^ 31"
  shows "\<exists>w nLeft s. cksum_words bs (int (length bs)) nSum = Inr (w, nLeft, s) \<and>
     (nLeft = 0 \<and> s = nSum + int (sum_list (words16 bs)) \<or>
      nLeft = 1 \<and> (\<exists>b. w = [b] \<and> s + int (unat b) = nSum + int (sum_list (words16 bs))))"
  using assms
proof (induction bs arbitrary: nSum rule: words16.induct)
  case (1 a b w)
  let ?x = "int (le_value [a, b])"
  have "in_int32 (nSum + ?x)" using 1(2,3) by (simp add: in_int32_def del: le_value.simps)
  then have "cksum_words (a # b # w) (int (length (a # b # w))) nSum = cksum_words w (int (length w)) (nSum + ?x)"
    by (simp add: add_int32_def)
  then show ?case using 1(1) [of "nSum + ?x"] 1(2,3) by (simp add: add.assoc del: le_value.simps cksum_words.simps)
qed auto

lemma check_sum_canon:
  assumes "sum_list (words16 bs) < 2 ^ 31"
  shows "check_sum bs (int (length bs)) = Inr (of_nat (65535 - canon (sum_list (words16 bs))))"
proof -
  define n where "n = sum_list (words16 bs)"
  define s1 where "s1 = n div 65536 + n mod 65536"
  have "int n < 2 ^ 31" using assms by (simp add: n_def)
  then have rng: "in_int32 (int n)" by (simp add: in_int32_def)
  obtain w nLeft s where w: "cksum_words bs (int (length bs)) 0 = Inr (w, nLeft, s)"
    "nLeft = 0 \<and> s = int n \<or> nLeft = 1 \<and> (\<exists>b. w = [b] \<and> s + int (unat b) = int n)"
    using cksum_words_sum [of 0 bs] \<open>int n < 2 ^ 31\<close> by (auto simp: n_def)
  have fold: "fold_once (int n) = int s1" by (simp add: fold_once_def s1_def zdiv_int zmod_int)
  have "check_sum bs (int (length bs)) = Inr (word_of_int (- (int s1 + int s1 div 2 ^ 16) - 1))"
    using w rng by (auto simp: check_sum_def add_int32_def fold [symmetric] Let_def)
  also have "- (int s1 + int s1 div 2 ^ 16) - 1 = 65535 - int (s1 + s1 div 65536) - 65536" by (simp add: zdiv_int)
  also have "(word_of_int (65535 - int (s1 + s1 div 65536) - 65536) :: u16) = word_of_int (65535 - int ((s1 + s1 div 65536) mod 65536))"
  proof -
    have "(65535 - int m - 65536) mod 65536 = (65535 - int (m mod 65536)) mod 65536" for m :: nat
    proof -
      have "(65535 - int m - 65536) mod 65536 = (65535 - int m) mod 65536"
        using mod_add_self2 [of "65535 - int m - 65536" 65536] by simp
      then show ?thesis using mod_diff_right_eq [of 65535 "int m" 65536] by (simp add: zmod_int)
    qed
    from this [of "s1 + s1 div 65536"] show ?thesis
      unfolding word_of_int_eq_iff take_bit_eq_mod by (simp del: of_nat_add)
  qed
  also have "(s1 + s1 div 65536) mod 65536 = canon n" using two_folds [of n] assms by (simp add: n_def s1_def)
  finally show ?thesis using canon_le [of n] by (simp add: n_def of_nat_diff)
qed

lemma sum_words16_int: "length bs \<le> 65535 \<Longrightarrow> sum_list (words16 bs) < 2 ^ 31"
proof -
  assume "length bs \<le> 65535"
  then have "(length bs + 1) div 2 \<le> 32768" by simp
  then have "65535 * ((length bs + 1) div 2) \<le> 65535 * 32768" by (rule mult_le_mono2)
  then show ?thesis using sum_words16_le [of bs] by simp
qed

text \<open>
  C17: For every buffer of at most 65535 bytes \<^verbatim>\<open>check_sum\<close> reads inside the buffer, its \<^verbatim>\<open>int\<close> accumulator does
  not overflow, and the result is the checksum of RFC 1071: the complement of the one's complement sum
  of the 16-bit words, an odd last byte padded with zero.
\<close>

theorem check_sum_rfc1071:
  assumes "length bs \<le> 65535"
  shows "check_sum bs (int (length bs)) = Inr (of_nat (rfc1071 bs))"
  using check_sum_canon [OF sum_words16_int [OF assms]] by (simp add: rfc1071_canon)

theorem check_sum_rfc1071_witness:
  "check_sum [0x45, 0, 0, 84, 7] 5 = Inr (of_nat (rfc1071 [0x45, 0, 0, 84, 7]))"
  using check_sum_rfc1071 [of "[0x45, 0, 0, 84, 7]"] by simp

lemma words16_append: "even (length xs) \<Longrightarrow> words16 (xs @ ys) = words16 xs @ words16 ys"
  by (induction xs rule: words16.induct) simp_all

text \<open>With the checksum stored at an even offset whose two bytes were zero, the buffer sums to zero.\<close>

lemma check_sum_verifies:
  assumes "even (length pre)" "length (pre @ [0, 0] @ post) \<le> 65535"
    and sum: "check_sum (pre @ [0, 0] @ post) (int (length (pre @ [0, 0] @ post))) = Inr c"
  shows "check_sum (pre @ le_bytes 2 (unat c) @ post) (int (length (pre @ [0, 0] @ post))) = Inr 0"
proof -
  define n where "n = sum_list (words16 (pre @ [0, 0] @ post))"
  have "c = of_nat (65535 - canon n)"
    using check_sum_canon [OF sum_words16_int [OF assms(2)]] sum by (simp add: n_def)
  then have c: "unat c = 65535 - canon n" by (simp add: unat_of_nat)
  let ?bs = "pre @ le_bytes 2 (unat c) @ post"
  have two: "words16 (le_bytes 2 (unat c) @ post) = unat c # words16 post"
  proof -
    have "unat c < 2 ^ 16" using unsigned_less [where 'a = nat and w = c] by simp
    then have "le_value (le_bytes 2 (unat c)) = unat c" by simp
    then show ?thesis by (simp add: numeral_2_eq_2)
  qed
  have s: "sum_list (words16 ?bs) = n + unat c"
    using two assms(1) by (simp add: n_def words16_append)
  have len: "length ?bs = length (pre @ [0, 0] @ post)" by simp
  have "65535 = canon (n + unat c)"
  proof (rule canon_unique)
    have "(n + unat c) mod 65535 = (canon n + unat c) mod 65535"
      by (rule mod_add_cong [OF canon_mod [symmetric] refl])
    then show "65535 mod 65535 = (n + unat c) mod 65535" using c canon_le [of n] by simp
    show "(65535 :: nat) = 0 \<longleftrightarrow> n + unat c = 0" using c by (auto simp: canon_def)
  qed simp
  then show ?thesis
    using check_sum_canon [OF sum_words16_int, of ?bs] s len assms(2) by simp
qed

end
