(* ===== verification/Path_Text.thy ===== *)
theory Path_Text
  imports C_Text "HOL-Library.Sublist"
begin

unbundle bit_operations_syntax

text \<open>
  The text and path helpers of \<^verbatim>\<open>src/util.cpp\<close>: \<^verbatim>\<open>split_path\<close>, \<^verbatim>\<open>tokenize\<close>, \<^verbatim>\<open>to_lower\<close>, \<^verbatim>\<open>to_upper\<close>,
  \<^verbatim>\<open>is_digit\<close>, \<^verbatim>\<open>is_dir\<close> and \<^verbatim>\<open>make_dirs\<close>. Arguments are C strings, without their terminating NUL. The file
  system that \<^verbatim>\<open>stat\<close> and \<^verbatim>\<open>mkdir\<close> see is a tree of nodes without symbolic links; permissions are not
  modelled, so \<^verbatim>\<open>mkdir\<close> fails only for the reasons the tree gives.
\<close>

section \<open>Splitting text\<close>

definition strchr :: "char \<Rightarrow> string \<Rightarrow> nat option" where
  "strchr c s = find_index c s"

definition strrchr :: "char \<Rightarrow> string \<Rightarrow> nat option" where
  "strrchr c s = map_option (\<lambda>i. length s - 1 - i) (find_index c (rev s))"

definition split_path :: "string \<Rightarrow> char \<Rightarrow> int \<Rightarrow> string \<times> string" where
  "split_path pname spliter order =
     (case (if order \<noteq> 0 then strchr spliter pname else strrchr spliter pname) of
        None \<Rightarrow> (pname, [])
      | Some i \<Rightarrow> (take i pname, drop (Suc i) pname))"

text \<open>One call of \<^verbatim>\<open>strtok_r\<close>: the token and what is left for the next call.\<close>

definition strtok :: "string \<Rightarrow> string \<Rightarrow> (string \<times> string) option" where
  "strtok delim s =
     (let r = dropWhile (\<lambda>c. c \<in> set delim) s
      in if r = [] then None
         else Some (takeWhile (\<lambda>c. c \<notin> set delim) r, drop 1 (dropWhile (\<lambda>c. c \<notin> set delim) r)))"

lemma strtok_shorter: "strtok delim s = Some (token, rest) \<Longrightarrow> length rest < length s"
proof -
  assume a: "strtok delim s = Some (token, rest)"
  define r where "r = dropWhile (\<lambda>c. c \<in> set delim) s"
  define q where "q = dropWhile (\<lambda>c. c \<notin> set delim) r"
  have "r \<noteq> []" "rest = drop 1 q"
    using a by (auto simp: strtok_def Let_def r_def q_def split: if_splits)
  moreover have "length q \<le> length r" "length r \<le> length s"
    unfolding q_def r_def by (simp_all only: length_dropWhile_le)
  ultimately show ?thesis by (cases r) auto
qed

function tokens :: "string \<Rightarrow> string \<Rightarrow> string list" where
  "tokens delim s = (case strtok delim s of None \<Rightarrow> [] | Some (token, rest) \<Rightarrow> token # tokens delim rest)"
  by pat_completeness auto
termination by (relation "measure (\<lambda>(delim, s). length s)") (auto dest: strtok_shorter)

declare tokens.simps [simp del]

definition tokenize :: "string \<Rightarrow> string list \<Rightarrow> string \<Rightarrow> string list" where
  "tokenize pszLine value delim = value @ tokens delim pszLine"

section \<open>Case and digits\<close>

text \<open>
  \<^verbatim>\<open>char\<close> is signed: a character above 127 reaches \<^verbatim>\<open>tolower\<close>, \<^verbatim>\<open>toupper\<close> and \<^verbatim>\<open>isdigit\<close> as a negative
  number, which the standard leaves undefined.
\<close>

definition ctype_arg :: "char \<Rightarrow> bool" where
  "ctype_arg c \<longleftrightarrow> (of_char c :: nat) < 128"

definition tolower :: "char \<Rightarrow> char" where
  "tolower c = (if 65 \<le> (of_char c :: nat) \<and> (of_char c :: nat) \<le> 90 then char_of ((of_char c :: nat) + 32) else c)"

definition toupper :: "char \<Rightarrow> char" where
  "toupper c = (if 97 \<le> (of_char c :: nat) \<and> (of_char c :: nat) \<le> 122 then char_of ((of_char c :: nat) - 32) else c)"

fun to_lower :: "string \<Rightarrow> fault + string" where
  "to_lower [] = Inr []"
| "to_lower (c # cs) =
     (if ctype_arg c then map_sum id (Cons (tolower c)) (to_lower cs) else Inl (UB ''tolower of a negative char''))"

fun to_upper :: "string \<Rightarrow> fault + string" where
  "to_upper [] = Inr []"
| "to_upper (c # cs) =
     (if ctype_arg c then map_sum id (Cons (toupper c)) (to_upper cs) else Inl (UB ''toupper of a negative char''))"

fun is_digit :: "string \<Rightarrow> fault + bool" where
  "is_digit [] = Inr True"
| "is_digit (c # cs) =
     (if \<not> ctype_arg c then Inl (UB ''isdigit of a negative char'')
      else if is_digit_char c then is_digit cs else Inr False)"

section \<open>Directories\<close>

datatype fkind = DirNode | RegNode | FifoNode | ChrNode | BlkNode | SockNode

type_synonym path = "string list"
type_synonym tree = "path \<rightharpoonup> fkind"

text \<open>The file type bits of \<^verbatim>\<open>st_mode\<close>.\<close>

fun st_mode :: "fkind \<Rightarrow> u32" where
  "st_mode FifoNode = 0x1000"
| "st_mode ChrNode = 0x2000"
| "st_mode DirNode = 0x4000"
| "st_mode BlkNode = 0x6000"
| "st_mode RegNode = 0x8000"
| "st_mode SockNode = 0xC000"

abbreviation S_IFDIR :: u32 where "S_IFDIR \<equiv> 0x4000"

text \<open>Pathname resolution: every component but the last one must name a directory.\<close>

fun walk :: "tree \<Rightarrow> path \<Rightarrow> string list \<Rightarrow> path option" where
  "walk t cur [] = Some cur"
| "walk t cur (c # cs) =
     (if t cur \<noteq> Some DirNode then None
      else walk t (if c = ''.'' then cur else if c = ''..'' then butlast cur else cur @ [c]) cs)"

definition resolve_path :: "path \<Rightarrow> tree \<Rightarrow> string \<Rightarrow> path option" where
  "resolve_path cwd t p =
     (if p = [] then None else walk t (if hd p = CHR ''/'' then [] else cwd) (tokens ''/'' p))"

definition stat :: "path \<Rightarrow> tree \<Rightarrow> string \<Rightarrow> fkind option" where
  "stat cwd t p =
     (case resolve_path cwd t p of
        None \<Rightarrow> None
      | Some q \<Rightarrow> if last p = CHR ''/'' \<and> t q \<noteq> Some DirNode then None else t q)"

definition mkdir :: "path \<Rightarrow> string \<Rightarrow> tree \<Rightarrow> tree" where
  "mkdir cwd p t =
     (case resolve_path cwd t p of
        None \<Rightarrow> t
      | Some q \<Rightarrow> if t q = None then t(q \<mapsto> DirNode) else t)"

definition is_dir :: "path \<Rightarrow> tree \<Rightarrow> string \<Rightarrow> bool" where
  "is_dir cwd t pname =
     (case stat cwd t pname of None \<Rightarrow> False | Some k \<Rightarrow> st_mode k AND S_IFDIR = S_IFDIR)"

lemma split_path_shorter: "split_path p c order = (head, tail) \<Longrightarrow> length head \<le> length p"
  by (auto simp: split_path_def split: option.splits)

lemma split_path_tail: "split_path p c order = (head, tail) \<Longrightarrow> tail \<noteq> [] \<Longrightarrow> length head < length p"
  by (auto simp: split_path_def split: option.splits)

text \<open>The name \<^verbatim>\<open>make_dirs\<close> works on, with its two parts: a trailing slash is dropped once.\<close>

definition dirs_parts :: "string \<Rightarrow> string \<times> string \<times> string" where
  "dirs_parts pname =
     (let (head, tail) = split_path pname (CHR ''/'') 0
      in if tail = [] then (head, split_path head (CHR ''/'') 0) else (pname, head, tail))"

lemma dirs_parts_shorter: "dirs_parts p = (name, head, tail) \<Longrightarrow> tail \<noteq> [] \<Longrightarrow> length head < length p"
  by (auto simp: dirs_parts_def Let_def split: prod.splits if_splits
      dest: split_path_shorter split_path_tail less_le_trans)

function make_dirs :: "path \<Rightarrow> string \<Rightarrow> tree \<Rightarrow> tree" where
  "make_dirs cwd pname t =
     (case dirs_parts pname of
        (name, head, tail) \<Rightarrow>
          mkdir cwd name (if head \<noteq> [] \<and> tail \<noteq> [] \<and> \<not> is_dir cwd t head then make_dirs cwd head t else t))"
  by pat_completeness auto
termination
  by (relation "measure (\<lambda>(cwd, pname, t). length pname)") (auto dest: dirs_parts_shorter [OF sym])

declare make_dirs.simps [simp del]


section \<open>What splitting does\<close>

lemma strrchr_last: "c \<notin> set y \<Longrightarrow> strrchr c (x @ c # y) = Some (length x)"
  by (simp add: strrchr_def find_index_append)

lemma split_path_last [simp]: "c \<notin> set y \<Longrightarrow> split_path (x @ c # y) c 0 = (x, y)"
  by (simp add: split_path_def strrchr_last)

lemma split_path_absent [simp]: "c \<notin> set p \<Longrightarrow> split_path p c order = (p, [])"
  using find_index_None [of c p] find_index_None [of c "rev p"]
  by (simp add: split_path_def strchr_def strrchr_def del: find_index_None)

text \<open>
  \<^verbatim>\<open>split_path\<close> cuts at the first separator when \<^verbatim>\<open>order\<close> is set and at the last one otherwise, and loses
  nothing but that separator.
\<close>

lemma split_path_spec:
  assumes "c \<in> set p" "split_path p c order = (head, tail)"
  shows "p = head @ c # tail" "order \<noteq> 0 \<Longrightarrow> c \<notin> set head" "order = 0 \<Longrightarrow> c \<notin> set tail"
proof -
  have "p = head @ c # tail \<and> (order \<noteq> 0 \<longrightarrow> c \<notin> set head) \<and> (order = 0 \<longrightarrow> c \<notin> set tail)"
  proof (cases "order = 0")
    case True
    obtain x y where "p = x @ c # y" "c \<notin> set y" using split_list_last [OF assms(1)] by blast
    then show ?thesis using assms(2) True by simp
  next
    case False
    obtain i where i: "find_index c p = Some i" using find_index_mem [OF assms(1)] by blast
    then have "i < length p" "p ! i = c" "c \<notin> set (take i p)" using find_index_SomeD [OF i] by simp_all
    then show ?thesis using assms(2) False i by (auto simp: split_path_def strchr_def id_take_nth_drop)
  qed
  then show "p = head @ c # tail" "order \<noteq> 0 \<Longrightarrow> c \<notin> set head" "order = 0 \<Longrightarrow> c \<notin> set tail" by auto
qed

lemma tokens_Nil [simp]: "tokens delim [] = []"
  by (simp add: tokens.simps strtok_def)

lemma tokens_skip [simp]: "d \<in> set delim \<Longrightarrow> tokens delim (d # s) = tokens delim s"
  by (simp add: tokens.simps [of delim "d # s"] tokens.simps [of delim s] strtok_def)

lemma tokens_word:
  assumes "w \<noteq> []" "set w \<inter> set delim = {}" "rest = [] \<or> hd rest \<in> set delim"
  shows "tokens delim (w @ rest) = w # tokens delim rest"
proof -
  have out: "c \<notin> set delim" if "c \<in> set w" for c using assms(2) that by auto
  have "hd w \<notin> set delim" using out assms(1) by simp
  then have "dropWhile (\<lambda>c. c \<in> set delim) (w @ rest) = w @ rest" using assms(1) by (cases w) auto
  moreover have "takeWhile (\<lambda>c. c \<notin> set delim) (w @ rest) = w" "dropWhile (\<lambda>c. c \<notin> set delim) (w @ rest) = rest"
    using out assms(3) by (cases rest; simp)+
  ultimately have "tokens delim (w @ rest) = w # tokens delim (drop 1 rest)"
    using assms(1) by (simp add: tokens.simps [of delim "w @ rest"] strtok_def)
  also have "tokens delim (drop 1 rest) = tokens delim rest" using assms(3) by (cases rest) auto
  finally show ?thesis .
qed

lemma tokens_concat:
  assumes "list_all (\<lambda>w. w \<noteq> [] \<and> set w \<inter> set delim = {}) ws" "d \<in> set delim"
  shows "tokens delim (concat (map (\<lambda>w. d # w) ws)) = ws"
  using assms(1)
proof (induction ws)
  case (Cons w ws)
  have "concat (map (\<lambda>w. d # w) ws) = [] \<or> hd (concat (map (\<lambda>w. d # w) ws)) \<in> set delim"
    using assms(2) by (cases ws) auto
  then show ?case using Cons assms(2) by (simp add: tokens_word)
qed simp

text \<open>Every token is a non-empty run without delimiters, and together they are the text without its delimiters.\<close>

lemma tokens_spec:
  "(\<forall>w\<in>set (tokens delim s). w \<noteq> [] \<and> set w \<inter> set delim = {}) \<and> concat (tokens delim s) = filter (\<lambda>c. c \<notin> set delim) s"
proof (induction s rule: length_induct)
  case (1 s)
  let ?D = "\<lambda>c. c \<in> set delim" and ?N = "\<lambda>c. c \<notin> set delim"
  define r where "r = dropWhile ?D s"
  have fr: "filter ?N s = filter ?N r"
    unfolding r_def using takeWhile_dropWhile_id [of ?D s] set_takeWhileD [of _ ?D s]
    by (metis (mono_tags, lifting) append_Nil filter_False filter_append)
  show ?case
  proof (cases "r = []")
    case True
    then show ?thesis using fr by (simp add: tokens.simps [of delim s] strtok_def r_def [symmetric])
  next
    case False
    define w where "w = takeWhile ?N r"
    define q where "q = dropWhile ?N r"
    have hr: "\<not> ?D (hd r)" using False hd_dropWhile [of ?D s] by (simp add: r_def)
    have w: "w \<noteq> []" "\<forall>c\<in>set w. ?N c" "r = w @ q"
      using hr False by (auto simp: w_def q_def takeWhile_eq_Nil_iff dest: set_takeWhileD)
    have q: "q = [] \<or> ?D (hd q)" using hd_dropWhile [of ?N r] by (auto simp: q_def)
    have st: "strtok delim s = Some (w, drop 1 q)"
      using False by (simp add: strtok_def r_def [symmetric] w_def [symmetric] q_def [symmetric])
    have "filter ?N q = filter ?N (drop 1 q)" using q by (cases q) auto
    moreover have "length (drop 1 q) < length s" by (rule strtok_shorter [OF st])
    moreover from this have "(\<forall>w\<in>set (tokens delim (drop 1 q)). w \<noteq> [] \<and> set w \<inter> set delim = {}) \<and>
      concat (tokens delim (drop 1 q)) = filter ?N (drop 1 q)" using 1 by blast
    ultimately show ?thesis using w fr by (auto simp: tokens.simps [of delim s] st)
  qed
qed

section \<open>Directories are made along the path\<close>

text \<open>
  A pathname written as its components with single slashes. \<open>with_dirs\<close> is the abstract result: the tree
  in which every prefix of the path is a directory.
\<close>

definition pathname :: "bool \<Rightarrow> string list \<Rightarrow> string" where
  "pathname absolute cs = (let s = concat (map (\<lambda>c. CHR ''/'' # c) cs) in if absolute then s else tl s)"

definition plain_component :: "string \<Rightarrow> bool" where
  "plain_component c \<longleftrightarrow> c \<noteq> [] \<and> CHR ''/'' \<notin> set c \<and> c \<noteq> ''.'' \<and> c \<noteq> ''..''"

definition tree_ok :: "tree \<Rightarrow> bool" where
  "tree_ok t \<longleftrightarrow> t [] = Some DirNode \<and> (\<forall>q c. t (q @ [c]) \<noteq> None \<longrightarrow> t q = Some DirNode)"

definition with_dirs :: "path \<Rightarrow> tree \<Rightarrow> tree" where
  "with_dirs q t = (\<lambda>r. if prefix r q then Some DirNode else t r)"

definition unobstructed :: "tree \<Rightarrow> path \<Rightarrow> bool" where
  "unobstructed t q \<longleftrightarrow> list_all (\<lambda>r. t r = None \<or> t r = Some DirNode) (prefixes q)"

lemma pathname_one: "pathname absolute [c] = (if absolute then CHR ''/'' # c else c)"
  by (simp add: pathname_def)

lemma pathname_snoc: "cs \<noteq> [] \<Longrightarrow> pathname absolute (cs @ [c]) = pathname absolute cs @ CHR ''/'' # c"
  by (cases cs) (simp_all add: pathname_def Let_def)

lemma pathname_Cons: "pathname absolute (c # cs) = (if absolute then CHR ''/'' # c else c) @ concat (map (\<lambda>c. CHR ''/'' # c) cs)"
  by (simp add: pathname_def)

lemma tokens_pathname:
  assumes "list_all plain_component cs"
  shows "tokens ''/'' (pathname absolute cs) = cs"
proof (cases cs)
  case (Cons c ds)
  have "list_all (\<lambda>w. w \<noteq> [] \<and> set w \<inter> set ''/'' = {}) cs"
    using assms by (simp add: list_all_iff plain_component_def)
  then have all: "tokens ''/'' (concat (map (\<lambda>w. CHR ''/'' # w) cs)) = cs" by (rule tokens_concat) simp
  then show ?thesis using Cons by (simp add: pathname_def Let_def)
qed (simp add: pathname_def)

lemma pathname_start:
  assumes "cs \<noteq> []" "list_all plain_component cs"
  shows "pathname absolute cs \<noteq> []" "(hd (pathname absolute cs) = CHR ''/'') = absolute" "last (pathname absolute cs) \<noteq> CHR ''/''"
proof -
  obtain c ds where cs: "cs = c # ds" using assms(1) by (cases cs) auto
  then have "c \<noteq> []" "CHR ''/'' \<notin> set c" using assms(2) by (auto simp: plain_component_def)
  moreover then have "hd c \<noteq> CHR ''/''" by (metis hd_in_set)
  ultimately show "pathname absolute cs \<noteq> []" "(hd (pathname absolute cs) = CHR ''/'') = absolute"
    using cs by (simp_all add: pathname_Cons)
next
  obtain b es where cs: "cs = es @ [b]" using assms(1) by (cases cs rule: rev_cases) auto
  then have "b \<noteq> []" "CHR ''/'' \<notin> set b" using assms(2) by (auto simp: plain_component_def)
  moreover then have "last b \<noteq> CHR ''/''" by (metis last_in_set)
  ultimately show "last (pathname absolute cs) \<noteq> CHR ''/''" using cs by (cases "es = []") (auto simp: pathname_one pathname_snoc)
qed

lemma resolve_pathname:
  "cs \<noteq> [] \<Longrightarrow> list_all plain_component cs \<Longrightarrow>
   resolve_path cwd t (pathname absolute cs) = walk t (if absolute then [] else cwd) cs"
  by (simp add: resolve_path_def pathname_start tokens_pathname)

lemma walk_dirs:
  "list_all plain_component cs \<Longrightarrow> (\<And>r. prefix r cs \<Longrightarrow> r \<noteq> cs \<Longrightarrow> t (cur @ r) = Some DirNode) \<Longrightarrow> walk t cur cs = Some (cur @ cs)"
proof (induction cs arbitrary: cur)
  case (Cons c cs)
  have "walk t (cur @ [c]) cs = Some ((cur @ [c]) @ cs)"
    using Cons.prems(1) Cons.prems(2) [of "c # r" for r] by (intro Cons.IH) auto
  then show ?case using Cons.prems(1) Cons.prems(2) [of "[]"] by (simp add: plain_component_def)
qed simp

lemma walk_SomeD: "list_all plain_component cs \<Longrightarrow> walk t cur cs = Some q \<Longrightarrow> q = cur @ cs"
proof (induction cs arbitrary: cur)
  case (Cons c cs)
  then show ?case using Cons.IH [of "cur @ [c]"] by (simp add: plain_component_def split: if_splits)
qed simp

lemma tree_ok_prefix: "tree_ok t \<Longrightarrow> t q \<noteq> None \<Longrightarrow> strict_prefix r q \<Longrightarrow> t r = Some DirNode"
proof (induction q rule: rev_induct)
  case (snoc c q)
  have "t q = Some DirNode" using snoc.prems(1,2) by (auto simp: tree_ok_def)
  moreover have "r = q \<or> strict_prefix r q" using snoc.prems(3) by (auto simp: strict_prefix_def)
  ultimately show ?case using snoc by auto
qed simp


lemma with_dirs_id: "tree_ok t \<Longrightarrow> t q = Some DirNode \<Longrightarrow> with_dirs q t = t"
  using tree_ok_prefix [of t q] unfolding with_dirs_def fun_eq_iff strict_prefix_def
  by (metis option.distinct(1))

lemma unobstructedD: "unobstructed t q \<Longrightarrow> prefix r q \<Longrightarrow> t r = None \<or> t r = Some DirNode"
  by (auto simp: unobstructed_def list_all_iff)

lemma is_dir_pathname:
  assumes "tree_ok t" "cs \<noteq> []" "list_all plain_component cs" and base: "base = (if absolute then [] else cwd)"
    and clear: "unobstructed t (base @ cs)"
  shows "is_dir cwd t (pathname absolute cs) \<longleftrightarrow> t (base @ cs) = Some DirNode"
proof -
  have last: "last (pathname absolute cs) \<noteq> CHR ''/''" by (rule pathname_start(3) [OF assms(2,3)])
  have st: "stat cwd t (pathname absolute cs) = (case walk t base cs of None \<Rightarrow> None | Some q \<Rightarrow> t q)"
    using last resolve_pathname [OF assms(2,3), of cwd t absolute] base
    by (simp add: stat_def cong: option.case_cong)
  show ?thesis
  proof (cases "t (base @ cs)")
    case None
    then show ?thesis using walk_SomeD [OF assms(3), of t base] by (auto simp: is_dir_def st split: option.splits)
  next
    case (Some k)
    then have "k = DirNode" using unobstructedD [OF clear, of "base @ cs"] by auto
    moreover have "walk t base cs = Some (base @ cs)"
      using tree_ok_prefix [OF assms(1), of "base @ cs"] Some
      by (intro walk_dirs [OF assms(3)]) (auto simp: strict_prefix_def)
    ultimately show ?thesis using Some by (simp add: is_dir_def st)
  qed
qed

lemma mkdir_pathname:
  assumes "cs \<noteq> []" "list_all plain_component cs" and base: "base = (if absolute then [] else cwd)"
    and dirs: "\<And>r. strict_prefix r (base @ cs) \<Longrightarrow> t r = Some DirNode"
    and free: "t (base @ cs) = None \<or> t (base @ cs) = Some DirNode"
  shows "mkdir cwd (pathname absolute cs) t = t(base @ cs \<mapsto> DirNode)"
proof -
  have "walk t base cs = Some (base @ cs)"
    using dirs by (intro walk_dirs [OF assms(2)]) (auto simp: strict_prefix_def)
  then have "resolve_path cwd t (pathname absolute cs) = Some (base @ cs)"
    using assms(1,2) base by (simp add: resolve_pathname)
  then show ?thesis using free by (auto simp: mkdir_def fun_eq_iff)
qed

lemma dirs_parts_pathname:
  assumes "cs \<noteq> []" "plain_component c"
  shows "dirs_parts (pathname absolute (cs @ [c])) = (pathname absolute (cs @ [c]), pathname absolute cs, c)"
  using assms by (simp add: dirs_parts_def pathname_snoc plain_component_def)

lemma dirs_parts_one:
  assumes "plain_component c"
  shows "\<exists>head tail. dirs_parts (pathname absolute [c]) = (pathname absolute [c], head, tail) \<and> (head = [] \<or> tail = [])"
  using assms split_path_last [of "CHR ''/''" c "[]"]
  by (cases absolute) (simp_all add: dirs_parts_def pathname_one plain_component_def)

lemma dirs_parts_slash:
  assumes "cs \<noteq> []" "list_all plain_component cs"
  shows "dirs_parts (pathname absolute cs @ ''/'') = dirs_parts (pathname absolute cs)"
proof -
  let ?p = "pathname absolute cs"
  obtain ds c where cs: "cs = ds @ [c]" using assms(1) by (cases cs rule: rev_cases) auto
  have slash: "split_path (?p @ ''/'') (CHR ''/'') 0 = (?p, [])" using split_path_last [of "CHR ''/''" "[]" ?p] by simp
  have "snd (split_path ?p (CHR ''/'') 0) \<noteq> [] \<or> fst (split_path ?p (CHR ''/'') 0) = ?p"
    using assms(2) cs split_path_last [of "CHR ''/''" c "[]"]
    by (cases "ds = []") (auto simp: pathname_one pathname_snoc plain_component_def)
  then show ?thesis unfolding dirs_parts_def slash by (auto simp: Let_def split: prod.splits)
qed

lemma make_dirs_pathname:
  assumes "tree_ok t" and base: "base = (if absolute then [] else cwd)" "t base = Some DirNode"
  shows "cs \<noteq> [] \<Longrightarrow> list_all plain_component cs \<Longrightarrow> unobstructed t (base @ cs) \<Longrightarrow>
    make_dirs cwd (pathname absolute cs) t = with_dirs (base @ cs) t"
proof (induction cs rule: rev_induct)
  case (snoc c cs)
  let ?p = "pathname absolute (cs @ [c])" and ?q = "base @ cs @ [c]"
  have c: "plain_component c" and cs: "list_all plain_component cs" using snoc.prems(2) by simp_all
  have clear: "unobstructed t (base @ cs)"
    using snoc.prems(3) by (simp add: unobstructed_def list_all_iff flip: append_assoc)
  have below: "with_dirs (base @ cs) t r = Some DirNode" if "strict_prefix r ?q" for r
    using that by (auto simp: with_dirs_def strict_prefix_def simp flip: append_assoc)
  have at: "with_dirs (base @ cs) t ?q = t ?q" by (simp add: with_dirs_def)
  have "make_dirs cwd ?p t = mkdir cwd ?p (with_dirs (base @ cs) t)"
  proof (cases "cs = []")
    case True
    then have "make_dirs cwd ?p t = mkdir cwd ?p t"
      using dirs_parts_one [OF c, of absolute] by (auto simp: make_dirs.simps [of cwd "pathname absolute [c]"])
    then show ?thesis using with_dirs_id [OF assms(1) base(2)] True by simp
  next
    case False
    have "(if is_dir cwd t (pathname absolute cs) then t else make_dirs cwd (pathname absolute cs) t) = with_dirs (base @ cs) t"
      using snoc.IH [OF False cs clear] is_dir_pathname [OF assms(1) False cs base(1) clear] with_dirs_id [OF assms(1)] by simp
    moreover have "pathname absolute cs \<noteq> []" "c \<noteq> []" using pathname_start(1) [OF False cs] c by (auto simp: plain_component_def)
    ultimately show ?thesis
      using dirs_parts_pathname [OF False c, of absolute] by (simp add: make_dirs.simps [of cwd ?p] split: if_splits)
  qed
  also have "\<dots> = (with_dirs (base @ cs) t)(?q \<mapsto> DirNode)"
    using mkdir_pathname [OF snoc.prems(1,2) base(1)] below at unobstructedD [OF snoc.prems(3), of ?q] by simp
  also have "\<dots> = with_dirs ?q t"
    by (auto simp: with_dirs_def fun_eq_iff simp flip: append_assoc)
  finally show ?case .
qed simp

text \<open>
  C30: \<^verbatim>\<open>make_dirs\<close> terminates on every name, and for a path of plain components, absolute or relative, with
  or without a trailing slash, through which no other kind of file stands, it makes exactly the missing
  directories of the path: afterwards every prefix of the path is a directory and every other node is as
  it was.
\<close>

theorem make_dirs_creates_path:
  assumes "tree_ok t" "t (if absolute then [] else cwd) = Some DirNode" "cs \<noteq> []" "list_all plain_component cs"
    "unobstructed t ((if absolute then [] else cwd) @ cs)" "slash = [] \<or> slash = ''/''"
  shows "make_dirs cwd (pathname absolute cs @ slash) t = with_dirs ((if absolute then [] else cwd) @ cs) t"
proof -
  have "make_dirs cwd (pathname absolute cs @ slash) t = make_dirs cwd (pathname absolute cs) t"
    using assms(6) dirs_parts_slash [OF assms(3,4), of absolute]
    by (auto simp: make_dirs.simps [of cwd "pathname absolute cs"] make_dirs.simps [of cwd "pathname absolute cs @ ''/''"])
  then show ?thesis using make_dirs_pathname [OF assms(1) refl assms(2-5)] by simp
qed

theorem make_dirs_creates_path_witness:
  "make_dirs [''home''] ''var/log/'' [[] \<mapsto> DirNode, [''home''] \<mapsto> DirNode]
   = with_dirs [''home'', ''var'', ''log''] [[] \<mapsto> DirNode, [''home''] \<mapsto> DirNode]"
proof -
  have "tree_ok [[] \<mapsto> DirNode, [''home''] \<mapsto> DirNode]" by (auto simp: tree_ok_def split: if_splits)
  then show ?thesis
    using make_dirs_creates_path [of "[[] \<mapsto> DirNode, [''home''] \<mapsto> DirNode]" False "[''home'']" "[''var'', ''log'']" "''/''"]
    by (simp add: pathname_def plain_component_def unobstructed_def)
qed

text \<open>Only one trailing slash is dropped: with two of them the parents are not made and nothing happens.\<close>

lemma make_dirs_two_slashes_fails: "make_dirs [] ''/x/a//'' [[] \<mapsto> DirNode] = [[] \<mapsto> DirNode]"
proof -
  have "dirs_parts ''/x/a//'' = (''/x/a/'', ''/x/a'', [])" by code_simp
  moreover have "tokens ''/'' ''/x/a/'' = [''x'', ''a'']" by code_simp
  ultimately show ?thesis by (simp add: make_dirs.simps mkdir_def resolve_path_def)
qed

text \<open>\<^verbatim>\<open>is_dir\<close> tests one bit of the file type: a socket or a block device counts as a directory.\<close>

lemma is_dir_kinds:
  "is_dir cwd t p \<longleftrightarrow> stat cwd t p \<in> {Some DirNode, Some SockNode, Some BlkNode}"
proof -
  have "st_mode k AND S_IFDIR = S_IFDIR \<longleftrightarrow> k \<in> {DirNode, SockNode, BlkNode}" for k by (cases k) simp_all
  then show ?thesis by (auto simp: is_dir_def split: option.splits)
qed

section \<open>Case and digits\<close>

lemma ctype_ok_map:
  "list_all ctype_arg s \<Longrightarrow> to_lower s = Inr (map tolower s) \<and> to_upper s = Inr (map toupper s)"
  by (induction s) simp_all

lemma tolower_idem: "tolower (tolower c) = tolower c"
  by (simp add: tolower_def)

lemma toupper_tolower: "toupper (tolower c) = toupper c"
  by (auto simp: tolower_def toupper_def)

lemma to_lower_fault: "\<not> list_all ctype_arg s \<Longrightarrow> \<exists>m. to_lower s = Inl (UB m)"
  by (induction s) auto

text \<open>The empty text counts as a number.\<close>

lemma is_digit_spec: "list_all ctype_arg s \<Longrightarrow> is_digit s = Inr (list_all is_digit_char s)"
  by (induction s) auto

end
