(* ===== verification/Icmp.thy ===== *)
theory Icmp
  imports Checksum Sock Global_Timer Path_Text Thread_Lifecycle
begin

unbundle bit_operations_syntax

text \<open>
  Host monitoring by ICMP echo (\<^verbatim>\<open>include/icmp.hpp\<close>): \<^verbatim>\<open>RawSocket\<close>, \<^verbatim>\<open>IcmpManager\<close> and the managers of an
  \<^verbatim>\<open>IcmpMonitor\<close>. What the system calls answer, the process id, the time of day and \<open>inet_addr\<close> are
  arguments. A null \<^verbatim>\<open>unique_ptr\<close> is \<open>None\<close>; following one is the fault \<open>UB\<close>, and so is reading the local
  \<^verbatim>\<open>TimeVal\<close> of the receive loop before it was written. \<^verbatim>\<open>DIFFTIME\<close> is the macro of \<^verbatim>\<open>util.hpp\<close>, which is
  included first. Log lines are left out.
\<close>

section \<open>RawSocket\<close>

datatype ipproto_type = PROTO_RAW | PROTO_ICMP

record raw_sock = sock +
  rs_available :: bool
  rs_proto_type :: ipproto_type

definition mk_raw_sock :: raw_sock where
  "mk_raw_sock = \<lparr>sk_fd = INVALID_SOCKET, sk_path = [], sk_family = AF_INET, rs_available = False,
     rs_proto_type = PROTO_ICMP\<rparr>"

text \<open>
  \<^verbatim>\<open>open\<close> throws when the socket cannot be made; \<open>proto_known\<close> is whether \<^verbatim>\<open>getprotobyname("icmp")\<close> finds
  the protocol. The result of setting \<^verbatim>\<open>IP_HDRINCL\<close> is ignored.
\<close>

definition raw_open ::
  "int \<Rightarrow> bool \<Rightarrow> bool \<Rightarrow> ipproto_type \<Rightarrow> raw_sock \<Rightarrow> kernel \<Rightarrow> (fault + bool) \<times> raw_sock \<times> kernel" where
  "raw_open fd reuse_ok proto_known nType s k =
     (let s0 = s\<lparr>rs_available := False, rs_proto_type := nType\<rparr>
      in if nType = PROTO_ICMP \<and> \<not> proto_known then (Inl (PdkException ''Unknown protocol: icmp.''), s0, k)
         else let (created, s1, k1) = create_socket fd reuse_ok AF_INET s0 k
              in if \<not> created then (Inl (PdkException ''socket creation error''), s1, k1)
                 else (Inr True, s1\<lparr>rs_available := True\<rparr>, k1))"

definition raw_bind :: "(string \<Rightarrow> u32) \<Rightarrow> bool \<Rightarrow> string \<Rightarrow> raw_sock \<Rightarrow> kernel \<Rightarrow> bool \<times> kernel" where
  "raw_bind inet_addr bind_ok pszAddr s k = bind_port inet_addr bind_ok 0 (Some pszAddr) s k"

text \<open>\<^verbatim>\<open>unique_ptr::reset\<close>: the destructor of the socket closes its descriptor.\<close>

definition reset_sock :: "raw_sock option \<Rightarrow> kernel \<Rightarrow> kernel" where
  "reset_sock p k = (case p of None \<Rightarrow> k | Some s \<Rightarrow> snd (sock_close s k))"

section \<open>The packet\<close>

definition DEFDATALEN :: nat where "DEFDATALEN = 64 - 8"
definition MAXPACKET :: nat where "MAXPACKET = 65536 - 60 - 8"
definition ICMP_ECHO :: u8 where "ICMP_ECHO = 8"
definition ICMP_ECHOREPLY :: u8 where "ICMP_ECHOREPLY = 0"
definition ICMP_MINLEN :: nat where "ICMP_MINLEN = 8"
definition IPPROTO_ICMP :: u8 where "IPPROTO_ICMP = 1"

text \<open>Network byte order.\<close>

definition htons :: "u16 \<Rightarrow> bytes" where
  "htons x = rev (le_bytes 2 (unat x))"

definition encode_timeval :: "timeval \<Rightarrow> bytes" where
  "encode_timeval tv = le_bytes 8 (nat (tv_sec tv mod 2 ^ 64)) @ le_bytes 8 (nat (tv_usec tv mod 2 ^ 64))"

text \<open>The \<^verbatim>\<open>ip\<close> header with its fields in order, the checksum field given.\<close>

definition ip_header :: "u16 \<Rightarrow> u32 \<Rightarrow> u32 \<Rightarrow> bytes \<Rightarrow> bytes" where
  "ip_header pid src dst ip_sum =
     [0x45, 0] @ htons (of_nat (20 + (DEFDATALEN + 8))) @ htons pid @ [0, 0] @ [255, IPPROTO_ICMP] @ ip_sum @
     le_bytes 4 (unat src) @ le_bytes 4 (unat dst)"

definition icmp_message :: "u8 \<Rightarrow> bytes \<Rightarrow> u16 \<Rightarrow> u16 \<Rightarrow> bytes \<Rightarrow> bytes" where
  "icmp_message type cksum ident seqno data =
     [type, 0] @ cksum @ le_bytes 2 (unat ident) @ le_bytes 2 (unat seqno) @ data"

definition echo_data :: "timeval \<Rightarrow> bytes" where
  "echo_data tv = encode_timeval tv @ replicate (DEFDATALEN - 16) 0"

text \<open>The checksum of a structure whose checksum field is zero, then stored in that field.\<close>

definition with_checksum :: "(bytes \<Rightarrow> bytes) \<Rightarrow> int \<Rightarrow> fault + bytes" where
  "with_checksum layout nLen =
     (case check_sum (layout [0, 0]) nLen of Inl f \<Rightarrow> Inl f | Inr c \<Rightarrow> Inr (layout (le_bytes 2 (unat c))))"

section \<open>IcmpManager\<close>

record icmp_manager =
  im_time_val :: timeval
  im_sock :: "raw_sock option"
  im_recv_sock :: "raw_sock option"
  im_active :: bool
  im_delay :: int
  im_priority :: int
  im_addr :: string
  im_bind_addr :: string
  im_thread :: thread_obj

definition mk_icmp_manager :: icmp_manager where
  "mk_icmp_manager = \<lparr>im_time_val = \<lparr>tv_sec = 0, tv_usec = 0\<rparr>, im_sock = Some mk_raw_sock,
     im_recv_sock = Some mk_raw_sock, im_active = False, im_delay = 1000, im_priority = 1, im_addr = [],
     im_bind_addr = [], im_thread = mk_thread\<rparr>"

text \<open>
  \<^verbatim>\<open>send_icmp\<close>: \<open>notify\<close> is what the callback \<^verbatim>\<open>OnSendNotify\<close> answers, if there is one; \<open>sent\<close> is the answer
  of the system call that sends. The second component of the result is what was handed to it.
\<close>

definition send_icmp ::
  "(string \<Rightarrow> u32) \<Rightarrow> int \<Rightarrow> timeval \<Rightarrow> bool option \<Rightarrow> int \<Rightarrow> icmp_manager
    \<Rightarrow> fault + int \<times> bytes option \<times> icmp_manager" where
  "send_icmp inet_addr pid now notify sent m =
     (case im_sock m of
        None \<Rightarrow> Inr (-1, None, m)
      | Some s \<Rightarrow>
          if notify = Some False then Inr (1, None, m)
          else
            (case (if rs_proto_type s = PROTO_RAW
                   then with_checksum (ip_header (word_of_int pid) (inet_addr (im_bind_addr m)) (inet_addr (im_addr m))) 20
                   else Inr []) of
               Inl f \<Rightarrow> Inl f
             | Inr hdr \<Rightarrow>
                 (case with_checksum (\<lambda>c. icmp_message ICMP_ECHO c (word_of_int pid) (word_of_int (sk_fd s)) (echo_data now))
                         (int (DEFDATALEN + 8)) of
                    Inl f \<Rightarrow> Inl f
                  | Inr packet \<Rightarrow> Inr (sent, Some (hdr @ packet), m\<lparr>im_time_val := now\<rparr>))))"

text \<open>
  The sockets of \<^verbatim>\<open>start\<close>: the answers are those for the sending and for the receiving socket. An
  exception leaves both pointers null; a receiving socket that cannot be bound is dropped.
\<close>

record open_answers =
  oa_fd :: int
  oa_reuse :: bool
  oa_recv_fd :: int
  oa_recv_reuse :: bool
  oa_proto :: bool
  oa_bind :: bool

definition icmp_open ::
  "(string \<Rightarrow> u32) \<Rightarrow> open_answers \<Rightarrow> string option \<Rightarrow> int \<Rightarrow> string option \<Rightarrow> icmp_manager \<Rightarrow> kernel
    \<Rightarrow> fault + icmp_manager \<times> kernel" where
  "icmp_open inet_addr a pszAddr priority pszBind m k =
     (let m0 = m\<lparr>im_addr := (case pszAddr of Some p \<Rightarrow> p | None \<Rightarrow> []), im_priority := priority\<rparr>;
          failed = (\<lambda>s r k. Inr (m0\<lparr>im_sock := None, im_recv_sock := None\<rparr>, reset_sock r (reset_sock s k)))
      in case im_sock m0 of
           None \<Rightarrow> Inl (UB ''null pointer'')
         | Some s \<Rightarrow>
             (case raw_open (oa_fd a) (oa_reuse a) (oa_proto a) PROTO_RAW s k of
                (Inl e, s1, k1) \<Rightarrow> failed (Some s1) (im_recv_sock m0) k1
              | (Inr _, s1, k1) \<Rightarrow>
                  (case im_recv_sock m0 of
                     None \<Rightarrow> Inl (UB ''null pointer'')
                   | Some r \<Rightarrow>
                       (case raw_open (oa_recv_fd a) (oa_recv_reuse a) (oa_proto a) PROTO_ICMP r k1 of
                          (Inl e, r1, k2) \<Rightarrow> failed (Some s1) (Some r1) k2
                        | (Inr _, r1, k2) \<Rightarrow>
                            (case pszBind of
                               None \<Rightarrow> Inr (m0\<lparr>im_sock := Some s1, im_recv_sock := Some r1, im_bind_addr := im_addr m0\<rparr>, k2)
                             | Some b \<Rightarrow>
                                 (let (bound, k3) = raw_bind inet_addr (oa_bind a) b r1 k2;
                                      m1 = m0\<lparr>im_sock := Some s1, im_bind_addr := b\<rparr>
                                  in if bound then Inr (m1\<lparr>im_recv_sock := Some r1\<rparr>, k3)
                                     else Inr (m1\<lparr>im_recv_sock := None\<rparr>, reset_sock (Some r1) k3)))))))"

text \<open>
  \<^verbatim>\<open>start\<close>: after the sockets, the thread is created and the first request is sent. \<open>w\<close> is the identity of
  the worker. The first packet is part of the result.
\<close>

definition icmp_start ::
  "(string \<Rightarrow> u32) \<Rightarrow> open_answers \<Rightarrow> int \<Rightarrow> timeval \<Rightarrow> bool option \<Rightarrow> int \<Rightarrow> wid \<Rightarrow> string option \<Rightarrow> int \<Rightarrow> string option
    \<Rightarrow> icmp_manager \<Rightarrow> kernel \<Rightarrow> (fault + bool \<times> bytes option \<times> icmp_manager \<times> kernel) outcome" where
  "icmp_start inet_addr a pid now notify sent w pszAddr priority pszBind m k =
     (case icmp_open inet_addr a pszAddr priority pszBind m k of
        Inl f \<Rightarrow> Ret (Inl f)
      | Inr (m1, k1) \<Rightarrow>
          if im_sock m1 = None then Ret (Inr (False, None, m1, k1))
          else (case thread_create w (im_thread m1) of
                  Blocked \<Rightarrow> Blocked
                | Ret (r, launched, th) \<Rightarrow>
                    (let m2 = m1\<lparr>im_thread := th\<rparr>
                     in if r = 0 then Ret (Inr (False, None, m2, k1))
                        else Ret (case send_icmp inet_addr pid now notify sent m2 of
                                    Inl f \<Rightarrow> Inl f
                                  | Inr (_, out, m3) \<Rightarrow> Inr (True, out, m3, k1)))))"

text \<open>\<^verbatim>\<open>reset_link\<close>; the exception of \<^verbatim>\<open>open\<close> leaves it.\<close>

definition reset_link :: "open_answers \<Rightarrow> icmp_manager \<Rightarrow> kernel \<Rightarrow> (fault + unit) \<times> icmp_manager \<times> kernel" where
  "reset_link a m k =
     (let k1 = reset_sock (im_sock m) (reset_sock (im_recv_sock m) k)
      in case raw_open (oa_fd a) (oa_reuse a) (oa_proto a) PROTO_RAW mk_raw_sock k1 of
           (r, s1, k2) \<Rightarrow> (map_sum id (\<lambda>_. ()) r, m\<lparr>im_recv_sock := None, im_sock := Some s1\<rparr>, k2))"

text \<open>
  The receive loop of \<^verbatim>\<open>thread_proc\<close>, one list element per turn: what \<^verbatim>\<open>select\<close> and \<^verbatim>\<open>recv\<close> answer and the
  time at which the packet is looked at. The end of the list is the turn on which \<^verbatim>\<open>do_exit\<close> is true.
\<close>

record icmp_round =
  ir_selnum :: int
  ir_isset :: bool
  ir_data :: "bytes option"
  ir_now :: timeval

definition u16_in :: "bytes \<Rightarrow> nat \<Rightarrow> u16" where
  "u16_in b i = of_nat (le_value (slice i 2 b))"

definition ip_hl :: "bytes \<Rightarrow> nat" where
  "ip_hl b = 4 * unat (hd b AND 0x0f)"

text \<open>One turn: whether the loop goes on, the local \<^verbatim>\<open>TimeVal\<close>, and the manager.\<close>

definition icmp_turn ::
  "int \<Rightarrow> icmp_round \<Rightarrow> timeval option \<Rightarrow> icmp_manager \<Rightarrow> fault + bool \<times> timeval option \<times> icmp_manager" where
  "icmp_turn pid r TimeVal m =
     (case im_recv_sock m of
        None \<Rightarrow> Inl (UB ''null pointer'')
      | Some s \<Rightarrow>
          let nResult = sock_select (ir_selnum r) (ir_isset r) s
          in if nResult = -1 then Inr (False, TimeVal, m\<lparr>im_active := False\<rparr>)
             else if nResult = 0 then Inr (True, TimeVal, m\<lparr>im_active := False\<rparr>)
             else let b = (case ir_data r of None \<Rightarrow> [] | Some data \<Rightarrow> take MAXPACKET data); h = ip_hl b
                  in if b = [] \<or> length b < h + ICMP_MINLEN then Inr (False, TimeVal, m)
                     else let ours = b ! h = ICMP_ECHOREPLY \<and> u16_in b (h + 4) = word_of_int pid
                          in if ours \<and> im_sock m = None then Inl (UB ''null pointer'')
                             else let hit = ours \<and> u16_in b (h + 6) = word_of_int (sk_fd (the (im_sock m)));
                                      tv = (if hit then Some (ir_now r) else TimeVal);
                                      m1 = (if hit then m\<lparr>im_active := True\<rparr> else m)
                                  in case tv of
                                       None \<Rightarrow> Inl (UB ''TimeVal read before it is written'')
                                     | Some t \<Rightarrow>
                                         Inr (True, tv, if DIFFTIME (im_time_val m1) t > im_delay m1
                                                        then m1\<lparr>im_active := False\<rparr> else m1))"

fun icmp_loop :: "int \<Rightarrow> timeval option \<Rightarrow> icmp_round list \<Rightarrow> icmp_manager \<Rightarrow> fault + icmp_manager" where
  "icmp_loop pid TimeVal [] m = Inr m"
| "icmp_loop pid TimeVal (r # rs) m =
     (case icmp_turn pid r TimeVal m of
        Inl f \<Rightarrow> Inl f
      | Inr (goes_on, tv, m1) \<Rightarrow> if goes_on then icmp_loop pid tv rs m1 else Inr m1)"

definition icmp_thread_proc :: "int \<Rightarrow> icmp_round list \<Rightarrow> icmp_manager \<Rightarrow> fault + icmp_manager" where
  "icmp_thread_proc pid rounds m = icmp_loop pid None rounds m"


section \<open>The request that is sent\<close>

lemma length_htons [simp]: "length (htons x) = 2"
  by (simp add: htons_def)

lemma length_echo_data [simp]: "length (echo_data tv) = DEFDATALEN"
  by (simp add: echo_data_def encode_timeval_def DEFDATALEN_def)

lemma length_ip_header [simp]: "length s = 2 \<Longrightarrow> length (ip_header pid src dst s) = 20"
  by (simp add: ip_header_def)

lemma length_icmp_message [simp]: "length c = 2 \<Longrightarrow> length (icmp_message t c i n d) = 8 + length d"
  by (simp add: icmp_message_def)

text \<open>A structure with a two-byte checksum field at an even offset comes out of \<open>with_checksum\<close> summing to zero.\<close>

lemma with_checksum_verifies:
  assumes layout: "\<And>c. layout c = pre @ c @ post" and even: "even (length pre)"
    and len: "n = int (length pre + 2 + length post)" "length pre + 2 + length post \<le> 65535"
  shows "\<exists>c :: u16. with_checksum layout n = Inr (layout (le_bytes 2 (unat c))) \<and> check_sum (layout (le_bytes 2 (unat c))) n = Inr 0"
proof -
  let ?z = "pre @ [0, 0] @ post"
  have n: "n = int (length ?z)" "length ?z \<le> 65535" using len by simp_all
  obtain c where c: "check_sum ?z (int (length ?z)) = Inr c"
    using check_sum_canon [OF sum_words16_int [OF n(2)]] by blast
  have "check_sum (pre @ le_bytes 2 (unat c) @ post) (int (length ?z)) = Inr 0"
    by (rule check_sum_verifies [OF even n(2) c])
  then show ?thesis using c n(1) by - (rule exI [of _ c], simp add: with_checksum_def layout del: length_append)
qed

lemma ip_header_verifies:
  "\<exists>c :: u16. with_checksum (ip_header pid src dst) 20 = Inr (ip_header pid src dst (le_bytes 2 (unat c))) \<and>
     check_sum (ip_header pid src dst (le_bytes 2 (unat c))) 20 = Inr 0"
  by (rule with_checksum_verifies [where pre = "[0x45, 0] @ htons (of_nat (20 + (DEFDATALEN + 8))) @ htons pid @ [0, 0] @ [255, IPPROTO_ICMP]"
        and post = "le_bytes 4 (unat src) @ le_bytes 4 (unat dst)"])
    (simp_all add: ip_header_def)

lemma icmp_message_verifies:
  assumes "length d = DEFDATALEN"
  shows "\<exists>c :: u16. with_checksum (\<lambda>c. icmp_message t c i n d) (int (DEFDATALEN + 8)) = Inr (icmp_message t (le_bytes 2 (unat c)) i n d) \<and>
     check_sum (icmp_message t (le_bytes 2 (unat c)) i n d) (int (DEFDATALEN + 8)) = Inr 0"
  by (rule with_checksum_verifies [where pre = "[t, 0]" and post = "le_bytes 2 (unat i) @ le_bytes 2 (unat n) @ d"])
    (simp_all add: icmp_message_def assms DEFDATALEN_def)

text \<open>
  C35: Every request \<^verbatim>\<open>send_icmp\<close> puts on the raw socket is a well-formed datagram of 84 bytes: both checksums
  verify, the IP header has the addresses of the manager and announces the length, and the message is
  an echo request with the process id, the descriptor as sequence number and the time it was sent, which
  the manager remembers. No read of the checksum routine leaves the packet.
\<close>

theorem icmp_request_well_formed:
  assumes "im_sock m = Some s" "rs_proto_type s = PROTO_RAW" "notify \<noteq> Some False"
  shows "\<exists>packet hsum csum. send_icmp inet_addr pid now notify sent m = Inr (sent, Some packet, m\<lparr>im_time_val := now\<rparr>) \<and>
    length packet = 84 \<and> check_sum (take 20 packet) 20 = Inr 0 \<and> check_sum (drop 20 packet) 64 = Inr 0 \<and>
    take 20 packet = ip_header (word_of_int pid) (inet_addr (im_bind_addr m)) (inet_addr (im_addr m)) hsum \<and>
    drop 20 packet = icmp_message ICMP_ECHO csum (word_of_int pid) (word_of_int (sk_fd s)) (echo_data now)"
proof -
  let ?h = "ip_header (word_of_int pid) (inet_addr (im_bind_addr m)) (inet_addr (im_addr m))"
  let ?p = "\<lambda>c. icmp_message ICMP_ECHO c (word_of_int pid) (word_of_int (sk_fd s)) (echo_data now)"
  obtain c :: u16 where c: "with_checksum ?h 20 = Inr (?h (le_bytes 2 (unat c)))" "check_sum (?h (le_bytes 2 (unat c))) 20 = Inr 0"
    using ip_header_verifies by blast
  obtain d :: u16 where d: "with_checksum ?p (int (DEFDATALEN + 8)) = Inr (?p (le_bytes 2 (unat d)))"
    "check_sum (?p (le_bytes 2 (unat d))) (int (DEFDATALEN + 8)) = Inr 0"
    using icmp_message_verifies [OF length_echo_data] by blast
  let ?packet = "?h (le_bytes 2 (unat c)) @ ?p (le_bytes 2 (unat d))"
  have "send_icmp inet_addr pid now notify sent m = Inr (sent, Some ?packet, m\<lparr>im_time_val := now\<rparr>)"
    using assms c(1) d(1) by (simp add: send_icmp_def)
  moreover have "take 20 ?packet = ?h (le_bytes 2 (unat c))" "drop 20 ?packet = ?p (le_bytes 2 (unat d))" "length ?packet = 84"
    by (simp_all add: DEFDATALEN_def)
  moreover have "check_sum (?p (le_bytes 2 (unat d))) 64 = Inr 0" using d(2) by (simp add: DEFDATALEN_def)
  ultimately show ?thesis using c(2)
    by - (rule exI [of _ ?packet], rule exI [of _ "le_bytes 2 (unat c)"], rule exI [of _ "le_bytes 2 (unat d)"], simp del: length_append)
qed

definition example_manager :: icmp_manager where
  "example_manager = mk_icmp_manager\<lparr>im_sock := Some (mk_raw_sock\<lparr>sk_fd := 5, rs_proto_type := PROTO_RAW\<rparr>),
     im_recv_sock := Some (mk_raw_sock\<lparr>sk_fd := 6\<rparr>)\<rparr>"

theorem icmp_request_well_formed_witness:
  "\<exists>packet hsum csum. send_icmp (\<lambda>_. 0x7f000001) 42 \<lparr>tv_sec = 10, tv_usec = 0\<rparr> None 84 example_manager
       = Inr (84, Some packet, example_manager\<lparr>im_time_val := \<lparr>tv_sec = 10, tv_usec = 0\<rparr>\<rparr>) \<and>
    length packet = 84 \<and> check_sum (take 20 packet) 20 = Inr 0 \<and> check_sum (drop 20 packet) 64 = Inr 0 \<and>
    take 20 packet = ip_header 42 0x7f000001 0x7f000001 hsum \<and>
    drop 20 packet = icmp_message ICMP_ECHO csum 42 5 (echo_data \<lparr>tv_sec = 10, tv_usec = 0\<rparr>)"
  using icmp_request_well_formed [of example_manager "mk_raw_sock\<lparr>sk_fd := 5, rs_proto_type := PROTO_RAW\<rparr>" None
      "\<lambda>_. 0x7f000001" 42 "\<lparr>tv_sec = 10, tv_usec = 0\<rparr>" 84]
  by (simp add: example_manager_def)

section \<open>The reply that is received\<close>

text \<open>The answer to a request: a header of five words and the message turned into a reply.\<close>

definition is_reply :: "int \<Rightarrow> int \<Rightarrow> bytes \<Rightarrow> bool" where
  "is_reply pid fd b \<longleftrightarrow> (\<exists>hdr c d. b = hdr @ icmp_message ICMP_ECHOREPLY c (word_of_int pid) (word_of_int fd) d \<and>
     length hdr = 20 \<and> hd hdr = 0x45 \<and> length c = 2 \<and> length b \<le> MAXPACKET)"

lemma reply_fields:
  assumes "is_reply pid fd b"
  shows "take MAXPACKET b = b" "b \<noteq> []" "ip_hl b = 20" "20 + ICMP_MINLEN \<le> length b" "b ! 20 = ICMP_ECHOREPLY"
    "u16_in b 24 = word_of_int pid" "u16_in b 26 = word_of_int fd"
proof -
  obtain hdr c d where b: "b = hdr @ icmp_message ICMP_ECHOREPLY c (word_of_int pid) (word_of_int fd) d"
    "length hdr = 20" "hd hdr = 0x45" "length c = 2" "length b \<le> MAXPACKET" using assms by (auto simp: is_reply_def)
  have hd: "hd b = 0x45" using b by (cases hdr) auto
  show "take MAXPACKET b = b" "20 + ICMP_MINLEN \<le> length b" "b \<noteq> []"
    using b by (auto simp: ICMP_MINLEN_def icmp_message_def)
  show "ip_hl b = 20" by (simp add: ip_hl_def hd)
  show "b ! 20 = ICMP_ECHOREPLY" using b by (simp add: nth_append icmp_message_def)
  show "u16_in b 24 = word_of_int pid" "u16_in b 26 = word_of_int fd"
    using slice_middle [of "hdr @ [ICMP_ECHOREPLY, 0] @ c" 24 "le_bytes 2 (unat (word_of_int pid :: u16))" 2]
      slice_middle [of "hdr @ [ICMP_ECHOREPLY, 0] @ c @ le_bytes 2 (unat (word_of_int pid :: u16))" 26
        "le_bytes 2 (unat (word_of_int fd :: u16))" 2] b(2,4)
    by (simp_all add: u16_in_def b(1) icmp_message_def le_value_u16)
qed


definition round_readable :: "icmp_round \<Rightarrow> icmp_manager \<Rightarrow> int" where
  "round_readable r m = sock_select (ir_selnum r) (ir_isset r) (the (im_recv_sock m))"

text \<open>A turn on which nothing arrives within \<^verbatim>\<open>delay_\<close>, and one that brings the reply to the manager's request.\<close>

definition silent_round :: "icmp_manager \<Rightarrow> icmp_round \<Rightarrow> bool" where
  "silent_round m r \<longleftrightarrow> round_readable r m = 0"

definition reply_round :: "int \<Rightarrow> icmp_manager \<Rightarrow> icmp_round \<Rightarrow> bool" where
  "reply_round pid m r \<longleftrightarrow> round_readable r m = 1 \<and>
     (\<exists>b. ir_data r = Some b \<and> is_reply pid (sk_fd (the (im_sock m))) b)"

definition in_time :: "icmp_manager \<Rightarrow> icmp_round \<Rightarrow> bool" where
  "in_time m r \<longleftrightarrow> DIFFTIME (im_time_val m) (ir_now r) \<le> im_delay m"

lemma rounds_ignore_active [simp]:
  "round_readable r (m\<lparr>im_active := a\<rparr>) = round_readable r m"
  "silent_round (m\<lparr>im_active := a\<rparr>) r = silent_round m r"
  "reply_round pid (m\<lparr>im_active := a\<rparr>) r = reply_round pid m r"
  "in_time (m\<lparr>im_active := a\<rparr>) r = in_time m r"
  by (simp_all add: round_readable_def silent_round_def reply_round_def in_time_def)

lemma icmp_turn_silent:
  assumes "im_recv_sock m = Some s" "silent_round m r"
  shows "icmp_turn pid r tv m = Inr (True, tv, m\<lparr>im_active := False\<rparr>)"
  using assms by (simp add: icmp_turn_def silent_round_def round_readable_def Let_def)

lemma icmp_turn_reply:
  assumes "im_recv_sock m = Some s" "im_sock m = Some out" "reply_round pid m r"
  shows "icmp_turn pid r tv m = Inr (True, Some (ir_now r), m\<lparr>im_active := in_time m r\<rparr>)"
proof -
  obtain b where b: "ir_data r = Some b" "is_reply pid (sk_fd out) b" and sel: "sock_select (ir_selnum r) (ir_isset r) s = 1"
    using assms by (auto simp: reply_round_def round_readable_def)
  show ?thesis using assms(1,2) sel b(1) reply_fields [OF b(2)]
    by (simp add: icmp_turn_def Let_def in_time_def)
qed

text \<open>
  C29: While the network is silent or returns the manager's replies, the receive loop never faults and does not
  end, and \<^verbatim>\<open>is_active\<close> says what the last turn showed: true exactly when it brought a reply that is at
  most \<^verbatim>\<open>delay_\<close> milliseconds away from the request.
\<close>

theorem icmp_active_tracks_replies:
  assumes "im_recv_sock m = Some s" "im_sock m = Some out" "rounds \<noteq> []"
    "list_all (\<lambda>r. silent_round m r \<or> reply_round pid m r) rounds"
  shows "icmp_thread_proc pid rounds m
    = Inr (m\<lparr>im_active := reply_round pid m (last rounds) \<and> in_time m (last rounds)\<rparr>)"
proof -
  have "icmp_loop pid tv rounds (m\<lparr>im_active := a\<rparr>)
      = Inr (m\<lparr>im_active := reply_round pid m (last rounds) \<and> in_time m (last rounds)\<rparr>)" for tv a
    using assms(3,4)
  proof (induction rounds arbitrary: tv a)
    case (Cons r rs)
    have "\<not> (silent_round m r \<and> reply_round pid m r)" by (auto simp: silent_round_def reply_round_def)
    then have "\<exists>tv'. icmp_turn pid r tv (m\<lparr>im_active := a\<rparr>) = Inr (True, tv', m\<lparr>im_active := reply_round pid m r \<and> in_time m r\<rparr>)"
      using Cons.prems(2) assms(1,2) icmp_turn_silent [of "m\<lparr>im_active := a\<rparr>" s r pid tv]
        icmp_turn_reply [of "m\<lparr>im_active := a\<rparr>" s out pid r tv] by auto
    then show ?case using Cons.IH Cons.prems(2) by (cases "rs = []") auto
  qed simp
  from this [of None "im_active m"] show ?thesis by (simp add: icmp_thread_proc_def)
qed

definition example_reply :: bytes where
  "example_reply = [0x45] @ replicate 19 0 @ icmp_message ICMP_ECHOREPLY [0, 0] 42 5 (replicate 56 0)"

theorem icmp_active_tracks_replies_witness:
  "icmp_thread_proc 42 [\<lparr>ir_selnum = 0, ir_isset = False, ir_data = None, ir_now = \<lparr>tv_sec = 1, tv_usec = 0\<rparr>\<rparr>,
      \<lparr>ir_selnum = 1, ir_isset = True, ir_data = Some example_reply, ir_now = \<lparr>tv_sec = 0, tv_usec = 7000\<rparr>\<rparr>] example_manager
   = Inr (example_manager\<lparr>im_active := True\<rparr>)"
proof -
  let ?r = "\<lparr>ir_selnum = 0, ir_isset = False, ir_data = None, ir_now = \<lparr>tv_sec = 1, tv_usec = 0\<rparr>\<rparr>"
  let ?q = "\<lparr>ir_selnum = 1, ir_isset = True, ir_data = Some example_reply, ir_now = \<lparr>tv_sec = 0, tv_usec = 7000\<rparr>\<rparr>"
  have "is_reply 42 5 example_reply" unfolding is_reply_def example_reply_def
    by (intro exI [of _ "[0x45] @ replicate 19 0"] exI [of _ "[0, 0]"] exI [of _ "replicate 56 0"])
      (simp add: MAXPACKET_def icmp_message_def)
  then have q: "reply_round 42 example_manager ?q" "silent_round example_manager ?r" "in_time example_manager ?q"
    by (simp_all add: reply_round_def silent_round_def round_readable_def example_manager_def sock_select_def
        in_time_def mk_icmp_manager_def DIFFTIME_def cdiv_def)
  moreover have "\<exists>s. im_recv_sock example_manager = Some s" "\<exists>s. im_sock example_manager = Some s" by (simp_all add: example_manager_def)
  ultimately show ?thesis
    using icmp_active_tracks_replies [of example_manager _ _ "[?r, ?q]" 42] by auto
qed

text \<open>
  The local \<^verbatim>\<open>TimeVal\<close> has no initial value: any other packet, and a raw ICMP socket sees all of them, that
  arrives before the first reply makes the loop read it.
\<close>

lemma icmp_foreign_packet_first:
  assumes "im_recv_sock m = Some s" "round_readable r m = 1" "ir_data r = Some b" "b \<noteq> []" "length b \<le> MAXPACKET"
    "ip_hl b + ICMP_MINLEN \<le> length b" "b ! ip_hl b \<noteq> ICMP_ECHOREPLY"
  shows "icmp_thread_proc pid (r # rs) m = Inl (UB ''TimeVal read before it is written'')"
  using assms by (simp add: icmp_thread_proc_def icmp_turn_def round_readable_def Let_def)

text \<open>\<^verbatim>\<open>send_icmp\<close> never faults and changes nothing but the time of the request.\<close>

lemma send_icmp_total:
  "\<exists>n out m'. send_icmp ia pid now notify sent m = Inr (n, out, m') \<and>
     im_recv_sock m' = im_recv_sock m \<and> im_sock m' = im_sock m \<and> im_active m' = im_active m"
proof (cases "im_sock m")
  case (Some s)
  obtain c :: u16 where c: "with_checksum (ip_header (word_of_int pid) (ia (im_bind_addr m)) (ia (im_addr m))) 20
      = Inr (ip_header (word_of_int pid) (ia (im_bind_addr m)) (ia (im_addr m)) (le_bytes 2 (unat c)))"
    using ip_header_verifies by blast
  obtain d :: u16 where d: "with_checksum (\<lambda>c. icmp_message ICMP_ECHO c (word_of_int pid) (word_of_int (sk_fd s)) (echo_data now))
      (int (DEFDATALEN + 8)) = Inr (icmp_message ICMP_ECHO (le_bytes 2 (unat d)) (word_of_int pid) (word_of_int (sk_fd s)) (echo_data now))"
    using icmp_message_verifies [OF length_echo_data] by blast
  show ?thesis using Some c d by (simp add: send_icmp_def)
qed (simp add: send_icmp_def)

text \<open>
  When the receiving socket cannot be bound, and after \<^verbatim>\<open>reset_link\<close>, the worker that \<^verbatim>\<open>start\<close> launches all the
  same follows a null pointer on its first turn.
\<close>

lemma icmp_no_recv_socket: "im_recv_sock m = None \<Longrightarrow> icmp_thread_proc pid (r # rs) m = Inl (UB ''null pointer'')"
  by (simp add: icmp_thread_proc_def icmp_turn_def)

lemma reset_link_drops_receiver: "reset_link a m k = (x, m', k') \<Longrightarrow> im_recv_sock m' = None"
  by (auto simp: reset_link_def Let_def split: prod.splits)

lemma icmp_start_unbound:
  assumes "oa_fd a \<noteq> INVALID_SOCKET" "oa_reuse a" "oa_recv_fd a \<noteq> INVALID_SOCKET" "oa_recv_reuse a" "oa_proto a" "\<not> oa_bind a"
  shows "\<exists>out m k'. icmp_start ia a pid now notify sent w addr prio (Some b) mk_icmp_manager k = Ret (Inr (True, out, m, k')) \<and>
    im_recv_sock m = None"
proof -
  obtain m1 k1 where m1: "icmp_open ia a addr prio (Some b) mk_icmp_manager k = Inr (m1, k1)" "im_recv_sock m1 = None"
    "\<exists>s. im_sock m1 = Some s \<and> rs_proto_type s = PROTO_RAW" "im_thread m1 = mk_thread"
    using assms by (auto simp: icmp_open_def mk_icmp_manager_def raw_open_def create_socket_def mk_raw_sock_def
        raw_bind_def bind_port_def Let_def)
  then obtain s where s: "im_sock m1 = Some s" "rs_proto_type s = PROTO_RAW" by blast
  let ?m = "m1\<lparr>im_thread := mk_thread\<lparr>th_thread := Joinable w\<rparr>\<rparr>"
  obtain n out m2 where m2: "send_icmp ia pid now notify sent ?m = Inr (n, out, m2)" "im_recv_sock m2 = im_recv_sock ?m"
    using send_icmp_total by metis
  then show ?thesis using m1 s by (auto simp: icmp_start_def thread_create_def mk_thread_def thread_joinable_def Let_def)
qed

end
