(* ===== verification/Timer_Delivery.thy ===== *)
theory Timer_Delivery
  imports Global_Timer Event_Thread
begin

text \<open>
  The timer thread and the threads it serves: what a pass of \<^verbatim>\<open>GlobalTimer::thread_proc\<close> posts goes through
  \<^verbatim>\<open>QThread::add_event\<close> of the object that started the timer. The result of \<^verbatim>\<open>add_event\<close> is ignored
  (\<^verbatim>\<open>src/util.cpp\<close>), so a due timer whose object has a full queue is gone without an event. The objects
  are a function from their identity to the \<^verbatim>\<open>QThread\<close>. The timer numbers are those of a byte, as the
  consistency of \<open>Global_Timer\<close> asks.
\<close>

section \<open>Posting\<close>

definition CI_TIMER_DONE :: u16 where "CI_TIMER_DONE = 0xFFFF"

definition text_bytes :: "string \<Rightarrow> bytes" where
  "text_bytes s = map (\<lambda>c. of_nat (of_char c)) s"

text \<open>The event carries \<^verbatim>\<open>strBuf\<close> with its terminating NUL.\<close>

definition post_event :: "post \<Rightarrow> (obj_id \<Rightarrow> qthread) \<Rightarrow> fault + (obj_id \<Rightarrow> qthread)" where
  "post_event p qs =
     (case p of (obj, nWhich, strBuf) \<Rightarrow>
        (case qthread_add_event CI_TIMER_DONE nWhich (Some (text_bytes strBuf @ [0])) (int (length strBuf) + 1) (qs obj) of
           Inl f \<Rightarrow> Inl f
         | Inr (_, q) \<Rightarrow> Inr (qs(obj := q))))"

fun post_all :: "post list \<Rightarrow> (obj_id \<Rightarrow> qthread) \<Rightarrow> fault + (obj_id \<Rightarrow> qthread)" where
  "post_all [] qs = Inr qs"
| "post_all (p # ps) qs = (case post_event p qs of Inl f \<Rightarrow> Inl f | Inr qs' \<Rightarrow> post_all ps qs')"

definition timer_round ::
  "timeval \<Rightarrow> global_timer \<times> (obj_id \<Rightarrow> qthread) \<Rightarrow> fault + global_timer \<times> (obj_id \<Rightarrow> qthread)" where
  "timer_round ntv = (\<lambda>(gt, qs).
     case gt_pass ntv gt of
       Inl f \<Rightarrow> Inl f
     | Inr (posts, gt') \<Rightarrow> map_sum id (Pair gt') (post_all posts qs))"

section \<open>Facts\<close>

definition events_of :: "qthread \<Rightarrow> eventinfo list" where
  "events_of q = queue_q (qt_queue q)"

text \<open>The events a list of posts stands for, for one object.\<close>

definition carries_post :: "post \<Rightarrow> eventinfo \<Rightarrow> bool" where
  "carries_post p e \<longleftrightarrow> event_carries e CI_TIMER_DONE (fst (snd p)) (text_bytes (snd (snd p)) @ [0])"

lemma timer_text_length: "length (timer_text ntv sp) < 64"
  using length_snprintf [of 64] unfolding timer_text_def by (rule le_less_trans) simp

lemma length_text_bytes [simp]: "length (text_bytes s) = length s"
  by (simp add: text_bytes_def)

definition short_post :: "post \<Rightarrow> bool" where
  "short_post p \<longleftrightarrow> length (snd (snd p)) < 64"

lemma short_timer_event: "short_post (timer_event ntv s p)"
  by (simp add: short_post_def timer_event_def timer_post_def timer_text_length)

text \<open>What a queue still takes: nothing when it is closed, otherwise up to its bound.\<close>

definition room :: "qthread \<Rightarrow> nat" where
  "room q = (if queue_closed (qt_queue q) then 0 else nat (queue_max (qt_queue q)) - length (events_of q))"

text \<open>A post appends its event to the queue of its object when that has room, and changes nothing otherwise; no other
  queue moves.\<close>

lemma post_event_cases:
  assumes "short_post (obj, w, t)" "queue_inv (qt_queue (qs obj))"
  shows "\<exists>e q. carries_post (obj, w, t) e \<and> post_event (obj, w, t) qs = Inr (qs(obj := q)) \<and>
    qt_thread q = qt_thread (qs obj) \<and> queue_max (qt_queue q) = queue_max (qt_queue (qs obj)) \<and>
    queue_closed (qt_queue q) = queue_closed (qt_queue (qs obj)) \<and> queue_inv (qt_queue q) \<and>
    events_of q = events_of (qs obj) @ (if 0 < room (qs obj) then [e] else [])"
proof -
  let ?b = "text_bytes t @ [0]"
  have len: "length ?b \<le> MAX_VALUE_SIZE" using assms(1) by (simp add: short_post_def)
  let ?v = "blit 0 ?b (ev_Value zero_event)"
  let ?e = "zero_event\<lparr>ev_h := (ev_h zero_event)\<lparr>usType := CI_TIMER_DONE, usSubType := w,
     nMsgLen := 60 + int (length ?b)\<rparr>, ev_Value := ?v\<rparr>"
  have "fill_value (Some ?b) (int (length t) + 1) (ev_Value zero_event) = Inr ?v"
    using len by (simp add: fill_value_def zero_event_def nat_add_distrib)
  moreover have "add_int32 60 (int (length t) + 1) = Some (60 + int (length ?b))"
    using len by (simp add: add_int32_def in_int32_def)
  ultimately have "qthread_add_event CI_TIMER_DONE w (Some ?b) (int (length t) + 1) (qs obj) = Inr (qthread_add ?e (qs obj))"
    by (simp add: qthread_add_event_def)
  then have "post_event (obj, w, t) qs = Inr (qs(obj := snd (qthread_add ?e (qs obj))))"
    by (simp add: post_event_def split: prod.splits)
  moreover have "carries_post (obj, w, t) ?e"
    using len by (simp add: carries_post_def event_carries_def event_value_length_def blit_def zero_event_def)
  ultimately show ?thesis
    using assms(2) queue_size_exact [OF assms(2)]
    by (intro exI [of _ ?e] exI [of _ "snd (qthread_add ?e (qs obj))"])
      (auto simp: qthread_add_def queue_put_def events_of_def room_def queue_inv_def split: prod.splits)
qed

abbreviation posts_for :: "obj_id \<Rightarrow> post list \<Rightarrow> post list" where
  "posts_for obj ps \<equiv> filter (\<lambda>p. fst p = obj) ps"

text \<open>
  What a queue holds after some posts to its object: behind the old events those of the first posts, as
  many as it had room for.
\<close>

definition received :: "post list \<Rightarrow> qthread \<Rightarrow> qthread \<Rightarrow> bool" where
  "received ps q q' \<longleftrightarrow> queue_inv (qt_queue q') \<and> queue_max (qt_queue q') = queue_max (qt_queue q) \<and>
     queue_closed (qt_queue q') = queue_closed (qt_queue q) \<and>
     (\<exists>es. events_of q' = events_of q @ es \<and> list_all2 carries_post (take (room q) ps) es)"

lemma received_refl: "queue_inv (qt_queue q) \<Longrightarrow> received [] q q"
  by (simp add: received_def)

lemma received_Cons:
  assumes rest: "received ps q q'" and e: "carries_post p e"
    and "queue_max (qt_queue q) = queue_max (qt_queue q0)" "queue_closed (qt_queue q) = queue_closed (qt_queue q0)"
    "events_of q = events_of q0 @ (if 0 < room q0 then [e] else [])"
  shows "received (p # ps) q0 q'"
proof -
  obtain es where es: "events_of q' = events_of q @ es" "list_all2 carries_post (take (room q) ps) es"
    using rest by (auto simp: received_def)
  have "\<exists>es. events_of q' = events_of q0 @ es \<and> list_all2 carries_post (take (room q0) (p # ps)) es"
  proof (cases "0 < room q0")
    case True
    then have "room q0 = Suc (room q)" using assms(3-5) by (auto simp: room_def split: if_splits)
    then show ?thesis using es e assms(5) by (intro exI [of _ "e # es"]) simp
  next
    case False
    then have "room q = 0" using assms(3-5) by (auto simp: room_def split: if_splits)
    then show ?thesis using es assms(5) False by (intro exI [of _ es]) simp
  qed
  then show ?thesis using rest assms(3,4) by (auto simp: received_def)
qed

lemma post_all_spec:
  "list_all short_post ps \<Longrightarrow> (\<And>obj. queue_inv (qt_queue (qs obj))) \<Longrightarrow>
   \<exists>qs'. post_all ps qs = Inr qs' \<and> (\<forall>obj. received (posts_for obj ps) (qs obj) (qs' obj))"
proof (induction ps arbitrary: qs)
  case Nil
  then show ?case by (simp add: received_refl)
next
  case (Cons p ps)
  obtain ob w t where p: "p = (ob, w, t)" by (cases p)
  obtain e q where e: "carries_post p e" "post_event p qs = Inr (qs(ob := q))"
    "queue_max (qt_queue q) = queue_max (qt_queue (qs ob))" "queue_closed (qt_queue q) = queue_closed (qt_queue (qs ob))"
    "events_of q = events_of (qs ob) @ (if 0 < room (qs ob) then [e] else [])" "queue_inv (qt_queue q)"
    using post_event_cases [of ob w t qs] Cons.prems p by auto
  have "list_all short_post ps" "\<And>obj. queue_inv (qt_queue ((qs(ob := q)) obj))" using Cons.prems e(6) by simp_all
  from Cons.IH [of "qs(ob := q)", OF this] obtain qs' where qs': "post_all ps (qs(ob := q)) = Inr qs'"
    "\<And>obj. received (posts_for obj ps) ((qs(ob := q)) obj) (qs' obj)" by blast
  have "received (posts_for obj (p # ps)) (qs obj) (qs' obj)" for obj
    using qs'(2) [of obj] received_Cons [OF _ e(1,3-5)] p by (cases "obj = ob") auto
  then show ?case using e(2) qs'(1) by auto
qed

text \<open>A full queue loses every post to its object.\<close>

lemma post_all_full:
  assumes "queue_inv (qt_queue (qs me))" "queue_max (qt_queue (qs me)) \<le> int (length (events_of (qs me)))"
  shows "post_all ps qs = Inr qs' \<Longrightarrow> qs' me = qs me"
  using assms
proof (induction ps arbitrary: qs)
  case (Cons p ps)
  obtain ob w t where p: "p = (ob, w, t)" by (cases p)
  obtain qs1 where qs1: "post_event p qs = Inr qs1" "post_all ps qs1 = Inr qs'"
    using Cons.prems(1) by (auto split: sum.splits)
  have "qs1 me = qs me"
    using qs1(1) qthread_add_refuse [OF Cons.prems(2)] Cons.prems(3)
    by (auto simp: p post_event_def qthread_add_event_def events_of_def fun_upd_apply
        split: sum.splits option.splits prod.splits if_splits)
  then show ?case using Cons.IH [OF qs1(2)] Cons.prems(2,3) by simp
qed simp

lemma timer_round_spec:
  assumes "gt_inv gt" "\<And>obj. queue_inv (qt_queue (qs obj))"
  shows "\<exists>gt' qs'. timer_round ntv (gt, qs) = Inr (gt', qs') \<and> gt_inv gt' \<and>
    (\<forall>p. gt_heap gt' p = (if is_expired ntv gt p then None else gt_heap gt p)) \<and>
    (\<forall>obj. received (posts_for obj (map (timer_event ntv gt) (filter (is_expired ntv gt) (gt_list gt)))) (qs obj) (qs' obj))"
proof -
  let ?ps = "map (timer_event ntv gt) (filter (is_expired ntv gt) (gt_list gt))"
  have l: "distinct (gt_list gt)" "set (gt_list gt) = dom (gt_heap gt)" using assms(1) by (auto simp: gt_inv_def)
  then obtain gt' where gt': "gt_pass ntv gt = Inr (?ps, gt')" "gt_inv gt'"
    "gt_heap gt' = (\<lambda>p. if p \<in> set (gt_list gt) \<and> is_expired ntv gt p then None else gt_heap gt p)"
    using gt_scan_spec [OF assms(1), of "gt_list gt" ntv] by (auto simp: gt_pass_def)
  have heap: "gt_heap gt' p = (if is_expired ntv gt p then None else gt_heap gt p)" for p
    using gt'(3) l(2) by (auto simp: is_expired_def split: option.splits)
  have "list_all short_post ?ps" by (simp add: list_all_iff short_timer_event)
  from post_all_spec [of _ qs, OF this assms(2)] gt' heap show ?thesis by (auto simp: timer_round_def)
qed

text \<open>
  C14: Timers reach their threads. When the timers (numbers 0 to 255) and the queues are consistent, a round of the timer
  thread never faults and removes exactly the due timers. Every object's queue then holds what it held followed by the
  events of the object's due timers, in the order they were started, as many of the first as it had room for: all of
  them up to \<^verbatim>\<open>max_\<close>, none if it is shut down, and the rest are dropped. Each event has the type
  \<^verbatim>\<open>CI_TIMER_DONE\<close>, the timer's number as subtype and the text of \<^verbatim>\<open>strBuf\<close> with its NUL as payload.
\<close>

theorem timer_round_delivers:
  assumes "gt_inv gt" "\<And>obj. queue_inv (qt_queue (qs obj))"
  shows "\<exists>gt' qs'. timer_round ntv (gt, qs) = Inr (gt', qs') \<and> gt_inv gt' \<and>
    (\<forall>p. gt_heap gt' p = (if is_expired ntv gt p then None else gt_heap gt p)) \<and>
    (\<forall>obj. \<exists>es. events_of (qs' obj) = events_of (qs obj) @ es \<and>
       list_all2 carries_post (take (room (qs obj))
         (posts_for obj (map (timer_event ntv gt) (filter (is_expired ntv gt) (gt_list gt))))) es)"
proof -
  from timer_round_spec [of gt qs ntv, OF assms] obtain gt' qs' where
    r: "timer_round ntv (gt, qs) = Inr (gt', qs')" "gt_inv gt'"
      "\<forall>p. gt_heap gt' p = (if is_expired ntv gt p then None else gt_heap gt p)"
      "\<And>obj. received (posts_for obj (map (timer_event ntv gt) (filter (is_expired ntv gt) (gt_list gt)))) (qs obj) (qs' obj)"
    by auto
  show ?thesis using r(1-3) r(4) [unfolded received_def] by (intro exI [of _ gt'] exI [of _ qs']) simp
qed

theorem timer_round_delivers_witness:
  "\<exists>gt' qs' e. timer_round t1 (snd (start_timer t0 1 100 7 mk_global_timer), \<lambda>_. mk_qthread) = Inr (gt', qs') \<and>
     events_of (qs' 1) = [e] \<and> carries_post (1, 7, ''Term:200, Delay:100'') e \<and> events_of (qs' 2) = []"
proof -
  let ?s = "snd (start_timer t0 1 100 7 mk_global_timer)"
  have inv: "gt_inv ?s" using AddElement_spec [OF gt_inv_init, of 7] by (simp add: start_timer_def)
  have posts: "map (timer_event t1 ?s) (filter (is_expired t1 ?s) (gt_list ?s)) = [(1, 7, ''Term:200, Delay:100'')]"
    by (simp add: start_timer_def AddElement_def mk_global_timer_def gt_entry_def Let_def is_expired_def
        expired_def timer_event_def timer_post_def timer_text_def show_int_def show_examples DIFFTIME_def cdiv_def t0_def t1_def)
  have q: "queue_inv (qt_queue mk_qthread)" "events_of mk_qthread = []" "0 < room mk_qthread"
    by (simp_all add: mk_qthread_def mk_qthread_n_def DEF_EVENT_QUEUE_LENGTH_def mk_queue_def queue_inv_def in_int32_def events_of_def room_def)
  obtain gt' qs' where r: "timer_round t1 (?s, \<lambda>_. mk_qthread) = Inr (gt', qs')"
    "\<And>obj. \<exists>es. events_of (qs' obj) = events_of mk_qthread @ es \<and> list_all2 carries_post (take (room mk_qthread)
       (posts_for obj (map (timer_event t1 ?s) (filter (is_expired t1 ?s) (gt_list ?s))))) es"
    using timer_round_delivers [OF inv, of "\<lambda>_. mk_qthread" t1] q(1) by auto
  obtain n where n: "room mk_qthread = Suc n" using q(3) gr0_implies_Suc by blast
  show ?thesis using r(1) r(2) [of 1] r(2) [of 2] unfolding posts by (auto simp: q(2) n list_all2_Cons1)
qed

end
