(* ===== verification/Icmp_Monitor.thy ===== *)
theory Icmp_Monitor
  imports Icmp Timer_Delivery
begin

text \<open>
  \<^verbatim>\<open>IcmpMonitor\<close> (\<^verbatim>\<open>include/icmp.hpp\<close>): the managers of the monitored hosts and the worker that sends the
  requests. The worker is driven by a timer of its own: it starts timer 0, and when the timer's event is
  taken from its queue it asks every manager to send and starts the timer again. The managers are the
  entries of an \<^verbatim>\<open>unordered_map\<close> in its iteration order.
\<close>

section \<open>The managers\<close>

record icmp_monitor =
  mon_managers :: "(string \<times> icmp_manager) list"
  mon_interval :: int
  mon_delay :: int

definition mk_icmp_monitor :: icmp_monitor where
  "mk_icmp_monitor = \<lparr>mon_managers = [], mon_interval = 500, mon_delay = 1000\<rparr>"

text \<open>The destructor of a manager joins its worker and closes both sockets.\<close>

definition destroy_manager :: "icmp_manager \<Rightarrow> kernel \<Rightarrow> kernel" where
  "destroy_manager m k = reset_sock (im_sock m) (reset_sock (im_recv_sock m) k)"

text \<open>\<^verbatim>\<open>managers_[pszAddr] = std::move(pMgr)\<close>: a manager under the same name is destroyed.\<close>

definition put_manager :: "string \<Rightarrow> icmp_manager \<Rightarrow> icmp_monitor \<Rightarrow> kernel \<Rightarrow> icmp_monitor \<times> kernel" where
  "put_manager name m mon k =
     (case map_of (mon_managers mon) name of
        None \<Rightarrow> (mon\<lparr>mon_managers := mon_managers mon @ [(name, m)]\<rparr>, k)
      | Some old \<Rightarrow>
          (mon\<lparr>mon_managers := map (\<lambda>(n, x). (n, if n = name then m else x)) (mon_managers mon)\<rparr>, destroy_manager old k))"

text \<open>
  \<^verbatim>\<open>add_manager\<close>: the text is \<^verbatim>\<open>address\<close>, \<^verbatim>\<open>address:priority\<close> or \<^verbatim>\<open>address:priority:bind\<close>. \<open>start\<close> are the
  arguments of \<open>icmp_start\<close> that stand for the system's answers.
\<close>

record start_answers =
  sa_open :: open_answers
  sa_now :: timeval
  sa_notify :: "bool option"
  sa_sent :: int
  sa_wid :: wid

definition add_manager ::
  "(string \<Rightarrow> u32) \<Rightarrow> int \<Rightarrow> start_answers \<Rightarrow> string \<Rightarrow> icmp_monitor \<Rightarrow> kernel
    \<Rightarrow> (fault + bool \<times> icmp_monitor \<times> kernel) outcome" where
  "add_manager inet_addr pid a pszAddr mon k =
     (let info = tokenize pszAddr [] '':''
      in if info = [] then Ret (Inl (UB ''index out of range''))
         else case (if length info = 1 then Inr 1 else atoi (info ! 1)) of
                Inl f \<Rightarrow> Ret (Inl f)
              | Inr priority \<Rightarrow>
                  (case icmp_start inet_addr (sa_open a) pid (sa_now a) (sa_notify a) (sa_sent a) (sa_wid a)
                          (Some (info ! 0)) priority (if length info = 3 then Some (info ! 2) else None) mk_icmp_manager k of
                     Blocked \<Rightarrow> Blocked
                   | Ret (Inl f) \<Rightarrow> Ret (Inl f)
                   | Ret (Inr (ok, _, m, k1)) \<Rightarrow>
                       (let (mon1, k2) = put_manager pszAddr m mon k1 in Ret (Inr (ok, mon1, k2)))))"

definition remove_manager :: "string \<Rightarrow> icmp_monitor \<Rightarrow> kernel \<Rightarrow> bool \<times> icmp_monitor \<times> kernel" where
  "remove_manager pszAddr mon k =
     (case map_of (mon_managers mon) pszAddr of
        None \<Rightarrow> (False, mon, k)
      | Some m \<Rightarrow> (True, mon\<lparr>mon_managers := filter (\<lambda>(n, _). n \<noteq> pszAddr) (mon_managers mon)\<rparr>, destroy_manager m k))"

text \<open>\<^verbatim>\<open>reset_managers\<close>: an exception from \<^verbatim>\<open>reset_link\<close> leaves the loop.\<close>

fun reset_all :: "(string \<Rightarrow> open_answers) \<Rightarrow> (string \<times> icmp_manager) list \<Rightarrow> kernel
    \<Rightarrow> (fault + unit) \<times> (string \<times> icmp_manager) list \<times> kernel" where
  "reset_all ans [] k = (Inr (), [], k)"
| "reset_all ans ((n, m) # ms) k =
     (case reset_link (ans n) m k of
        (Inl f, m1, k1) \<Rightarrow> (Inl f, (n, m1) # ms, k1)
      | (Inr _, m1, k1) \<Rightarrow> (case reset_all ans ms k1 of (r, ms', k2) \<Rightarrow> (r, (n, m1) # ms', k2)))"

definition reset_managers :: "(string \<Rightarrow> open_answers) \<Rightarrow> icmp_monitor \<Rightarrow> kernel \<Rightarrow> (fault + unit) \<times> icmp_monitor \<times> kernel" where
  "reset_managers ans mon k =
     (case reset_all ans (mon_managers mon) k of (r, ms, k1) \<Rightarrow> (r, mon\<lparr>mon_managers := ms\<rparr>, k1))"

definition set_delay :: "int \<Rightarrow> icmp_monitor \<Rightarrow> icmp_monitor" where
  "set_delay msec mon = mon\<lparr>mon_delay := msec,
     mon_managers := map (\<lambda>(n, m). (n, m\<lparr>im_delay := msec\<rparr>)) (mon_managers mon)\<rparr>"

text \<open>\<^verbatim>\<open>start\<close>: only for the super-user; the results of \<^verbatim>\<open>add_manager\<close> are ignored. The answers are numbered by address.\<close>

fun add_managers ::
  "(string \<Rightarrow> u32) \<Rightarrow> int \<Rightarrow> (nat \<Rightarrow> start_answers) \<Rightarrow> nat \<Rightarrow> string list \<Rightarrow> icmp_monitor \<Rightarrow> kernel
    \<Rightarrow> (fault + icmp_monitor \<times> kernel) outcome" where
  "add_managers inet_addr pid ans i [] mon k = Ret (Inr (mon, k))"
| "add_managers inet_addr pid ans i (x # xs) mon k =
     (case add_manager inet_addr pid (ans i) x mon k of
        Blocked \<Rightarrow> Blocked
      | Ret (Inl f) \<Rightarrow> Ret (Inl f)
      | Ret (Inr (_, mon1, k1)) \<Rightarrow> add_managers inet_addr pid ans (Suc i) xs mon1 k1)"

definition monitor_start ::
  "(string \<Rightarrow> u32) \<Rightarrow> int \<Rightarrow> int \<Rightarrow> (nat \<Rightarrow> start_answers) \<Rightarrow> string \<Rightarrow> wid \<Rightarrow> icmp_monitor \<Rightarrow> qthread \<Rightarrow> kernel
    \<Rightarrow> (fault + bool \<times> icmp_monitor \<times> qthread \<times> kernel) outcome" where
  "monitor_start inet_addr uid pid ans pszAddrs w mon q k =
     (if uid \<noteq> 0 then Ret (Inr (False, mon, q, k))
      else case add_managers inet_addr pid ans 0 (tokenize pszAddrs [] '' '') mon k of
             Blocked \<Rightarrow> Blocked
           | Ret (Inl f) \<Rightarrow> Ret (Inl f)
           | Ret (Inr (mon1, k1)) \<Rightarrow>
               (case thread_create w (qt_thread q) of
                  Blocked \<Rightarrow> Blocked
                | Ret (r, launched, th) \<Rightarrow> Ret (Inr (r \<noteq> 0, mon1, q\<lparr>qt_thread := th\<rparr>, k1))))"

section \<open>The worker\<close>

text \<open>
  \<open>net\<close> says what each manager's callback and system call answer. Sending to all of them collects the
  packets that went out.
\<close>

fun send_managers ::
  "(string \<Rightarrow> u32) \<Rightarrow> int \<Rightarrow> timeval \<Rightarrow> (string \<Rightarrow> bool option \<times> int) \<Rightarrow> (string \<times> icmp_manager) list
    \<Rightarrow> fault + bytes list \<times> (string \<times> icmp_manager) list" where
  "send_managers inet_addr pid now net [] = Inr ([], [])"
| "send_managers inet_addr pid now net ((n, m) # ms) =
     (case send_icmp inet_addr pid now (fst (net n)) (snd (net n)) m of
        Inl f \<Rightarrow> Inl f
      | Inr (_, out, m') \<Rightarrow>
          (case send_managers inet_addr pid now net ms of
             Inl f \<Rightarrow> Inl f
           | Inr (outs, ms') \<Rightarrow> Inr ((case out of None \<Rightarrow> outs | Some b \<Rightarrow> b # outs), (n, m') # ms')))"

text \<open>
  What the worker does for a timer event, in two parts, since other threads run in between: it sends, and it starts its
  timer again. \<open>me\<close> is the monitor's own identity.
\<close>

definition mon_send ::
  "(string \<Rightarrow> u32) \<Rightarrow> int \<Rightarrow> timeval \<Rightarrow> (string \<Rightarrow> bool option \<times> int) \<Rightarrow> icmp_monitor \<Rightarrow> fault + bytes list \<times> icmp_monitor" where
  "mon_send inet_addr pid now net mon =
     map_sum id (\<lambda>(outs, ms). (outs, mon\<lparr>mon_managers := ms\<rparr>)) (send_managers inet_addr pid now net (mon_managers mon))"

definition monitor_start_timer :: "timeval \<Rightarrow> obj_id \<Rightarrow> int \<Rightarrow> u8 \<Rightarrow> global_timer \<Rightarrow> bool \<times> global_timer" where
  "monitor_start_timer now me msec which gt = start_timer now me msec (uint which) gt"

definition monitor_stop_timer :: "obj_id \<Rightarrow> u8 \<Rightarrow> global_timer \<Rightarrow> fault + bool \<times> global_timer" where
  "monitor_stop_timer me which gt = stop_timer me (uint which) gt"

definition mon_rearm :: "timeval \<Rightarrow> obj_id \<Rightarrow> icmp_monitor \<Rightarrow> global_timer \<Rightarrow> global_timer" where
  "mon_rearm now me mon gt = snd (monitor_start_timer now me (mon_interval mon) 0 gt)"

definition set_interval :: "int \<Rightarrow> icmp_monitor \<Rightarrow> icmp_monitor" where
  "set_interval msec mon = mon\<lparr>mon_interval := msec\<rparr>"

text \<open>
  The monitor among the timer thread and the threads that use it. The worker is about to start its first timer, about to
  test \<^verbatim>\<open>do_exit()\<close>, in \<^verbatim>\<open>remove()\<close>, about to send, about to start its timer again, or gone. The event the worker has taken
  stays in \<^verbatim>\<open>scratch_\<close> until its own next \<^verbatim>\<open>remove()\<close>, so its type is read in the step that takes it. A round of the timer
  thread takes the due timers out, under its lock, and then posts their events one by one, still under that lock but
  with the other threads using the queues in between; \<open>sys_flight\<close> are the events it has yet to post, and no timer is
  started or stopped before it is done. The label of a post says whether it finds the monitor's queue without room. The other
  steps are an \<^verbatim>\<open>add\<close>, \<^verbatim>\<open>start_timer\<close>, \<^verbatim>\<open>stop_timer\<close> and \<^verbatim>\<open>set_interval\<close> by someone else, and the beginning of \<^verbatim>\<open>close\<close>. The
  map of the managers is not protected by the code; it does not change here while the worker runs.
\<close>

datatype mon_phase = Begin | Looping | Waiting | Handling | Rearming | Ended

record mon_sys =
  sys_timer :: global_timer
  sys_queues :: "obj_id \<Rightarrow> qthread"
  sys_mon :: icmp_monitor
  sys_phase :: mon_phase
  sys_flight :: "post list"

datatype mon_event =
    Scanned | Posted bool | Began | Tested bool | Took "eventinfo option" | Sent "bytes list" | Rearmed
  | Added eventinfo | Started u8 | Stopped u8 | Interval int | Closing

inductive mon_step ::
  "(string \<Rightarrow> u32) \<Rightarrow> int \<Rightarrow> obj_id \<Rightarrow> mon_sys \<Rightarrow> mon_event \<Rightarrow> mon_sys \<Rightarrow> bool"
  for inet_addr pid me where
  mon_begin: "sys_phase s = Begin \<Longrightarrow> sys_flight s = [] \<Longrightarrow>
    mon_step inet_addr pid me s Began (s\<lparr>sys_timer := mon_rearm now me (sys_mon s) (sys_timer s), sys_phase := Looping\<rparr>)"
| mon_test: "sys_phase s = Looping \<Longrightarrow> stop = do_exit (qt_thread (sys_queues s me)) \<Longrightarrow>
    mon_step inet_addr pid me s (Tested stop) (s\<lparr>sys_phase := (if stop then Ended else Waiting)\<rparr>)"
| mon_take: "sys_phase s = Waiting \<Longrightarrow> qthread_remove (sys_queues s me) = Ret (p, q) \<Longrightarrow>
    got = queue_deref p (qt_queue q) \<Longrightarrow>
    ph = (case got of None \<Rightarrow> Ended
          | Some e \<Rightarrow> if usType (ev_h e) = CI_TIMER_DONE then Handling else Looping) \<Longrightarrow>
    mon_step inet_addr pid me s (Took got) (s\<lparr>sys_queues := (sys_queues s)(me := q), sys_phase := ph\<rparr>)"
| mon_sends: "sys_phase s = Handling \<Longrightarrow> mon_send inet_addr pid now net (sys_mon s) = Inr (outs, mon) \<Longrightarrow>
    mon_step inet_addr pid me s (Sent outs) (s\<lparr>sys_mon := mon, sys_phase := Rearming\<rparr>)"
| mon_rearms: "sys_phase s = Rearming \<Longrightarrow> sys_flight s = [] \<Longrightarrow>
    mon_step inet_addr pid me s Rearmed (s\<lparr>sys_timer := mon_rearm now me (sys_mon s) (sys_timer s), sys_phase := Looping\<rparr>)"
| mon_scan: "sys_flight s = [] \<Longrightarrow> gt_pass ntv (sys_timer s) = Inr (posts, gt) \<Longrightarrow>
    mon_step inet_addr pid me s Scanned (s\<lparr>sys_timer := gt, sys_flight := posts\<rparr>)"
| mon_post: "sys_flight s = p # ps \<Longrightarrow> post_event p (sys_queues s) = Inr qs \<Longrightarrow>
    crowded = (fst p = me \<and> room (sys_queues s me) = 0) \<Longrightarrow>
    mon_step inet_addr pid me s (Posted crowded) (s\<lparr>sys_queues := qs, sys_flight := ps\<rparr>)"
| added: "qthread_add e (sys_queues s me) = (ok, q) \<Longrightarrow>
    mon_step inet_addr pid me s (Added e) (s\<lparr>sys_queues := (sys_queues s)(me := q)\<rparr>)"
| mon_started: "sys_flight s = [] \<Longrightarrow> monitor_start_timer now me msec which (sys_timer s) = (ok, gt) \<Longrightarrow>
    mon_step inet_addr pid me s (Started which) (s\<lparr>sys_timer := gt\<rparr>)"
| mon_stopped: "sys_flight s = [] \<Longrightarrow> monitor_stop_timer me which (sys_timer s) = Inr (ok, gt) \<Longrightarrow>
    mon_step inet_addr pid me s (Stopped which) (s\<lparr>sys_timer := gt\<rparr>)"
| mon_interval_set: "mon_step inet_addr pid me s (Interval msec) (s\<lparr>sys_mon := set_interval msec (sys_mon s)\<rparr>)"
| mon_closing: "qthread_close_begin (sys_queues s me) = Inr q \<Longrightarrow>
    mon_step inet_addr pid me s Closing (s\<lparr>sys_queues := (sys_queues s)(me := q)\<rparr>)"

inductive_cases mon_stepE: "mon_step inet_addr pid me s ev s'"

section \<open>The heartbeat\<close>

definition armed :: "obj_id \<Rightarrow> global_timer \<Rightarrow> bool" where
  "armed me gt \<longleftrightarrow> (\<exists>w. gt_lookup gt me w \<noteq> None)"

definition is_timer_event :: "eventinfo \<Rightarrow> bool" where
  "is_timer_event e \<longleftrightarrow> usType (ev_h e) = CI_TIMER_DONE"

definition pending :: "obj_id \<Rightarrow> mon_sys \<Rightarrow> bool" where
  "pending me s \<longleftrightarrow> list_ex is_timer_event (events_of (sys_queues s me))"

definition beating :: "obj_id \<Rightarrow> mon_sys \<Rightarrow> bool" where
  "beating me s \<longleftrightarrow> armed me (sys_timer s) \<or> posts_for me (sys_flight s) \<noteq> [] \<or> pending me s \<or>
     sys_phase s \<in> {Begin, Handling, Rearming}"

definition mon_inv :: "mon_sys \<Rightarrow> bool" where
  "mon_inv s \<longleftrightarrow> gt_inv (sys_timer s) \<and> (\<forall>obj. queue_inv (qt_queue (sys_queues s obj))) \<and> list_all short_post (sys_flight s)"

lemma carries_timer_event: "carries_post p e \<Longrightarrow> is_timer_event e"
  by (simp add: carries_post_def event_carries_def is_timer_event_def)

lemma remove_event:
  assumes "qthread_remove q = Ret (p, q')" "queue_inv (qt_queue q)"
  shows "events_of q = (case queue_deref p (qt_queue q') of None \<Rightarrow> [] | Some e \<Rightarrow> [e]) @ events_of q' \<and> queue_inv (qt_queue q')"
  using assms by (auto simp: qthread_remove_def queue_get_def queue_take_def queue_deref_def events_of_def queue_inv_def
      split: outcome.splits if_splits)

lemma add_events:
  "qthread_add e q = (ok, q') \<Longrightarrow> queue_inv (qt_queue q) \<Longrightarrow>
     (events_of q' = events_of q @ [e] \<or> events_of q' = events_of q) \<and> queue_inv (qt_queue q')"
  using queue_size_exact [of "qt_queue q"]
  by (auto simp: qthread_add_def queue_put_def events_of_def queue_inv_def split: if_splits)

lemma close_events:
  assumes "qthread_close_begin q = Inr q'" "queue_inv (qt_queue q)"
  shows "\<exists>e. \<not> is_timer_event e \<and> (events_of q' = events_of q @ [e] \<or> events_of q' = events_of q) \<and> queue_inv (qt_queue q')"
proof -
  let ?e = "zero_event\<lparr>ev_h := (ev_h zero_event)\<lparr>usType := CI_QUIT_THREAD, nMsgLen := 60\<rparr>\<rparr>"
  let ?q = "q\<lparr>qt_thread := close_pre (qt_thread q)\<rparr>"
  have "\<not> is_timer_event ?e" by (simp add: is_timer_event_def quit_type CI_TIMER_DONE_def)
  moreover obtain ok where "qthread_add ?e ?q = (ok, q')"
    using assms(1) by (auto simp: qthread_close_begin_def quit_event_put split: prod.splits)
  ultimately show ?thesis using add_events [of ?e ?q ok q'] assms(2) by (auto simp: events_of_def)
qed

text \<open>The worker's timer is running once it has started it.\<close>

lemma rearm_armed:
  assumes "gt_inv gt" "monitor_start_timer now me msec which gt = (ok, gt')"
  shows "gt_inv gt' \<and> armed me gt'"
proof -
  have "0 \<le> uint which" "uint which < 256" using uint_lt2p [of which] by simp_all
  from AddElement_spec [OF assms(1) this, of now me msec] show ?thesis
    using assms(2) by (auto simp: monitor_start_timer_def start_timer_def armed_def)
qed

lemma mon_rearm_armed: "gt_inv gt \<Longrightarrow> gt_inv (mon_rearm now me mon gt) \<and> armed me (mon_rearm now me mon gt)"
  unfolding mon_rearm_def by (metis rearm_armed prod.collapse)

lemma scan_facts:
  assumes inv: "gt_inv gt" and p: "gt_pass ntv gt = Inr (posts, gt')"
  shows "gt_inv gt'" "list_all short_post posts"
    "armed me gt \<Longrightarrow> armed me gt' \<or> posts_for me posts \<noteq> []"
    "armed me gt' \<Longrightarrow> armed me gt" "posts_for me posts \<noteq> [] \<Longrightarrow> armed me gt"
proof -
  let ?ps = "map (timer_event ntv gt) (filter (is_expired ntv gt) (gt_list gt))"
  have l: "distinct (gt_list gt)" "set (gt_list gt) = dom (gt_heap gt)" using inv by (auto simp: gt_inv_def)
  have look: "gt_lookup g me w \<noteq> None \<longleftrightarrow> (\<exists>a sp. gt_heap g a = Some sp \<and> sp_obj sp = me \<and> uint (sp_nWhich sp) = w)" if "gt_inv g" for g w
    using that by (auto simp: gt_inv_def)
  have ps: "posts = ?ps" "gt_inv gt'"
    "gt_heap gt' = (\<lambda>p. if p \<in> set (gt_list gt) \<and> is_expired ntv gt p then None else gt_heap gt p)"
    using gt_scan_spec [OF inv, of "gt_list gt" ntv] l p by (auto simp: gt_pass_def)
  show "gt_inv gt'" by (rule ps(2))
  show "list_all short_post posts" by (simp add: ps(1) list_all_iff short_timer_event)
  have due: "posts_for me posts \<noteq> [] \<longleftrightarrow> (\<exists>a sp. gt_heap gt a = Some sp \<and> sp_obj sp = me \<and> expired ntv sp)"
    using l by (auto simp: ps(1) filter_empty_conv is_expired_def timer_event_def timer_post_def split: option.splits)
  show "armed me gt \<Longrightarrow> armed me gt' \<or> posts_for me posts \<noteq> []"
    unfolding armed_def look [OF inv] look [OF ps(2)] due
    using ps(3) by (auto simp: is_expired_def split: option.splits)
  show "armed me gt' \<Longrightarrow> armed me gt"
    unfolding armed_def look [OF inv] look [OF ps(2)] using ps(3) by (auto split: if_splits)
  show "posts_for me posts \<noteq> [] \<Longrightarrow> armed me gt" unfolding armed_def look [OF inv] due by blast
qed

text \<open>A post puts a timer event into the queue of its object if that has room.\<close>

lemma post_facts:
  assumes "post_event p qs = Inr qs'" "short_post p" "\<And>obj. queue_inv (qt_queue (qs obj))"
  shows "queue_inv (qt_queue (qs' obj))"
    "events_of (qs' obj) = events_of (qs obj) \<or>
       fst p = obj \<and> 0 < room (qs obj) \<and> (\<exists>e. is_timer_event e \<and> events_of (qs' obj) = events_of (qs obj) @ [e])"
    "fst p = obj \<Longrightarrow> 0 < room (qs obj) \<Longrightarrow> \<exists>e. is_timer_event e \<and> events_of (qs' obj) = events_of (qs obj) @ [e]"
proof -
  obtain ob w t where p: "p = (ob, w, t)" by (cases p)
  obtain e q where e: "carries_post p e" "qs' = qs(ob := q)" "queue_inv (qt_queue q)"
      "events_of q = events_of (qs ob) @ (if 0 < room (qs ob) then [e] else [])"
    using post_event_cases [of ob w t qs] assms by (auto simp: p)
  note t = carries_timer_event [OF e(1)]
  show "queue_inv (qt_queue (qs' obj))" using e(2,3) assms(3) by simp
  show "events_of (qs' obj) = events_of (qs obj) \<or>
      fst p = obj \<and> 0 < room (qs obj) \<and> (\<exists>e. is_timer_event e \<and> events_of (qs' obj) = events_of (qs obj) @ [e])"
    using e(2,4) t by (auto simp: p)
  show "fst p = obj \<Longrightarrow> 0 < room (qs obj) \<Longrightarrow> \<exists>e. is_timer_event e \<and> events_of (qs' obj) = events_of (qs obj) @ [e]"
    using e(2,4) t by (auto simp: p)
qed

lemma stop_inv:
  "gt_inv gt \<Longrightarrow> monitor_stop_timer me which gt = Inr (ok, gt') \<Longrightarrow> gt_inv gt' \<and> (armed me gt' \<longrightarrow> armed me gt)"
  using RemoveElement_spec [of gt me "uint which"] by (auto simp: monitor_stop_timer_def stop_timer_def armed_def split: if_splits)

lemma mon_step_inv:
  assumes "mon_step ia pid me s ev s'" "mon_inv s"
  shows "mon_inv s'"
  using assms
proof cases
  case (mon_take p q got ph)
  then show ?thesis using assms(2) remove_event [OF mon_take(4)] by (simp add: mon_inv_def)
next
  case (mon_scan ntv posts gt)
  then show ?thesis using assms(2) scan_facts(1,2) [OF _ mon_scan(4)] by (simp add: mon_inv_def)
next
  case (mon_post p ps qs crowded)
  then have "short_post p" "list_all short_post ps" using assms(2) by (simp_all add: mon_inv_def)
  then show ?thesis using assms(2) mon_post post_facts(1) [OF mon_post(4)] by (simp add: mon_inv_def)
next
  case (added e ok q)
  then show ?thesis using assms(2) add_events [OF added(3)] by (simp add: mon_inv_def)
next
  case (mon_started now msec which ok gt)
  then show ?thesis using assms(2) rearm_armed [OF _ mon_started(4)] by (simp add: mon_inv_def)
next
  case (mon_stopped which ok gt)
  then show ?thesis using assms(2) stop_inv [OF _ mon_stopped(4)] by (simp add: mon_inv_def)
next
  case (mon_closing q)
  then show ?thesis using assms(2) close_events [OF mon_closing(3)] by (auto simp: mon_inv_def)
qed (use assms(2) mon_rearm_armed in \<open>auto simp: mon_inv_def\<close>)

lemma mon_step_beating:
  assumes "mon_step ia pid me s ev s'" "mon_inv s" "beating me s" "ev \<noteq> Posted True" "\<And>w. ev \<noteq> Stopped w"
  shows "beating me s'"
  using assms(1)
proof cases
  case (mon_take p q got ph)
  have ev: "events_of (sys_queues s me) = (case got of None \<Rightarrow> [] | Some e \<Rightarrow> [e]) @ events_of q"
    using remove_event [OF mon_take(4)] assms(2) mon_take(5) by (simp add: mon_inv_def)
  then show ?thesis
    using assms(3) mon_take(2,3,6) by (cases got) (auto simp: beating_def pending_def is_timer_event_def)
next
  case (mon_scan ntv posts gt)
  then show ?thesis using assms(2,3) scan_facts(3) [OF _ mon_scan(4), of me] by (auto simp: beating_def pending_def mon_inv_def)
next
  case (mon_post p ps qs crowded)
  have sp: "short_post p" "\<And>obj. queue_inv (qt_queue (sys_queues s obj))" using assms(2) mon_post by (simp_all add: mon_inv_def)
  have "fst p = me \<Longrightarrow> 0 < room (sys_queues s me)" using assms(4) mon_post(1,5) by auto
  then show ?thesis
    using assms(3) mon_post(2,3) post_facts(2,3) [OF mon_post(4) sp, of me]
    by (cases "fst p = me") (auto simp: beating_def pending_def)
next
  case (added e ok q)
  then show ?thesis using assms(2,3) add_events [OF added(3)] by (auto simp: beating_def pending_def mon_inv_def)
next
  case (mon_started now msec which ok gt)
  then show ?thesis using assms(2) rearm_armed [OF _ mon_started(4)] by (simp add: beating_def mon_inv_def)
next
  case (mon_closing q)
  then show ?thesis using assms(2,3) close_events [OF mon_closing(3)] by (auto simp: beating_def pending_def mon_inv_def)
qed (use assms(2,3,5) mon_rearm_armed in \<open>auto simp: beating_def pending_def mon_inv_def\<close>)

text \<open>
  C16: The monitor keeps its heartbeat. From the start of its worker on, in every state that the steps of the worker,
  the timer thread, events posted, timers started, intervals set and a beginning close lead to, in any order, a
  timer of the monitor is running, or the timer thread is about to post its event, or a timer event is waiting in its
  queue, or the worker is between taking a timer event and starting its timer (or has yet to start the first): as long as
  nobody calls \<^verbatim>\<open>stop_timer\<close> on the monitor and the timer thread never finds its queue full or shut down. The timers
  stay consistent.
\<close>

theorem icmp_monitor_heartbeat:
  assumes "steps (mon_step ia pid me) s evs s'" "mon_inv s" "sys_phase s = Begin"
    "Posted True \<notin> set evs" "\<forall>w. Stopped w \<notin> set evs"
  shows "mon_inv s' \<and> (armed me (sys_timer s') \<or> posts_for me (sys_flight s') \<noteq> [] \<or> pending me s' \<or>
    sys_phase s' \<in> {Begin, Handling, Rearming})"
proof -
  have "beating me s" using assms(3) by (simp add: beating_def)
  with assms(1,2,4,5) have "mon_inv s' \<and> beating me s'"
  proof (induction rule: steps.induct)
    case (steps_cons s e s' es s'')
    then have "mon_inv s'" "beating me s'"
      using mon_step_inv [of ia pid me s e s'] mon_step_beating [of ia pid me s e s'] by auto
    then show ?case using steps_cons by simp
  qed simp
  then show ?thesis by (simp add: beating_def)
qed

definition example_monitor :: mon_sys where
  "example_monitor = \<lparr>sys_timer = mk_global_timer, sys_queues = (\<lambda>_. mk_qthread),
     sys_mon = mk_icmp_monitor, sys_phase = Begin, sys_flight = []\<rparr>"

lemma example_monitor_ok: "mon_inv example_monitor" "sys_phase example_monitor = Begin"
  using gt_inv_init by (simp_all add: mon_inv_def example_monitor_def mk_qthread_def mk_qthread_n_def mk_queue_inv
    DEF_EVENT_QUEUE_LENGTH_def in_int32_def)

theorem icmp_monitor_heartbeat_witness:
  "\<exists>s'. steps (mon_step (\<lambda>_. 0) 42 1) example_monitor [Began, Tested False] s' \<and> sys_phase s' = Waiting \<and>
     sys_flight s' = [] \<and> (armed 1 (sys_timer s') \<or> pending 1 s')"
proof -
  let ?s = "example_monitor\<lparr>sys_timer := mon_rearm t0 1 mk_icmp_monitor mk_global_timer, sys_phase := Looping\<rparr>"
  have 1: "mon_step (\<lambda>_. 0) 42 1 example_monitor Began ?s"
    using mon_begin [of example_monitor "\<lambda>_. 0" 42 1 t0] by (simp add: example_monitor_def)
  have 2: "mon_step (\<lambda>_. 0) 42 1 ?s (Tested False) (?s\<lparr>sys_phase := Waiting\<rparr>)"
    using mon_test [of ?s False 1 "\<lambda>_. 0" 42]
    by (simp add: example_monitor_def mk_qthread_def mk_qthread_n_def mk_thread_def do_exit_def)
  have st: "steps (mon_step (\<lambda>_. 0) 42 1) example_monitor [Began, Tested False] (?s\<lparr>sys_phase := Waiting\<rparr>)"
    by (rule steps_cons, rule 1, rule steps_cons, rule 2, rule steps_nil)
  show ?thesis using icmp_monitor_heartbeat [OF st example_monitor_ok] st
    by (intro exI [of _ "?s\<lparr>sys_phase := Waiting\<rparr>"]) (simp add: example_monitor_def)
qed

text \<open>
  With no timer of the monitor running, no timer event on its way or waiting and the worker not handling one, the worker never sends a
  request again, whatever happens, unless someone else starts a timer of the monitor or posts a timer event.
\<close>

lemma stalled_step:
  assumes "mon_step ia pid me s ev s'" "mon_inv s" "\<not> beating me s"
    "\<And>e. ev = Added e \<Longrightarrow> \<not> is_timer_event e" "\<And>w. ev \<noteq> Started w"
  shows "\<not> beating me s' \<and> (\<forall>outs. ev \<noteq> Sent outs)"
  using assms(1)
proof cases
  case (mon_take p q got ph)
  have "events_of (sys_queues s me) = (case got of None \<Rightarrow> [] | Some e \<Rightarrow> [e]) @ events_of q"
    using remove_event [OF mon_take(4)] assms(2) mon_take(5) by (simp add: mon_inv_def)
  then show ?thesis
    using assms(3) mon_take(1-3,6) by (cases got) (auto simp: beating_def pending_def is_timer_event_def)
next
  case (mon_scan ntv posts gt)
  then show ?thesis using assms(2,3) scan_facts(4,5) [OF _ mon_scan(4), of me] by (auto simp: beating_def pending_def mon_inv_def)
next
  case (mon_post p ps qs crowded)
  have sp: "short_post p" "\<And>obj. queue_inv (qt_queue (sys_queues s obj))" using assms(2) mon_post by (simp_all add: mon_inv_def)
  then show ?thesis
    using assms(3) mon_post(1-3) post_facts(2) [OF mon_post(4) sp, of me] by (auto simp: beating_def pending_def split: if_splits)
next
  case (added e ok q)
  then show ?thesis using add_events [OF added(3)] assms(2-4) by (auto simp: beating_def pending_def mon_inv_def)
next
  case (mon_stopped which ok gt)
  then show ?thesis using stop_inv [OF _ mon_stopped(4)] assms(2,3) by (auto simp: beating_def pending_def mon_inv_def)
next
  case (mon_closing q)
  then show ?thesis using close_events [OF mon_closing(3)] assms(2,3) by (auto simp: beating_def pending_def mon_inv_def)
qed (use assms(2,3,5) in \<open>auto simp: beating_def pending_def\<close>)

lemma stalled_steps:
  assumes "steps (mon_step ia pid me) s evs s'" "mon_inv s" "\<not> beating me s"
    "\<And>e. Added e \<in> set evs \<Longrightarrow> \<not> is_timer_event e" "\<And>w. Started w \<notin> set evs"
  shows "\<not> beating me s' \<and> (\<forall>outs. Sent outs \<notin> set evs)"
  using assms
proof (induction rule: steps.induct)
  case (steps_cons s ev s' es s'')
  have "\<not> beating me s' \<and> (\<forall>outs. ev \<noteq> Sent outs)"
    using stalled_step [OF steps_cons.hyps(1) steps_cons.prems(1,2)] steps_cons.prems(3,4) by force
  then show ?case
    using steps_cons.IH steps_cons.prems mon_step_inv [OF steps_cons.hyps(1)] by auto
qed simp

text \<open>
  One refused event stops the monitor for good. If the timer thread finds the monitor's queue full of other events when it
  posts the event of the monitor's only timer, it drops it, and from then on, however the worker, the timer thread and other
  threads go on, the worker never sends a request again, unless someone else starts a timer of the monitor or posts a
  timer event.
\<close>

theorem icmp_monitor_stalls:
  assumes "mon_inv s" "sys_flight s = [p]" "fst p = me" "room (sys_queues s me) = 0"
    "\<not> armed me (sys_timer s)" "\<not> pending me s" "sys_phase s = Waiting"
  shows "\<exists>s1. mon_step ia pid me s (Posted True) s1 \<and>
    (\<forall>evs s'. steps (mon_step ia pid me) s1 evs s' \<longrightarrow> (\<forall>e. Added e \<in> set evs \<longrightarrow> \<not> is_timer_event e) \<longrightarrow>
       (\<forall>w. Started w \<notin> set evs) \<longrightarrow> \<not> beating me s' \<and> (\<forall>outs. Sent outs \<notin> set evs))"
proof -
  obtain ob w t where p: "p = (ob, w, t)" by (cases p)
  have inv: "short_post p" "\<And>obj. queue_inv (qt_queue (sys_queues s obj))" using assms(1,2) by (simp_all add: mon_inv_def)
  obtain qs where qs: "post_event p (sys_queues s) = Inr qs"
    using post_event_cases [of ob w t "sys_queues s"] inv by (auto simp: p)
  have st: "mon_step ia pid me s (Posted True) (s\<lparr>sys_queues := qs, sys_flight := []\<rparr>)"
    using mon_post [OF assms(2) qs refl, of ia pid me] assms(3,4) by simp
  have "\<not> beating me (s\<lparr>sys_queues := qs, sys_flight := []\<rparr>)"
    using post_facts(2) [OF qs inv, of me] assms(4-7) by (simp add: beating_def pending_def)
  then show ?thesis using st mon_step_inv [OF st assms(1)] stalled_steps by blast
qed

definition full_monitor :: mon_sys where
  "full_monitor = example_monitor\<lparr>sys_phase := Waiting, sys_flight := [(1, 0, ''x'')],
     sys_queues := (\<lambda>_. mk_qthread\<lparr>qt_queue := (mk_queue zero_event 1)\<lparr>queue_q := [zero_event]\<rparr>\<rparr>)\<rparr>"

theorem icmp_monitor_stalls_witness:
  "\<exists>s1. mon_step (\<lambda>_. 0) 42 1 full_monitor (Posted True) s1 \<and>
    (\<forall>evs s'. steps (mon_step (\<lambda>_. 0) 42 1) s1 evs s' \<longrightarrow> (\<forall>e. Added e \<in> set evs \<longrightarrow> \<not> is_timer_event e) \<longrightarrow>
       (\<forall>w. Started w \<notin> set evs) \<longrightarrow> \<not> beating 1 s' \<and> (\<forall>outs. Sent outs \<notin> set evs))"
proof (rule icmp_monitor_stalls [where p = "(1, 0, ''x'')"])
  show "mon_inv full_monitor" using gt_inv_init
    by (simp add: full_monitor_def example_monitor_def mon_inv_def queue_inv_def mk_queue_def in_int32_def short_post_def)
qed (simp_all add: full_monitor_def example_monitor_def mk_queue_def events_of_def pending_def is_timer_event_def
        zero_event_def CI_TIMER_DONE_def room_def armed_def gt_lookup_def gt_entry_def mk_global_timer_def)

section \<open>Descriptors of the managers\<close>

definition sock_fds :: "raw_sock option \<Rightarrow> int set" where
  "sock_fds p = (case p of None \<Rightarrow> {} | Some s \<Rightarrow> if sk_fd s = INVALID_SOCKET then {} else {sk_fd s})"

definition manager_fds :: "icmp_manager \<Rightarrow> int set" where
  "manager_fds m = sock_fds (im_sock m) \<union> sock_fds (im_recv_sock m)"

lemma reset_sock_fds: "k_fds (reset_sock p k) = k_fds k - sock_fds p"
  by (auto simp: reset_sock_def sock_fds_def sock_close_def k_close_def Let_def split: option.splits)

lemma destroy_manager_fds: "k_fds (destroy_manager m k) = k_fds k - manager_fds m"
  by (auto simp: destroy_manager_def manager_fds_def reset_sock_fds)

definition fresh_answers :: "open_answers \<Rightarrow> kernel \<Rightarrow> bool" where
  "fresh_answers a k \<longleftrightarrow> oa_fd a \<notin> k_fds k \<and> oa_recv_fd a \<notin> k_fds k \<and> INVALID_SOCKET \<notin> k_fds k \<and>
     (oa_fd a = oa_recv_fd a \<longrightarrow> oa_fd a = INVALID_SOCKET)"

lemma raw_open_fds:
  assumes "raw_open fd reuse known ty s k = (r, s', k')" "sk_fd s = INVALID_SOCKET" "fd \<notin> k_fds k"
  shows "k_fds k' = k_fds k \<union> sock_fds (Some s')" "sk_fd s' = INVALID_SOCKET \<or> sk_fd s' = fd"
    "(\<exists>v. r = Inr v) \<Longrightarrow> fd \<noteq> INVALID_SOCKET \<and> sk_fd s' = fd"
  using assms by (auto simp: raw_open_def create_socket_def sock_fds_def k_close_def Let_def split: if_splits)

lemma raw_bind_fds: "raw_bind ia ok b s k = (r, k') \<Longrightarrow> k_fds k' = k_fds k"
  by (auto simp: raw_bind_def bind_port_def Let_def split: if_splits)

text \<open>
  Whatever the system answers, opening a new manager leaks no descriptor: the ones it left open are those
  its two sockets hold, and destroying it closes them.
\<close>

lemma icmp_open_fds:
  assumes "icmp_open ia a addr prio bnd mk_icmp_manager k = Inr (m, k')" "fresh_answers a k"
  shows "k_fds k' = k_fds k \<union> manager_fds m \<and> k_fds k \<inter> manager_fds m = {} \<and> k_fds (destroy_manager m k') = k_fds k"
proof -
  obtain r1 s1 k1 where o1: "raw_open (oa_fd a) (oa_reuse a) (oa_proto a) PROTO_RAW mk_raw_sock k = (r1, s1, k1)" by (metis prod_cases3)
  obtain r2 s2 k2 where o2: "raw_open (oa_recv_fd a) (oa_recv_reuse a) (oa_proto a) PROTO_ICMP mk_raw_sock k1 = (r2, s2, k2)"
    by (metis prod_cases3)
  have inv: "sk_fd mk_raw_sock = INVALID_SOCKET" by (simp add: mk_raw_sock_def)
  note f1 = raw_open_fds [OF o1 inv]
  have f: "oa_fd a \<notin> k_fds k" "oa_recv_fd a \<notin> k_fds k" "INVALID_SOCKET \<notin> k_fds k"
    "oa_fd a = oa_recv_fd a \<Longrightarrow> oa_fd a = INVALID_SOCKET" using assms(2) by (auto simp: fresh_answers_def)
  have m: "im_sock mk_icmp_manager = Some mk_raw_sock" "im_recv_sock mk_icmp_manager = Some mk_raw_sock"
    by (simp_all add: mk_icmp_manager_def)
  show ?thesis
  proof (cases r1)
    case (Inl e)
    then have "m = (mk_icmp_manager\<lparr>im_addr := (case addr of Some p \<Rightarrow> p | None \<Rightarrow> []), im_priority := prio, im_sock := None, im_recv_sock := None\<rparr>)"
      "k' = reset_sock (Some mk_raw_sock) (reset_sock (Some s1) k1)"
      using assms(1) o1 by (auto simp: icmp_open_def m Let_def)
    then show ?thesis using f1(1,2) f inv
      by (auto simp: manager_fds_def sock_fds_def reset_sock_fds destroy_manager_fds)
  next
    case (Inr v)
    then have s1: "oa_fd a \<noteq> INVALID_SOCKET" "sk_fd s1 = oa_fd a" "k_fds k1 = insert (oa_fd a) (k_fds k)"
      using f1 f by (auto simp: sock_fds_def)
    have "oa_recv_fd a \<notin> k_fds k1" using s1 f by auto
    note f2 = raw_open_fds [OF o2 inv this]
    show ?thesis
    proof (cases r2)
      case (Inl e)
      then have "manager_fds m = {}" "k' = reset_sock (Some s2) (reset_sock (Some s1) k2)"
        using assms(1) o1 o2 Inr by (auto simp: icmp_open_def m Let_def manager_fds_def sock_fds_def)
      then show ?thesis using f2(1,2) s1 f by (auto simp: sock_fds_def reset_sock_fds destroy_manager_fds)
    next
      case Inr2: (Inr v2)
      have s2: "oa_recv_fd a \<noteq> INVALID_SOCKET" "sk_fd s2 = oa_recv_fd a" "k_fds k2 = insert (oa_recv_fd a) (k_fds k1)"
        using f2 Inr2 by (auto simp: sock_fds_def)
      show ?thesis
      proof (cases bnd)
        case None
        then have "manager_fds m = {oa_fd a, oa_recv_fd a}" "k' = k2"
          using assms(1) o1 o2 Inr Inr2 s1 s2 by (auto simp: icmp_open_def m Let_def manager_fds_def sock_fds_def)
        then show ?thesis using s1 s2 f by (auto simp: destroy_manager_fds)
      next
        case (Some b)
        obtain bd k3 where bd: "raw_bind ia (oa_bind a) b s2 k2 = (bd, k3)" by fastforce
        then have "k_fds k3 = k_fds k2" by (rule raw_bind_fds)
        moreover have "manager_fds m = (if bd then {oa_fd a, oa_recv_fd a} else {oa_fd a})"
          "k' = (if bd then k3 else reset_sock (Some s2) k3)"
          using assms(1) o1 o2 Inr Inr2 s1 s2 Some bd by (auto simp: icmp_open_def m Let_def manager_fds_def sock_fds_def split: if_splits)
        ultimately show ?thesis using s1 s2 f by (auto simp: destroy_manager_fds reset_sock_fds sock_fds_def)
      qed
    qed
  qed
qed

text \<open>The text of an address with nothing but separators has no first field: \<^verbatim>\<open>info[0]\<close> is out of range.\<close>

lemma add_manager_no_address: "set pszAddr \<subseteq> {CHR '':''} \<Longrightarrow> add_manager ia pid a pszAddr mon k = Ret (Inl (UB ''index out of range''))"
proof -
  assume sub: "set pszAddr \<subseteq> {CHR '':''}"
  have "tokens '':'' pszAddr = []" using sub by (induction pszAddr) auto
  then show ?thesis by (simp add: add_manager_def tokenize_def)
qed

text \<open>Removing a manager takes its entry, and only it.\<close>

lemma map_of_erase: "map_of (filter (\<lambda>(n, _). n \<noteq> name) ms) = (map_of ms)(name := None)"
  by (induction ms) (auto simp: fun_eq_iff)

lemma remove_manager_spec:
  "remove_manager name mon k = (ok, mon', k') \<Longrightarrow>
   ok = (map_of (mon_managers mon) name \<noteq> None) \<and> map_of (mon_managers mon') = (map_of (mon_managers mon))(name := None)"
  by (cases "map_of (mon_managers mon) name") (auto simp: remove_manager_def map_of_erase fun_upd_idem)

end
