(* ===== verification/Timer_Lifetime.thy ===== *)
theory Timer_Lifetime
  imports Icmp_Monitor
begin

text \<open>
  Timers and the lives of the objects they belong to. \<^verbatim>\<open>GlobalTimer\<close> keeps plain \<^verbatim>\<open>QThread*\<close> pointers: a due timer of an
  object that is gone calls \<^verbatim>\<open>add_event\<close> on freed memory. \<open>live\<close> are the objects that exist. The theory shows what
  protects against that, stopping the timers before the destructor ends, and that \<^verbatim>\<open>~IcmpMonitor\<close> does not do it.
\<close>

section \<open>Rounds over live objects\<close>

definition round_live ::
  "timeval \<Rightarrow> obj_id set \<Rightarrow> global_timer \<times> (obj_id \<Rightarrow> qthread) \<Rightarrow> fault + global_timer \<times> (obj_id \<Rightarrow> qthread)" where
  "round_live ntv live = (\<lambda>(gt, qs).
     case gt_pass ntv gt of
       Inl f \<Rightarrow> Inl f
     | Inr (posts, gt') \<Rightarrow>
         if list_ex (\<lambda>p. fst p \<notin> live) posts then Inl (UB ''add_event on a destroyed object'') else timer_round ntv (gt, qs))"

lemma round_posts:
  assumes "gt_inv gt" "gt_pass ntv gt = Inr (posts, gt')" "p \<in> set posts"
  shows "armed (fst p) gt"
proof -
  obtain a where a: "a \<in> set (gt_list gt)" "p = timer_event ntv gt a"
    using timer_pass_fires_due [OF assms(1), of ntv] assms(2,3) by auto
  then obtain sp where sp: "gt_heap gt a = Some sp" using assms(1) by (auto simp: gt_inv_def)
  then have "gt_lookup gt (sp_obj sp) (uint (sp_nWhich sp)) = Some a" using assms(1) by (auto simp: gt_inv_def)
  then show ?thesis using a(2) sp by (auto simp: armed_def timer_event_def timer_post_def)
qed

lemma round_live_ok:
  assumes "gt_inv gt" "\<And>ob. armed ob gt \<Longrightarrow> ob \<in> live"
  shows "round_live ntv live (gt, qs) = timer_round ntv (gt, qs)"
proof -
  obtain posts gt' where p: "gt_pass ntv gt = Inr (posts, gt')" using timer_pass_fires_due [OF assms(1), of ntv] by auto
  then have "\<not> list_ex (\<lambda>p. fst p \<notin> live) posts" using round_posts [OF assms(1) p] assms(2) by (auto simp: list_ex_iff)
  then show ?thesis using p by (simp add: round_live_def)
qed

section \<open>Lives\<close>

text \<open>
  What a program does with objects and timers: it creates and destroys objects, starts and stops timers, posts to the queues
  and takes from them, while the timer thread makes its rounds. Nothing keeps an object with a timer from being destroyed.
\<close>

datatype life_event =
  Born obj_id | TimerOn obj_id int | TimerOff obj_id int | Round timeval | QueueUsed obj_id | Died obj_id

inductive life_step ::
  "obj_id set \<times> global_timer \<times> (obj_id \<Rightarrow> qthread) \<Rightarrow> life_event \<Rightarrow> obj_id set \<times> global_timer \<times> (obj_id \<Rightarrow> qthread) \<Rightarrow> bool" where
  life_born: "ob \<notin> live \<Longrightarrow> in_int32 n \<Longrightarrow>
    life_step (live, gt, qs) (Born ob) (insert ob live, gt, qs(ob := mk_qthread_n n))"
| life_on: "ob \<in> live \<Longrightarrow> start_timer now ob msecs w gt = (r, gt') \<Longrightarrow>
    life_step (live, gt, qs) (TimerOn ob w) (live, gt', qs)"
| life_off: "stop_timer ob w gt = Inr (r, gt') \<Longrightarrow> life_step (live, gt, qs) (TimerOff ob w) (live, gt', qs)"
| life_round: "round_live ntv live (gt, qs) = Inr (gt', qs') \<Longrightarrow> life_step (live, gt, qs) (Round ntv) (live, gt', qs')"
| life_add: "ob \<in> live \<Longrightarrow> qthread_add e (qs ob) = (r, q) \<Longrightarrow> life_step (live, gt, qs) (QueueUsed ob) (live, gt, qs(ob := q))"
| life_remove: "ob \<in> live \<Longrightarrow> qthread_remove (qs ob) = Ret (p, q) \<Longrightarrow>
    life_step (live, gt, qs) (QueueUsed ob) (live, gt, qs(ob := q))"
| life_died: "ob \<in> live \<Longrightarrow> life_step (live, gt, qs) (Died ob) (live - {ob}, gt, qs)"

text \<open>
  The timers a sequence of calls has started and not stopped since, whether they have fired or not, and the discipline that
  makes the calls safe: the numbers fit a byte, and whoever is destroyed has stopped every timer it has started.
\<close>

fun track :: "life_event \<Rightarrow> (obj_id \<times> int) set \<Rightarrow> (obj_id \<times> int) set" where
  "track (TimerOn ob w) S = insert (ob, w) S"
| "track (TimerOff ob w) S = S - {(ob, w)}"
| "track e S = S"

fun allowed :: "life_event \<Rightarrow> (obj_id \<times> int) set \<Rightarrow> bool" where
  "allowed (TimerOn ob w) S \<longleftrightarrow> 0 \<le> w \<and> w < 256"
| "allowed (Died ob) S \<longleftrightarrow> ob \<notin> fst ` S"
| "allowed e S \<longleftrightarrow> True"

fun disciplined :: "(obj_id \<times> int) set \<Rightarrow> life_event list \<Rightarrow> bool" where
  "disciplined S [] \<longleftrightarrow> True"
| "disciplined S (e # es) \<longleftrightarrow> allowed e S \<and> disciplined (track e S) es"

text \<open>The timers that run are among those started and not stopped, and their objects exist.\<close>

definition life_inv :: "(obj_id \<times> int) set \<Rightarrow> obj_id set \<times> global_timer \<times> (obj_id \<Rightarrow> qthread) \<Rightarrow> bool" where
  "life_inv S = (\<lambda>(live, gt, qs). gt_inv gt \<and> (\<forall>obj. queue_inv (qt_queue (qs obj))) \<and>
     (\<forall>ob w. gt_lookup gt ob w \<noteq> None \<longrightarrow> (ob, w) \<in> S) \<and> fst ` S \<subseteq> live)"

lemma life_inv_armed: "life_inv S (live, gt, qs) \<Longrightarrow> armed ob gt \<Longrightarrow> ob \<in> live"
  by (force simp: life_inv_def armed_def)

lemma lookup_start:
  assumes "gt_inv gt" "0 \<le> w" "w < 256" "start_timer now ob msecs w gt = (r, gt')"
  shows "gt_inv gt' \<and> (gt_lookup gt' o' w' \<noteq> None \<longrightarrow> (o', w') = (ob, w) \<or> gt_lookup gt o' w' \<noteq> None)"
proof -
  have "gt_inv gt'" using AddElement_spec [OF assms(1-3), of now ob msecs] assms(4) by (simp add: start_timer_def)
  moreover have "gt_lookup gt' o' w' = gt_lookup gt o' w'" if "(o', w') \<noteq> (ob, w)"
    using assms(4) that by (auto simp: start_timer_def AddElement_def gt_lookup_def gt_entry_def Let_def split: if_splits)
  ultimately show ?thesis by metis
qed

lemma lookup_stop:
  assumes "gt_inv gt" "stop_timer ob w gt = Inr (r, gt')"
  shows "gt_inv gt' \<and> (gt_lookup gt' o' w' \<noteq> None \<longrightarrow> (o', w') \<noteq> (ob, w) \<and> gt_lookup gt o' w' \<noteq> None)"
  using RemoveElement_spec [OF assms(1), of ob w] assms(2) by (auto simp: stop_timer_def split: if_splits)

lemma lookup_round:
  assumes "gt_inv gt" "\<And>obj. queue_inv (qt_queue (qs obj))" "timer_round ntv (gt, qs) = Inr (gt', qs')"
  shows "gt_inv gt' \<and> queue_inv (qt_queue (qs' obj)) \<and> (gt_lookup gt' o' w \<noteq> None \<longrightarrow> gt_lookup gt o' w \<noteq> None)"
proof -
  have r: "gt_inv gt'" "\<And>p. gt_heap gt' p = (if is_expired ntv gt p then None else gt_heap gt p)"
      "\<And>obj. queue_inv (qt_queue (qs' obj))"
  proof -
    from timer_round_spec [of gt qs ntv, OF assms(1,2)] obtain g q where
      t: "timer_round ntv (gt, qs) = Inr (g, q)" "gt_inv g" "\<forall>p. gt_heap g p = (if is_expired ntv gt p then None else gt_heap gt p)"
        "\<forall>obj. received (posts_for obj (map (timer_event ntv gt) (filter (is_expired ntv gt) (gt_list gt)))) (qs obj) (q obj)"
      by blast
    have "g = gt'" "q = qs'" using t(1) assms(3) by simp_all
    then show "gt_inv gt'" "\<And>p. gt_heap gt' p = (if is_expired ntv gt p then None else gt_heap gt p)"
      "\<And>obj. queue_inv (qt_queue (qs' obj))"
      using t(2-4) unfolding received_def by simp_all
  qed
  have "gt_lookup gt o' w = Some p" if g: "gt_lookup gt' o' w = Some p" for p
  proof -
    obtain sp where "gt_heap gt' p = Some sp" "sp_obj sp = o'" "uint (sp_nWhich sp) = w"
      using r(1) g unfolding gt_inv_def by blast
    moreover have "gt_heap gt p = Some sp" using r(2) [of p] \<open>gt_heap gt' p = Some sp\<close> by (simp split: if_splits)
    ultimately show ?thesis using assms(1) unfolding gt_inv_def by blast
  qed
  then show ?thesis using r(1,3) by auto
qed

lemma life_step_inv:
  assumes "life_step s e s'" "life_inv S s" "allowed e S"
  shows "life_inv (track e S) s'"
  using assms(1)
proof cases
  case (life_born ob live n gt qs)
  then show ?thesis using assms(2) by (auto simp: life_inv_def mk_qthread_n_def mk_queue_inv)
next
  case (life_on ob live now msecs w gt r gt' qs)
  then have "gt_inv gt" "0 \<le> w" "w < 256" using assms(2,3) by (simp_all add: life_inv_def)
  note l = lookup_start [OF this life_on(5)]
  have "fst ` S \<subseteq> live" "\<And>obj. queue_inv (qt_queue (qs obj))" "\<And>ob w. gt_lookup gt ob w \<noteq> None \<Longrightarrow> (ob, w) \<in> S"
    using assms(2) life_on(1) by (simp_all add: life_inv_def)
  moreover have "(o', w') \<in> insert (ob, w) S" if "gt_lookup gt' o' w' \<noteq> None" for o' w'
    using l [of o' w'] that calculation(3) [of o' w'] by auto
  ultimately show ?thesis using life_on(1-4) l unfolding life_inv_def by simp
next
  case (life_off ob w gt r gt' live qs)
  then have "gt_inv gt" using assms(2) by (simp add: life_inv_def)
  note l = lookup_stop [OF this life_off(4)]
  have "fst ` S \<subseteq> live" "\<And>obj. queue_inv (qt_queue (qs obj))" "\<And>ob w. gt_lookup gt ob w \<noteq> None \<Longrightarrow> (ob, w) \<in> S"
    using assms(2) life_off(1) by (simp_all add: life_inv_def)
  moreover have "(o', w') \<in> S - {(ob, w)}" if "gt_lookup gt' o' w' \<noteq> None" for o' w'
    using l [of o' w'] that calculation(3) [of o' w'] by auto
  ultimately show ?thesis using life_off(1-3) l unfolding life_inv_def by auto
next
  case (life_round ntv live gt qs gt' qs')
  have i: "gt_inv gt" "\<And>obj. queue_inv (qt_queue (qs obj))" "\<And>ob. armed ob gt \<Longrightarrow> ob \<in> live"
    using assms(2) life_round(1) life_inv_armed [of S live gt qs] by (auto simp: life_inv_def)
  have "timer_round ntv (gt, qs) = Inr (gt', qs')" using life_round(4) round_live_ok [OF i(1,3), of ntv qs] by simp
  note l = lookup_round [OF i(1,2) this]
  show ?thesis using assms(2) life_round(1-3) l by (simp add: life_inv_def)
next
  case (life_add ob live ev qs r q gt)
  then show ?thesis using assms(2) add_events [OF life_add(5)] by (simp add: life_inv_def)
next
  case (life_remove ob live qs p q gt)
  then show ?thesis using assms(2) remove_event [OF life_remove(5)] by (simp add: life_inv_def)
next
  case (life_died ob live gt qs)
  then show ?thesis using assms(2,3) by (auto simp: life_inv_def)
qed

lemma life_steps_inv:
  "steps life_step s es s' \<Longrightarrow> life_inv S s \<Longrightarrow> disciplined S es \<Longrightarrow> life_inv (fold track es S) s'"
proof (induction arbitrary: S rule: steps.induct)
  case (steps_cons s e s' es s'')
  then have "life_inv (track e S) s'" using life_step_inv [OF steps_cons(1)] by simp
  then show ?case using steps_cons.IH steps_cons.prems(2) by simp
qed simp

section \<open>The destructor of IcmpMonitor\<close>

text \<open>
  \<^verbatim>\<open>~IcmpMonitor\<close> clears its callbacks and stops its thread, whose worker has then been joined; after its body the
  members are destroyed, the managers among them. \<^verbatim>\<open>GlobalTimer\<close> is not told.
\<close>

definition destroy_monitor :: "obj_id \<Rightarrow> icmp_monitor \<Rightarrow> obj_id set \<Rightarrow> kernel \<Rightarrow> obj_id set \<times> kernel" where
  "destroy_monitor me mon live k = (live - {me}, fold (\<lambda>(n, m). destroy_manager m) (mon_managers mon) k)"

lemma destroy_managers_fds:
  "k_fds (fold (\<lambda>(n, m). destroy_manager m) ms k) = k_fds k - (\<Union>(n, m)\<in>set ms. manager_fds m)"
  by (induction ms arbitrary: k) (auto simp: destroy_manager_def reset_sock_fds manager_fds_def)

lemma destroy_monitor_releases:
  "k_fds (snd (destroy_monitor me mon live k)) = k_fds k - (\<Union>(n, m)\<in>set (mon_managers mon). manager_fds m)"
  by (simp add: destroy_monitor_def destroy_managers_fds)

text \<open>A timer that is running is due at some time.\<close>

lemma some_time_expired: "\<exists>ntv. expired ntv sp"
proof -
  have "expired \<lparr>tv_sec = tv_sec (sp_tv sp) - (\<bar>sp_nTerm sp\<bar> + 1), tv_usec = tv_usec (sp_tv sp)\<rparr> sp"
    by (simp add: expired_def DIFFTIME_def cdiv_def)
  then show ?thesis by blast
qed

lemma round_hits_dead:
  assumes "gt_inv gt" "armed me gt" "me \<notin> live"
  shows "\<exists>ntv. round_live ntv live (gt, qs) = Inl (UB ''add_event on a destroyed object'')"
proof -
  obtain w p where "gt_lookup gt me w = Some p" using assms(2) by (auto simp: armed_def)
  then obtain sp where sp: "gt_heap gt p = Some sp" "sp_obj sp = me" using assms(1) unfolding gt_inv_def by blast
  obtain ntv where e: "expired ntv sp" using some_time_expired by blast
  obtain posts gt' where ps: "gt_pass ntv gt = Inr (posts, gt')"
      "posts = map (timer_event ntv gt) (filter (is_expired ntv gt) (gt_list gt))"
    using timer_pass_fires_due [OF assms(1), of ntv] by auto
  have "p \<in> set (gt_list gt)" using assms(1) sp(1) by (auto simp: gt_inv_def)
  then have "timer_event ntv gt p \<in> set posts" using ps(2) sp(1) e by (auto simp: is_expired_def)
  moreover have "fst (timer_event ntv gt p) = me" using sp by (simp add: timer_event_def timer_post_def)
  ultimately have "list_ex (\<lambda>p. fst p \<notin> live) posts" using assms(3) by (auto simp: list_ex_iff)
  then show ?thesis using ps(1) by (intro exI [of _ ntv]) (simp add: round_live_def)
qed

text \<open>
  Destroying a monitor whose worker has ended leaves its timer behind whenever no event is on its way or waits
  (\<open>beating\<close>), and a later round uses the destroyed object.
\<close>

lemma monitor_destructor_leaves_timer:
  assumes "mon_inv s" "beating me s" "\<not> pending me s" "sys_flight s = []" "sys_phase s = Ended"
  shows "\<exists>ntv. round_live ntv (fst (destroy_monitor me (sys_mon s) live k)) (sys_timer s, sys_queues s) =
    Inl (UB ''add_event on a destroyed object'')"
  using assms by (intro round_hits_dead) (auto simp: mon_inv_def beating_def destroy_monitor_def)

section \<open>Properties\<close>

text \<open>
  C26: no timer reaches a destroyed object. However objects are created, start and stop timers, post and take events
  and are destroyed, as long as the timer numbers are between 0 and 255 and an object that is destroyed has called
  \<^verbatim>\<open>stop_timer\<close> for every number it has called \<^verbatim>\<open>start_timer\<close> for since: every running timer was started and not stopped and belongs to an
  object that exists, a round of the timer thread, at any time, does not fault, and neither does a \<^verbatim>\<open>stop_timer\<close>.
\<close>

theorem timers_hit_live_objects:
  assumes "steps life_step ({}, mk_global_timer, \<lambda>_. mk_qthread) es (live, gt, qs)" "disciplined {} es"
  shows "(\<forall>ob w. gt_lookup gt ob w \<noteq> None \<longrightarrow> ob \<in> live \<and> (ob, w) \<in> fold track es {}) \<and>
    (\<forall>ntv. \<exists>gt' qs'. round_live ntv live (gt, qs) = Inr (gt', qs')) \<and> (\<forall>ob w. \<exists>r gt'. stop_timer ob w gt = Inr (r, gt'))"
proof -
  have "life_inv {} ({}, mk_global_timer, \<lambda>_. mk_qthread)"
    using gt_inv_init by (simp add: life_inv_def gt_lookup_def gt_entry_def mk_global_timer_def mk_qthread_def
      mk_qthread_n_def mk_queue_inv DEF_EVENT_QUEUE_LENGTH_def in_int32_def)
  from life_steps_inv [OF assms(1) this assms(2)] have l: "life_inv (fold track es {}) (live, gt, qs)" .
  then have i: "gt_inv gt" "\<And>obj. queue_inv (qt_queue (qs obj))" "\<And>ob. armed ob gt \<Longrightarrow> ob \<in> live"
    using life_inv_armed by (auto simp: life_inv_def)
  have "\<exists>gt' qs'. round_live ntv live (gt, qs) = Inr (gt', qs')" for ntv
    using round_live_ok [OF i(1,3), of ntv qs] timer_round_spec [of gt qs ntv, OF i(1,2)] by auto
  moreover have "\<exists>r gt'. stop_timer ob w gt = Inr (r, gt')" for ob w
    using RemoveElement_spec [OF i(1), of ob w] by (auto simp: stop_timer_def)
  moreover have "ob \<in> live \<and> (ob, w) \<in> fold track es {}" if "gt_lookup gt ob w \<noteq> None" for ob w
    using l i(3) that by (auto simp: life_inv_def armed_def)
  ultimately show ?thesis by blast
qed

theorem timers_hit_live_objects_witness:
  "\<exists>gt gt' qs'. steps life_step ({}, mk_global_timer, \<lambda>_. mk_qthread) [Born 1, TimerOn 1 7] ({1}, gt, (\<lambda>_. mk_qthread)(1 := mk_qthread_n 4)) \<and>
     round_live t1 {1} (gt, (\<lambda>_. mk_qthread)(1 := mk_qthread_n 4)) = Inr (gt', qs')"
proof -
  let ?qs = "(\<lambda>_. mk_qthread)(1 := mk_qthread_n 4)"
  obtain r gt where g: "start_timer t0 1 100 7 mk_global_timer = (r, gt)" by (cases "start_timer t0 1 100 7 mk_global_timer")
  have "life_step ({}, mk_global_timer, \<lambda>_. mk_qthread) (Born 1) ({1}, mk_global_timer, ?qs)"
    by (rule life_born) (simp_all add: in_int32_def)
  moreover have "life_step ({1}, mk_global_timer, ?qs) (TimerOn 1 7) ({1}, gt, ?qs)" by (rule life_on [OF _ g]) simp
  ultimately have s: "steps life_step ({}, mk_global_timer, \<lambda>_. mk_qthread) [Born 1, TimerOn 1 7] ({1}, gt, ?qs)"
    by (blast intro: steps.intros)
  have "disciplined {} [Born 1, TimerOn 1 7]" by simp
  then show ?thesis using timers_hit_live_objects [OF s] s by blast
qed

end
