(* ===== verification/Sock_Classes.thy ===== *)
theory Sock_Classes
  imports Sock
begin

text \<open>
  The class hierarchy of \<^verbatim>\<open>include/sock.hpp\<close>: the virtual methods as a table of functions, the derived classes as
  the table of \<^verbatim>\<open>Socket\<close> with the overridden entries replaced, and a process that creates sockets of any class, calls
  them through base pointers, accepts connections in both ways, reconnects, assigns descriptors and destroys them. Every object has the fields of \<^verbatim>\<open>TcpSocket\<close>;
  the other classes do not touch the additional ones. The answers of the system calls are arguments, as in \<open>Sock\<close>.
\<close>

section \<open>Virtual methods\<close>

record vtable =
  vt_open_path :: "int \<Rightarrow> bool \<Rightarrow> string \<Rightarrow> tcp_sock \<Rightarrow> kernel \<Rightarrow> bool \<times> tcp_sock \<times> kernel"
  vt_open_port :: "(string \<Rightarrow> u32) \<Rightarrow> int \<Rightarrow> bool \<Rightarrow> bool \<Rightarrow> nat \<Rightarrow> string option \<Rightarrow> tcp_sock \<Rightarrow> kernel \<Rightarrow> bool \<times> tcp_sock \<times> kernel"
  vt_close :: "tcp_sock \<Rightarrow> kernel \<Rightarrow> tcp_sock \<times> kernel"
  vt_select :: "int \<Rightarrow> bool \<Rightarrow> tcp_sock \<Rightarrow> int"
  vt_recv :: "(int \<Rightarrow> int \<Rightarrow> int \<Rightarrow> int list) \<Rightarrow> int \<Rightarrow> int \<Rightarrow> tcp_sock \<Rightarrow> int option"
  vt_recv_from :: "(u32 \<Rightarrow> string) \<Rightarrow> (bytes \<times> sock_address) option \<Rightarrow> nat \<Rightarrow> string \<Rightarrow> nat \<Rightarrow> fault + int \<times> bytes \<times> string \<times> nat"
  vt_send :: "(int \<Rightarrow> bytes \<Rightarrow> int \<Rightarrow> int) \<Rightarrow> bytes \<Rightarrow> int \<Rightarrow> tcp_sock \<Rightarrow> int"
  vt_send_to :: "(string \<Rightarrow> u32) \<Rightarrow> (string \<Rightarrow> u32 option) \<Rightarrow> (sock_address \<Rightarrow> int list) \<Rightarrow> int \<Rightarrow> nat \<Rightarrow> string option
    \<Rightarrow> tcp_sock \<Rightarrow> int option"

text \<open>
  \<^verbatim>\<open>Socket\<close>. \<open>krecv\<close> and \<open>ksend\<close> are the system calls on a descriptor, a buffer and flags; \<open>krecv\<close> gives the answers of successive
  calls, of which \<^verbatim>\<open>Socket::recv\<close> makes one.
\<close>

definition sock_open_port ::
  "(string \<Rightarrow> u32) \<Rightarrow> int \<Rightarrow> bool \<Rightarrow> bool \<Rightarrow> nat \<Rightarrow> string option \<Rightarrow> 'a sock_scheme \<Rightarrow> kernel \<Rightarrow> bool \<times> 'a sock_scheme \<times> kernel" where
  "sock_open_port inet_addr fd reuse_ok bind_ok nPort pszAddr s k = (True, s, k)"

definition sock_recv :: "(int \<Rightarrow> int \<Rightarrow> int \<Rightarrow> int list) \<Rightarrow> int \<Rightarrow> int \<Rightarrow> 'a sock_scheme \<Rightarrow> int option" where
  "sock_recv krecv nBufLen nFlags s = (case krecv (sk_fd s) nBufLen nFlags of [] \<Rightarrow> None | n # _ \<Rightarrow> Some n)"

definition sock_send :: "(int \<Rightarrow> bytes \<Rightarrow> int \<Rightarrow> int) \<Rightarrow> bytes \<Rightarrow> int \<Rightarrow> 'a sock_scheme \<Rightarrow> int" where
  "sock_send ksend lpBuf nFlags s = ksend (sk_fd s) lpBuf nFlags"

definition vt_Socket :: vtable where
  "vt_Socket = \<lparr>vt_open_path = sock_open_path, vt_open_port = sock_open_port, vt_close = sock_close, vt_select = sock_select, vt_recv = sock_recv,
     vt_recv_from = sock_recv_from, vt_send = sock_send, vt_send_to = sock_send_to\<rparr>"

text \<open>\<^verbatim>\<open>TcpSocket\<close>, \<^verbatim>\<open>InetUdpSocket\<close> and \<^verbatim>\<open>UnixUdp\<close>: what they override.\<close>

definition tcp_open_path :: "int \<Rightarrow> bool \<Rightarrow> string \<Rightarrow> 'a sock_scheme \<Rightarrow> kernel \<Rightarrow> bool \<times> 'a sock_scheme \<times> kernel" where
  "tcp_open_path fd bind_ok pszPath s k = (False, s, k)"

definition tcp_close :: "'a sock_scheme \<Rightarrow> kernel \<Rightarrow> 'a sock_scheme \<times> kernel" where
  "tcp_close s k = sock_close s k"

definition vt_TcpSocket :: vtable where
  "vt_TcpSocket = vt_Socket\<lparr>vt_open_path := tcp_open_path, vt_open_port := inet_open, vt_close := tcp_close\<rparr>"

definition inet_udp_open_path :: "int \<Rightarrow> bool \<Rightarrow> string \<Rightarrow> 'a sock_scheme \<Rightarrow> kernel \<Rightarrow> bool \<times> 'a sock_scheme \<times> kernel" where
  "inet_udp_open_path fd bind_ok pszPath s k = (False, s, k)"

definition vt_InetUdpSocket :: vtable where
  "vt_InetUdpSocket = vt_Socket\<lparr>vt_open_path := inet_udp_open_path, vt_open_port := inet_udp_open\<rparr>"

definition unix_udp_open_path :: "int \<Rightarrow> bool \<Rightarrow> string \<Rightarrow> 'a sock_scheme \<Rightarrow> kernel \<Rightarrow> bool \<times> 'a sock_scheme \<times> kernel" where
  "unix_udp_open_path fd bind_ok pszPath s k = sock_open_path fd bind_ok pszPath s k"

definition unix_udp_open_port ::
  "(string \<Rightarrow> u32) \<Rightarrow> int \<Rightarrow> bool \<Rightarrow> bool \<Rightarrow> nat \<Rightarrow> string option \<Rightarrow> 'a sock_scheme \<Rightarrow> kernel \<Rightarrow> bool \<times> 'a sock_scheme \<times> kernel" where
  "unix_udp_open_port inet_addr fd reuse_ok bind_ok nPort pszAddr s k = (False, s, k)"

definition unix_udp_recv :: "(int \<Rightarrow> int \<Rightarrow> int \<Rightarrow> int list) \<Rightarrow> int \<Rightarrow> int \<Rightarrow> 'a sock_scheme \<Rightarrow> int option" where
  "unix_udp_recv krecv nBufLen nFlags s = udp_recv_from (krecv (sk_fd s) nBufLen 0) s"

definition unix_udp_recv_from ::
  "(u32 \<Rightarrow> string) \<Rightarrow> (bytes \<times> sock_address) option \<Rightarrow> nat \<Rightarrow> string \<Rightarrow> nat \<Rightarrow> fault + int \<times> bytes \<times> string \<times> nat" where
  "unix_udp_recv_from inet_ntoa datagram nBufLen rAddr rPort = Inr (0, [], rAddr, rPort)"

definition unix_udp_send :: "(int \<Rightarrow> bytes \<Rightarrow> int \<Rightarrow> int) \<Rightarrow> bytes \<Rightarrow> int \<Rightarrow> 'a sock_scheme \<Rightarrow> int" where
  "unix_udp_send ksend lpBuf nFlags s = 0"

definition unix_udp_send_to ::
  "(string \<Rightarrow> u32) \<Rightarrow> (string \<Rightarrow> u32 option) \<Rightarrow> (sock_address \<Rightarrow> int list) \<Rightarrow> int \<Rightarrow> nat \<Rightarrow> string option \<Rightarrow> 'a sock_scheme \<Rightarrow> int option" where
  "unix_udp_send_to inet_addr gethostbyname sendto nBufLen nHostPort host s =
     sock_send_to inet_addr gethostbyname sendto nBufLen nHostPort host s"

text \<open>The overload of \<^verbatim>\<open>UnixUdp::send_to\<close> with a path.\<close>

definition unix_udp_send_path ::
  "(string \<Rightarrow> u32) \<Rightarrow> (string \<Rightarrow> u32 option) \<Rightarrow> (sock_address \<Rightarrow> int list) \<Rightarrow> int \<Rightarrow> string option \<Rightarrow> 'a sock_scheme \<Rightarrow> int option" where
  "unix_udp_send_path inet_addr gethostbyname sendto nBuflen pszTo s =
     sock_send_to inet_addr gethostbyname sendto nBuflen 0 pszTo s"

definition vt_UnixUdp :: vtable where
  "vt_UnixUdp = vt_Socket\<lparr>vt_open_path := unix_udp_open_path, vt_open_port := unix_udp_open_port, vt_recv := unix_udp_recv,
     vt_recv_from := unix_udp_recv_from, vt_send := unix_udp_send, vt_send_to := unix_udp_send_to\<rparr>"

datatype sock_class = Socket | TcpSocket | UnixUdp | InetUdpSocket

fun vtable_of :: "sock_class \<Rightarrow> vtable" where
  "vtable_of Socket = vt_Socket"
| "vtable_of TcpSocket = vt_TcpSocket"
| "vtable_of UnixUdp = vt_UnixUdp"
| "vtable_of InetUdpSocket = vt_InetUdpSocket"

text \<open>\<^verbatim>\<open>~Socket\<close> runs after the destructors of the derived classes, so its \<^verbatim>\<open>close()\<close> is \<^verbatim>\<open>Socket::close\<close>.\<close>

definition destroy_sock :: "'a sock_scheme \<Rightarrow> kernel \<Rightarrow> kernel" where
  "destroy_sock s k = snd (sock_close s k)"

definition sock_path :: "'a sock_scheme \<Rightarrow> string option" where
  "sock_path s = (if sk_path s = [] then None else Some (sk_path s))"

definition set_env_params :: "int \<Rightarrow> int \<Rightarrow> tcp_sock \<Rightarrow> tcp_sock" where
  "set_env_params nInterval nRetryCount s = s\<lparr>ts_reconnect_interval := nInterval, ts_reconnect_retry_count := nRetryCount\<rparr>"

text \<open>\<^verbatim>\<open>TcpSocket::listen\<close>; \<open>answer\<close> is that of the system call.\<close>

definition tcp_listen :: "int \<Rightarrow> bool" where
  "tcp_listen answer \<longleftrightarrow> answer \<noteq> -1"

section \<open>What the classes promise\<close>

text \<open>
  The contract of a socket class: an open that succeeds or fails and a close leave the process with the descriptor of
  the object and those of the others, and nothing is open after a close.
\<close>

locale socket_class =
  fixes vt :: vtable
  assumes open_path_keeps: "fd_inv others s k \<Longrightarrow> fresh_fd fd k \<Longrightarrow> vt_open_path vt fd b p s k = (r, s', k') \<Longrightarrow> fd_inv others s' k'"
    and open_port_keeps: "fd_inv others s k \<Longrightarrow> fresh_fd fd k \<Longrightarrow> vt_open_port vt ia fd u b port a s k = (r, s', k') \<Longrightarrow> fd_inv others s' k'"
    and close_keeps: "fd_inv others s k \<Longrightarrow> vt_close vt s k = (s', k') \<Longrightarrow> fd_inv others s' k' \<and> sk_fd s' = INVALID_SOCKET"
begin

lemma close_releases: "fd_inv others s k \<Longrightarrow> k_fds (snd (vt_close vt s k)) = others"
  by (metis close_keeps fd_inv_def prod.collapse)

lemma reopen_keeps:
  assumes "fd_inv others s k" "vt_close vt s k = (s1, k1)" "fresh_fd fd k1" "vt_open_port vt ia fd u b port a s1 k1 = (r, s2, k2)"
  shows "fd_inv others s2 k2"
  using assms close_keeps open_port_keeps by blast

end

lemmas vtable_defs = vt_Socket_def vt_TcpSocket_def vt_UnixUdp_def vt_InetUdpSocket_def

lemma vtable_entries [simp]:
  "vt_open_path vt_Socket = sock_open_path" "vt_open_port vt_Socket = sock_open_port" "vt_close vt_Socket = sock_close"
  "vt_open_path vt_TcpSocket = tcp_open_path" "vt_open_port vt_TcpSocket = inet_open" "vt_close vt_TcpSocket = tcp_close"
  "vt_open_path vt_UnixUdp = unix_udp_open_path" "vt_open_port vt_UnixUdp = unix_udp_open_port" "vt_close vt_UnixUdp = sock_close"
  "vt_open_path vt_InetUdpSocket = inet_udp_open_path" "vt_open_port vt_InetUdpSocket = inet_udp_open" "vt_close vt_InetUdpSocket = sock_close"
  by (simp_all add: vtable_defs)

lemma close_contract: "fd_inv others s k \<Longrightarrow> sock_close s k = (s', k') \<Longrightarrow> fd_inv others s' k' \<and> sk_fd s' = INVALID_SOCKET"
  using fd_inv_close by blast

lemma refused_open_keeps: "fd_inv others s k \<Longrightarrow> (r, s, k) = (r', s', k') \<Longrightarrow> fd_inv others s' k'"
  by simp

interpretation base_class: socket_class vt_Socket
  by (unfold_locales; unfold vtable_entries sock_open_port_def)
    (erule (2) fd_inv_open_path, erule (1) refused_open_keeps, erule (1) close_contract)

interpretation tcp_class: socket_class vt_TcpSocket
  by (unfold_locales; unfold vtable_entries tcp_open_path_def tcp_close_def)
    (erule (1) refused_open_keeps, erule (2) fd_inv_inet_open, erule (1) close_contract)

interpretation unix_class: socket_class vt_UnixUdp
  by (unfold_locales; unfold vtable_entries unix_udp_open_path_def unix_udp_open_port_def)
    (erule (2) fd_inv_open_path, erule (1) refused_open_keeps, erule (1) close_contract)

interpretation inet_class: socket_class vt_InetUdpSocket
  by (unfold_locales; unfold vtable_entries inet_udp_open_path_def)
    (erule (1) refused_open_keeps, erule (2) fd_inv_inet_open, erule (1) close_contract)

lemma vtable_of_class: "socket_class (vtable_of c)"
  by (cases c) (simp_all add: base_class.socket_class_axioms tcp_class.socket_class_axioms
    unix_class.socket_class_axioms inet_class.socket_class_axioms)

section \<open>A process and its sockets\<close>

text \<open>
  Calls that change a socket, with the answers of the system calls they make. \<^verbatim>\<open>prepare_to_server\<close>,
  \<^verbatim>\<open>prepare_to_client\<close> and \<^verbatim>\<open>connect\<close> are methods of \<^verbatim>\<open>TcpSocket\<close> alone.
\<close>

datatype sock_call =
    OpenPath int bool string
  | OpenPort int bool bool nat "string option"
  | ToServer int bool bool int nat "string option"
  | ToClient "u32 \<Rightarrow> u16 \<Rightarrow> attempt" int bool nat "string option" bool
  | Connect "u32 \<Rightarrow> u16 \<Rightarrow> attempt" nat "string option" bool
  | CloseCall

fun call_fd :: "sock_call \<Rightarrow> int" where
  "call_fd (OpenPath fd b p) = fd"
| "call_fd (OpenPort fd u b port a) = fd"
| "call_fd (ToServer fd u b l port a) = fd"
| "call_fd (ToClient net fd u port a blk) = fd"
| "call_fd (Connect net port a blk) = INVALID_SOCKET"
| "call_fd CloseCall = INVALID_SOCKET"

fun has_method :: "sock_class \<Rightarrow> sock_call \<Rightarrow> bool" where
  "has_method c (ToServer fd u b l port a) \<longleftrightarrow> c = TcpSocket"
| "has_method c (ToClient net fd u port a blk) \<longleftrightarrow> c = TcpSocket"
| "has_method c (Connect net port a blk) \<longleftrightarrow> c = TcpSocket"
| "has_method c call \<longleftrightarrow> True"

fun run_call ::
  "(string \<Rightarrow> u32) \<Rightarrow> (string \<Rightarrow> u32 option) \<Rightarrow> sock_class \<Rightarrow> sock_call \<Rightarrow> tcp_sock \<Rightarrow> kernel \<Rightarrow> bool \<times> tcp_sock \<times> kernel" where
  "run_call ia gh c (OpenPath fd b p) s k = vt_open_path (vtable_of c) fd b p s k"
| "run_call ia gh c (OpenPort fd u b port a) s k = vt_open_port (vtable_of c) ia fd u b port a s k"
| "run_call ia gh c (ToServer fd u b l port a) s k = prepare_to_server ia fd u b (tcp_listen l) port a s k"
| "run_call ia gh c (ToClient net fd u port a blk) s k = prepare_to_client ia gh net fd u port a blk s k"
| "run_call ia gh c (Connect net port a blk) s k = tcp_connect ia gh net port a blk s k"
| "run_call ia gh c CloseCall s k = (True, vt_close (vtable_of c) s k)"

text \<open>The object that \<^verbatim>\<open>TcpSocket::accept()\<close> creates, with the fields every object here has.\<close>

definition as_object :: "sock \<Rightarrow> tcp_sock" where
  "as_object a = mk_tcp_sock\<lparr>sk_fd := sk_fd a, sk_path := sk_path a, sk_family := sk_family a\<rparr>"

type_synonym sockets = "nat \<rightharpoonup> sock_class \<times> tcp_sock"

text \<open>The kernel's promise for the rounds of a \<^verbatim>\<open>reconnect\<close>: each descriptor is new when its round asks for it.\<close>

fun rounds_fresh :: "(string \<Rightarrow> u32) \<Rightarrow> (string \<Rightarrow> u32 option) \<Rightarrow> int \<Rightarrow> round list \<Rightarrow> tcp_sock \<Rightarrow> kernel \<Rightarrow> bool" where
  "rounds_fresh ia gh nCount [] s k \<longleftrightarrow> True"
| "rounds_fresh ia gh nCount ((fd, u, net) # later) s k \<longleftrightarrow>
     (let (s0, k0) = sock_close s k;
          (ok, s1, k1) = prepare_to_client ia gh net fd u (ts_port s0) (Some (ts_addr_buf s0)) True s0 k0
      in fresh_fd fd k0 \<and> rounds_fresh ia gh (nCount + 1) later s1 k1)"

text \<open>
  The steps. \<^verbatim>\<open>accept(SOCKADDR*, int*)\<close> stores the new connection in the listening object itself and \<^verbatim>\<open>assign_socket\<close> stores
  whatever it is given, here a descriptor the program has just obtained, or none; both forget the descriptor the object
  had, which their labels record.
\<close>

datatype proc_event =
    Created nat sock_class
  | Called nat sock_call bool
  | Reconnected nat bool
  | Accepted nat nat
  | AcceptFailed nat
  | AcceptedInto nat int
  | Assigned nat int
  | Destroyed nat

inductive proc_step ::
  "(string \<Rightarrow> u32) \<Rightarrow> (string \<Rightarrow> u32 option) \<Rightarrow> sockets \<times> kernel \<Rightarrow> proc_event \<Rightarrow> sockets \<times> kernel \<Rightarrow> bool"
  for ia gh where
  pc_create: "objs i = None \<Longrightarrow> proc_step ia gh (objs, k) (Created i c) (objs(i \<mapsto> (c, mk_tcp_sock)), k)"
| pc_call: "objs i = Some (c, s) \<Longrightarrow> has_method c call \<Longrightarrow> fresh_fd (call_fd call) k \<Longrightarrow>
    run_call ia gh c call s k = (r, s', k') \<Longrightarrow>
    proc_step ia gh (objs, k) (Called i call r) (objs(i \<mapsto> (c, s')), k')"
| pc_reconnect: "objs i = Some (TcpSocket, s) \<Longrightarrow> rounds_fresh ia gh 0 rounds s k \<Longrightarrow>
    reconnect ia gh 0 rounds s k = Some (r, s', k') \<Longrightarrow>
    proc_step ia gh (objs, k) (Reconnected i r) (objs(i \<mapsto> (TcpSocket, s')), k')"
| pc_accept: "objs i = Some (TcpSocket, s) \<Longrightarrow> objs j = None \<Longrightarrow> fresh_fd fd k \<Longrightarrow> accept_new fd s k = (Some a, k') \<Longrightarrow>
    proc_step ia gh (objs, k) (Accepted i j) (objs(j \<mapsto> (Socket, as_object a)), k')"
| pc_accept_fails: "objs i = Some (TcpSocket, s) \<Longrightarrow> accept_new fd s k = (None, k') \<Longrightarrow>
    proc_step ia gh (objs, k) (AcceptFailed i) (objs, k')"
| pc_accept_into: "objs i = Some (TcpSocket, s) \<Longrightarrow> fresh_fd fd k \<Longrightarrow> accept_into fd s k = (True, s', k') \<Longrightarrow>
    proc_step ia gh (objs, k) (AcceptedInto i (sk_fd s)) (objs(i \<mapsto> (TcpSocket, s')), k')"
| pc_accept_into_fails: "objs i = Some (TcpSocket, s) \<Longrightarrow> accept_into fd s k = (False, s', k') \<Longrightarrow>
    proc_step ia gh (objs, k) (AcceptFailed i) (objs(i \<mapsto> (TcpSocket, s')), k')"
| pc_assign: "objs i = Some (c, s) \<Longrightarrow> fresh_fd fd k \<Longrightarrow> assign_socket fd fam s = (r, s') \<Longrightarrow>
    k' = (if fd = INVALID_SOCKET then k else k\<lparr>k_fds := insert fd (k_fds k)\<rparr>) \<Longrightarrow>
    proc_step ia gh (objs, k) (Assigned i (sk_fd s)) (objs(i \<mapsto> (c, s')), k')"
| pc_destroy: "objs i = Some (c, s) \<Longrightarrow> proc_step ia gh (objs, k) (Destroyed i) (objs(i := None), destroy_sock s k)"

text \<open>The descriptors that these two calls leave without an owner.\<close>

fun lost :: "proc_event list \<Rightarrow> int set" where
  "lost [] = {}"
| "lost (AcceptedInto i fd # es) = insert fd (lost es)"
| "lost (Assigned i fd # es) = (if fd = INVALID_SOCKET then lost es else insert fd (lost es))"
| "lost (e # es) = lost es"

definition owned :: "sockets \<Rightarrow> nat \<Rightarrow> int set" where
  "owned objs i = (case objs i of None \<Rightarrow> {} | Some (c, s) \<Rightarrow> if sk_fd s = INVALID_SOCKET then {} else {sk_fd s})"

text \<open>Every descriptor beyond the first ones is owned by exactly one socket object.\<close>

definition proc_inv :: "int set \<Rightarrow> sockets \<times> kernel \<Rightarrow> bool" where
  "proc_inv before = (\<lambda>(objs, k). INVALID_SOCKET \<notin> before \<and> k_fds k = before \<union> (\<Union>i. owned objs i) \<and>
     (\<forall>i. owned objs i \<inter> before = {}) \<and> (\<forall>i j. i \<noteq> j \<longrightarrow> owned objs i \<inter> owned objs j = {}))"

lemma owned_put: "owned (objs(i \<mapsto> (c, s))) j = (if j = i then (if sk_fd s = INVALID_SOCKET then {} else {sk_fd s}) else owned objs j)"
  by (simp add: owned_def)

lemma owned_del: "owned (objs(i := None)) j = (if j = i then {} else owned objs j)"
  by (simp add: owned_def)

lemma owned_valid: "INVALID_SOCKET \<notin> owned objs i"
  by (auto simp: owned_def split: option.splits)

definition rest :: "int set \<Rightarrow> sockets \<Rightarrow> nat \<Rightarrow> int set" where
  "rest before objs i = before \<union> (\<Union>j\<in>- {i}. owned objs j)"

lemma Union_owned: "(\<Union>j. owned objs j) = owned objs i \<union> (\<Union>j\<in>- {i}. owned objs j)"
  by auto

lemma proc_inv_object:
  assumes "proc_inv before (objs, k)" "objs i = Some (c, s)"
  shows "fd_inv (rest before objs i) s k"
proof -
  have o: "owned objs i = (if sk_fd s = INVALID_SOCKET then {} else {sk_fd s})" using assms(2) by (simp add: owned_def)
  have d: "owned objs i \<inter> rest before objs i = {}"
    using assms(1) by (simp add: proc_inv_def rest_def) blast
  have v: "INVALID_SOCKET \<notin> rest before objs i" using assms(1) owned_valid by (auto simp: proc_inv_def rest_def)
  have "k_fds k = owned objs i \<union> rest before objs i"
    using assms(1) Union_owned [of objs i] by (auto simp: proc_inv_def rest_def)
  then show ?thesis using o d v by (auto simp: fd_inv_def)
qed

lemma object_proc_inv:
  assumes "proc_inv before (objs, k)" "fd_inv (rest before objs i) s k'"
  shows "proc_inv before (objs(i \<mapsto> (c, s)), k')"
proof -
  have "(\<Union>j. owned (objs(i \<mapsto> (c, s))) j) = (if sk_fd s = INVALID_SOCKET then {} else {sk_fd s}) \<union> (\<Union>j\<in>- {i}. owned objs j)"
    by (subst Union_owned [of _ i]) (simp add: owned_put)
  then show ?thesis using assms by (auto simp: proc_inv_def fd_inv_def rest_def owned_put)
qed

lemma gone_proc_inv:
  assumes "proc_inv before (objs, k)" "k_fds k' = rest before objs i"
  shows "proc_inv before (objs(i := None), k')"
proof -
  have "(\<Union>j. owned (objs(i := None)) j) = (\<Union>j\<in>- {i}. owned objs j)"
    by (subst Union_owned [of _ i]) (simp add: owned_del)
  then show ?thesis using assms by (auto simp: proc_inv_def rest_def owned_del)
qed

lemma run_call_fd_inv:
  assumes "fd_inv others s k" "fresh_fd (call_fd call) k" "run_call ia gh c call s k = (r, s', k')"
  shows "fd_inv others s' k'"
proof (cases call)
  case (ToServer fd u b l port a)
  then show ?thesis using assms fd_inv_inet_open [of others s k fd ia u b port a]
    by (auto simp: prepare_to_server_def split: prod.splits)
next
  case CloseCall
  then show ?thesis using assms socket_class.close_keeps [OF vtable_of_class, of others s k c s' k'] by simp
qed (use assms in \<open>auto intro: fd_inv_client(1) fd_inv_connect socket_class.open_path_keeps [OF vtable_of_class]
       socket_class.open_port_keeps [OF vtable_of_class]\<close>)

lemma reconnect_fd_inv:
  "reconnect ia gh n rounds s k = Some (r, s', k') \<Longrightarrow> fd_inv others s k \<Longrightarrow> rounds_fresh ia gh n rounds s k \<Longrightarrow> fd_inv others s' k'"
proof (induction rounds arbitrary: n s k)
  case Nil
  then show ?case by (subst (asm) reconnect.simps) (simp split: if_splits)
next
  case (Cons rd later)
  obtain fd u net where rd: "rd = (fd, u, net)" by (cases rd)
  obtain s0 k0 where c: "sock_close s k = (s0, k0)" by force
  obtain ok s1 k1 where p: "prepare_to_client ia gh net fd u (ts_port s0) (Some (ts_addr_buf s0)) True s0 k0 = (ok, s1, k1)"
    using prod_cases3 by blast
  have f: "fresh_fd fd k0" "rounds_fresh ia gh (n + 1) later s1 k1" using Cons.prems(3) by (simp_all add: rd c p)
  have "fd_inv others s0 k0" using fd_inv_close [OF Cons.prems(2) c] by simp
  then have 1: "fd_inv others s1 k1" using fd_inv_client(1) [OF _ f(1) p] by simp
  show ?case using Cons.prems(1,2) 1 Cons.IH [OF _ 1 f(2)]
    by (subst (asm) reconnect.simps) (auto simp: rd c p split: if_splits)
qed

text \<open>The object gets a new descriptor, and the one it had joins those that are nobody's.\<close>

lemma replaced_proc_inv:
  assumes "proc_inv before (objs, k)" "fresh_fd fd k" "sk_fd s' = fd"
    "k_fds k' = (if fd = INVALID_SOCKET then k_fds k else insert fd (k_fds k))"
  shows "proc_inv (before \<union> owned objs i) (objs(i \<mapsto> (c, s')), k') \<and> owned objs i \<inter> before = {}"
proof -
  define new where "new = (if fd = INVALID_SOCKET then {} else {fd})"
  have inv: "k_fds k = before \<union> owned objs i \<union> (\<Union>j\<in>- {i}. owned objs j)" "INVALID_SOCKET \<notin> before"
      "\<And>j. owned objs j \<inter> before = {}" "\<And>j m. j \<noteq> m \<Longrightarrow> owned objs j \<inter> owned objs m = {}"
    using assms(1) Union_owned [of objs i] by (simp_all add: proc_inv_def Un_assoc)
  have own: "owned (objs(i \<mapsto> (c, s'))) j = (if j = i then new else owned objs j)" for j
    using assms(3) by (simp add: owned_put new_def)
  have new: "new \<inter> k_fds k = {}" using assms(2) by (auto simp: fresh_fd_def new_def)
  then have nd: "new \<inter> owned objs j = {}" "owned objs j \<inter> new = {}" "new \<inter> before = {}" for j
    using inv(1) by (cases "j = i"; blast)+
  have "(\<Union>j. owned (objs(i \<mapsto> (c, s'))) j) = new \<union> (\<Union>j\<in>- {i}. owned objs j)"
    by (subst Union_owned [of _ i]) (simp add: own)
  then have "k_fds k' = before \<union> owned objs i \<union> (\<Union>j. owned (objs(i \<mapsto> (c, s'))) j)"
    using assms(4) inv(1) by (auto simp: new_def)
  moreover have "owned (objs(i \<mapsto> (c, s'))) j \<inter> (before \<union> owned objs i) = {}" for j
    using nd inv(3,4) by (simp add: own Int_Un_distrib)
  moreover have "owned (objs(i \<mapsto> (c, s'))) j \<inter> owned (objs(i \<mapsto> (c, s'))) m = {}" if "j \<noteq> m" for j m
    using nd inv(4) that by (simp add: own)
  moreover have "INVALID_SOCKET \<notin> before \<union> owned objs i" using inv(2) owned_valid [of objs i] by simp
  ultimately show ?thesis using inv(3) by (simp only: proc_inv_def prod.case) simp
qed

lemma proc_step_inv:
  assumes "proc_step ia gh x e x'" "proc_inv before x"
  shows "proc_inv (before \<union> lost [e]) x' \<and> lost [e] \<inter> before = {}"
  using assms
proof cases
  case (pc_create objs i k c)
  have "owned objs i = {}" using pc_create by (simp add: owned_def)
  then have "fd_inv (rest before objs i) mk_tcp_sock k"
    using assms(2) pc_create owned_valid [of objs] Union_owned [of objs i]
    by (auto simp: proc_inv_def fd_inv_def rest_def mk_tcp_sock_def)
  then show ?thesis using assms(2) pc_create object_proc_inv by simp
next
  case (pc_call objs i c s call k r s' k')
  then have "proc_inv before (objs, k)" using assms(2) by simp
  then have "fd_inv (rest before objs i) s' k'" using pc_call proc_inv_object run_call_fd_inv by metis
  then show ?thesis using assms(2) pc_call object_proc_inv by simp
next
  case (pc_reconnect objs i s rounds k r s' k')
  then have "fd_inv (rest before objs i) s k" using assms(2) proc_inv_object by simp
  then have "fd_inv (rest before objs i) s' k'" using pc_reconnect reconnect_fd_inv by blast
  then show ?thesis using assms(2) pc_reconnect object_proc_inv by simp
next
  case (pc_accept objs i s j fd k a k')
  have o: "owned objs j = {}" using pc_accept by (simp add: owned_def)
  have k: "fd \<noteq> INVALID_SOCKET" "k' = k\<lparr>k_fds := insert fd (k_fds k)\<rparr>" "sk_fd a = fd"
    using pc_accept by (auto simp: accept_new_def assign_socket_def split: if_splits)
  then have "fd_inv (rest before objs j) (as_object a) k'"
    using assms(2) pc_accept o owned_valid [of objs] Union_owned [of objs j]
    by (auto simp: proc_inv_def fd_inv_def rest_def as_object_def fresh_fd_def)
  then show ?thesis using assms(2) pc_accept object_proc_inv by simp
next
  case (pc_accept_fails objs i s fd k k')
  then show ?thesis using assms(2) by (auto simp: accept_new_def split: if_splits)
next
  case (pc_accept_into objs i s fd k s' k')
  have a: "sk_fd s' = fd" "fd \<noteq> INVALID_SOCKET" "k_fds k' = insert fd (k_fds k)" "sk_fd s \<noteq> INVALID_SOCKET"
    using pc_accept_into by (auto simp: accept_into_def split: if_splits)
  have "owned objs i = {sk_fd s}" using pc_accept_into a(4) by (simp add: owned_def)
  then show ?thesis
    using replaced_proc_inv [of before objs k fd s' k' i TcpSocket] assms(2) pc_accept_into a by simp
next
  case (pc_accept_into_fails objs i s fd k s' k')
  then have "s' = s" "k' = k" by (auto simp: accept_into_def split: if_splits)
  moreover have "fd_inv (rest before objs i) s k" using assms(2) pc_accept_into_fails proc_inv_object by simp
  ultimately show ?thesis using assms(2) pc_accept_into_fails object_proc_inv by simp
next
  case (pc_assign objs i c s fd k fam r s' k')
  have "sk_fd s' = fd" using pc_assign by (auto simp: assign_socket_def)
  moreover have "owned objs i = (if sk_fd s = INVALID_SOCKET then {} else {sk_fd s})" using pc_assign by (simp add: owned_def)
  ultimately show ?thesis
    using replaced_proc_inv [of before objs k fd s' k' i c] assms(2) pc_assign by (auto split: if_splits)
next
  case (pc_destroy objs i c s k)
  obtain s' k' where c: "sock_close s k = (s', k')" by (cases "sock_close s k")
  have "fd_inv (rest before objs i) s k" using proc_inv_object assms(2) pc_destroy by simp
  then have "k_fds k' = rest before objs i" using fd_inv_close c by blast
  then have "k_fds (destroy_sock s k) = rest before objs i" by (simp add: destroy_sock_def c)
  then show ?thesis using assms(2) pc_destroy gone_proc_inv by simp
qed

lemma lost_Cons: "lost (e # es) = lost [e] \<union> lost es"
  by (cases e) auto

lemma proc_steps_inv:
  "steps (proc_step ia gh) x es x' \<Longrightarrow> proc_inv before x \<Longrightarrow> proc_inv (before \<union> lost es) x' \<and> lost es \<inter> before = {}"
proof (induction arbitrary: before rule: steps.induct)
  case (steps_cons x e x' es x'')
  note 1 = proc_step_inv [OF steps_cons(1,4)]
  note 2 = steps_cons.IH [OF conjunct1 [OF 1]]
  show ?case using 1 2 unfolding lost_Cons [of e es] by (auto simp: Un_assoc)
qed simp

section \<open>Properties\<close>

text \<open>
  C12: every descriptor is accounted for. A process creates sockets of all four classes and, one call after the other
  and in any order, through base pointers or not, opens, connects, reconnects, listens, accepts in both ways, assigns new
  descriptors, closes and destroys them, successfully or failing at any system call; the kernel hands out descriptors
  that are not open. Every open descriptor beyond the first ones is then in exactly one object's \<^verbatim>\<open>socket_fd_\<close>, except
  those over which \<^verbatim>\<open>accept(SOCKADDR*, int*)\<close> or \<^verbatim>\<open>assign_socket\<close> stored another: these stay open for good, and nothing else
  is ever left. No two objects hold the same descriptor, and none holds a lost or a first one; when all objects are
  destroyed the process has the descriptors it had at the start and the lost ones.
\<close>

theorem sockets_accounted:
  assumes "steps (proc_step ia gh) (Map.empty, k) es (objs, k')" "INVALID_SOCKET \<notin> k_fds k"
  shows "k_fds k' = k_fds k \<union> lost es \<union> (\<Union>i. owned objs i) \<and> lost es \<inter> k_fds k = {} \<and>
    (\<forall>i. owned objs i \<inter> (k_fds k \<union> lost es) = {}) \<and> (\<forall>i j. i \<noteq> j \<longrightarrow> owned objs i \<inter> owned objs j = {}) \<and>
    (objs = Map.empty \<longrightarrow> k_fds k' = k_fds k \<union> lost es)"
proof -
  have "proc_inv (k_fds k) (Map.empty, k)" using assms(2) by (simp add: proc_inv_def owned_def)
  then have "proc_inv (k_fds k \<union> lost es) (objs, k')" "lost es \<inter> k_fds k = {}" using proc_steps_inv [OF assms(1)] by blast+
  then show ?thesis by (auto simp: proc_inv_def owned_def)
qed

definition demo_kernel :: kernel where
  "demo_kernel = \<lparr>k_fds = {0, 1, 2}, k_nonblock = {}, k_bound = Map.empty, k_files = {}\<rparr>"

text \<open>
  A server socket, an accepted connection, and the end of both, the listener first. The listener accepts a
  second connection into itself before it is destroyed, and loses descriptor 3.
\<close>

lemma demo_run:
  "\<exists>k'. steps (proc_step (\<lambda>_. 1) (\<lambda>_. None)) (Map.empty, demo_kernel)
     [Created 0 TcpSocket, Called 0 (ToServer 3 True True 0 80 None) True, Accepted 0 1, AcceptedInto 0 3, Destroyed 0, Destroyed 1]
     (Map.empty, k')"
proof -
  let ?P = "proc_step (\<lambda>_. 1) (\<lambda>_. None)" and ?call = "ToServer 3 True True 0 80 None"
  obtain r s k1 where s: "run_call (\<lambda>_. 1) (\<lambda>_. None) TcpSocket ?call mk_tcp_sock demo_kernel = (r, s, k1)"
    using prod_cases3 by blast
  then have r: "r" "k_fds k1 = {0, 1, 2, 3}" "sk_fd s = 3"
    by (auto simp: prepare_to_server_def inet_open_def create_socket_def bind_port_def mk_tcp_sock_def demo_kernel_def tcp_listen_def Let_def)
  obtain a k2 where a: "accept_new 4 s k1 = (Some a, k2)" "k_fds k2 = {0, 1, 2, 3, 4}"
    using r(2) by (auto simp: accept_new_def)
  obtain s' k3 where i: "accept_into 5 s k2 = (True, s', k3)" using r(3) by (simp add: accept_into_def)
  let ?o0 = "[0::nat \<mapsto> (TcpSocket, s)]" and ?o1 = "[0::nat \<mapsto> (TcpSocket, s), 1 \<mapsto> (Socket, as_object a)]"
  let ?o2 = "[0::nat \<mapsto> (TcpSocket, s), 1 \<mapsto> (Socket, as_object a), 0 \<mapsto> (TcpSocket, s')]"
  have 1: "?P (Map.empty, demo_kernel) (Created 0 TcpSocket) ([0 \<mapsto> (TcpSocket, mk_tcp_sock)], demo_kernel)"
    by (rule pc_create) simp
  have 2: "?P ([0 \<mapsto> (TcpSocket, mk_tcp_sock)], demo_kernel) (Called 0 ?call True) (?o0, k1)"
    using pc_call [of "[0 \<mapsto> (TcpSocket, mk_tcp_sock)]" 0 TcpSocket mk_tcp_sock ?call demo_kernel _ _ r s k1] s r(1)
    by (simp add: fresh_fd_def demo_kernel_def)
  have 3: "?P (?o0, k1) (Accepted 0 1) (?o1, k2)"
    using pc_accept [of ?o0 0 s 1 4 k1 a k2] a r(2) by (simp add: fresh_fd_def)
  have 4: "?P (?o1, k2) (AcceptedInto 0 3) (?o2, k3)"
    using pc_accept_into [of ?o1 0 s 5 k2 s' k3] i a(2) r(3) by (simp add: fresh_fd_def)
  have 5: "?P (?o2, k3) (Destroyed 0) (?o2(0 := None), destroy_sock s' k3)"
    by (rule pc_destroy [of _ _ TcpSocket]) simp
  have 6: "?P (?o2(0 := None), destroy_sock s' k3) (Destroyed 1) (?o2(0 := None, 1 := None), destroy_sock (as_object a) (destroy_sock s' k3))"
    by (rule pc_destroy [of _ _ Socket]) simp
  have "?o2(0 := None, 1 := None) = Map.empty" by auto
  then have 7: "steps ?P (?o2(0 := None), destroy_sock s' k3) [Destroyed 1] (Map.empty, destroy_sock (as_object a) (destroy_sock s' k3))"
    using 6 by (auto intro: steps.intros)
  show ?thesis
    by (rule exI, rule steps_cons, rule 1, rule steps_cons, rule 2, rule steps_cons, rule 3, rule steps_cons, rule 4,
      rule steps_cons, rule 5, rule 7)
qed

theorem sockets_accounted_witness:
  "\<exists>k'. steps (proc_step (\<lambda>_. 1) (\<lambda>_. None)) (Map.empty, demo_kernel)
     [Created 0 TcpSocket, Called 0 (ToServer 3 True True 0 80 None) True, Accepted 0 1, AcceptedInto 0 3, Destroyed 0, Destroyed 1]
     (Map.empty, k') \<and> k_fds k' = {0, 1, 2, 3}"
proof -
  have "INVALID_SOCKET \<notin> k_fds demo_kernel" by (simp add: demo_kernel_def)
  then show ?thesis using demo_run sockets_accounted by (fastforce simp: demo_kernel_def)
qed

text \<open>
  A successful open through a base pointer gives the object a descriptor in every class but \<^verbatim>\<open>Socket\<close> itself, whose
  \<^verbatim>\<open>open(port)\<close> reports success and opens nothing.
\<close>

lemma create_socket_success: "create_socket fd u fam s k = (True, s', k') \<Longrightarrow> sk_fd s' = fd \<and> fd \<noteq> INVALID_SOCKET"
  by (auto simp: create_socket_def Let_def split: if_splits)

lemma open_path_success: "sock_open_path fd b p s k = (True, s', k') \<Longrightarrow> sk_fd s' = fd \<and> fd \<noteq> INVALID_SOCKET"
  by (auto simp: sock_open_path_def split: prod.splits if_splits dest: create_socket_success)

lemma inet_open_success: "inet_open ia fd u b port a s k = (True, s', k') \<Longrightarrow> sk_fd s' = fd \<and> fd \<noteq> INVALID_SOCKET"
  by (auto simp: inet_open_def split: prod.splits if_splits dest: create_socket_success)

lemma open_success_descriptor:
  "vt_open_path (vtable_of c) fd b p s k = (True, s', k') \<Longrightarrow> sk_fd s' = fd \<and> fd \<noteq> INVALID_SOCKET"
  "vt_open_port (vtable_of c) ia fd u b port a s k = (True, s', k') \<Longrightarrow> c \<noteq> Socket \<Longrightarrow> sk_fd s' = fd \<and> fd \<noteq> INVALID_SOCKET"
  by (cases c; auto simp: tcp_open_path_def unix_udp_open_path_def unix_udp_open_port_def inet_udp_open_path_def
    dest: open_path_success inet_open_success)+

lemma base_open_port_opens_nothing: "vt_open_port (vtable_of Socket) ia fd u b port a s k = (True, s, k)"
  by (simp add: sock_open_port_def)

text \<open>Each class can be opened in one way only, by path or by port, except that of \<^verbatim>\<open>Socket\<close>.\<close>

lemma open_kind_exclusive:
  assumes "vt_open_path (vtable_of c) fd b p s k = (True, s', k')" "vt_open_port (vtable_of c) ia fd2 u b2 port a s2 k2 = (True, s3, k3)"
  shows "c = Socket"
  using assms by (cases c) (auto simp: tcp_open_path_def unix_udp_open_port_def inet_udp_open_path_def)

text \<open>
  Through a base pointer a \<^verbatim>\<open>UnixUdp\<close> sends nothing with \<^verbatim>\<open>send\<close>, receives nothing with the addressed
  \<^verbatim>\<open>recv_from\<close>, and its \<^verbatim>\<open>recv\<close> does not pass the flags on and reports an error as an empty read.
\<close>

lemma unix_udp_send_nothing: "vt_send (vtable_of UnixUdp) ksend buf nFlags s = 0"
  by (simp add: vtable_defs unix_udp_send_def)

lemma unix_udp_recv_from_nothing: "vt_recv_from (vtable_of UnixUdp) ntoa d n addr port = Inr (0, [], addr, port)"
  by (simp add: vtable_defs unix_udp_recv_from_def)

lemma unix_udp_recv_flags: "vt_recv (vtable_of UnixUdp) krecv n flags s = vt_recv (vtable_of UnixUdp) krecv n 0 s"
  by (simp add: vtable_defs unix_udp_recv_def)

lemma unix_udp_recv_error:
  "krecv (sk_fd s) n 0 = [-1] \<Longrightarrow> vt_recv (vtable_of UnixUdp) krecv n flags s = Some 0"
  by (simp add: vtable_defs unix_udp_recv_def udp_recv_from_def RETRY_COUNT_def)

lemma set_env_params_frame: "sk_fd (set_env_params i n s) = sk_fd s" "fd_inv others (set_env_params i n s) k \<longleftrightarrow> fd_inv others s k"
  by (simp_all add: set_env_params_def fd_inv_def)

text \<open>The path of an object is null after the destructor's \<^verbatim>\<open>close\<close>, so it removes its socket file once.\<close>

lemma close_clears_path: "sock_path (fst (sock_close s k)) = None"
  by (simp add: sock_close_def sock_path_def Let_def)

end
