(* ===== verification/Base_Types.thy ===== *)
theory Base_Types
  imports Prelude
begin

text \<open>
  The small headers: the arithmetic helpers of \<^verbatim>\<open>include/types.hpp\<close>, the alarm enumerations of
  \<^verbatim>\<open>include/alarm.hpp\<close>, the template \<^verbatim>\<open>Trace\<close> of \<^verbatim>\<open>include/trace.hpp\<close>, which tells a callback of every write to a
  variable, and \<^verbatim>\<open>Singleton_Destroyer\<close> of \<^verbatim>\<open>include/destroyer.hpp\<close>.
\<close>

section \<open>Helpers of types.hpp\<close>

definition NUMERIC :: "char \<Rightarrow> bool" where
  "NUMERIC c \<longleftrightarrow> of_char c \<ge> (48::nat) \<and> of_char c \<le> (57::nat)"

definition PDK_MIN :: "'a::linorder \<Rightarrow> 'a \<Rightarrow> 'a" where
  "PDK_MIN a b = (if a < b then a else b)"

definition PDK_MAX :: "'a::linorder \<Rightarrow> 'a \<Rightarrow> 'a" where
  "PDK_MAX a b = (if a > b then a else b)"

text \<open>
  \<^verbatim>\<open>PDK_ABS\<close> at \<^verbatim>\<open>int\<close>, where the negation may overflow, and at the narrower \<^verbatim>\<open>PDK8\<close> and \<^verbatim>\<open>PDK16\<close>, whose operand is
  promoted to \<^verbatim>\<open>int\<close> and the result converted back to \<open>w\<close> bits.
\<close>

definition PDK_ABS :: "int \<Rightarrow> fault + int" where
  "PDK_ABS x = (if x \<ge> 0 then Inr x else if in_int32 (- x) then Inr (- x) else Inl (UB ''negation overflows''))"

definition PDK_ABS_narrow :: "nat \<Rightarrow> int \<Rightarrow> int" where
  "PDK_ABS_narrow w x = (if x \<ge> 0 then x else (- x + 2 ^ (w - 1)) mod 2 ^ w - 2 ^ (w - 1))"

lemma PDK_MIN_MAX: "PDK_MIN a b = min a b" "PDK_MAX a b = max a b"
  by (auto simp: PDK_MIN_def PDK_MAX_def min_def max_def)

lemma PDK_ABS_exact:
  assumes "in_int32 x"
  shows "PDK_ABS x = (if x = - (2 ^ 31) then Inl (UB ''negation overflows'') else Inr \<bar>x\<bar>)"
  using assms by (auto simp: PDK_ABS_def in_int32_def)

lemma PDK_ABS_narrow_exact:
  assumes "0 < w" "- (2 ^ (w - 1)) < x" "x < 2 ^ (w - 1)"
  shows "PDK_ABS_narrow w x = \<bar>x\<bar>"
proof -
  have w: "(2::int) ^ w = 2 * 2 ^ (w - 1)" using assms(1) by (cases w) simp_all
  have "(- x + 2 ^ (w - 1)) mod 2 ^ w = - x + 2 ^ (w - 1)" if "x < 0"
    using assms(2) that w by (intro mod_pos_pos_trivial) auto
  then show ?thesis by (auto simp: PDK_ABS_narrow_def)
qed

text \<open>The most negative value of a narrow type is its own absolute value.\<close>

lemma PDK_ABS_narrow_min: "PDK_ABS_narrow 8 (- 128) = - 128" "PDK_ABS_narrow 16 (- 32768) = - 32768"
  by (simp_all add: PDK_ABS_narrow_def)

section \<open>Alarms\<close>

datatype ALARM_LEVEL = ALARM_CLEARED | ALARM_MINOR | ALARM_MAJOR | ALARM_CRITICAL

datatype ALARM_TYPE =
    communicationFail | unixSocketError | inetSocketError | databaseError | ipcShmError | ipcMsgqError | ipcSemError
  | tcpCLosedError | processError | configError | signalError | processKilled | cpuOverflow | diskOverflow
  | memoryOverflow | swapOverflow | e1boardError | e1portError | ss7SystemError | ss7BoardError | ss7LinkError | nowHacking
  | DTMFNotify | statusChange | cpuUtilChange | memUtilChange | diskUtilChange | procShutdown | versionNotify
  | threadKilled | queueFull | fileError

definition alarm_levels :: "ALARM_LEVEL list" where
  "alarm_levels = [ALARM_CLEARED, ALARM_MINOR, ALARM_MAJOR, ALARM_CRITICAL]"

definition alarm_types :: "ALARM_TYPE list" where
  "alarm_types =
     [communicationFail, unixSocketError, inetSocketError, databaseError, ipcShmError, ipcMsgqError, ipcSemError,
      tcpCLosedError, processError, configError, signalError, processKilled, cpuOverflow, diskOverflow,
      memoryOverflow, swapOverflow, e1boardError, e1portError, ss7SystemError, ss7BoardError, ss7LinkError, nowHacking,
      DTMFNotify, statusChange, cpuUtilChange, memUtilChange, diskUtilChange, procShutdown, versionNotify,
      threadKilled, queueFull, fileError]"

text \<open>The value of an enumerator is its position.\<close>

definition alarm_level_code :: "ALARM_LEVEL \<Rightarrow> nat" where
  "alarm_level_code l = the (find_index l alarm_levels)"

definition alarm_type_code :: "ALARM_TYPE \<Rightarrow> nat" where
  "alarm_type_code a = the (find_index a alarm_types)"

instantiation ALARM_LEVEL :: linorder
begin

definition less_eq_ALARM_LEVEL :: "ALARM_LEVEL \<Rightarrow> ALARM_LEVEL \<Rightarrow> bool" where
  "less_eq_ALARM_LEVEL a b \<longleftrightarrow> alarm_level_code a \<le> alarm_level_code b"

definition less_ALARM_LEVEL :: "ALARM_LEVEL \<Rightarrow> ALARM_LEVEL \<Rightarrow> bool" where
  "less_ALARM_LEVEL a b \<longleftrightarrow> alarm_level_code a < alarm_level_code b"

instance
proof
  fix a b :: ALARM_LEVEL
  show "a \<le> b \<Longrightarrow> b \<le> a \<Longrightarrow> a = b"
    by (cases a; cases b) (simp_all add: less_eq_ALARM_LEVEL_def alarm_level_code_def alarm_levels_def)
qed (auto simp: less_eq_ALARM_LEVEL_def less_ALARM_LEVEL_def)

end

lemma alarm_type_code_inverse: "alarm_types ! alarm_type_code a = a"
proof -
  have "a \<in> set alarm_types" by (cases a) (simp_all add: alarm_types_def)
  from find_index_mem [OF this] obtain i where "find_index a alarm_types = Some i" ..
  then show ?thesis using find_index_SomeD [of a alarm_types i] by (simp add: alarm_type_code_def)
qed

lemma alarm_type_code_bound: "alarm_type_code a < 32"
  by (cases a) (simp_all add: alarm_type_code_def alarm_types_def)

lemma alarm_levels_sorted: "sorted_wrt (<) alarm_levels"
  by (simp add: less_ALARM_LEVEL_def alarm_level_code_def alarm_levels_def)

section \<open>Trace\<close>

text \<open>
  A callback gets a reference to the variable, so it may change it; \<open>'w\<close> is what it does to the world. \<open>None\<close> for the
  variable is that the constructors leave it uninitialised. The callback \<^verbatim>\<open>Event\<close> of the default constructor passes a
  pointer where \<^verbatim>\<open>%#x\<close> needs an \<^verbatim>\<open>unsigned int\<close>.
\<close>

type_synonym ('a, 'w) trace_callback = "'a \<Rightarrow> 'w \<Rightarrow> fault + 'a \<times> 'w"

record ('a, 'w) trace =
  tr_variable :: "'a option"
  tr_OnWrite :: "('a, 'w) trace_callback option"
  tr_OnRead :: "('a, 'w) trace_callback option"

definition trace_Event :: "('a, 'w) trace_callback" where
  "trace_Event v w = Inl (UB ''pointer printed with %#x'')"

definition mk_trace :: "('a, 'w) trace" where
  "mk_trace = \<lparr>tr_variable = None, tr_OnWrite = Some trace_Event, tr_OnRead = Some trace_Event\<rparr>"

definition mk_trace_with :: "('a, 'w) trace_callback option \<Rightarrow> ('a, 'w) trace" where
  "mk_trace_with OnEvent = \<lparr>tr_variable = None, tr_OnWrite = OnEvent, tr_OnRead = OnEvent\<rparr>"

definition trace_notify :: "'a \<Rightarrow> ('a, 'w) trace \<Rightarrow> 'w \<Rightarrow> fault + ('a, 'w) trace \<times> 'w" where
  "trace_notify v t w =
     (case tr_OnWrite t of
        None \<Rightarrow> Inr (t\<lparr>tr_variable := Some v\<rparr>, w)
      | Some f \<Rightarrow> (case f v w of Inl e \<Rightarrow> Inl e | Inr (v1, w1) \<Rightarrow> Inr (t\<lparr>tr_variable := Some v1\<rparr>, w1)))"

definition trace_assign :: "'a \<Rightarrow> ('a, 'w) trace \<Rightarrow> 'w \<Rightarrow> fault + ('a, 'w) trace \<times> 'w" where
  "trace_assign v t w = trace_notify v t w"

text \<open>\<^verbatim>\<open>operator+=\<close>; \<open>add\<close> is the \<^verbatim>\<open>+=\<close> of the type.\<close>

definition trace_add :: "('a \<Rightarrow> 'a \<Rightarrow> fault + 'a) \<Rightarrow> 'a \<Rightarrow> ('a, 'w) trace \<Rightarrow> 'w \<Rightarrow> fault + ('a, 'w) trace \<times> 'w" where
  "trace_add add v t w =
     (case tr_variable t of
        None \<Rightarrow> Inl (UB ''uninitialised variable'')
      | Some x \<Rightarrow> (case add x v of Inl e \<Rightarrow> Inl e | Inr y \<Rightarrow> trace_notify y t w))"

text \<open>A callback that logs what it is shown sees the value after every write, in order.\<close>

definition log_callback :: "('a, 'a list) trace_callback" where
  "log_callback v seen = Inr (v, seen @ [v])"

fun trace_writes :: "('a \<Rightarrow> 'a \<Rightarrow> fault + 'a) \<Rightarrow> (bool \<times> 'a) list \<Rightarrow> ('a, 'w) trace \<Rightarrow> 'w \<Rightarrow> fault + ('a, 'w) trace \<times> 'w" where
  "trace_writes add [] t w = Inr (t, w)"
| "trace_writes add ((is_add, v) # ops) t w =
     (case (if is_add then trace_add add v t w else trace_assign v t w) of
        Inl e \<Rightarrow> Inl e
      | Inr (t1, w1) \<Rightarrow> trace_writes add ops t1 w1)"

fun written :: "('a \<Rightarrow> 'a \<Rightarrow> 'a) \<Rightarrow> 'a \<Rightarrow> (bool \<times> 'a) list \<Rightarrow> 'a list" where
  "written op_add x [] = []"
| "written op_add x ((is_add, v) # ops) = (let y = (if is_add then op_add x v else v) in y # written op_add y ops)"

lemma trace_writes_logged:
  assumes "tr_variable t = Some x" "tr_OnWrite t = Some log_callback"
  shows "\<exists>t'. trace_writes (\<lambda>a b. Inr (op_add a b)) ops t seen = Inr (t', seen @ written op_add x ops) \<and>
    tr_variable t' = Some (last (x # written op_add x ops))"
  using assms
proof (induction ops arbitrary: t x seen)
  case (Cons op ops)
  obtain is_add v where op: "op = (is_add, v)" by (cases op)
  let ?y = "if is_add then op_add x v else v"
  have "(if is_add then trace_add (\<lambda>a b. Inr (op_add a b)) v t seen else trace_assign v t seen) =
      Inr (t\<lparr>tr_variable := Some ?y\<rparr>, seen @ [?y])"
    using Cons.prems by (simp add: trace_add_def trace_assign_def trace_notify_def log_callback_def)
  then show ?case
    using Cons.IH [of "t\<lparr>tr_variable := Some ?y\<rparr>" ?y "seen @ [?y]"] Cons.prems(2) op by (auto simp: Let_def)
qed simp

lemma trace_default_faults: "\<exists>e. trace_assign v mk_trace w = Inl (UB e)"
  by (simp add: trace_assign_def trace_notify_def mk_trace_def trace_Event_def)

lemma trace_add_before_write_faults: "\<exists>e. trace_add add v (mk_trace_with cb) w = Inl (UB e)"
  by (simp add: trace_add_def mk_trace_with_def)

section \<open>Singleton_Destroyer\<close>

text \<open>The heap is the set of objects that are alive; \<^verbatim>\<open>delete\<close> of a null pointer does nothing.\<close>

type_synonym destroyer = "nat option"

definition mk_destroyer :: destroyer where
  "mk_destroyer = None"

definition destroyer_Register :: "nat option \<Rightarrow> destroyer \<Rightarrow> destroyer" where
  "destroyer_Register pT d = pT"

definition destroy_destroyer :: "destroyer \<Rightarrow> nat set \<Rightarrow> fault + nat set" where
  "destroy_destroyer d heap =
     (case d of None \<Rightarrow> Inr heap | Some p \<Rightarrow> if p \<in> heap then Inr (heap - {p}) else Inl (UB ''double delete''))"

lemma destroyer_frees_last:
  "p \<in> heap \<Longrightarrow> destroy_destroyer (destroyer_Register (Some p) (destroyer_Register q mk_destroyer)) heap = Inr (heap - {p})"
  by (simp add: destroy_destroyer_def destroyer_Register_def)

text \<open>A pointer in two destroyers, as after copying one, is deleted twice.\<close>

lemma destroyer_copy_faults:
  "p \<in> heap \<Longrightarrow> destroy_destroyer (Some p) heap = Inr h1 \<Longrightarrow> destroy_destroyer (Some p) h1 = Inl (UB ''double delete'')"
  by (auto simp: destroy_destroyer_def)

end
