(* ===== verification/Legacy_Mutex.thy ===== *)
theory Legacy_Mutex
  imports Prelude
begin

text \<open>
  The deprecated wrappers \<^verbatim>\<open>Mutex\<close> and \<^verbatim>\<open>AutoLock\<close> of \<^verbatim>\<open>include/jthread.hpp\<close>. The standard mutex they hold is the
  thread that owns it, if any: locking it again by its owner and unlocking it by anyone else are undefined, and
  \<^verbatim>\<open>try_lock\<close> may fail spuriously.
\<close>

type_synonym tid = nat

record mutex =
  mx_owner :: "tid option"

definition mk_mutex :: mutex where
  "mk_mutex = \<lparr>mx_owner = None\<rparr>"

definition mutex_lock :: "tid \<Rightarrow> mutex \<Rightarrow> (fault + mutex) outcome" where
  "mutex_lock t m =
     (case mx_owner m of
        None \<Rightarrow> Ret (Inr (m\<lparr>mx_owner := Some t\<rparr>))
      | Some u \<Rightarrow> if u = t then Ret (Inl (UB ''relocked by its owner'')) else Blocked)"

definition mutex_unlock :: "tid \<Rightarrow> mutex \<Rightarrow> fault + mutex" where
  "mutex_unlock t m = (if mx_owner m = Some t then Inr (m\<lparr>mx_owner := None\<rparr>) else Inl (UB ''unlocked by another thread''))"

definition mutex_try_lock :: "bool \<Rightarrow> tid \<Rightarrow> mutex \<Rightarrow> fault + bool \<times> mutex" where
  "mutex_try_lock spurious t m =
     (if mx_owner m = Some t then Inl (UB ''relocked by its owner'')
      else if spurious \<or> mx_owner m \<noteq> None then Inr (False, m)
      else Inr (True, m\<lparr>mx_owner := Some t\<rparr>))"

definition mk_autolock :: "tid \<Rightarrow> mutex \<Rightarrow> (fault + mutex) outcome" where
  "mk_autolock t m = mutex_lock t m"

definition destroy_autolock :: "tid \<Rightarrow> mutex \<Rightarrow> fault + mutex" where
  "destroy_autolock t m = mutex_unlock t m"

section \<open>Threads\<close>

text \<open>
  Threads that take the mutex by \<^verbatim>\<open>AutoLock\<close> or \<^verbatim>\<open>try_lock\<close> and never while they hold it, and release it at the end of
  the scope or by \<^verbatim>\<open>unlock\<close>; \<open>inside\<close> are those between the two.
\<close>

datatype lock_event = Entered tid | TryEntered tid bool | Left tid

inductive lock_step :: "mutex \<times> tid set \<Rightarrow> lock_event \<Rightarrow> mutex \<times> tid set \<Rightarrow> bool" where
  lock_enter: "t \<notin> inside \<Longrightarrow> mk_autolock t m = Ret (Inr m') \<Longrightarrow> lock_step (m, inside) (Entered t) (m', insert t inside)"
| lock_try: "t \<notin> inside \<Longrightarrow> mutex_try_lock spurious t m = Inr (ok, m') \<Longrightarrow>
    lock_step (m, inside) (TryEntered t ok) (m', if ok then insert t inside else inside)"
| lock_leave: "t \<in> inside \<Longrightarrow> destroy_autolock t m = Inr m' \<Longrightarrow> lock_step (m, inside) (Left t) (m', inside - {t})"

definition lock_inv :: "mutex \<times> tid set \<Rightarrow> bool" where
  "lock_inv = (\<lambda>(m, inside). inside = set_option (mx_owner m))"

lemma lock_step_inv: "lock_step s e s' \<Longrightarrow> lock_inv s \<Longrightarrow> lock_inv s'"
  by (induction rule: lock_step.induct)
    (auto simp: lock_inv_def mk_autolock_def mutex_lock_def mutex_try_lock_def destroy_autolock_def mutex_unlock_def
      split: option.splits if_splits)

text \<open>
  Mutual exclusion and progress: at most one thread is inside; the one inside can leave without a fault, a thread outside
  never faults when it tries, and when nobody is inside the lock is granted at once.
\<close>

lemma mutex_excludes:
  assumes "steps lock_step (mk_mutex, {}) es (m, inside)"
  shows "\<forall>t\<in>inside. inside = {t} \<and> (\<exists>m'. destroy_autolock t m = Inr m')"
    "t \<notin> inside \<Longrightarrow> \<exists>ok m'. mutex_try_lock spurious t m = Inr (ok, m')"
    "t \<notin> inside \<Longrightarrow> if inside = {} then \<exists>m'. mk_autolock t m = Ret (Inr m') else mk_autolock t m = Blocked"
proof -
  have "lock_inv (mk_mutex, {})" by (simp add: lock_inv_def mk_mutex_def)
  then have "lock_inv (m, inside)" using assms by (elim steps_invariant) (auto intro: lock_step_inv)
  then have i: "inside = set_option (mx_owner m)" by (simp add: lock_inv_def)
  show "\<forall>t\<in>inside. inside = {t} \<and> (\<exists>m'. destroy_autolock t m = Inr m')"
    using i by (cases "mx_owner m") (auto simp: destroy_autolock_def mutex_unlock_def)
  show "t \<notin> inside \<Longrightarrow> \<exists>ok m'. mutex_try_lock spurious t m = Inr (ok, m')"
    using i by (cases "mx_owner m") (auto simp: mutex_try_lock_def)
  show "t \<notin> inside \<Longrightarrow> if inside = {} then \<exists>m'. mk_autolock t m = Ret (Inr m') else mk_autolock t m = Blocked"
    using i by (cases "mx_owner m") (auto simp: mk_autolock_def mutex_lock_def)
qed

end
