(* ===== verification/Spec2Isabelle.thy ===== *)
theory Spec2Isabelle
  imports Semaphore Bounded_Queue_Threads Event_Thread Circular_Queue Ini_Text Ini_Typed
    Archive_File Pg_Objects Udp_Inet Tcp_Teardown Timer_Instance Net_Interfaces
    Shm_Thread Msg_Queue Mem_List Tcp_Events Ini_Persist Vxml_Calls Vxml_Props Sys_Util
    Log_Clock Timer_Lifetime Sock_Classes Base_Types Legacy_Mutex
begin

text \<open>
  A verification development of the PDK library (\<^verbatim>\<open>src/include\<close>, \<^verbatim>\<open>src/src\<close>): a C++20 toolbox of threads and
  queues, events, sockets and servers, timers, logging, configuration files, binary archives and a pool
  of database connections.

  \<^bold>\<open>The program and its parts.\<close> Everything rests on \<^verbatim>\<open>Thread\<close> and the blocking queues of \<^verbatim>\<open>jthread.hpp\<close>. A
  \<^verbatim>\<open>QThread\<close> is a thread with a queue of \<^verbatim>\<open>EVENTINFO\<close> packets; the timer thread, the datagram and message
  receivers and the ICMP monitor post such packets, and a \<^verbatim>\<open>ShmQThread\<close> takes them from shared memory. The
  TCP and UDP servers own receiving threads that call back into the program; the logger is a thread
  that drains a queue of lines into a rotated file; the connection pool hands out connections under a
  semaphore. The development follows that order, one theory for each component.

  \<^bold>\<open>Modelling.\<close> A class is a \<open>record\<close> of its fields, a method a function on it, with \<open>fault + 'a\<close> where the code
  can throw or has undefined behaviour (\<open>UB\<close>: memory outside an object, a null or freed pointer, signed
  overflow, an indeterminate value) and \<open>'a outcome\<close> where it can block (\<open>Prelude\<close>). A method that leaves
  its lock in the middle is one function for each critical section, and a step relation interleaves the
  parts of any number of callers; condition variables keep who is parked and who is woken (\<open>Monitor\<close>).
  The results of system calls, of libpq, of the clock and of callbacks are arguments. Fixed-width
  integers are words where they wrap and \<open>int\<close> with a range test where overflow is undefined.

  \<^bold>\<open>Shared theories.\<close> \<open>Prelude\<close> (faults, widths, searches, runs of a step relation), \<open>Monitor\<close> (waiting on a
  condition variable; the locale \<open>wakeup_discipline\<close>), \<open>Queue_Interface\<close> (the locales \<open>fifo_queue\<close> and
  \<open>bounded_fifo_queue\<close>), \<open>Ranked_Steps\<close> (the locale \<open>ranked_steps\<close>: bounded progress), \<open>Ring_Buffer\<close>,
  \<open>Byte_Codec\<close> (little-endian bytes, slices, \<^verbatim>\<open>memcpy\<close>), \<open>C_Text\<close> (C strings, \<^verbatim>\<open>snprintf\<close>, numbers as text),
  \<open>Posix_File\<close> (files as bytes).

  \<^bold>\<open>Components.\<close>
    \<^item> \<open>Semaphore\<close>: \<^verbatim>\<open>Semaphore\<close>, \<^verbatim>\<open>AutoSemaphore\<close>, \<^verbatim>\<open>Sync\<close>, \<^verbatim>\<open>SyncAck\<close> of \<^verbatim>\<open>jthread.hpp\<close>. No wakeup is lost.
    \<^item> \<open>Thread_Lifecycle\<close>: \<^verbatim>\<open>Thread\<close> of \<^verbatim>\<open>jthread.hpp\<close> and \<^verbatim>\<open>jthread.cpp\<close>. At most one worker runs under any
      interleaving of \<^verbatim>\<open>create\<close> and \<^verbatim>\<open>close\<close>, and a stop request is not lost.
    \<^item> \<open>Bounded_Queue\<close>, \<open>Bounded_Queue_Threads\<close> (\<^verbatim>\<open>bounded_queue.hpp\<close>), \<open>Event_Queue\<close> (\<^verbatim>\<open>Queue\<close>, \<^verbatim>\<open>Queue1To1\<close>),
      \<open>Circular_Queue\<close> (\<^verbatim>\<open>util.hpp\<close>): each refines a bounded FIFO queue under every interleaving; waiters are
      not stranded; shutdown releases them. The pointers that \<^verbatim>\<open>Queue::get\<close> returns are read outside the mutex, in
      steps of their own, by the one thread the contract of the class allows.
    \<^item> \<open>Event_Thread\<close>, \<open>Event_Bytes\<close> (\<^verbatim>\<open>eventdefs.hpp\<close>, \<^verbatim>\<open>qthread.hpp\<close>, \<^verbatim>\<open>qthread.cpp\<close>): the packet as a structure
      and as its 4096 bytes; events make the round trip; closing wakes the worker.
    \<^item> \<open>Shm_Queue\<close>, \<open>Shared_Memory\<close>, \<open>Shm_Thread\<close> (\<^verbatim>\<open>sharedmemory.hpp\<close>): the ring in a segment refines a FIFO
      queue for a process that uses it alone and whose segment has its mutex initialised, which the first
      user of a segment never has; the life of the segment; a restarted process is given what was left in it.
    \<^item> \<open>Msg_Queue\<close> (\<^verbatim>\<open>msgqueue.hpp\<close>, \<^verbatim>\<open>mtq.hpp\<close>): a started thread
      is an inbox for the messages of its type that loses only what arrives while it is full.
    \<^item> \<open>Mem_Stream\<close>, \<open>Tcp_Channel\<close>, \<open>Tcp_Server\<close>, \<open>Tcp_Teardown\<close> (\<^verbatim>\<open>stream.hpp\<close>, \<^verbatim>\<open>tcpserver.hpp\<close>, \<^verbatim>\<open>tcpserver.cpp\<close>):
      the limit on connections holds; what a failed send and the destructors do. \<open>Tcp_Events\<close>: for which cuts of
      the stream the receive loop is defined, that packets are then reassembled, and that events cross a
      connection end to end.
    \<^item> \<open>Sock\<close>, \<open>Sock_Classes\<close>, \<open>Teardown\<close>, \<open>Udp_Server\<close>, \<open>Udp_Inet\<close> (\<^verbatim>\<open>sock.cpp\<close>, \<^verbatim>\<open>udpserver.cpp\<close>, \<^verbatim>\<open>udpserver.hpp\<close>): the four
      classes as tables of virtual methods, and in a process with any number of them every descriptor has one
      owner through every failure, but for those that an \<^verbatim>\<open>accept\<close> into the listener itself or \<^verbatim>\<open>assign_socket\<close> covers up;
      events cross a datagram socket; the two families behave alike; destroying a datagram receiver
      terminates wherever its worker is, as long as callbacks return and leave the receiver alone.
    \<^item> \<open>Global_Timer\<close>, \<open>Timer_Delivery\<close>, \<open>Timer_Instance\<close> (\<^verbatim>\<open>util.cpp\<close>): the due timers, and only those, reach
      their objects' queues, exactly as many as these have room for; the one timer of the process; its destructor frees every timer once. \<open>Timer_Lifetime\<close>: timers and
      the lives of their objects, and the destructor of \<^verbatim>\<open>IcmpMonitor\<close>, which leaves its timer behind.
    \<^item> \<open>Checksum\<close>, \<open>Icmp\<close>, \<open>Icmp_Monitor\<close> (\<^verbatim>\<open>icmp.hpp\<close>): the checksum is that of RFC 1071; requests are well
      formed; the monitor's heartbeat goes on as long as its queue takes its events and nobody stops its timer. The
      time of the last request, which the receive loop reads, does not change during a run of the loop.
    \<^item> \<open>Ini_File\<close> (with the locale \<open>config_store\<close>), \<open>Ini_Text\<close>, \<open>Ini_Typed\<close> (\<^verbatim>\<open>inifile.cpp\<close>): the store refines a map; files
      are read back as written; integers make the round trip. \<open>Ini_Persist\<close> puts them together: any number of
      sessions on one file behave as one map.
    \<^item> \<open>Archive\<close> (\<^verbatim>\<open>archive.cpp\<close>; the locales \<open>byte_sink\<close> and \<open>byte_source\<close> are what it asks of its file),
      \<open>Archive_File\<close> (\<^verbatim>\<open>file.cpp\<close>): what was saved under a path is loaded from it.
    \<^item> \<open>Log_File\<close> (\<^verbatim>\<open>logger.cpp\<close>): the files are an abstract log of at most seven rotated texts and an active
      one; shutdown writes what was queued. \<open>Log_Front\<close> (\<^verbatim>\<open>logger.hpp\<close>): \<^verbatim>\<open>log_fmt\<close>, the macros and the text of a line,
      cut where the buffers end. \<open>Log_Delivery\<close> and \<open>Log_Clock\<close> follow whole
      sessions without a quota through front end, queue, consumer and calendar: every line is in the file of its day.
    \<^item> \<open>Pg_Pool\<close>, \<open>Pg_Objects\<close> (\<^verbatim>\<open>pgpool.cpp\<close>, \<^verbatim>\<open>pgpool.hpp\<close>): connections are accounted for among many callers; a
      slot always has its connection; results are freed exactly once.
    \<^item> \<open>Mem_List\<close>, \<open>Path_Text\<close>, \<open>Sys_Util\<close> (\<^verbatim>\<open>util.cpp\<close>): the list keeps the last items, in a heap of nodes; paths are
      made; the command of \<^verbatim>\<open>ping_check\<close> is never cut.
    \<^item> \<open>Vxml_Objects\<close>, \<open>Vxml_Calls\<close> (\<^verbatim>\<open>objects.hpp\<close>): the classes of VoiceXML elements as an object with its dynamic class,
      virtual methods as one function for each class that passes what it does not override to its base. Which
      classes remember a next dialog, and which calls are undefined. \<open>Vxml_Props\<close> (\<^verbatim>\<open>props.hpp\<close>):
      a property answers only to the accessor of its tag.
    \<^item> \<open>Calendar\<close> (\<^verbatim>\<open>base.hpp\<close>, \<^verbatim>\<open>base.cpp\<close>): dates make the trip through \<^verbatim>\<open>Time\<close> in a zone with one offset. \<open>Net_Interfaces\<close> (\<^verbatim>\<open>ifconfig.hpp\<close>).
    \<^item> \<open>Base_Types\<close> (\<^verbatim>\<open>types.hpp\<close>, \<^verbatim>\<open>alarm.hpp\<close>, \<^verbatim>\<open>trace.hpp\<close>, \<^verbatim>\<open>destroyer.hpp\<close>): the absolute value and where it overflows, the
      alarm levels in their order, a traced variable whose callback sees every write. \<open>Legacy_Mutex\<close>: \<^verbatim>\<open>Mutex\<close> and
      \<^verbatim>\<open>AutoLock\<close> of \<^verbatim>\<open>jthread.hpp\<close> exclude each other and do not fault when used by scope.

  \<^bold>\<open>Locales.\<close> \<open>fifo_queue\<close> and \<open>bounded_fifo_queue\<close> are interpreted for every queue class, \<open>wakeup_discipline\<close>
  for the two event queues, \<open>socket_class\<close> for the four socket classes, \<open>config_store\<close> for the INI store, \<open>byte_sink\<close> and \<open>byte_source\<close> for an open file, and \<open>ranked_steps\<close> for the destructors of the
  receivers and of the TCP server; the properties of those components rest on the facts they give.

  \<^bold>\<open>Loops.\<close> Loops over data are structural recursion. The packet loop of \<open>Tcp_Channel\<close> has the number of
  buffered bytes as fuel, enough because a packet has at least one byte; freeing a \<^verbatim>\<open>MemList\<close> has the
  number of nodes ever allocated, enough because each is freed once; \<open>make_dirs\<close> and the walk over years
  and months have termination proofs. Loops that wait for the world (receiving, reconnecting, polling)
  run over the list of what the world answers, and what they do when it is used up is part of the result.

  \<^bold>\<open>Not modelled.\<close> Most methods declared in \<^verbatim>\<open>objects.hpp\<close> and \<^verbatim>\<open>props.hpp\<close>, and in part the types they use, are not
  in the repository: a virtual method without a body is a parameter, and the searching, running and
  serialising of VoiceXML documents is left out.
  \<^verbatim>\<open>config.hpp\<close> holds constants made by configure and \<^verbatim>\<open>list.hpp\<close> names for standard containers. Floating-point values of the INI file and of the archive are kept as their
  bytes or left out. Memory is
  sequentially consistent: data races on plain fields show only where a step relation splits them; the scan of all
  connections in \<^verbatim>\<open>PgConnectionPool::release\<close> and the sweep with the limit check of \<^verbatim>\<open>TcpServer\<close> are one step each. Writes to a
  file are never short, and an archive's buffer is smaller than 4 GiB.
  Time zones that change their offset, and the expansion of \<^verbatim>\<open>strftime\<close> formats, are not covered. The test
  programs are not modelled.
\<close>

end
